(* ===== verification/Sc_Errors.thy ===== *)
theory Sc_Errors
  imports Sc_Prelude
begin

text \<open>
  The error codes of the library (\<open>libopensc/errors.h\<close>) and their messages
  (\<open>libopensc/errors.c\<close>). The codes are macros for negative numbers in the source and
  abbreviations for them here; the value of an operation is of type \<open>'a res\<close>, where \<open>Inl\<close>
  holds the code of a failure and \<open>Inr\<close> the value of a success (for an operation that
  returns a count, the non-negative return value itself). \<open>sc_strerror\<close> is the table lookup
  of the source, with its ranges and its index arithmetic.
\<close>

section \<open>Error codes\<close>

type_synonym sc_error = int
type_synonym 'a res = "sc_error + 'a"
type_synonym ('s, 'a) prog = "'s \<Rightarrow> 'a res \<times> 's"

abbreviation (input) SC_ERROR_READER :: sc_error where "SC_ERROR_READER \<equiv> -1100"
abbreviation (input) SC_ERROR_NO_READERS_FOUND :: sc_error where "SC_ERROR_NO_READERS_FOUND \<equiv> -1101"
abbreviation (input) SC_ERROR_CARD_NOT_PRESENT :: sc_error where "SC_ERROR_CARD_NOT_PRESENT \<equiv> -1104"
abbreviation (input) SC_ERROR_CARD_REMOVED :: sc_error where "SC_ERROR_CARD_REMOVED \<equiv> -1105"
abbreviation (input) SC_ERROR_CARD_RESET :: sc_error where "SC_ERROR_CARD_RESET \<equiv> -1106"
abbreviation (input) SC_ERROR_TRANSMIT_FAILED :: sc_error where "SC_ERROR_TRANSMIT_FAILED \<equiv> -1107"
abbreviation (input) SC_ERROR_KEYPAD_TIMEOUT :: sc_error where "SC_ERROR_KEYPAD_TIMEOUT \<equiv> -1108"
abbreviation (input) SC_ERROR_KEYPAD_CANCELLED :: sc_error where "SC_ERROR_KEYPAD_CANCELLED \<equiv> -1109"
abbreviation (input) SC_ERROR_KEYPAD_PIN_MISMATCH :: sc_error where "SC_ERROR_KEYPAD_PIN_MISMATCH \<equiv> -1110"
abbreviation (input) SC_ERROR_KEYPAD_MSG_TOO_LONG :: sc_error where "SC_ERROR_KEYPAD_MSG_TOO_LONG \<equiv> -1111"
abbreviation (input) SC_ERROR_EVENT_TIMEOUT :: sc_error where "SC_ERROR_EVENT_TIMEOUT \<equiv> -1112"
abbreviation (input) SC_ERROR_CARD_UNRESPONSIVE :: sc_error where "SC_ERROR_CARD_UNRESPONSIVE \<equiv> -1113"
abbreviation (input) SC_ERROR_READER_DETACHED :: sc_error where "SC_ERROR_READER_DETACHED \<equiv> -1114"
abbreviation (input) SC_ERROR_READER_REATTACHED :: sc_error where "SC_ERROR_READER_REATTACHED \<equiv> -1115"
abbreviation (input) SC_ERROR_READER_LOCKED :: sc_error where "SC_ERROR_READER_LOCKED \<equiv> -1116"
abbreviation (input) SC_ERROR_CARD_CMD_FAILED :: sc_error where "SC_ERROR_CARD_CMD_FAILED \<equiv> -1200"
abbreviation (input) SC_ERROR_FILE_NOT_FOUND :: sc_error where "SC_ERROR_FILE_NOT_FOUND \<equiv> -1201"
abbreviation (input) SC_ERROR_RECORD_NOT_FOUND :: sc_error where "SC_ERROR_RECORD_NOT_FOUND \<equiv> -1202"
abbreviation (input) SC_ERROR_CLASS_NOT_SUPPORTED :: sc_error where "SC_ERROR_CLASS_NOT_SUPPORTED \<equiv> -1203"
abbreviation (input) SC_ERROR_INS_NOT_SUPPORTED :: sc_error where "SC_ERROR_INS_NOT_SUPPORTED \<equiv> -1204"
abbreviation (input) SC_ERROR_INCORRECT_PARAMETERS :: sc_error where "SC_ERROR_INCORRECT_PARAMETERS \<equiv> -1205"
abbreviation (input) SC_ERROR_WRONG_LENGTH :: sc_error where "SC_ERROR_WRONG_LENGTH \<equiv> -1206"
abbreviation (input) SC_ERROR_MEMORY_FAILURE :: sc_error where "SC_ERROR_MEMORY_FAILURE \<equiv> -1207"
abbreviation (input) SC_ERROR_NO_CARD_SUPPORT :: sc_error where "SC_ERROR_NO_CARD_SUPPORT \<equiv> -1208"
abbreviation (input) SC_ERROR_NOT_ALLOWED :: sc_error where "SC_ERROR_NOT_ALLOWED \<equiv> -1209"
abbreviation (input) SC_ERROR_INVALID_CARD :: sc_error where "SC_ERROR_INVALID_CARD \<equiv> -1210"
abbreviation (input) SC_ERROR_SECURITY_STATUS_NOT_SATISFIED :: sc_error where "SC_ERROR_SECURITY_STATUS_NOT_SATISFIED \<equiv> -1211"
abbreviation (input) SC_ERROR_AUTH_METHOD_BLOCKED :: sc_error where "SC_ERROR_AUTH_METHOD_BLOCKED \<equiv> -1212"
abbreviation (input) SC_ERROR_UNKNOWN_DATA_RECEIVED :: sc_error where "SC_ERROR_UNKNOWN_DATA_RECEIVED \<equiv> -1213"
abbreviation (input) SC_ERROR_PIN_CODE_INCORRECT :: sc_error where "SC_ERROR_PIN_CODE_INCORRECT \<equiv> -1214"
abbreviation (input) SC_ERROR_FILE_ALREADY_EXISTS :: sc_error where "SC_ERROR_FILE_ALREADY_EXISTS \<equiv> -1215"
abbreviation (input) SC_ERROR_DATA_OBJECT_NOT_FOUND :: sc_error where "SC_ERROR_DATA_OBJECT_NOT_FOUND \<equiv> -1216"
abbreviation (input) SC_ERROR_NOT_ENOUGH_MEMORY :: sc_error where "SC_ERROR_NOT_ENOUGH_MEMORY \<equiv> -1217"
abbreviation (input) SC_ERROR_CORRUPTED_DATA :: sc_error where "SC_ERROR_CORRUPTED_DATA \<equiv> -1218"
abbreviation (input) SC_ERROR_FILE_END_REACHED :: sc_error where "SC_ERROR_FILE_END_REACHED \<equiv> -1219"
abbreviation (input) SC_ERROR_REF_DATA_NOT_USABLE :: sc_error where "SC_ERROR_REF_DATA_NOT_USABLE \<equiv> -1220"
abbreviation (input) SC_ERROR_INVALID_ARGUMENTS :: sc_error where "SC_ERROR_INVALID_ARGUMENTS \<equiv> -1300"
abbreviation (input) SC_ERROR_BUFFER_TOO_SMALL :: sc_error where "SC_ERROR_BUFFER_TOO_SMALL \<equiv> -1303"
abbreviation (input) SC_ERROR_INVALID_PIN_LENGTH :: sc_error where "SC_ERROR_INVALID_PIN_LENGTH \<equiv> -1304"
abbreviation (input) SC_ERROR_INVALID_DATA :: sc_error where "SC_ERROR_INVALID_DATA \<equiv> -1305"
abbreviation (input) SC_ERROR_INTERNAL :: sc_error where "SC_ERROR_INTERNAL \<equiv> -1400"
abbreviation (input) SC_ERROR_INVALID_ASN1_OBJECT :: sc_error where "SC_ERROR_INVALID_ASN1_OBJECT \<equiv> -1401"
abbreviation (input) SC_ERROR_ASN1_OBJECT_NOT_FOUND :: sc_error where "SC_ERROR_ASN1_OBJECT_NOT_FOUND \<equiv> -1402"
abbreviation (input) SC_ERROR_ASN1_END_OF_CONTENTS :: sc_error where "SC_ERROR_ASN1_END_OF_CONTENTS \<equiv> -1403"
abbreviation (input) SC_ERROR_OUT_OF_MEMORY :: sc_error where "SC_ERROR_OUT_OF_MEMORY \<equiv> -1404"
abbreviation (input) SC_ERROR_TOO_MANY_OBJECTS :: sc_error where "SC_ERROR_TOO_MANY_OBJECTS \<equiv> -1405"
abbreviation (input) SC_ERROR_OBJECT_NOT_VALID :: sc_error where "SC_ERROR_OBJECT_NOT_VALID \<equiv> -1406"
abbreviation (input) SC_ERROR_OBJECT_NOT_FOUND :: sc_error where "SC_ERROR_OBJECT_NOT_FOUND \<equiv> -1407"
abbreviation (input) SC_ERROR_NOT_SUPPORTED :: sc_error where "SC_ERROR_NOT_SUPPORTED \<equiv> -1408"
abbreviation (input) SC_ERROR_PASSPHRASE_REQUIRED :: sc_error where "SC_ERROR_PASSPHRASE_REQUIRED \<equiv> -1409"
abbreviation (input) SC_ERROR_INCONSISTENT_CONFIGURATION :: sc_error where "SC_ERROR_INCONSISTENT_CONFIGURATION \<equiv> -1410"
abbreviation (input) SC_ERROR_DECRYPT_FAILED :: sc_error where "SC_ERROR_DECRYPT_FAILED \<equiv> -1411"
abbreviation (input) SC_ERROR_WRONG_PADDING :: sc_error where "SC_ERROR_WRONG_PADDING \<equiv> -1412"
abbreviation (input) SC_ERROR_WRONG_CARD :: sc_error where "SC_ERROR_WRONG_CARD \<equiv> -1413"
abbreviation (input) SC_ERROR_CANNOT_LOAD_MODULE :: sc_error where "SC_ERROR_CANNOT_LOAD_MODULE \<equiv> -1414"
abbreviation (input) SC_ERROR_OFFSET_TOO_LARGE :: sc_error where "SC_ERROR_OFFSET_TOO_LARGE \<equiv> -1415"
abbreviation (input) SC_ERROR_NOT_IMPLEMENTED :: sc_error where "SC_ERROR_NOT_IMPLEMENTED \<equiv> -1416"
abbreviation (input) SC_ERROR_INVALID_TLV_OBJECT :: sc_error where "SC_ERROR_INVALID_TLV_OBJECT \<equiv> -1417"
abbreviation (input) SC_ERROR_TLV_END_OF_CONTENTS :: sc_error where "SC_ERROR_TLV_END_OF_CONTENTS \<equiv> -1418"
abbreviation (input) SC_ERROR_PKCS15INIT :: sc_error where "SC_ERROR_PKCS15INIT \<equiv> -1500"
abbreviation (input) SC_ERROR_SYNTAX_ERROR :: sc_error where "SC_ERROR_SYNTAX_ERROR \<equiv> -1501"
abbreviation (input) SC_ERROR_INCONSISTENT_PROFILE :: sc_error where "SC_ERROR_INCONSISTENT_PROFILE \<equiv> -1502"
abbreviation (input) SC_ERROR_INCOMPATIBLE_KEY :: sc_error where "SC_ERROR_INCOMPATIBLE_KEY \<equiv> -1503"
abbreviation (input) SC_ERROR_NO_DEFAULT_KEY :: sc_error where "SC_ERROR_NO_DEFAULT_KEY \<equiv> -1504"
abbreviation (input) SC_ERROR_NON_UNIQUE_ID :: sc_error where "SC_ERROR_NON_UNIQUE_ID \<equiv> -1505"
abbreviation (input) SC_ERROR_CANNOT_LOAD_KEY :: sc_error where "SC_ERROR_CANNOT_LOAD_KEY \<equiv> -1506"
abbreviation (input) SC_ERROR_TEMPLATE_NOT_FOUND :: sc_error where "SC_ERROR_TEMPLATE_NOT_FOUND \<equiv> -1508"
abbreviation (input) SC_ERROR_INVALID_PIN_REFERENCE :: sc_error where "SC_ERROR_INVALID_PIN_REFERENCE \<equiv> -1509"
abbreviation (input) SC_ERROR_FILE_TOO_SMALL :: sc_error where "SC_ERROR_FILE_TOO_SMALL \<equiv> -1510"
abbreviation (input) SC_ERROR_SM :: sc_error where "SC_ERROR_SM \<equiv> -1600"
abbreviation (input) SC_ERROR_SM_ENCRYPT_FAILED :: sc_error where "SC_ERROR_SM_ENCRYPT_FAILED \<equiv> -1601"
abbreviation (input) SC_ERROR_SM_INVALID_LEVEL :: sc_error where "SC_ERROR_SM_INVALID_LEVEL \<equiv> -1602"
abbreviation (input) SC_ERROR_SM_NO_SESSION_KEYS :: sc_error where "SC_ERROR_SM_NO_SESSION_KEYS \<equiv> -1603"
abbreviation (input) SC_ERROR_SM_INVALID_SESSION_KEY :: sc_error where "SC_ERROR_SM_INVALID_SESSION_KEY \<equiv> -1604"
abbreviation (input) SC_ERROR_SM_NOT_INITIALIZED :: sc_error where "SC_ERROR_SM_NOT_INITIALIZED \<equiv> -1605"
abbreviation (input) SC_ERROR_SM_AUTHENTICATION_FAILED :: sc_error where "SC_ERROR_SM_AUTHENTICATION_FAILED \<equiv> -1606"
abbreviation (input) SC_ERROR_SM_RAND_FAILED :: sc_error where "SC_ERROR_SM_RAND_FAILED \<equiv> -1607"
abbreviation (input) SC_ERROR_SM_KEYSET_NOT_FOUND :: sc_error where "SC_ERROR_SM_KEYSET_NOT_FOUND \<equiv> -1608"
abbreviation (input) SC_ERROR_SM_IFD_DATA_MISSING :: sc_error where "SC_ERROR_SM_IFD_DATA_MISSING \<equiv> -1609"
abbreviation (input) SC_ERROR_SM_NOT_APPLIED :: sc_error where "SC_ERROR_SM_NOT_APPLIED \<equiv> -1610"
abbreviation (input) SC_ERROR_SM_SESSION_ALREADY_ACTIVE :: sc_error where "SC_ERROR_SM_SESSION_ALREADY_ACTIVE \<equiv> -1611"
abbreviation (input) SC_ERROR_SM_INVALID_CHECKSUM :: sc_error where "SC_ERROR_SM_INVALID_CHECKSUM \<equiv> -1612"
abbreviation (input) SC_ERROR_UNKNOWN :: sc_error where "SC_ERROR_UNKNOWN \<equiv> -1900"
abbreviation (input) SC_ERROR_PKCS15_APP_NOT_FOUND :: sc_error where "SC_ERROR_PKCS15_APP_NOT_FOUND \<equiv> -1901"

text \<open>All codes, in the order of the header.\<close>

definition all_errors :: "sc_error list" where
  "all_errors = [
     SC_ERROR_READER, SC_ERROR_NO_READERS_FOUND, SC_ERROR_CARD_NOT_PRESENT,
     SC_ERROR_CARD_REMOVED, SC_ERROR_CARD_RESET, SC_ERROR_TRANSMIT_FAILED,
     SC_ERROR_KEYPAD_TIMEOUT, SC_ERROR_KEYPAD_CANCELLED, SC_ERROR_KEYPAD_PIN_MISMATCH,
     SC_ERROR_KEYPAD_MSG_TOO_LONG, SC_ERROR_EVENT_TIMEOUT, SC_ERROR_CARD_UNRESPONSIVE,
     SC_ERROR_READER_DETACHED, SC_ERROR_READER_REATTACHED, SC_ERROR_READER_LOCKED,
     SC_ERROR_CARD_CMD_FAILED, SC_ERROR_FILE_NOT_FOUND, SC_ERROR_RECORD_NOT_FOUND,
     SC_ERROR_CLASS_NOT_SUPPORTED, SC_ERROR_INS_NOT_SUPPORTED, SC_ERROR_INCORRECT_PARAMETERS,
     SC_ERROR_WRONG_LENGTH, SC_ERROR_MEMORY_FAILURE, SC_ERROR_NO_CARD_SUPPORT,
     SC_ERROR_NOT_ALLOWED, SC_ERROR_INVALID_CARD, SC_ERROR_SECURITY_STATUS_NOT_SATISFIED,
     SC_ERROR_AUTH_METHOD_BLOCKED, SC_ERROR_UNKNOWN_DATA_RECEIVED, SC_ERROR_PIN_CODE_INCORRECT,
     SC_ERROR_FILE_ALREADY_EXISTS, SC_ERROR_DATA_OBJECT_NOT_FOUND, SC_ERROR_NOT_ENOUGH_MEMORY,
     SC_ERROR_CORRUPTED_DATA, SC_ERROR_FILE_END_REACHED, SC_ERROR_REF_DATA_NOT_USABLE,
     SC_ERROR_INVALID_ARGUMENTS, SC_ERROR_BUFFER_TOO_SMALL, SC_ERROR_INVALID_PIN_LENGTH,
     SC_ERROR_INVALID_DATA, SC_ERROR_INTERNAL, SC_ERROR_INVALID_ASN1_OBJECT,
     SC_ERROR_ASN1_OBJECT_NOT_FOUND, SC_ERROR_ASN1_END_OF_CONTENTS, SC_ERROR_OUT_OF_MEMORY,
     SC_ERROR_TOO_MANY_OBJECTS, SC_ERROR_OBJECT_NOT_VALID, SC_ERROR_OBJECT_NOT_FOUND,
     SC_ERROR_NOT_SUPPORTED, SC_ERROR_PASSPHRASE_REQUIRED, SC_ERROR_INCONSISTENT_CONFIGURATION,
     SC_ERROR_DECRYPT_FAILED, SC_ERROR_WRONG_PADDING, SC_ERROR_WRONG_CARD,
     SC_ERROR_CANNOT_LOAD_MODULE, SC_ERROR_OFFSET_TOO_LARGE, SC_ERROR_NOT_IMPLEMENTED,
     SC_ERROR_INVALID_TLV_OBJECT, SC_ERROR_TLV_END_OF_CONTENTS, SC_ERROR_PKCS15INIT,
     SC_ERROR_SYNTAX_ERROR, SC_ERROR_INCONSISTENT_PROFILE, SC_ERROR_INCOMPATIBLE_KEY,
     SC_ERROR_NO_DEFAULT_KEY, SC_ERROR_NON_UNIQUE_ID, SC_ERROR_CANNOT_LOAD_KEY,
     SC_ERROR_TEMPLATE_NOT_FOUND, SC_ERROR_INVALID_PIN_REFERENCE, SC_ERROR_FILE_TOO_SMALL,
     SC_ERROR_SM, SC_ERROR_SM_ENCRYPT_FAILED, SC_ERROR_SM_INVALID_LEVEL,
     SC_ERROR_SM_NO_SESSION_KEYS, SC_ERROR_SM_INVALID_SESSION_KEY, SC_ERROR_SM_NOT_INITIALIZED,
     SC_ERROR_SM_AUTHENTICATION_FAILED, SC_ERROR_SM_RAND_FAILED, SC_ERROR_SM_KEYSET_NOT_FOUND,
     SC_ERROR_SM_IFD_DATA_MISSING, SC_ERROR_SM_NOT_APPLIED, SC_ERROR_SM_SESSION_ALREADY_ACTIVE,
     SC_ERROR_SM_INVALID_CHECKSUM, SC_ERROR_UNKNOWN, SC_ERROR_PKCS15_APP_NOT_FOUND]"

section \<open>Messages\<close>

definition rdr_errors :: "string list" where
  "rdr_errors = [
     ''Generic reader error'',
     ''No readers found'',
     ''UNUSED'',
     ''UNUSED'',
     ''Card not present'',
     ''Card removed'',
     ''Card reset'',
     ''Transmit failed'',
     ''Timed out while waiting for user input'',
     ''Input operation cancelled by user'',
     ''The two PINs did not match'',
     ''Message too long (keypad)'',
     ''Timeout while waiting for event from card reader'',
     ''Unresponsive card (correctly inserted?)'',
     ''Reader detached'',
     ''Reader reattached'',
     ''Reader in use by another application'']"

definition card_errors :: "string list" where
  "card_errors = [
     ''Card command failed'',
     ''File not found'',
     ''Record not found'',
     ''Unsupported CLA byte in APDU'',
     ''Unsupported INS byte in APDU'',
     ''Incorrect parameters in APDU'',
     ''Wrong length'',
     ''Card memory failure'',
     ''Card does not support the requested operation'',
     ''Not allowed'',
     ''Card is invalid or cannot be handled'',
     ''Security status not satisfied'',
     ''Authentication method blocked'',
     ''Unknown data received from card'',
     ''PIN code or key incorrect'',
     ''File already exists'',
     ''Data object not found'',
     ''Not enough memory on card'',
     ''Part of returned data may be corrupted'',
     ''End of file/record reached before reading Le bytes'',
     ''Reference data not usable'']"

definition arg_errors :: "string list" where
  "arg_errors = [
     ''Invalid arguments'',
     ''UNUSED'',
     ''UNUSED'',
     ''Buffer too small'',
     ''Invalid PIN length'',
     ''Invalid data'']"

definition int_errors :: "string list" where
  "int_errors = [
     ''Internal error'',
     ''Invalid ASN.1 object'',
     ''Required ASN.1 object not found'',
     ''Premature end of ASN.1 stream'',
     ''Out of memory'',
     ''Too many objects'',
     ''Object not valid'',
     ''Requested object not found'',
     ''Not supported'',
     ''Passphrase required'',
     ''Inconsistent configuration'',
     ''Decryption failed'',
     ''Wrong padding'',
     ''Unsupported card'',
     ''Unable to load external module'',
     ''EF offset too large'',
     ''Not implemented'',
     ''Invalid Simple TLV object'',
     ''Premature end of Simple TLV stream'']"

definition p15i_errors :: "string list" where
  "p15i_errors = [
     ''Generic PKCS#15 initialization error'',
     ''Syntax error'',
     ''Inconsistent or incomplete PKCS#15 profile'',
     ''Key length/algorithm not supported by card'',
     ''No default (transport) key available'',
     ''Non unique object ID'',
     ''Unable to load key and certificate(s) from file'',
     ''UNUSED'',
     ''File template not found'',
     ''Invalid PIN reference'',
     ''File too small'']"

definition sm_errors :: "string list" where
  "sm_errors = [
     ''Generic Secure Messaging error'',
     ''Data enciphering error'',
     ''Invalid secure messaging level'',
     ''No session keys'',
     ''Invalid session keys'',
     ''Secure Messaging not initialized'',
     ''Cannot authenticate card'',
     ''Random generation error'',
     ''Secure messaging keyset not found'',
     ''IFD data missing'',
     ''SM not applied'',
     ''SM session already active'',
     ''Invalid checksum'']"

definition misc_errors :: "string list" where
  "misc_errors = [
     ''Unknown error'',
     ''PKCS#15 compatible smart card not found'']"

text \<open>The choice of the table: the highest base the number reaches, and no table below 1100.\<close>

definition error_table :: "nat \<Rightarrow> string list \<times> nat" where
  "error_table error_index =
     (if error_index \<ge> 1900 then (misc_errors, 1900)
      else if error_index \<ge> 1600 then (sm_errors, 1600)
      else if error_index \<ge> 1500 then (p15i_errors, 1500)
      else if error_index \<ge> 1400 then (int_errors, 1400)
      else if error_index \<ge> 1300 then (arg_errors, 1300)
      else if error_index \<ge> 1200 then (card_errors, 1200)
      else if error_index \<ge> 1100 then (rdr_errors, 1100)
      else ([], 0))"

definition sc_strerror :: "int \<Rightarrow> string" where
  "sc_strerror error =
    (if error = 0 then ''Success''
     else
       let error_index = nat \<bar>error\<bar>;
           errors = fst (error_table error_index);
           i = error_index - snd (error_table error_index)
       in if i \<ge> length errors then misc_errors ! 0 else errors ! i)"

section \<open>Properties\<close>

lemma distinct_all_errors: "distinct all_errors"
  by (simp add: all_errors_def)

lemma all_errors_negative: "e \<in> set all_errors \<Longrightarrow> e \<in> {-1999 .. -1100}"
  by (auto simp: all_errors_def)

lemma sc_strerror_small:
  assumes "\<bar>error\<bar> < 1100" and "error \<noteq> 0"
  shows "sc_strerror error = ''Unknown error''"
proof -
  have "error_table (nat \<bar>error\<bar>) = ([], 0)"
    using assms by (simp add: error_table_def)
  then show ?thesis
    using assms by (simp add: sc_strerror_def misc_errors_def)
qed

lemma sc_strerror_sign: "sc_strerror (- error) = sc_strerror error"
  by (simp add: sc_strerror_def)

text \<open>The tables' sizes, and the gaps they mark.\<close>

lemma error_table_lengths [simp]:
  "length rdr_errors = 17"
  "length card_errors = 21"
  "length arg_errors = 6"
  "length int_errors = 19"
  "length p15i_errors = 11"
  "length sm_errors = 13"
  "length misc_errors = 2"
  by (simp_all add: rdr_errors_def card_errors_def arg_errors_def int_errors_def p15i_errors_def sm_errors_def misc_errors_def)

definition gaps :: "string list \<Rightarrow> nat list" where
  "gaps t = map fst (filter (\<lambda>(i, m). m = ''UNUSED'') (enumerate 0 t))"

lemma error_tables_nonempty [simp]:
  "rdr_errors \<noteq> []"
  "card_errors \<noteq> []"
  "arg_errors \<noteq> []"
  "int_errors \<noteq> []"
  "p15i_errors \<noteq> []"
  "sm_errors \<noteq> []"
  "misc_errors \<noteq> []"
  by (simp_all add: rdr_errors_def card_errors_def arg_errors_def int_errors_def p15i_errors_def sm_errors_def misc_errors_def)

lemma error_table_gaps:
  "gaps rdr_errors = [2, 3]"
  "gaps card_errors = []"
  "gaps arg_errors = [1, 2]"
  "gaps int_errors = []"
  "gaps p15i_errors = [7]"
  "gaps sm_errors = []"
  "gaps misc_errors = []"
  by (simp_all add: gaps_def rdr_errors_def card_errors_def arg_errors_def int_errors_def p15i_errors_def sm_errors_def misc_errors_def)

lemma in_gaps: "i < length t \<Longrightarrow> i \<in> set (gaps t) \<longleftrightarrow> t ! i = ''UNUSED''"
  by (auto simp: gaps_def in_set_enumerate_eq image_iff Bex_def)

text \<open>Every code has an entry of its own: no code indexes past its table or into a gap.\<close>

definition code_index :: "sc_error \<Rightarrow> nat" where
  "code_index e = nat \<bar>e\<bar> - snd (error_table (nat \<bar>e\<bar>))"

definition code_ok :: "sc_error \<Rightarrow> bool" where
  "code_ok e \<longleftrightarrow>
    (let t = fst (error_table (nat \<bar>e\<bar>))
     in code_index e < length t \<and> code_index e \<notin> set (gaps t))"

lemma all_codes_ok: "list_all code_ok all_errors"
  by (simp add: all_errors_def code_ok_def code_index_def error_table_def error_table_gaps)

lemma sc_strerror_code:
  assumes "e \<in> set all_errors"
  shows "sc_strerror e = fst (error_table (nat \<bar>e\<bar>)) ! code_index e \<and> sc_strerror e \<noteq> ''UNUSED''"
proof -
  have "e \<noteq> 0" using all_errors_negative [OF assms] by auto
  moreover have "code_ok e"
    using assms all_codes_ok by (simp add: list_all_iff)
  ultimately show ?thesis
    by (auto simp: code_ok_def sc_strerror_def Let_def code_index_def [symmetric] in_gaps)
qed


section \<open>Operations that keep an invariant\<close>

text \<open>
  A loop driven by the card runs on fuel in this development; \<open>OUT_OF_FUEL\<close> (a positive number,
  no code of the library) stands for a run that used it up. \<open>keeps P f\<close> says that \<open>f\<close> preserves
  \<open>P\<close> on every path, errors included, and does not run out of fuel.
\<close>

abbreviation (input) OUT_OF_FUEL :: sc_error where "OUT_OF_FUEL \<equiv> 1"

definition keeps :: "('s \<Rightarrow> bool) \<Rightarrow> ('s, 'a) prog \<Rightarrow> bool" where
  "keeps P f \<longleftrightarrow> (\<forall>s. P s \<longrightarrow> P (snd (f s)) \<and> fst (f s) \<noteq> Inl OUT_OF_FUEL)"

lemma keepsI:
  "(\<And>s r s'. P s \<Longrightarrow> f s = (r, s') \<Longrightarrow> P s' \<and> r \<noteq> Inl OUT_OF_FUEL) \<Longrightarrow> keeps P f"
  unfolding keeps_def by (metis prod.collapse)

lemma keepsD: "keeps P f \<Longrightarrow> P s \<Longrightarrow> f s = (r, s') \<Longrightarrow> P s' \<and> r \<noteq> Inl OUT_OF_FUEL"
  unfolding keeps_def by (metis fst_conv snd_conv)

lemma keeps_fst: "keeps P f \<Longrightarrow> P s \<Longrightarrow> fst (f s) \<noteq> Inl OUT_OF_FUEL"
  and keeps_snd: "keeps P f \<Longrightarrow> P s \<Longrightarrow> P (snd (f s))"
  by (simp_all add: keeps_def)

lemma keeps_sret [simp, intro]: "keeps P (sret x)"
  by (simp add: keeps_def)

lemma keeps_sfail [intro]: "e \<noteq> OUT_OF_FUEL \<Longrightarrow> keeps P (sfail e)"
  by (simp add: keeps_def)

lemma keeps_lift_res [intro]: "r \<noteq> Inl OUT_OF_FUEL \<Longrightarrow> keeps P (lift_res r)"
  by (simp add: keeps_def)

lemma keeps_sbind [intro]:
  assumes "keeps P f" and "\<And>x. keeps P (g x)"
  shows "keeps P (sbind f g)"
proof (rule keepsI)
  fix s r s' assume s: "P s" "sbind f g s = (r, s')"
  obtain q s1 where q: "f s = (q, s1)" by (cases "f s")
  with assms(1) s(1) have P: "P s1" "q \<noteq> Inl OUT_OF_FUEL" by (auto dest: keepsD)
  show "P s' \<and> r \<noteq> Inl OUT_OF_FUEL"
  proof (cases q)
    case (Inl e)
    with q s(2) P show ?thesis by (auto simp: sbind_def)
  next
    case (Inr x)
    with q s(2) have "g x s1 = (r, s')" by (simp add: sbind_def)
    with assms(2) P(1) show ?thesis by (rule keepsD)
  qed
qed

text \<open>The second step may also depend on the state the first one started from.\<close>

lemma keeps_sbind_start:
  assumes "keeps P f" and "\<And>r x. keeps P (g r x)"
  shows "keeps P (\<lambda>r. sbind f (g r) r)"
proof (rule keepsI)
  fix s r s' assume "P s" and "sbind f (g s) s = (r, s')"
  then show "P s' \<and> r \<noteq> Inl OUT_OF_FUEL"
    by (rule keepsD [OF keeps_sbind [OF assms(1) assms(2) [of s]]])
qed

end
