(* ===== verification/Sc_Apdu.thy ===== *)
theory Sc_Apdu
  imports Sc_Errors
begin

text \<open>
  APDUs: the record, its consistency checks and its encoding as octets
  (\<open>libopensc/types.h\<close>, \<open>libopensc/apdu.c\<close>, the \<open>sc_format_apdu\<close> group of \<open>libopensc/card.c\<close>).

  A pointer of the record is an option, \<open>None\<close> for \<open>NULL\<close>; the list under \<open>Some\<close> is the
  memory it points to, which may be longer than the length field next to it. The fields
  \<open>mac\<close>, \<open>mac_len\<close>, \<open>allocation_flags\<close> and \<open>next\<close> (secure messaging and its APDU lists) are
  left out; \<open>control\<close> is kept, the reader reads it.
\<close>

section \<open>Constants\<close>

abbreviation (input) SC_APDU_CASE_1 :: u32 where "SC_APDU_CASE_1 \<equiv> 0x01"
abbreviation (input) SC_APDU_CASE_2_SHORT :: u32 where "SC_APDU_CASE_2_SHORT \<equiv> 0x02"
abbreviation (input) SC_APDU_CASE_3_SHORT :: u32 where "SC_APDU_CASE_3_SHORT \<equiv> 0x03"
abbreviation (input) SC_APDU_CASE_4_SHORT :: u32 where "SC_APDU_CASE_4_SHORT \<equiv> 0x04"
abbreviation (input) SC_APDU_SHORT_MASK :: u32 where "SC_APDU_SHORT_MASK \<equiv> 0x0f"
abbreviation (input) SC_APDU_EXT :: u32 where "SC_APDU_EXT \<equiv> 0x10"
abbreviation (input) SC_APDU_CASE_2_EXT :: u32 where "SC_APDU_CASE_2_EXT \<equiv> 0x12"
abbreviation (input) SC_APDU_CASE_3_EXT :: u32 where "SC_APDU_CASE_3_EXT \<equiv> 0x13"
abbreviation (input) SC_APDU_CASE_4_EXT :: u32 where "SC_APDU_CASE_4_EXT \<equiv> 0x14"
abbreviation (input) SC_APDU_CASE_2 :: u32 where "SC_APDU_CASE_2 \<equiv> 0x22"
abbreviation (input) SC_APDU_CASE_3 :: u32 where "SC_APDU_CASE_3 \<equiv> 0x23"
abbreviation (input) SC_APDU_CASE_4 :: u32 where "SC_APDU_CASE_4 \<equiv> 0x24"

abbreviation (input) SC_APDU_FLAGS_CHAINING :: u64 where "SC_APDU_FLAGS_CHAINING \<equiv> 0x01"
abbreviation (input) SC_APDU_FLAGS_NO_GET_RESP :: u64 where "SC_APDU_FLAGS_NO_GET_RESP \<equiv> 0x02"
abbreviation (input) SC_APDU_FLAGS_NO_RETRY_WL :: u64 where "SC_APDU_FLAGS_NO_RETRY_WL \<equiv> 0x04"

abbreviation (input) SC_PROTO_T0 :: u32 where "SC_PROTO_T0 \<equiv> 0x01"
abbreviation (input) SC_PROTO_T1 :: u32 where "SC_PROTO_T1 \<equiv> 0x02"
abbreviation (input) SC_PROTO_RAW :: u32 where "SC_PROTO_RAW \<equiv> 0x1000"

abbreviation (input) SC_MAX_APDU_BUFFER_SIZE :: nat where "SC_MAX_APDU_BUFFER_SIZE \<equiv> 261"
abbreviation (input) SC_MAX_APDU_DATA_SIZE :: nat where "SC_MAX_APDU_DATA_SIZE \<equiv> 255"
abbreviation (input) SC_MAX_APDU_RESP_SIZE :: nat where "SC_MAX_APDU_RESP_SIZE \<equiv> 256"
abbreviation (input) SC_MAX_EXT_APDU_DATA_SIZE :: nat where "SC_MAX_EXT_APDU_DATA_SIZE \<equiv> 65535"
abbreviation (input) SC_MAX_EXT_APDU_RESP_SIZE :: nat where "SC_MAX_EXT_APDU_RESP_SIZE \<equiv> 65536"

abbreviation (input) SC_CARD_CAP_APDU_EXT :: u64 where "SC_CARD_CAP_APDU_EXT \<equiv> 0x01"

section \<open>The record\<close>

record sc_apdu =
  a_cse :: u32
  a_cla :: u8
  a_ins :: u8
  a_p1 :: u8
  a_p2 :: u8
  a_lc :: nat
  a_le :: nat
  a_data :: "bytes option"
  a_datalen :: nat
  a_resp :: "bytes option"
  a_resplen :: nat
  a_control :: u8
  a_sw1 :: u32
  a_sw2 :: u32
  a_flags :: u64

definition zero_apdu :: sc_apdu where
  "zero_apdu = \<lparr>a_cse = 0, a_cla = 0, a_ins = 0, a_p1 = 0, a_p2 = 0, a_lc = 0, a_le = 0,
     a_data = None, a_datalen = 0, a_resp = None, a_resplen = 0, a_control = 0,
     a_sw1 = 0, a_sw2 = 0, a_flags = 0\<rparr>"

text \<open>The memory behind a data pointer, and the data a successful command returned.\<close>

definition mem :: "bytes option \<Rightarrow> bytes" where
  "mem p = (case p of None \<Rightarrow> [] | Some bs \<Rightarrow> bs)"

lemma mem_simps [simp]: "mem None = []" "mem (Some bs) = bs"
  by (simp_all add: mem_def)

definition resp_data :: "sc_apdu \<Rightarrow> bytes" where
  "resp_data a = take (a_resplen a) (mem (a_resp a))"

text \<open>The length fields do not run past the memory they describe.\<close>

definition apdu_wf :: "sc_apdu \<Rightarrow> bool" where
  "apdu_wf a \<longleftrightarrow> a_datalen a \<le> length (mem (a_data a)) \<and> a_resplen a \<le> length (mem (a_resp a))"

section \<open>Formatting (card.c)\<close>

definition sc_format_apdu_cse_lc_le :: "sc_apdu \<Rightarrow> sc_apdu" where
  "sc_format_apdu_cse_lc_le a =
    (let dl = a_datalen a; rl = a_resplen a in
     if dl > SC_MAX_APDU_DATA_SIZE \<or> rl > SC_MAX_APDU_RESP_SIZE then
       a\<lparr>a_lc := (if dl \<le> SC_MAX_EXT_APDU_DATA_SIZE then dl else a_lc a),
         a_le := (if rl \<le> SC_MAX_EXT_APDU_RESP_SIZE then rl else a_le a),
         a_cse := (if rl \<noteq> 0 \<and> dl \<noteq> 0 then SC_APDU_CASE_4
                   else if rl = 0 \<and> dl \<noteq> 0 then SC_APDU_CASE_3
                   else if rl \<noteq> 0 \<and> dl = 0 then SC_APDU_CASE_2
                   else a_cse a)\<rparr>
     else
       a\<lparr>a_lc := (if dl \<le> SC_MAX_APDU_DATA_SIZE then dl else a_lc a),
         a_le := (if rl \<le> SC_MAX_APDU_RESP_SIZE then rl else a_le a),
         a_cse := (if rl \<noteq> 0 \<and> dl \<noteq> 0 then SC_APDU_CASE_4_SHORT
                   else if rl = 0 \<and> dl \<noteq> 0 then SC_APDU_CASE_3_SHORT
                   else if rl \<noteq> 0 \<and> dl = 0 then SC_APDU_CASE_2_SHORT
                   else SC_APDU_CASE_1)\<rparr>)"

definition sc_format_apdu_ex ::
  "u8 \<Rightarrow> u8 \<Rightarrow> u8 \<Rightarrow> u8 \<Rightarrow> bytes option \<Rightarrow> nat \<Rightarrow> bytes option \<Rightarrow> nat \<Rightarrow> sc_apdu" where
  "sc_format_apdu_ex cla ins p1 p2 data datalen resp resplen =
     sc_format_apdu_cse_lc_le
       (zero_apdu\<lparr>a_cla := cla, a_ins := ins, a_p1 := p1, a_p2 := p2,
          a_resp := resp, a_resplen := resplen, a_data := data, a_datalen := datalen\<rparr>)"

section \<open>Encoding (apdu.c)\<close>

definition sc_apdu_get_length :: "sc_apdu \<Rightarrow> u32 \<Rightarrow> nat" where
  "sc_apdu_get_length a proto =
    (let cse = a_cse a; lc = a_lc a; t0 = (proto = SC_PROTO_T0) in
     if cse = SC_APDU_CASE_1 then (if t0 then 5 else 4)
     else if cse = SC_APDU_CASE_2_SHORT then 5
     else if cse = SC_APDU_CASE_2_EXT then 4 + (if t0 then 1 else 3)
     else if cse = SC_APDU_CASE_3_SHORT then 4 + 1 + lc
     else if cse = SC_APDU_CASE_3_EXT then 4 + lc + (if t0 then 1 else 3)
     else if cse = SC_APDU_CASE_4_SHORT then 4 + lc + (if \<not> t0 then 2 else 1)
     else if cse = SC_APDU_CASE_4_EXT then 4 + lc + (if t0 then 1 else 5)
     else 0)"

text \<open>
  The part after the header. The value is what the pointer \<open>p\<close> has walked over, in order.
  A \<open>memcpy\<close> of \<open>lc\<close> bytes reads \<open>lc\<close> bytes behind \<open>data\<close>.
\<close>

definition apdu_body :: "sc_apdu \<Rightarrow> u32 \<Rightarrow> bytes res" where
  "apdu_body a proto =
    (let cse = a_cse a; lc = a_lc a; le = a_le a; t0 = (proto = SC_PROTO_T0);
         dat = take lc (mem (a_data a)) in
     if cse = SC_APDU_CASE_1 then Inr (if t0 then [0] else [])
     else if cse = SC_APDU_CASE_2_SHORT then Inr [of_nat le]
     else if cse = SC_APDU_CASE_2_EXT then
       Inr (if t0 then [of_nat le] else [0, of_nat (le div 256), of_nat le])
     else if cse = SC_APDU_CASE_3_SHORT then Inr (of_nat lc # dat)
     else if cse = SC_APDU_CASE_3_EXT then
       (if t0 then (if lc > 255 then Inl SC_ERROR_INVALID_ARGUMENTS else Inr dat)
        else Inr ([0, of_nat (lc div 256), of_nat lc] @ dat))
     else if cse = SC_APDU_CASE_4_SHORT then
       Inr (of_nat lc # dat @ (if \<not> t0 then [of_nat le] else []))
     else if cse = SC_APDU_CASE_4_EXT then
       Inr (if t0 then of_nat lc # dat
            else [0, of_nat (lc div 256), of_nat lc] @ dat @ [of_nat (le div 256), of_nat le])
     else Inr [])"

text \<open>\<open>out\<close> is the output buffer: \<open>None\<close> for a null pointer, its contents otherwise.\<close>

definition sc_apdu2bytes :: "sc_apdu \<Rightarrow> u32 \<Rightarrow> bytes option \<Rightarrow> bytes res" where
  "sc_apdu2bytes a proto out =
    (case out of
       None \<Rightarrow> Inl SC_ERROR_INVALID_ARGUMENTS
     | Some buf \<Rightarrow>
        if length buf < sc_apdu_get_length a proto then Inl SC_ERROR_INVALID_ARGUMENTS
        else ebind (apdu_body a proto)
               (\<lambda>body. Inr (memcpy_at buf 0 ([a_cla a, a_ins a, a_p1 a, a_p2 a] @ body))))"

text \<open>
  \<open>malloc n\<close> is the memory the allocator returns for a request of \<open>n\<close> bytes, \<open>None\<close> when it
  has none. Its contents are whatever was there.
\<close>

definition sc_apdu_get_octets :: "(nat \<Rightarrow> bytes option) \<Rightarrow> sc_apdu \<Rightarrow> u32 \<Rightarrow> bytes res" where
  "sc_apdu_get_octets malloc a proto =
    (let nlen = sc_apdu_get_length a proto in
     if nlen = 0 then Inl SC_ERROR_INTERNAL
     else case malloc nlen of
         None \<Rightarrow> Inl SC_ERROR_OUT_OF_MEMORY
       | Some nbuf \<Rightarrow>
          (case sc_apdu2bytes a proto (Some nbuf) of
             Inl _ \<Rightarrow> Inl SC_ERROR_INTERNAL
           | Inr out \<Rightarrow> Inr out))"

definition sc_apdu_set_resp :: "sc_apdu \<Rightarrow> bytes \<Rightarrow> sc_apdu res" where
  "sc_apdu_set_resp a buf =
    (let len = length buf in
     if len < 2 then Inl SC_ERROR_INTERNAL
     else
       let a = a\<lparr>a_sw1 := ucast (buf ! (len - 2)), a_sw2 := ucast (buf ! (len - 1))\<rparr>;
           a = (if len - 2 \<le> a_resplen a then a\<lparr>a_resplen := len - 2\<rparr> else a)
       in if a_resplen a \<noteq> 0
          then Inr (a\<lparr>a_resp := Some (memcpy_at (mem (a_resp a)) 0 (take (a_resplen a) buf))\<rparr>)
          else Inr a)"

section \<open>Consistency checks (apdu.c)\<close>

definition chaining :: "sc_apdu \<Rightarrow> bool" where
  "chaining a \<longleftrightarrow> a_flags a AND SC_APDU_FLAGS_CHAINING \<noteq> 0"

definition sc_check_apdu :: "u64 \<Rightarrow> sc_apdu \<Rightarrow> unit res" where
  "sc_check_apdu caps a =
    (let err = Inl SC_ERROR_INVALID_ARGUMENTS;
         length_ok =
           (if a_cse a AND NOT SC_APDU_SHORT_MASK = 0 then
              \<not> (a_le a > 256 \<or> (a_lc a > 255 \<and> \<not> chaining a))
            else if a_cse a AND SC_APDU_EXT \<noteq> 0 then
              caps AND SC_CARD_CAP_APDU_EXT \<noteq> 0 \<and> \<not> (a_le a > 65536 \<or> a_lc a > 65535)
            else False);
         c = a_cse a AND SC_APDU_SHORT_MASK
     in if \<not> length_ok then err
        else if c = SC_APDU_CASE_1 then
          (if a_datalen a \<noteq> 0 \<or> a_lc a \<noteq> 0 \<or> a_le a \<noteq> 0 then err else Inr ())
        else if c = SC_APDU_CASE_2_SHORT then
          (if a_datalen a \<noteq> 0 \<or> a_lc a \<noteq> 0 then err
           else if a_resplen a = 0 \<or> a_resp a = None then err else Inr ())
        else if c = SC_APDU_CASE_3_SHORT then
          (if a_datalen a = 0 \<or> a_data a = None \<or> a_lc a = 0 then err
           else if a_le a \<noteq> 0 then err
           else if a_datalen a \<noteq> a_lc a then err else Inr ())
        else if c = SC_APDU_CASE_4_SHORT then
          (if a_datalen a = 0 \<or> a_data a = None \<or> a_lc a = 0 then err
           else if a_resplen a = 0 \<or> a_resp a = None then err
           else if a_datalen a \<noteq> a_lc a then err else Inr ())
        else err)"

definition sc_detect_apdu_cse :: "u64 \<Rightarrow> sc_apdu \<Rightarrow> sc_apdu" where
  "sc_detect_apdu_cse caps a =
    (if a_cse a = SC_APDU_CASE_2 \<or> a_cse a = SC_APDU_CASE_3 \<or> a_cse a = SC_APDU_CASE_4 then
       let btype = a_cse a AND SC_APDU_SHORT_MASK
       in a\<lparr>a_cse :=
            (if (a_le a > 256 \<or> (a_lc a > 255 \<and> \<not> chaining a)) \<and> caps AND SC_CARD_CAP_APDU_EXT \<noteq> 0
             then btype OR SC_APDU_EXT else btype)\<rparr>
     else a)"

section \<open>Parsing an octet string (apdu.c)\<close>

text \<open>
  \<open>sc_bytes2apdu\<close>: the header, then the bytes after it. \<open>short_or_ext\<close> is its body; each
  branch ends with the bytes that are left over, which must be none.
\<close>

definition be2 :: "u8 \<Rightarrow> u8 \<Rightarrow> nat" where
  "be2 h l = unat h * 256 + unat l"

definition parse_ext :: "sc_apdu \<Rightarrow> bytes \<Rightarrow> (sc_apdu \<times> bytes) res" where
  "parse_ext a p =
    (let len = length p; v = be2 (p ! 1) (p ! 2); rest = drop 3 p in
     if len = 3 then
       Inr (a\<lparr>a_le := (if v = 0 then 0x10000 else v), a_cse := SC_APDU_CASE_2_EXT\<rparr>, rest)
     else if length rest < v then Inl SC_ERROR_INVALID_DATA
     else
       let a = a\<lparr>a_lc := v, a_data := Some (take v rest), a_datalen := v\<rparr>;
           rest = drop v rest
       in if rest = [] then Inr (a\<lparr>a_cse := SC_APDU_CASE_3_EXT\<rparr>, rest)
          else if length rest < 2 then Inl SC_ERROR_INVALID_DATA
          else let le = be2 (rest ! 0) (rest ! 1)
               in Inr (a\<lparr>a_le := (if le = 0 then 0x10000 else le), a_cse := SC_APDU_CASE_4_EXT\<rparr>,
                       drop 2 rest))"

definition parse_short :: "sc_apdu \<Rightarrow> bytes \<Rightarrow> (sc_apdu \<times> bytes) res" where
  "parse_short a p =
    (let v = unat (p ! 0); rest = drop 1 p in
     if length p = 1 then
       Inr (a\<lparr>a_le := (if v = 0 then 0x100 else v), a_cse := SC_APDU_CASE_2_SHORT\<rparr>, rest)
     else if length rest < v then Inl SC_ERROR_INVALID_DATA
     else
       let a = a\<lparr>a_lc := v, a_data := Some (take v rest), a_datalen := v\<rparr>;
           rest = drop v rest
       in if rest = [] then Inr (a\<lparr>a_cse := SC_APDU_CASE_3_SHORT\<rparr>, rest)
          else let le = unat (rest ! 0)
               in Inr (a\<lparr>a_le := (if le = 0 then 0x100 else le), a_cse := SC_APDU_CASE_4_SHORT\<rparr>,
                       drop 1 rest))"

definition sc_bytes2apdu :: "bytes \<Rightarrow> sc_apdu res" where
  "sc_bytes2apdu buf =
    (if length buf < 4 then Inl SC_ERROR_INVALID_DATA
     else
       let a = zero_apdu\<lparr>a_cla := buf ! 0, a_ins := buf ! 1, a_p1 := buf ! 2, a_p2 := buf ! 3\<rparr>;
           p = drop 4 buf
       in if p = [] then Inr (a\<lparr>a_cse := SC_APDU_CASE_1\<rparr>)
          else ebind (if p ! 0 = 0 \<and> length p \<ge> 3 then parse_ext a p else parse_short a p)
                 (\<lambda>(a, rest). if rest \<noteq> [] then Inl SC_ERROR_INVALID_DATA else Inr a))"

section \<open>Lemmas on the encoding\<close>

lemma bit0_expl [simp]:
  "SC_APDU_CASE_2_EXT AND SC_APDU_SHORT_MASK = SC_APDU_CASE_2_SHORT"
  "SC_APDU_CASE_3_EXT AND SC_APDU_SHORT_MASK = SC_APDU_CASE_3_SHORT"
  "SC_APDU_CASE_4_EXT AND SC_APDU_SHORT_MASK = SC_APDU_CASE_4_SHORT"
  by simp_all

text \<open>The seven cases an APDU can have when it is encoded.\<close>

definition final_cse :: "u32 \<Rightarrow> bool" where
  "final_cse c \<longleftrightarrow> c \<in> {SC_APDU_CASE_1, SC_APDU_CASE_2_SHORT, SC_APDU_CASE_3_SHORT, SC_APDU_CASE_4_SHORT,
     SC_APDU_CASE_2_EXT, SC_APDU_CASE_3_EXT, SC_APDU_CASE_4_EXT}"

lemma final_cseE:
  assumes "final_cse c"
  obtains "c = SC_APDU_CASE_1" | "c = SC_APDU_CASE_2_SHORT" | "c = SC_APDU_CASE_3_SHORT"
    | "c = SC_APDU_CASE_4_SHORT" | "c = SC_APDU_CASE_2_EXT" | "c = SC_APDU_CASE_3_EXT"
    | "c = SC_APDU_CASE_4_EXT"
  using assms by (auto simp: final_cse_def)

lemma get_length_pos: "final_cse (a_cse a) \<Longrightarrow> sc_apdu_get_length a proto \<ge> 4"
  by (erule final_cseE) (simp_all add: sc_apdu_get_length_def)

lemma length_apdu_body:
  assumes "apdu_body a proto = Inr body" and "final_cse (a_cse a)"
    and "a_lc a \<le> length (mem (a_data a))"
    and "\<not> (a_cse a = SC_APDU_CASE_3_EXT \<and> proto = SC_PROTO_T0)"
  shows "4 + length body = sc_apdu_get_length a proto"
  using assms(2)
proof (cases rule: final_cseE)
qed (use assms(1,3,4) in \<open>auto simp: apdu_body_def sc_apdu_get_length_def Let_def split: if_splits\<close>)

definition malloc_ok :: "(nat \<Rightarrow> bytes option) \<Rightarrow> bool" where
  "malloc_ok malloc \<longleftrightarrow> (\<forall>n. \<exists>m. malloc n = Some m \<and> length m = n)"

lemma malloc_okE:
  assumes "malloc_ok malloc"
  obtains m where "malloc n = Some m" and "length m = n"
  using assms by (auto simp: malloc_ok_def)

text \<open>The octets are the header and the body, and nothing of the allocated memory is left.\<close>

lemma get_octets_exact:
  assumes "malloc_ok malloc" and "final_cse (a_cse a)"
    and "apdu_body a proto = Inr body"
    and "a_lc a \<le> length (mem (a_data a))"
    and "\<not> (a_cse a = SC_APDU_CASE_3_EXT \<and> proto = SC_PROTO_T0)"
  shows "sc_apdu_get_octets malloc a proto = Inr ([a_cla a, a_ins a, a_p1 a, a_p2 a] @ body)"
proof -
  let ?n = "sc_apdu_get_length a proto"
  have n: "?n = 4 + length body" using length_apdu_body [OF assms(3,2,4,5)] by simp
  obtain m where "malloc ?n = Some m" and "length m = ?n"
    using malloc_okE [OF assms(1)] by blast
  with n assms(3) show ?thesis
    by (simp add: sc_apdu_get_octets_def sc_apdu2bytes_def memcpy_at_0)
qed

lemma be2_of_nat: "n < 65536 \<Longrightarrow> be2 (of_nat (n div 256)) (of_nat n) = n"
  by (simp add: be2_def unat_of_nat)

lemma be2_of_nat_full: "be2 (of_nat (65536 div 256)) (of_nat 65536) = 0"
  by (simp add: be2_def)

text \<open>What the check accepts: the length conditions and the shape of each case.\<close>

lemma check_apdu_Inr_cases:
  assumes "sc_check_apdu caps a = Inr ()"
  shows "a_cse a AND SC_APDU_SHORT_MASK \<in>
           {SC_APDU_CASE_1, SC_APDU_CASE_2_SHORT, SC_APDU_CASE_3_SHORT, SC_APDU_CASE_4_SHORT}"
  using assms by (auto simp: sc_check_apdu_def Let_def split: if_splits)

lemma check_apdu_data:
  assumes "sc_check_apdu caps a = Inr ()"
  shows "a_datalen a = a_lc a"
  using assms by (auto simp: sc_check_apdu_def Let_def split: if_splits)

lemma check_apdu_short_bounds:
  assumes "sc_check_apdu caps a = Inr ()" and "a_cse a AND NOT SC_APDU_SHORT_MASK = 0"
    and "\<not> chaining a"
  shows "a_le a \<le> 256" and "a_lc a \<le> 255"
  using assms by (auto simp: sc_check_apdu_def Let_def not_less split: if_splits)

lemma check_apdu_ext_bounds:
  assumes "sc_check_apdu caps a = Inr ()" and "a_cse a AND NOT SC_APDU_SHORT_MASK \<noteq> 0"
  shows "a_le a \<le> 65536" and "a_lc a \<le> 65535" and "caps AND SC_CARD_CAP_APDU_EXT \<noteq> 0"
  using assms by (auto simp: sc_check_apdu_def Let_def not_less split: if_splits)

lemmas check_apdu_bounds = check_apdu_short_bounds check_apdu_ext_bounds

text \<open>What a parsed command keeps of the one that was encoded.\<close>

definition same_command :: "sc_apdu \<Rightarrow> sc_apdu \<Rightarrow> bool" where
  "same_command a b \<longleftrightarrow>
     a_cse a = a_cse b \<and> a_cla a = a_cla b \<and> a_ins a = a_ins b \<and> a_p1 a = a_p1 b \<and>
     a_p2 a = a_p2 b \<and> a_lc a = a_lc b \<and> a_le a = a_le b \<and>
     take (a_lc a) (mem (a_data a)) = take (a_lc b) (mem (a_data b))"

lemma bytes2apdu_header:
  "sc_bytes2apdu (c # i # p # q # body) =
    (let a = zero_apdu\<lparr>a_cla := c, a_ins := i, a_p1 := p, a_p2 := q\<rparr> in
     if body = [] then Inr (a\<lparr>a_cse := SC_APDU_CASE_1\<rparr>)
     else ebind (if body ! 0 = 0 \<and> length body \<ge> 3 then parse_ext a body else parse_short a body)
            (\<lambda>(a, rest). if rest \<noteq> [] then Inl SC_ERROR_INVALID_DATA else Inr a))"
  by (simp add: sc_bytes2apdu_def Let_def)

lemma parse_short_le:
  "0 < le \<Longrightarrow> le \<le> 256 \<Longrightarrow>
   parse_short a [of_nat le] = Inr (a\<lparr>a_le := le, a_cse := SC_APDU_CASE_2_SHORT\<rparr>, [])"
  by (cases "le = 256") (simp_all add: parse_short_def unat_of_nat)

lemma parse_short_data:
  assumes "length dat = lc" and "0 < lc" and "lc \<le> 255"
  shows "parse_short a (of_nat lc # dat) =
    Inr (a\<lparr>a_lc := lc, a_data := Some dat, a_datalen := lc, a_cse := SC_APDU_CASE_3_SHORT\<rparr>, [])"
  using assms by (simp add: parse_short_def unat_of_nat Let_def)

lemma parse_short_data_le:
  assumes "length dat = lc" and "0 < lc" and "lc \<le> 255" and "0 < le" and "le \<le> 256"
  shows "parse_short a (of_nat lc # dat @ [of_nat le]) =
    Inr (a\<lparr>a_lc := lc, a_data := Some dat, a_datalen := lc, a_le := le,
          a_cse := SC_APDU_CASE_4_SHORT\<rparr>, [])"
  using assms by (cases "le = 256") (simp_all add: parse_short_def unat_of_nat Let_def nth_append)

lemma parse_ext_le:
  assumes "0 < le" and "le \<le> 65536"
  shows "parse_ext a [0, of_nat (le div 256), of_nat le] =
    Inr (a\<lparr>a_le := le, a_cse := SC_APDU_CASE_2_EXT\<rparr>, [])"
proof (cases "le = 65536")
  case True
  then show ?thesis by (simp add: parse_ext_def be2_def)
next
  case False
  with assms have "be2 (of_nat (le div 256)) (of_nat le) = le" by (simp add: be2_of_nat)
  with assms show ?thesis by (simp add: parse_ext_def)
qed

lemma parse_ext_data:
  assumes "length dat = lc" and "0 < lc" and "lc \<le> 65535"
  shows "parse_ext a (0 # of_nat (lc div 256) # of_nat lc # dat) =
    Inr (a\<lparr>a_lc := lc, a_data := Some dat, a_datalen := lc, a_cse := SC_APDU_CASE_3_EXT\<rparr>, [])"
proof -
  have "be2 (of_nat (lc div 256)) (of_nat lc) = lc" using assms by (simp add: be2_of_nat)
  with assms show ?thesis by (simp add: parse_ext_def Let_def)
qed

lemma parse_ext_data_le:
  assumes "length dat = lc" and "0 < lc" and "lc \<le> 65535" and "0 < le" and "le \<le> 65536"
  shows "parse_ext a (0 # of_nat (lc div 256) # of_nat lc # dat @ [of_nat (le div 256), of_nat le]) =
    Inr (a\<lparr>a_lc := lc, a_data := Some dat, a_datalen := lc, a_le := le,
          a_cse := SC_APDU_CASE_4_EXT\<rparr>, [])"
proof -
  have lc: "be2 (of_nat (lc div 256)) (of_nat lc) = lc" using assms by (simp add: be2_of_nat)
  show ?thesis
  proof (cases "le = 65536")
    case True
    with assms lc show ?thesis by (simp add: parse_ext_def Let_def be2_def)
  next
    case False
    with assms have "be2 (of_nat (le div 256)) (of_nat le) = le" by (simp add: be2_of_nat)
    with assms lc show ?thesis by (simp add: parse_ext_def Let_def)
  qed
qed

lemmas parse_lemmas = parse_short_le parse_short_data parse_short_data_le
  parse_ext_le parse_ext_data parse_ext_data_le

text \<open>
  A command the encoder can be asked for and the parser can tell apart: it passes the check,
  is not a chained one, and expects at least one byte back where it expects any (an \<open>Le\<close> of
  zero and the largest \<open>Le\<close> have the same encoding).
\<close>

definition encodable :: "u64 \<Rightarrow> sc_apdu \<Rightarrow> bool" where
  "encodable caps a \<longleftrightarrow> final_cse (a_cse a) \<and> sc_check_apdu caps a = Inr () \<and> \<not> chaining a \<and> apdu_wf a \<and>
     (a_cse a AND SC_APDU_SHORT_MASK \<in> {SC_APDU_CASE_2_SHORT, SC_APDU_CASE_4_SHORT} \<longrightarrow> a_le a \<noteq> 0)"

lemma encodable_parse:
  assumes e: "encodable caps a" and t: "proto \<noteq> SC_PROTO_T0"
  shows "\<exists>body a'. apdu_body a proto = Inr body \<and>
    sc_bytes2apdu ([a_cla a, a_ins a, a_p1 a, a_p2 a] @ body) = Inr a' \<and> same_command a' a"
proof -
  let ?d = "take (a_lc a) (mem (a_data a))"
  have f: "final_cse (a_cse a)" and c: "sc_check_apdu caps a = Inr ()" and n: "\<not> chaining a"
    using e by (simp_all add: encodable_def)
  have d: "length ?d = a_lc a"
    using e check_apdu_data [OF c] by (simp add: encodable_def apdu_wf_def)
  note b = check_apdu_short_bounds [OF c _ n] check_apdu_ext_bounds [OF c]
  show ?thesis using f
  proof (cases rule: final_cseE)
    case 1
    with c show ?thesis
      by (auto simp: apdu_body_def sc_bytes2apdu_def same_command_def zero_apdu_def sc_check_apdu_def
          Let_def t split: if_splits)
  next
    case 2
    with c e b show ?thesis
      by (auto simp: apdu_body_def bytes2apdu_header same_command_def zero_apdu_def parse_short_le
          sc_check_apdu_def encodable_def Let_def t split: if_splits)
  next
    case 3
    with c d b t show ?thesis
      by (auto simp: apdu_body_def bytes2apdu_header same_command_def zero_apdu_def parse_short_data
          sc_check_apdu_def unat_of_nat Let_def word_of_nat_eq_0_iff dest: nat_dvd_not_less split: if_splits)
  next
    case 4
    with c d b e t show ?thesis
      by (auto simp: apdu_body_def bytes2apdu_header same_command_def zero_apdu_def parse_short_data_le
          sc_check_apdu_def encodable_def Let_def word_of_nat_eq_0_iff dest: nat_dvd_not_less split: if_splits)
  next
    case 5
    with c b e t show ?thesis
      by (auto simp: apdu_body_def bytes2apdu_header same_command_def zero_apdu_def parse_ext_le
          sc_check_apdu_def encodable_def Let_def split: if_splits)
  next
    case 6
    with c b d t parse_ext_data [OF d] show ?thesis
      by (auto simp: apdu_body_def bytes2apdu_header same_command_def zero_apdu_def
          sc_check_apdu_def Let_def split: if_splits)
  next
    case 7
    with c b d e t parse_ext_data_le [OF d] show ?thesis
      by (auto simp: apdu_body_def bytes2apdu_header same_command_def zero_apdu_def
          sc_check_apdu_def encodable_def Let_def split: if_splits)
  qed
qed

lemma encodable_not_t0: "proto \<noteq> SC_PROTO_T0 \<Longrightarrow> \<not> (a_cse a = SC_APDU_CASE_3_EXT \<and> proto = SC_PROTO_T0)"
  by simp

lemma encodable_lc: "encodable caps a \<Longrightarrow> a_lc a \<le> length (mem (a_data a))"
  by (auto simp: encodable_def apdu_wf_def dest: check_apdu_data)

section \<open>Properties\<close>


definition example_apdu :: sc_apdu where
  "example_apdu = zero_apdu\<lparr>a_cse := SC_APDU_CASE_4_SHORT, a_ins := 0xA4, a_p1 := 4,
     a_lc := 2, a_datalen := 2, a_data := Some [0xA0, 0x00],
     a_le := 256, a_resp := Some (replicate 261 0), a_resplen := 261\<rparr>"


text \<open>The T=0 encoding of an extended case 3 command loses its \<open>Lc\<close> byte: the data follows
  the header directly, and the last octet handed to the reader is the byte the allocator left
  there, although the length counts an \<open>Lc\<close> byte. (The short cases 3 and 4 and the extended
  case 4 do write it.)\<close>
theorem t0_case3_ext_omits_lc:
  assumes "a_cse a = SC_APDU_CASE_3_EXT" and "length dat = a_lc a" and "a_data a = Some dat"
    and "a_lc a \<le> 255" and "malloc (4 + a_lc a + 1) = Some junk" and "length junk = 4 + a_lc a + 1"
  shows "sc_apdu_get_octets malloc a SC_PROTO_T0 =
    Inr ([a_cla a, a_ins a, a_p1 a, a_p2 a] @ dat @ [last junk])"
proof -
  obtain xs x where junk: "junk = xs @ [x]" and xs: "length xs = 4 + a_lc a"
    using assms(6) by (cases junk rule: rev_cases) simp_all
  have n: "sc_apdu_get_length a SC_PROTO_T0 = 4 + a_lc a + 1"
    using assms(1) by (simp add: sc_apdu_get_length_def)
  have body: "apdu_body a SC_PROTO_T0 = Inr dat"
    using assms(1-4) by (simp add: apdu_body_def)
  show ?thesis
    using assms(2,5) xs
    by (simp add: sc_apdu_get_octets_def sc_apdu2bytes_def n body memcpy_at_0 junk)
qed

theorem t0_case3_ext_omits_lc_witness:
  "sc_apdu_get_octets (\<lambda>n. Some (replicate n 0xEE))
     (zero_apdu\<lparr>a_cse := SC_APDU_CASE_3_EXT, a_ins := 0xD6, a_lc := 2, a_data := Some [1, 2]\<rparr>)
     SC_PROTO_T0 = Inr [0, 0xD6, 0, 0, 1, 2, 0xEE]"
  using t0_case3_ext_omits_lc [where malloc = "\<lambda>n. Some (replicate n 0xEE)" and junk = "replicate 7 0xEE"
      and dat = "[1, 2]" and a = "zero_apdu\<lparr>a_cse := SC_APDU_CASE_3_EXT, a_ins := 0xD6, a_lc := 2,
        a_data := Some [1, 2]\<rparr>"]
  by (simp add: zero_apdu_def)

end
