(* ===== verification/Sc_Bytes.thy ===== *)
theory Sc_Bytes
  imports Sc_Errors "HOL-Library.Char_ord"
begin

text \<open>
  Hexadecimal text, numbers as bytes, compact TLV, object identifiers and paths
  (\<open>libopensc/sc.c\<close>).

  A C string is a \<open>string\<close> without its terminator. A buffer a function fills is the list of the
  bytes it has written; the size of the buffer is an argument. A path keeps the bytes in use of
  its array of \<open>SC_MAX_PATH_SIZE\<close> bytes, an object identifier its \<open>SC_MAX_OBJECT_ID_OCTETS\<close>
  numbers, unused ones being -1.
\<close>

section \<open>Hexadecimal text\<close>

definition hex_nibble :: "char \<Rightarrow> u8 option" where
  "hex_nibble c =
    (let n = of_char c :: nat in
     if 48 \<le> n \<and> n \<le> 57 then Some (of_nat (n - 48))
     else if 97 \<le> n \<and> n \<le> 102 then Some (of_nat (n - 97 + 10))
     else if 65 \<le> n \<and> n \<le> 70 then Some (of_nat (n - 65 + 10))
     else None)"

definition hex_separator :: "char \<Rightarrow> bool" where
  "hex_separator c \<longleftrightarrow> c = CHR '' '' \<or> c = CHR '':''"

text \<open>
  The first loop of \<open>sc_hex_to_bin\<close>. \<open>pend\<close> is the byte whose lower half is still missing, \<open>out\<close>
  what has been written; the loop stops at the end of the text or when the buffer is full.
\<close>

fun hex_loop ::
  "string \<Rightarrow> nat \<Rightarrow> u8 option \<Rightarrow> bytes \<Rightarrow> unit res \<times> string \<times> nat \<times> u8 option \<times> bytes" where
  "hex_loop [] left pend out = (Inr (), [], left, pend, out)"
| "hex_loop (c # cs) left pend out =
    (if left = 0 then (Inr (), c # cs, left, pend, out)
     else case hex_nibble c of
         Some nibble \<Rightarrow>
          (case pend of
             Some byte \<Rightarrow> hex_loop cs (left - 1) None (out @ [byte OR nibble])
           | None \<Rightarrow> hex_loop cs left (Some (push_bit 4 nibble)) out)
       | None \<Rightarrow>
          if hex_separator c then
            (if pend \<noteq> None then (Inl SC_ERROR_INVALID_ARGUMENTS, cs, left, pend, out)
             else hex_loop cs left pend out)
          else (Inl SC_ERROR_INVALID_ARGUMENTS, cs, left, pend, out))"

definition sc_hex_to_bin :: "string \<Rightarrow> nat \<Rightarrow> unit res \<times> bytes" where
  "sc_hex_to_bin ins outlen =
    (case hex_loop ins outlen None [] of
       (Inl e, _, _, _, out) \<Rightarrow> (Inl e, out)
     | (Inr _, rest, left, pend, out) \<Rightarrow>
        let (pend, out) =
              (if left = outlen \<and> pend \<noteq> None \<and> left \<noteq> 0 then (None, [drop_bit 4 (the pend)])
               else (pend, out))
        in if pend \<noteq> None then (Inl SC_ERROR_INVALID_ARGUMENTS, out)
           else if dropWhile hex_separator rest \<noteq> [] then (Inl SC_ERROR_BUFFER_TOO_SMALL, out)
           else (Inr (), out))"

definition hex_digit :: "u8 \<Rightarrow> char" where
  "hex_digit v = ''0123456789abcdef'' ! unat (v AND 0xF)"

definition hex_byte :: "u8 \<Rightarrow> string" where
  "hex_byte v = [hex_digit (drop_bit 4 v), hex_digit v]"

text \<open>\<open>sep\<close> is the separator, \<open>None\<close> for a call with \<open>in_sep = 0\<close>.\<close>

fun hex_text :: "char option \<Rightarrow> bytes \<Rightarrow> string" where
  "hex_text sep [] = []"
| "hex_text sep [v] = hex_byte v"
| "hex_text sep (v # vs) = hex_byte v @ (case sep of None \<Rightarrow> [] | Some c \<Rightarrow> [c]) @ hex_text sep vs"

definition sc_bin_to_hex :: "bytes \<Rightarrow> nat \<Rightarrow> char option \<Rightarrow> string res" where
  "sc_bin_to_hex ins out_len sep =
    (if (if sep \<noteq> None then out_len < length ins * 3 \<or> out_len < 1 else out_len < length ins * 2 + 1)
     then Inl SC_ERROR_BUFFER_TOO_SMALL
     else Inr (hex_text sep ins))"

text \<open>The characters \<open>isprint\<close> accepts in the C locale.\<close>

definition isprint :: "u8 \<Rightarrow> bool" where
  "isprint b \<longleftrightarrow> 0x20 \<le> b \<and> b \<le> 0x7E"

text \<open>\<open>n\<close> is the index of the byte under test; the first byte is never removed.\<close>

fun trim_loop :: "nat \<Rightarrow> bytes \<Rightarrow> nat \<Rightarrow> bytes \<times> nat" where
  "trim_loop 0 buf len = (buf, len)"
| "trim_loop (Suc n) buf len =
    (if \<not> isprint (buf ! Suc n) then trim_loop n (buf[Suc n := 0]) (len - 1) else (buf, len))"

definition sc_right_trim :: "bytes \<Rightarrow> nat \<Rightarrow> bytes \<times> nat" where
  "sc_right_trim buf len = (if len > 0 then trim_loop (len - 1) buf len else (buf, len))"

section \<open>Numbers as bytes\<close>

definition ulong2bebytes :: "u64 \<Rightarrow> bytes" where
  "ulong2bebytes x =
     [ucast (drop_bit 24 x AND 0xff), ucast (drop_bit 16 x AND 0xff),
      ucast (drop_bit 8 x AND 0xff), ucast (x AND 0xff)]"

definition ushort2bebytes :: "u16 \<Rightarrow> bytes" where
  "ushort2bebytes x = [ucast (drop_bit 8 x AND 0xff), ucast (x AND 0xff)]"

definition bebytes2ulong :: "bytes \<Rightarrow> u64" where
  "bebytes2ulong buf =
     push_bit 24 (ucast (buf ! 0)) OR push_bit 16 (ucast (buf ! 1)) OR
     push_bit 8 (ucast (buf ! 2)) OR ucast (buf ! 3)"

definition bebytes2ushort :: "bytes \<Rightarrow> u16" where
  "bebytes2ushort buf = push_bit 8 (ucast (buf ! 0)) OR ucast (buf ! 1)"

definition lebytes2ulong :: "bytes \<Rightarrow> u64" where
  "lebytes2ulong buf =
     push_bit 24 (ucast (buf ! 3)) OR push_bit 16 (ucast (buf ! 2)) OR
     push_bit 8 (ucast (buf ! 1)) OR ucast (buf ! 0)"

definition lebytes2ushort :: "bytes \<Rightarrow> u16" where
  "lebytes2ushort buf = push_bit 8 (ucast (buf ! 1)) OR ucast (buf ! 0)"

text \<open>\<open>sc_mem_reverse\<close> exchanges the byte at \<open>i\<close> with the one at \<open>len - 1 - i\<close>.\<close>

fun reverse_loop :: "nat \<Rightarrow> nat \<Rightarrow> bytes \<Rightarrow> nat \<Rightarrow> bytes" where
  "reverse_loop 0 i buf len = buf"
| "reverse_loop (Suc n) i buf len =
     reverse_loop n (Suc i) (buf[i := buf ! (len - 1 - i), len - 1 - i := buf ! i]) len"

definition sc_mem_reverse :: "bytes \<Rightarrow> bytes res" where
  "sc_mem_reverse buf =
    (if buf = [] then Inl SC_ERROR_INVALID_ARGUMENTS
     else Inr (reverse_loop (length buf div 2) 0 buf (length buf)))"

section \<open>Compact TLV\<close>

text \<open>The result is the position of the value and its length.\<close>

function compacttlv_loop :: "bytes \<Rightarrow> nat \<Rightarrow> u8 \<Rightarrow> nat \<Rightarrow> (nat \<times> nat) option" where
  "compacttlv_loop buf len tag idx =
    (if idx < len then
       let plain_tag = tag AND 0xF0;
           expected_len = unat (tag AND 0x0F);
           ctag = buf ! idx AND 0xF0;
           ctag_len = unat (buf ! idx AND 0x0F)
       in if ctag = plain_tag \<and> idx + ctag_len < len \<and>
             (expected_len = 0 \<or> expected_len = ctag_len)
          then Some (idx + 1, ctag_len)
          else compacttlv_loop buf len tag (idx + ctag_len + 1)
     else None)"
  by pat_completeness auto
termination
  by (relation "measure (\<lambda>(buf, len, tag, idx). len - idx)") (auto simp: Let_def)

declare compacttlv_loop.simps [simp del]

definition sc_compacttlv_find_tag :: "bytes \<Rightarrow> u8 \<Rightarrow> (nat \<times> nat) option" where
  "sc_compacttlv_find_tag buf tag = compacttlv_loop buf (length buf) tag 0"

section \<open>Object identifiers\<close>

abbreviation (input) SC_MAX_OBJECT_ID_OCTETS :: nat where "SC_MAX_OBJECT_ID_OCTETS \<equiv> 16"

type_synonym oid = "int list"

definition sc_init_oid :: oid where
  "sc_init_oid = replicate SC_MAX_OBJECT_ID_OCTETS (- 1)"

text \<open>\<open>strtol\<close> in base ten: white space, a sign, digits; the value saturates at the ends of \<open>long\<close>.\<close>

definition isdigit :: "char \<Rightarrow> bool" where
  "isdigit c \<longleftrightarrow> 48 \<le> (of_char c :: nat) \<and> (of_char c :: nat) \<le> 57"

definition isspace :: "char \<Rightarrow> bool" where
  "isspace c \<longleftrightarrow> (of_char c :: nat) \<in> {9, 10, 11, 12, 13, 32}"

definition digits_value :: "string \<Rightarrow> int" where
  "digits_value ds = foldl (\<lambda>v d. v * 10 + (int (of_char d) - 48)) 0 ds"

definition strtol10 :: "string \<Rightarrow> int \<times> string" where
  "strtol10 p =
    (let s = dropWhile isspace p;
         neg = (s \<noteq> [] \<and> hd s = CHR ''-'');
         s' = (if s \<noteq> [] \<and> (hd s = CHR ''-'' \<or> hd s = CHR ''+'') then tl s else s);
         ds = takeWhile isdigit s'
     in if ds = [] then (0, p)
        else let v = (if neg then - digits_value ds else digits_value ds)
             in (max (- (2 ^ 63)) (min (2 ^ 63 - 1) v), dropWhile isdigit s'))"

text \<open>The cast to a 32-bit \<open>int\<close>.\<close>

definition to_int32 :: "int \<Rightarrow> int" where
  "to_int32 v = sint (word_of_int v :: 32 word)"

definition sc_valid_oid :: "oid \<Rightarrow> bool" where
  "sc_valid_oid v \<longleftrightarrow>
     \<not> (v ! 0 = - 1 \<or> v ! 1 = - 1) \<and> \<not> (v ! 0 > 2 \<or> v ! 1 > 39) \<and>
     (\<exists>x \<in> set (take SC_MAX_OBJECT_ID_OCTETS v). x \<noteq> 0)"

text \<open>The loop over the components: \<open>n\<close> of them still fit, \<open>ii\<close> is the next one.\<close>

fun format_oid_loop :: "nat \<Rightarrow> nat \<Rightarrow> string \<Rightarrow> oid \<Rightarrow> oid option" where
  "format_oid_loop 0 ii p v = Some v"
| "format_oid_loop (Suc n) ii p v =
    (let (x, q) = strtol10 p; v' = v[ii := to_int32 x] in
     if q = [] then Some v'
     else if \<not> (hd q = CHR ''.'' \<and> tl q \<noteq> [] \<and> isdigit (hd (tl q))) then None
     else format_oid_loop n (Suc ii) (tl q) v')"

definition sc_format_oid :: "string \<Rightarrow> unit res \<times> oid" where
  "sc_format_oid ins =
    (case format_oid_loop SC_MAX_OBJECT_ID_OCTETS 0 ins sc_init_oid of
       None \<Rightarrow> (Inl SC_ERROR_INVALID_ARGUMENTS, sc_init_oid)
     | Some v \<Rightarrow> if sc_valid_oid v then (Inr (), v) else (Inl SC_ERROR_INVALID_ARGUMENTS, sc_init_oid))"

fun compare_oid_loop :: "nat \<Rightarrow> oid \<Rightarrow> oid \<Rightarrow> bool" where
  "compare_oid_loop 0 v w = True"
| "compare_oid_loop (Suc n) v w =
    (if hd v \<noteq> hd w then False else if hd v = - 1 then True else compare_oid_loop n (tl v) (tl w))"

definition sc_compare_oid :: "oid \<Rightarrow> oid \<Rightarrow> bool" where
  "sc_compare_oid v w = compare_oid_loop SC_MAX_OBJECT_ID_OCTETS v w"

section \<open>Paths\<close>

abbreviation (input) SC_MAX_PATH_SIZE :: nat where "SC_MAX_PATH_SIZE \<equiv> 16"
abbreviation (input) SC_PATH_TYPE_FILE_ID :: int where "SC_PATH_TYPE_FILE_ID \<equiv> 0"
abbreviation (input) SC_PATH_TYPE_DF_NAME :: int where "SC_PATH_TYPE_DF_NAME \<equiv> 1"
abbreviation (input) SC_PATH_TYPE_PATH :: int where "SC_PATH_TYPE_PATH \<equiv> 2"
abbreviation (input) SC_PATH_TYPE_PATH_PROT :: int where "SC_PATH_TYPE_PATH_PROT \<equiv> 3"
abbreviation (input) SC_PATH_TYPE_FROM_CURRENT :: int where "SC_PATH_TYPE_FROM_CURRENT \<equiv> 4"
abbreviation (input) SC_PATH_TYPE_PARENT :: int where "SC_PATH_TYPE_PARENT \<equiv> 5"

record sc_path =
  p_value :: bytes
  p_index :: int
  p_count :: int
  p_type :: int
  p_aid :: bytes

definition zero_path :: sc_path where
  "zero_path = \<lparr>p_value = [], p_index = 0, p_count = 0, p_type = 0, p_aid = []\<rparr>"

definition sc_path_set :: "int \<Rightarrow> bytes \<Rightarrow> int \<Rightarrow> int \<Rightarrow> sc_path res" where
  "sc_path_set ty val idx count =
    (if val = [] \<or> length val > SC_MAX_PATH_SIZE then Inl SC_ERROR_INVALID_ARGUMENTS
     else Inr (zero_path\<lparr>p_value := val, p_type := ty, p_index := idx, p_count := count\<rparr>))"

definition sc_format_path :: "string \<Rightarrow> sc_path" where
  "sc_format_path str =
    (let i = (str \<noteq> [] \<and> (hd str = CHR ''i'' \<or> hd str = CHR ''I''));
         ty = (if i then SC_PATH_TYPE_FILE_ID else SC_PATH_TYPE_PATH);
         (r, out) = sc_hex_to_bin (if i then tl str else str) SC_MAX_PATH_SIZE
     in zero_path\<lparr>p_value := out, p_type := (if r = Inr () then ty else 0), p_count := - 1\<rparr>)"

definition sc_append_path_id :: "sc_path \<Rightarrow> bytes \<Rightarrow> sc_path res" where
  "sc_append_path_id dest val =
    (if length (p_value dest) + length val > SC_MAX_PATH_SIZE then Inl SC_ERROR_INVALID_ARGUMENTS
     else Inr (dest\<lparr>p_value := p_value dest @ val\<rparr>))"

definition sc_append_file_id :: "sc_path \<Rightarrow> u32 \<Rightarrow> sc_path res" where
  "sc_append_file_id dest fid = sc_append_path_id dest [ucast (drop_bit 8 fid), ucast (fid AND 0xff)]"

definition sc_concatenate_path :: "sc_path \<Rightarrow> sc_path \<Rightarrow> sc_path res" where
  "sc_concatenate_path p1 p2 =
    (if p_type p1 = SC_PATH_TYPE_DF_NAME \<or> p_type p2 = SC_PATH_TYPE_DF_NAME then Inl SC_ERROR_NOT_SUPPORTED
     else if length (p_value p1) + length (p_value p2) > SC_MAX_PATH_SIZE then Inl SC_ERROR_INVALID_ARGUMENTS
     else Inr (zero_path\<lparr>p_value := p_value p1 @ p_value p2, p_type := SC_PATH_TYPE_PATH,
                p_index := p_index p2, p_count := p_count p2\<rparr>))"

definition sc_append_path :: "sc_path \<Rightarrow> sc_path \<Rightarrow> sc_path res" where
  "sc_append_path dest src = sc_concatenate_path dest src"

definition sc_path_print :: "nat \<Rightarrow> sc_path \<Rightarrow> string res" where
  "sc_path_print buflen path =
    (if buflen < length (p_value path) * 2 + length (p_aid path) * 2 + 3
     then Inl SC_ERROR_BUFFER_TOO_SMALL
     else Inr ((if p_aid path \<noteq> [] then hex_text None (p_aid path) @ ''::'' else []) @
               hex_text None (p_value path) @
               (if p_aid path = [] \<and> p_type path = SC_PATH_TYPE_DF_NAME then ''::'' else [])))"

definition sc_compare_path :: "sc_path \<Rightarrow> sc_path \<Rightarrow> bool" where
  "sc_compare_path p q \<longleftrightarrow> p_value p = p_value q"

definition sc_compare_path_prefix :: "sc_path \<Rightarrow> sc_path \<Rightarrow> bool" where
  "sc_compare_path_prefix prefix path \<longleftrightarrow>
    (if length (p_value prefix) > length (p_value path) then False
     else sc_compare_path (path\<lparr>p_value := take (length (p_value prefix)) (p_value path)\<rparr>) prefix)"

definition sc_get_mf_path :: sc_path where
  "sc_get_mf_path = zero_path\<lparr>p_value := [0x3f, 0x00], p_type := SC_PATH_TYPE_PATH\<rparr>"


section \<open>Lemmas on hexadecimal text\<close>

lemma nibble_of_digit:
  assumes "n < 16"
  shows "hex_nibble (''0123456789abcdef'' ! n) = Some (of_nat n)"
proof -
  have "list_all (\<lambda>n. hex_nibble (''0123456789abcdef'' ! n) = Some (of_nat n)) [0..<16]"
    by code_simp
  with assms show ?thesis by (simp add: list_all_iff)
qed

lemma unat_nibble: "unat (v AND 0xF :: u8) < 16"
proof -
  have "v AND 0xF \<le> (0xF :: u8)" by (rule word_and_le1)
  then have "unat (v AND 0xF) \<le> unat (0xF :: u8)" by (simp add: word_le_nat_alt)
  then show ?thesis by simp
qed

lemma hex_nibble_digit [simp]: "hex_nibble (hex_digit v) = Some (v AND 0xF)"
  by (simp add: hex_digit_def nibble_of_digit [OF unat_nibble])

lemma nibbles_join: "push_bit 4 (drop_bit 4 v AND 0xF) OR (v AND 0xF) = (v :: u8)"
proof (rule bit_word_eqI)
  fix n assume "n < LENGTH(8)"
  then have "n \<in> {0, 1, 2, 3, 4, 5, 6, 7}" by auto
  then show "bit (push_bit 4 (drop_bit 4 v AND 0xF) OR (v AND 0xF)) n = bit v n"
    by (auto simp: bit_simps)
qed

lemma nibbles_join_num: "push_bit 4 (drop_bit 4 v) AND 240 OR v AND 15 = (v :: u8)"
  using nibbles_join [of v] by simp

lemma hex_loop_byte:
  "hex_loop (hex_byte v @ s) (Suc left) None out = hex_loop s left None (out @ [v])"
  by (simp add: hex_byte_def nibbles_join_num)

lemma hex_loop_sep:
  "hex_separator c \<Longrightarrow> 0 < left \<Longrightarrow> hex_loop (c # s) left None out = hex_loop s left None out"
proof -
  assume c: "hex_separator c" "0 < left"
  then have "hex_nibble c = None"
    by (auto simp: hex_separator_def hex_nibble_def Let_def)
  with c show ?thesis by simp
qed

definition good_sep :: "char option \<Rightarrow> bool" where
  "good_sep sep \<longleftrightarrow> (case sep of None \<Rightarrow> True | Some c \<Rightarrow> hex_separator c)"

lemma hex_loop_text:
  "good_sep sep \<Longrightarrow> length bs \<le> left \<Longrightarrow>
   hex_loop (hex_text sep bs) left None out = (Inr (), [], left - length bs, None, out @ bs)"
proof (induction sep bs arbitrary: left out rule: hex_text.induct)
  case (1 sep)
  then show ?case by simp
next
  case (2 sep v)
  then obtain k where "left = Suc k" by (cases left) auto
  then show ?case using hex_loop_byte [of v "[]" k out] by simp
next
  case (3 sep v w vs)
  then obtain k where k: "left = Suc k" by (cases left) auto
  with "3.prems" have len: "length (w # vs) \<le> k" "0 < k" by auto
  have "hex_loop (hex_text sep (v # w # vs)) left None out =
      hex_loop ((case sep of None \<Rightarrow> [] | Some c \<Rightarrow> [c]) @ hex_text sep (w # vs)) k None (out @ [v])"
    unfolding k by (simp only: hex_text.simps hex_loop_byte)
  also have "\<dots> = hex_loop (hex_text sep (w # vs)) k None (out @ [v])"
    using "3.prems"(1) len(2)
    by (cases sep) (simp_all add: good_sep_def hex_loop_sep del: hex_loop.simps hex_text.simps)
  finally show ?case using "3.IH" [OF "3.prems"(1) len(1)] k by simp
qed

lemma hex_to_bin_text:
  "good_sep sep \<Longrightarrow> length bs \<le> n \<Longrightarrow> sc_hex_to_bin (hex_text sep bs) n = (Inr (), bs)"
  by (simp add: sc_hex_to_bin_def hex_loop_text)

text \<open>Hexadecimal text round trip: what \<open>sc_bin_to_hex\<close> writes, with no separator or with one
  \<open>sc_hex_to_bin\<close> knows, is read back as the same bytes, into any buffer they fit in.\<close>
theorem hex_roundtrip:
  assumes "good_sep sep" and "sc_bin_to_hex bs len sep = Inr s" and "length bs \<le> n"
  shows "sc_hex_to_bin s n = (Inr (), bs)"
  using assms by (auto simp: sc_bin_to_hex_def hex_to_bin_text split: if_splits)

theorem hex_roundtrip_witness:
  "sc_hex_to_bin ''3b:f9:96'' 3 = (Inr (), [0x3b, 0xf9, 0x96])"
proof (rule hex_roundtrip)
  show "good_sep (Some CHR '':'')" by (simp add: good_sep_def hex_separator_def)
  show "sc_bin_to_hex [0x3b, 0xf9, 0x96] 9 (Some CHR '':'') = Inr ''3b:f9:96''" by code_simp
qed simp

text \<open>\<open>sc_hex_to_bin\<close> writes within its buffer on every input.\<close>

lemma hex_loop_bound:
  "hex_loop s left pend out = (r, s', left', pend', out') \<Longrightarrow> length out' + left' = length out + left"
proof (induction s arbitrary: left pend out)
  case Nil
  then show ?case by simp
next
  case (Cons c cs)
  then show ?case by (auto split: if_splits option.splits dest!: Cons.IH)
qed

lemma hex_to_bin_bound: "length (snd (sc_hex_to_bin s n)) \<le> n"
proof -
  obtain r s' left pend out where l: "hex_loop s n None [] = (r, s', left, pend, out)"
    by (metis prod.exhaust)
  from hex_loop_bound [OF l] have "length out + left = n" by simp
  with l show ?thesis
    by (cases r) (auto simp: sc_hex_to_bin_def Let_def)
qed


section \<open>Numbers, reversal, compact TLV\<close>

lemma ucast_ff:
  "(ucast (x AND 0xff) :: u8) = ucast (x :: u64)" "(ucast (y AND 0xff) :: u8) = ucast (y :: u16)"
proof -
  have m: "(0xff :: u64) = mask 8" "(0xff :: u16) = mask 8" by (simp_all add: mask_eq_exp_minus_1)
  show "(ucast (x AND 0xff) :: u8) = ucast x" "(ucast (y AND 0xff) :: u8) = ucast y"
    unfolding m by (rule bit_word_eqI; simp add: bit_simps)+
qed

lemma ulong2bebytes_eq:
  "ulong2bebytes x = [ucast (drop_bit 24 x), ucast (drop_bit 16 x), ucast (drop_bit 8 x), ucast x]"
  "ushort2bebytes y = [ucast (drop_bit 8 y), ucast y]"
  unfolding ulong2bebytes_def ushort2bebytes_def ucast_ff by simp_all

lemma ulong_bytes_bits:
  assumes "n < 32"
  shows "bit (bebytes2ulong (ulong2bebytes x)) n = bit x n"
proof -
  consider "n < 8" | "8 \<le> n \<and> n < 16" | "16 \<le> n \<and> n < 24" | "24 \<le> n" by linarith
  then show ?thesis
    using assms by cases (auto simp: bebytes2ulong_def ulong2bebytes_eq bit_simps)
qed

lemma bebytes_ulong: "bebytes2ulong (ulong2bebytes x) = x AND 0xffffffff"
proof (rule bit_word_eqI)
  fix n assume "n < LENGTH(64)"
  have m: "(0xffffffff :: u64) = mask 32" by (simp add: mask_eq_exp_minus_1)
  show "bit (bebytes2ulong (ulong2bebytes x)) n = bit (x AND 0xffffffff) n"
  proof (cases "n < 32")
    case True
    with ulong_bytes_bits [of n x] show ?thesis unfolding m by (simp add: bit_simps)
  next
    case False
    then show ?thesis unfolding m by (auto simp: bit_simps bebytes2ulong_def ulong2bebytes_eq)
  qed
qed

lemma ushort_bytes: "bebytes2ushort (ushort2bebytes x) = x"
proof (rule bit_word_eqI)
  fix n assume "n < LENGTH(16)"
  then consider "n < 8" | "8 \<le> n \<and> n < 16" by fastforce
  then show "bit (bebytes2ushort (ushort2bebytes x)) n = bit x n"
    by cases (auto simp: bebytes2ushort_def ulong2bebytes_eq bit_simps)
qed

lemma lebytes_rev:
  "length b = 4 \<Longrightarrow> lebytes2ulong b = bebytes2ulong (rev b)"
  "length c = 2 \<Longrightarrow> lebytes2ushort c = bebytes2ushort (rev c)"
  by (simp_all add: lebytes2ulong_def bebytes2ulong_def lebytes2ushort_def bebytes2ushort_def rev_nth)

text \<open>Conversion of numbers to big-endian bytes and back: the low 32 (16) bits of the number
  survive, and the little-endian readers are the big-endian ones on the reversed bytes.\<close>
theorem number_bytes_roundtrip:
  "bebytes2ulong (ulong2bebytes x) = x AND 0xffffffff \<and>
   lebytes2ulong (rev (ulong2bebytes x)) = x AND 0xffffffff \<and>
   bebytes2ushort (ushort2bebytes y) = y \<and> lebytes2ushort (rev (ushort2bebytes y)) = y"
proof -
  have l: "length (rev (ulong2bebytes x)) = 4" "length (rev (ushort2bebytes y)) = 2"
    by (simp_all add: ulong2bebytes_def ushort2bebytes_def)
  show ?thesis
    using lebytes_rev(1) [OF l(1)] lebytes_rev(2) [OF l(2)] bebytes_ulong [of x] ushort_bytes [of y]
    by simp
qed

lemma reverse_loop_app:
  "length xs = i \<Longrightarrow> length zs = i \<Longrightarrow> n = length ys div 2 \<Longrightarrow> len = length ys + 2 * i \<Longrightarrow>
   reverse_loop n i (xs @ ys @ zs) len = xs @ rev ys @ zs"
proof (induction n arbitrary: i xs ys zs)
  case 0
  then have "length ys < 2" by simp
  then have "rev ys = ys" by (cases ys; cases "tl ys") auto
  then show ?case by simp
next
  case (Suc n)
  then have two: "2 \<le> length ys" by simp
  then obtain a ys' where ys': "ys = a # ys'" "ys' \<noteq> []" by (cases ys; cases "tl ys") auto
  define mid b where "mid = butlast ys'" and "b = last ys'"
  have ys: "ys = a # mid @ [b]" using ys' by (simp add: mid_def b_def)
  have "(xs @ ys @ zs) ! i = a" "(xs @ ys @ zs) ! (len - 1 - i) = b"
    using Suc.prems ys by (simp_all add: nth_append)
  moreover have "(xs @ ys @ zs)[i := b, len - 1 - i := a] = (xs @ [b]) @ mid @ (a # zs)"
    using Suc.prems ys by (simp add: list_update_append)
  ultimately have "reverse_loop (Suc n) i (xs @ ys @ zs) len =
      reverse_loop n (Suc i) ((xs @ [b]) @ mid @ (a # zs)) len" by simp
  also have "\<dots> = (xs @ [b]) @ rev mid @ (a # zs)"
    using Suc.prems ys by (intro Suc.IH) simp_all
  finally show ?case using ys by simp
qed

lemma mem_reverse_rev: "buf \<noteq> [] \<Longrightarrow> sc_mem_reverse buf = Inr (rev buf)"
  using reverse_loop_app [of "[]" 0 "[]" "length buf div 2" buf "length buf"]
  by (simp add: sc_mem_reverse_def)

lemma compacttlv_sound:
  "compacttlv_loop buf len tag idx = Some (pos, n) \<Longrightarrow>
    idx < pos \<and> pos + n \<le> len \<and> buf ! (pos - 1) AND 0xF0 = tag AND 0xF0 \<and>
    n = unat (buf ! (pos - 1) AND 0x0F) \<and> (tag AND 0x0F \<noteq> 0 \<longrightarrow> n = unat (tag AND 0x0F))"
proof (induction buf len tag idx rule: compacttlv_loop.induct)
  case (1 buf len tag idx)
  show ?case
  proof (cases "idx < len \<and> \<not> (buf ! idx AND 0xF0 = tag AND 0xF0 \<and> idx + unat (buf ! idx AND 0x0F) < len \<and>
        (unat (tag AND 0x0F) = 0 \<or> unat (tag AND 0x0F) = unat (buf ! idx AND 0x0F)))")
    case True
    with "1.prems" have "compacttlv_loop buf len tag (idx + unat (buf ! idx AND 0x0F) + 1) = Some (pos, n)"
      by (subst (asm) compacttlv_loop.simps) (auto simp: Let_def)
    with "1.IH" [OF _ refl refl refl refl] True show ?thesis by auto
  next
    case False
    with "1.prems" show ?thesis
      by (subst (asm) compacttlv_loop.simps) (auto simp: Let_def unat_eq_0 split: if_splits)
  qed
qed

text \<open>A compact TLV search never leads outside its buffer: the value it reports lies within the
  buffer, directly after a header byte with the tag asked for and that length, which is the
  length asked for when the caller gave one.\<close>
theorem compacttlv_within:
  assumes "sc_compacttlv_find_tag buf tag = Some (pos, n)"
  shows "0 < pos \<and> pos + n \<le> length buf \<and> buf ! (pos - 1) AND 0xF0 = tag AND 0xF0 \<and>
    n = unat (buf ! (pos - 1) AND 0x0F) \<and> (tag AND 0x0F \<noteq> 0 \<longrightarrow> n = unat (tag AND 0x0F))"
  using compacttlv_sound [OF assms [unfolded sc_compacttlv_find_tag_def]] .

theorem compacttlv_within_witness:
  "sc_compacttlv_find_tag [0x31, 0xC0, 0x73, 0xF7, 0x01, 0x02] 0x70 = Some (3, 3) \<and> 3 + 3 \<le> (6 :: nat)"
proof -
  have r: "sc_compacttlv_find_tag [0x31, 0xC0, 0x73, 0xF7, 0x01, 0x02] 0x70 = Some (3, 3)"
    by (simp add: sc_compacttlv_find_tag_def compacttlv_loop.simps)
  with compacttlv_within [OF r] show ?thesis by simp
qed

section \<open>Lemmas on paths\<close>

lemma hex_text_hd: "bs \<noteq> [] \<Longrightarrow> hd (hex_text None bs) \<noteq> CHR ''i'' \<and> hd (hex_text None bs) \<noteq> CHR ''I''"
proof -
  assume "bs \<noteq> []"
  then obtain v vs where bs: "bs = v # vs" by (cases bs) auto
  have "hex_nibble (hd (hex_text None bs)) \<noteq> None"
    unfolding bs by (cases vs) (simp_all add: hex_byte_def)
  then show ?thesis by (auto simp: hex_nibble_def)
qed

text \<open>The text of a path reads back as the path: for a file path without an AID,
  \<open>sc_format_path\<close> applied to what \<open>sc_path_print\<close> printed gives the same bytes and type, with
  index 0 and count -1.\<close>
theorem path_print_format:
  assumes "p_type p = SC_PATH_TYPE_PATH" and "p_aid p = []" and "length (p_value p) \<le> SC_MAX_PATH_SIZE"
    and "sc_path_print n p = Inr s"
  shows "sc_format_path s = p\<lparr>p_index := 0, p_count := - 1\<rparr>"
proof -
  from assms have s: "s = hex_text None (p_value p)"
    by (auto simp: sc_path_print_def split: if_splits)
  have h: "sc_hex_to_bin s SC_MAX_PATH_SIZE = (Inr (), p_value p)"
    unfolding s using assms(3) by (intro hex_to_bin_text) (simp_all add: good_sep_def)
  have "\<not> (s \<noteq> [] \<and> (hd s = CHR ''i'' \<or> hd s = CHR ''I''))"
    using hex_text_hd [of "p_value p"] s by (cases "p_value p = []") auto
  with h assms(1,2) show ?thesis
    by (simp only: sc_format_path_def Let_def if_False prod.case) (simp add: zero_path_def)
qed

theorem path_print_format_witness:
  "sc_format_path ''3f0050154402'' =
    zero_path\<lparr>p_value := [0x3f, 0x00, 0x50, 0x15, 0x44, 0x02], p_type := SC_PATH_TYPE_PATH, p_count := - 1\<rparr>"
proof -
  let ?p = "zero_path\<lparr>p_value := [0x3f, 0x00, 0x50, 0x15, 0x44, 0x02], p_type := SC_PATH_TYPE_PATH, p_count := - 1\<rparr>"
  have "sc_path_print 64 ?p = Inr ''3f0050154402''" by code_simp
  from path_print_format [OF _ _ _ this] show ?thesis by (simp add: zero_path_def)
qed

text \<open>Concatenation and the prefix test agree: a concatenation that succeeds has the first path
  as a prefix, the second one's bytes after it, index and count of the second, and fits the
  array; it fails exactly when one path is an AID or the result would not fit.\<close>
theorem concatenate_prefix:
  "(\<forall>d. sc_concatenate_path p q = Inr d \<longrightarrow>
      sc_compare_path_prefix p d \<and> drop (length (p_value p)) (p_value d) = p_value q \<and>
      length (p_value d) \<le> SC_MAX_PATH_SIZE \<and> p_index d = p_index q \<and> p_count d = p_count q) \<and>
   ((\<exists>e. sc_concatenate_path p q = Inl e) \<longleftrightarrow>
      p_type p = SC_PATH_TYPE_DF_NAME \<or> p_type q = SC_PATH_TYPE_DF_NAME \<or>
      length (p_value p) + length (p_value q) > SC_MAX_PATH_SIZE)"
  by (auto simp: sc_concatenate_path_def sc_compare_path_prefix_def sc_compare_path_def)

theorem concatenate_prefix_witness:
  "sc_compare_path_prefix sc_get_mf_path
    (zero_path\<lparr>p_value := [0x3f, 0x00, 0x50, 0x15], p_type := SC_PATH_TYPE_PATH\<rparr>)"
proof -
  have "sc_concatenate_path sc_get_mf_path (zero_path\<lparr>p_value := [0x50, 0x15], p_type := SC_PATH_TYPE_PATH\<rparr>) =
      Inr (zero_path\<lparr>p_value := [0x3f, 0x00, 0x50, 0x15], p_type := SC_PATH_TYPE_PATH\<rparr>)"
    by (simp add: sc_concatenate_path_def sc_get_mf_path_def zero_path_def)
  with concatenate_prefix [of sc_get_mf_path "zero_path\<lparr>p_value := [0x50, 0x15], p_type := SC_PATH_TYPE_PATH\<rparr>"]
  show ?thesis by blast
qed

section \<open>Lemmas on object identifiers\<close>

lemma format_oid_loop_length:
  "format_oid_loop n ii p v = Some w \<Longrightarrow> length w = length v"
proof (induction n arbitrary: ii p v)
  case 0
  then show ?case by simp
next
  case (Suc n)
  then show ?case by (auto simp: Let_def split_beta split: if_splits dest!: Suc.IH)
qed

lemma format_oid_valid:
  "sc_format_oid s = (Inr (), v) \<Longrightarrow> sc_valid_oid v \<and> length v = SC_MAX_OBJECT_ID_OCTETS"
  using format_oid_loop_length [of SC_MAX_OBJECT_ID_OCTETS 0 s sc_init_oid]
  by (auto simp: sc_format_oid_def sc_init_oid_def split: option.splits if_splits)

text \<open>More components than the array holds are dropped silently: the text is accepted.\<close>

lemma format_oid_truncates:
  "sc_format_oid ''1.2.3.4.5.6.7.8.9.10.11.12.13.14.15.16.17'' =
    (Inr (), [1, 2, 3, 4, 5, 6, 7, 8, 9, 10, 11, 12, 13, 14, 15, 16])"
  by code_simp

lemma compare_oid_refl: "sc_compare_oid v v"
proof -
  have "compare_oid_loop n v v" for n v by (induction n arbitrary: v) simp_all
  then show ?thesis by (simp add: sc_compare_oid_def)
qed

end
