(* ===== verification/Sc_Card.thy ===== *)
theory Sc_Card
  imports Sc_Apdu Sc_Bytes
begin

text \<open>
  The card object: its state, the table of operations it calls, the lock that brackets every
  exchange, the transfer limits and the list of algorithms (\<open>libopensc/card.c\<close>,
  \<open>libopensc/sc.c\<close> for the mutexes).

  The record holds the fields of \<open>struct sc_card\<close> the modelled code reads or writes, those of
  its reader that bound a transfer, and \<open>c_env\<close>: the state outside the library, which is the
  reader (with the card in it) and the mutex. The functions that reach it are the arguments
  collected in \<open>sc_ops\<close>: the reader's \<open>transmit\<close>, \<open>lock\<close> and \<open>unlock\<close>, the application's
  mutex functions (an absent one is \<open>None\<close>), and the card driver's operations.
  Secure messaging (\<open>sm_ctx\<close>) is off throughout.
\<close>

section \<open>State\<close>

abbreviation (input) SC_ALGORITHM_RSA :: u32 where "SC_ALGORITHM_RSA \<equiv> 0"
abbreviation (input) SC_ALGORITHM_EC :: u32 where "SC_ALGORITHM_EC \<equiv> 2"
abbreviation (input) SC_ALGORITHM_EDDSA :: u32 where "SC_ALGORITHM_EDDSA \<equiv> 4"
abbreviation (input) SC_ALGORITHM_XEDDSA :: u32 where "SC_ALGORITHM_XEDDSA \<equiv> 5"

abbreviation (input) SC_ALGORITHM_RSA_RAW :: u64 where "SC_ALGORITHM_RSA_RAW \<equiv> 0x01"
abbreviation (input) SC_ALGORITHM_RSA_PAD_PKCS1_TYPE_01 :: u64 where
  "SC_ALGORITHM_RSA_PAD_PKCS1_TYPE_01 \<equiv> 0x40"
abbreviation (input) SC_ALGORITHM_RSA_PAD_PKCS1_TYPE_02 :: u64 where
  "SC_ALGORITHM_RSA_PAD_PKCS1_TYPE_02 \<equiv> 0x80"
abbreviation (input) SC_ALGORITHM_RSA_PAD_PKCS1 :: u64 where "SC_ALGORITHM_RSA_PAD_PKCS1 \<equiv> 0xC0"
abbreviation (input) SC_ALGORITHM_RSA_HASH_NONE :: u64 where "SC_ALGORITHM_RSA_HASH_NONE \<equiv> 0x100"

record sc_algorithm_info =
  al_algorithm :: u32
  al_key_length :: nat
  al_flags :: u64
  al_exponent :: u64
  al_curve :: oid

record ('r, 'd) sc_card =
  c_cla :: u8
  c_type :: int
  c_caps :: u64
  c_max_send_size :: nat
  c_max_recv_size :: nat
  c_lock_count :: nat
  c_algorithms :: "sc_algorithm_info list"
  c_disable_hw_pkcs1_padding :: u64
  c_reader_protocol :: u32
  c_reader_max_send_size :: nat
  c_reader_max_recv_size :: nat
  c_env :: 'r
  c_drv_data :: "'d option"

record ('r, 'd) sc_ops =
  o_transmit :: "(sc_apdu \<times> 'r, unit) prog option"
  o_reader_lock :: "('r, unit) prog option"
  o_reader_unlock :: "('r, unit) prog option"
  o_mutex_lock :: "('r, unit) prog option"
  o_mutex_unlock :: "('r, unit) prog option"
  o_check_sw :: "(u32 \<Rightarrow> u32 \<Rightarrow> unit res) option"
  o_get_response :: "(nat \<Rightarrow> (('r, 'd) sc_card, nat \<times> bytes) prog) option"
  o_card_reader_lock_obtained :: "(nat \<Rightarrow> (('r, 'd) sc_card, unit) prog) option"

text \<open>An operation of the environment, run on a card.\<close>

definition on_env :: "('r, 'a) prog \<Rightarrow> (('r, 'd) sc_card, 'a) prog" where
  "on_env f c = (let (r, e) = f (c_env c) in (r, c\<lparr>c_env := e\<rparr>))"

lemma on_env_Inr: "f (c_env c) = (Inr x, e) \<Longrightarrow> on_env f c = (Inr x, c\<lparr>c_env := e\<rparr>)"
  by (simp add: on_env_def)

lemma on_env_lock_count [simp]: "on_env f c = (r, c') \<Longrightarrow> c_lock_count c' = c_lock_count c"
  by (auto simp: on_env_def split: prod.splits)

section \<open>Status words and formatting\<close>

definition sc_check_sw :: "('r, 'd) sc_ops \<Rightarrow> u32 \<Rightarrow> u32 \<Rightarrow> unit res" where
  "sc_check_sw ops sw1 sw2 =
    (case o_check_sw ops of None \<Rightarrow> Inl SC_ERROR_NOT_SUPPORTED | Some f \<Rightarrow> f sw1 sw2)"

definition sc_format_apdu :: "('r, 'd) sc_card \<Rightarrow> u32 \<Rightarrow> u8 \<Rightarrow> u8 \<Rightarrow> u8 \<Rightarrow> sc_apdu" where
  "sc_format_apdu c cse ins p1 p2 =
     zero_apdu\<lparr>a_cla := c_cla c, a_cse := cse, a_ins := ins, a_p1 := p1, a_p2 := p2\<rparr>"

section \<open>Transfer limits\<close>

definition sc_get_max_recv_size :: "('r, 'd) sc_card \<Rightarrow> nat" where
  "sc_get_max_recv_size c =
    (let m = c_max_recv_size c;
         m = (if c_caps c AND SC_CARD_CAP_APDU_EXT \<noteq> 0 then (if m = 0 then 65536 else m)
              else (if m = 0 then 256 else m))
     in if c_reader_max_recv_size c \<noteq> 0 \<and> c_reader_max_recv_size c < c_max_recv_size c
        then c_reader_max_recv_size c else m)"

definition sc_get_max_send_size :: "('r, 'd) sc_card \<Rightarrow> nat" where
  "sc_get_max_send_size c =
    (let m = c_max_send_size c;
         m = (if c_caps c AND SC_CARD_CAP_APDU_EXT \<noteq> 0 \<and> c_reader_protocol c \<noteq> SC_PROTO_T0
              then (if m = 0 then 65535 else m)
              else (if m = 0 then 255 else m))
     in if c_reader_max_send_size c \<noteq> 0 \<and> c_reader_max_send_size c < c_max_send_size c
        then c_reader_max_send_size c else m)"

lemma max_send_size_pos: "0 < sc_get_max_send_size c"
  by (simp add: sc_get_max_send_size_def Let_def)

lemma max_recv_size_pos: "0 < sc_get_max_recv_size c"
  by (simp add: sc_get_max_recv_size_def Let_def)

text \<open>Once the card's own limit is set, both limits are respected.\<close>

lemma max_recv_size_le:
  assumes "c_max_recv_size c \<noteq> 0"
  shows "sc_get_max_recv_size c \<le> c_max_recv_size c"
    and "c_reader_max_recv_size c \<noteq> 0 \<Longrightarrow> sc_get_max_recv_size c \<le> c_reader_max_recv_size c"
  using assms by (simp_all add: sc_get_max_recv_size_def Let_def)

lemma max_send_size_le:
  assumes "c_max_send_size c \<noteq> 0"
  shows "sc_get_max_send_size c \<le> c_max_send_size c"
    and "c_reader_max_send_size c \<noteq> 0 \<Longrightarrow> sc_get_max_send_size c \<le> c_reader_max_send_size c"
  using assms by (simp_all add: sc_get_max_send_size_def Let_def)

text \<open>The last step of \<open>sc_connect_card\<close> stores the computed limits in the card.\<close>

definition store_max_sizes :: "('r, 'd) sc_card \<Rightarrow> ('r, 'd) sc_card" where
  "store_max_sizes c =
    (let c = c\<lparr>c_max_recv_size := sc_get_max_recv_size c\<rparr>
     in c\<lparr>c_max_send_size := sc_get_max_send_size c\<rparr>)"

section \<open>Mutex and reader lock\<close>

definition sc_mutex_lock :: "('r, 'd) sc_ops \<Rightarrow> (('r, 'd) sc_card, unit) prog" where
  "sc_mutex_lock ops = (case o_mutex_lock ops of None \<Rightarrow> sret () | Some f \<Rightarrow> on_env f)"

definition sc_mutex_unlock :: "('r, 'd) sc_ops \<Rightarrow> (('r, 'd) sc_card, unit) prog" where
  "sc_mutex_unlock ops = (case o_mutex_unlock ops of None \<Rightarrow> sret () | Some f \<Rightarrow> on_env f)"

text \<open>
  The loop that retries the reader lock after a reset. \<open>r\<close> is the result of the last call,
  \<open>was_reset\<close> the counter, incremented by the test itself.
\<close>

definition lost_card :: "unit res \<Rightarrow> bool" where
  "lost_card r \<longleftrightarrow> r = Inl SC_ERROR_CARD_RESET \<or> r = Inl SC_ERROR_READER_REATTACHED"

function lock_loop ::
  "('r, unit) prog \<Rightarrow> unit res \<Rightarrow> nat \<Rightarrow> 'r \<Rightarrow> unit res \<times> nat \<times> 'r" where
  "lock_loop f r was_reset e =
    (if lost_card r then
       if was_reset > 4 then (r, Suc was_reset, e)
       else case f e of (r', e') \<Rightarrow> lock_loop f r' (Suc was_reset) e'
     else (r, was_reset, e))"
  by pat_completeness auto
termination
  by (relation "measure (\<lambda>(f, r, w, e). 5 - w)") auto

declare lock_loop.simps [simp del]

text \<open>The first half of \<open>sc_lock\<close>: the reader's lock, taken when no one holds the card.\<close>

definition acquire_reader ::
  "('r, 'd) sc_ops \<Rightarrow> ('r, 'd) sc_card \<Rightarrow> unit res \<times> nat \<times> bool \<times> ('r, 'd) sc_card" where
  "acquire_reader ops c =
    (if c_lock_count c = 0 then
       (case o_reader_lock ops of
          None \<Rightarrow> (Inr (), 0, False, c)
        | Some f \<Rightarrow>
           let (r, e) = f (c_env c); (r, was_reset, e) = lock_loop f r 0 e
           in (r, was_reset, r = Inr (), c\<lparr>c_env := e\<rparr>))
     else (Inr (), 0, False, c))"

definition sc_lock :: "('r, 'd) sc_ops \<Rightarrow> (('r, 'd) sc_card, unit) prog" where
  "sc_lock ops c0 =
    (case sc_mutex_lock ops c0 of
       (Inl e, c) \<Rightarrow> (Inl e, c)
     | (Inr _, c) \<Rightarrow>
        let (r, was_reset, reader_lock_obtained, c) = acquire_reader ops c;
            c = (if r = Inr () then c\<lparr>c_lock_count := c_lock_count c + 1\<rparr> else c);
            (r2, c) = sc_mutex_unlock ops c;
            r = (if r2 \<noteq> Inr () then (if r \<noteq> Inr () then r else r2) else r)
        in case o_card_reader_lock_obtained ops of
             Some g \<Rightarrow>
               (if r = Inr () \<and> reader_lock_obtained then (r, snd (g was_reset c)) else (r, c))
           | None \<Rightarrow> (r, c))"

definition sc_unlock :: "('r, 'd) sc_ops \<Rightarrow> (('r, 'd) sc_card, unit) prog" where
  "sc_unlock ops c0 =
    (case sc_mutex_lock ops c0 of
       (Inl e, c) \<Rightarrow> (Inl e, c)
     | (Inr _, c) \<Rightarrow>
        if c_lock_count c < 1 then (Inl SC_ERROR_INVALID_ARGUMENTS, c)
        else
          let c = c\<lparr>c_lock_count := c_lock_count c - 1\<rparr>;
              (r, c) = (if c_lock_count c = 0 then
                          (case o_reader_unlock ops of None \<Rightarrow> (Inr (), c) | Some f \<Rightarrow> on_env f c)
                        else (Inr (), c));
              (r2, c) = sc_mutex_unlock ops c
          in ((if r2 \<noteq> Inr () then (if r = Inr () then r2 else r) else r), c))"

section \<open>Algorithms\<close>

definition sc_card_add_algorithm :: "sc_algorithm_info \<Rightarrow> ('r, 'd) sc_card \<Rightarrow> ('r, 'd) sc_card" where
  "sc_card_add_algorithm info c = c\<lparr>c_algorithms := c_algorithms c @ [info]\<rparr>"

definition sc_card_add_rsa_alg ::
  "nat \<Rightarrow> u64 \<Rightarrow> u64 \<Rightarrow> ('r, 'd) sc_card \<Rightarrow> ('r, 'd) sc_card" where
  "sc_card_add_rsa_alg key_length flags exponent c =
    (let both = SC_ALGORITHM_RSA_PAD_PKCS1 OR SC_ALGORITHM_RSA_RAW;
         dis = c_disable_hw_pkcs1_padding c;
         flags1 =
           (if flags AND both = both then
              let f = (if dis AND SC_ALGORITHM_RSA_PAD_PKCS1_TYPE_01 \<noteq> 0
                       then flags AND NOT SC_ALGORITHM_RSA_PAD_PKCS1_TYPE_01 else flags)
              in (if dis AND SC_ALGORITHM_RSA_PAD_PKCS1_TYPE_02 \<noteq> 0
                  then f AND NOT SC_ALGORITHM_RSA_PAD_PKCS1_TYPE_02 else f)
            else flags)
     in sc_card_add_algorithm
          \<lparr>al_algorithm = SC_ALGORITHM_RSA, al_key_length = key_length, al_flags = flags1,
           al_exponent = exponent, al_curve = []\<rparr> c)"

text \<open>\<open>param\<close> is the curve to look for, \<open>None\<close> for a null pointer.\<close>

fun find_alg ::
  "u32 \<Rightarrow> nat \<Rightarrow> oid option \<Rightarrow> sc_algorithm_info list \<Rightarrow> sc_algorithm_info option" where
  "find_alg algorithm key_length param [] = None"
| "find_alg algorithm key_length param (info # infos) =
    (if param \<noteq> None \<and> al_algorithm info \<in> {SC_ALGORITHM_EC, SC_ALGORITHM_EDDSA, SC_ALGORITHM_XEDDSA} then
       (if sc_compare_oid (the param) (al_curve info) then Some info
        else find_alg algorithm key_length param infos)
     else if al_algorithm info \<noteq> algorithm then find_alg algorithm key_length param infos
     else if al_key_length info = key_length then Some info
     else find_alg algorithm key_length param infos)"

definition sc_card_find_rsa_alg :: "('r, 'd) sc_card \<Rightarrow> nat \<Rightarrow> sc_algorithm_info option" where
  "sc_card_find_rsa_alg c key_length =
     find_alg SC_ALGORITHM_RSA key_length None (c_algorithms c)"

section \<open>The lock as an interface\<close>

text \<open>
  Every exchange with the card runs between a lock and an unlock. The bracket of the source:
  a failed lock ends the operation, a failed unlock is only logged.
\<close>

definition bracket :: "('s, unit) prog \<Rightarrow> ('s, unit) prog \<Rightarrow> ('s, 'a) prog \<Rightarrow> ('s, 'a) prog" where
  "bracket lk ul body s =
    (case lk s of
       (Inl e, s') \<Rightarrow> (Inl e, s')
     | (Inr _, s') \<Rightarrow> (let (r, s'') = body s' in (r, snd (ul s''))))"

lemma bracket_Inl: "lk s = (Inl e, s') \<Longrightarrow> bracket lk ul body s = (Inl e, s')"
  by (simp add: bracket_def)

lemma bracket_Inr:
  "lk s = (Inr (), s') \<Longrightarrow> body s' = (r, s'') \<Longrightarrow> bracket lk ul body s = (r, snd (ul s''))"
  by (simp add: bracket_def)

text \<open>A reentrant lock: what a holder may rely on. \<open>reliable\<close> says the platform's part works.\<close>

locale reentrant_lock =
  fixes lock :: "'c \<Rightarrow> ('s, unit) prog"
    and unlock :: "'c \<Rightarrow> ('s, unit) prog"
    and held :: "'s \<Rightarrow> nat"
    and reliable :: "'c \<Rightarrow> bool"
  assumes lock_ok: "reliable c \<Longrightarrow> lock c s = (Inr (), s') \<Longrightarrow> held s' = Suc (held s)"
    and lock_err: "reliable c \<Longrightarrow> lock c s = (Inl e, s') \<Longrightarrow> held s' = held s"
    and unlock_ok: "reliable c \<Longrightarrow> 0 < held s \<Longrightarrow> held (snd (unlock c s)) = held s - 1"
begin

lemma bracket_balanced:
  assumes "reliable c" and "\<And>s. held (snd (body s)) = held s"
  shows "held (snd (bracket (lock c) (unlock c) body s)) = held s"
proof (cases "lock c s")
  case (Pair r s')
  show ?thesis
  proof (cases r)
    case (Inl e)
    with Pair assms(1) show ?thesis by (simp add: bracket_Inl lock_err)
  next
    case (Inr u)
    with Pair assms(1) have "held s' = Suc (held s)" by (auto intro: lock_ok)
    moreover have "held (snd (body s')) = held s'" by (rule assms(2))
    ultimately show ?thesis
      using assms(1) Pair Inr by (simp add: bracket_def unlock_ok split_beta Let_def)
  qed
qed

lemma bracket_keeps:
  assumes rel: "reliable c" and lk: "keeps I (lock c)" and ul: "\<And>s. I s \<Longrightarrow> I (snd (unlock c s))"
    and body: "\<And>n. keeps (\<lambda>s. I s \<and> held s = Suc n) body"
  shows "keeps (\<lambda>s. I s \<and> held s = n) (bracket (lock c) (unlock c) body)"
proof (rule keepsI)
  fix s r s' assume s: "I s \<and> held s = n" and run: "bracket (lock c) (unlock c) body s = (r, s')"
  obtain q s1 where q: "lock c s = (q, s1)" by (cases "lock c s")
  with lk s have s1: "I s1" "q \<noteq> Inl OUT_OF_FUEL" by (auto dest: keepsD)
  show "(I s' \<and> held s' = n) \<and> r \<noteq> Inl OUT_OF_FUEL"
  proof (cases q)
    case (Inl e)
    with q have l: "lock c s = (Inl e, s1)" by simp
    from lock_err [OF rel l] run s s1 Inl show ?thesis by (auto simp: bracket_Inl [of "lock c", OF l])
  next
    case (Inr u)
    with q have l: "lock c s = (Inr (), s1)" by simp
    obtain q2 s2 where b: "body s1 = (q2, s2)" by (cases "body s1")
    have "I s1 \<and> held s1 = Suc n" using lock_ok [OF rel l] s s1 by simp
    from keepsD [OF body this b] have s2: "I s2" "held s2 = Suc n" "q2 \<noteq> Inl OUT_OF_FUEL" by auto
    from run have "r = q2" "s' = snd (unlock c s2)" by (simp_all add: bracket_Inr [of "lock c" _ _ body, OF l b])
    with s2 ul [OF s2(1)] unlock_ok [OF rel, of s2] show ?thesis by simp
  qed
qed

lemma held_in_body:
  assumes "reliable c" and "lock c s = (Inr (), s')"
  shows "0 < held s'"
  using lock_ok [OF assms] by simp

end

text \<open>
  The platform's part: the mutex functions succeed, and the driver's hook for a fresh lock
  leaves the lock count alone.
\<close>

definition lock_reliable :: "('r, 'd) sc_ops \<Rightarrow> bool" where
  "lock_reliable ops \<longleftrightarrow>
     (\<forall>f e. o_mutex_lock ops = Some f \<longrightarrow> fst (f e) = Inr ()) \<and>
     (\<forall>f e. o_mutex_unlock ops = Some f \<longrightarrow> fst (f e) = Inr ()) \<and>
     (\<forall>g w c. o_card_reader_lock_obtained ops = Some g \<longrightarrow> c_lock_count (snd (g w c)) = c_lock_count c)"

lemma lock_reliableD:
  assumes "lock_reliable ops"
  shows "o_mutex_lock ops = Some f \<Longrightarrow> fst (f e) = Inr ()"
    and "o_mutex_unlock ops = Some f \<Longrightarrow> fst (f e) = Inr ()"
    and "o_card_reader_lock_obtained ops = Some g \<Longrightarrow> c_lock_count (snd (g w c)) = c_lock_count c"
  using assms unfolding lock_reliable_def by blast+

lemma fst_on_env: "fst (on_env f c) = fst (f (c_env c))"
  and snd_on_env: "snd (on_env f c) = c\<lparr>c_env := snd (f (c_env c))\<rparr>"
  by (simp_all add: on_env_def split_beta)

lemma reliable_mutex:
  assumes "lock_reliable ops"
  shows "fst (sc_mutex_lock ops c) = Inr ()" and "fst (sc_mutex_unlock ops c) = Inr ()"
  using lock_reliableD(1,2) [OF assms]
  by (auto simp: sc_mutex_lock_def sc_mutex_unlock_def fst_on_env split: option.split)

lemma mutex_lock_count [simp]:
  "c_lock_count (snd (sc_mutex_lock ops c)) = c_lock_count c"
  "c_lock_count (snd (sc_mutex_unlock ops c)) = c_lock_count c"
  by (auto simp: sc_mutex_lock_def sc_mutex_unlock_def snd_on_env split: option.split)

lemma acquire_reader_lock_count [simp]:
  "c_lock_count (snd (snd (snd (acquire_reader ops c)))) = c_lock_count c"
  by (cases "o_reader_lock ops") (simp_all add: acquire_reader_def split_beta Let_def)

text \<open>With a working platform the lock is: the reader's lock, then the count, then the hook.\<close>

lemma sc_lock_count:
  assumes "lock_reliable ops"
  shows "c_lock_count (snd (sc_lock ops c)) =
    (if fst (sc_lock ops c) = Inr () then Suc (c_lock_count c) else c_lock_count c)"
proof -
  note m = reliable_mutex [OF assms]
  obtain c1 where c1: "sc_mutex_lock ops c = (Inr (), c1)" "c_lock_count c1 = c_lock_count c"
    using m(1) [of c] mutex_lock_count(1) [of ops c] by (metis prod.collapse)
  show ?thesis
  proof (cases "o_card_reader_lock_obtained ops")
    case None
    then show ?thesis by (simp add: sc_lock_def c1 m(2) split_beta Let_def)
  next
    case (Some g)
    then show ?thesis
      by (simp add: sc_lock_def c1 m(2) lock_reliableD(3) [OF assms Some] split_beta Let_def)
  qed
qed

lemma sc_unlock_count:
  assumes "lock_reliable ops" and "0 < c_lock_count c"
  shows "c_lock_count (snd (sc_unlock ops c)) = c_lock_count c - 1"
proof -
  note m = reliable_mutex [OF assms(1)]
  obtain c1 where c1: "sc_mutex_lock ops c = (Inr (), c1)" "c_lock_count c1 = c_lock_count c"
    using m(1) [of c] mutex_lock_count(1) [of ops c] by (metis prod.collapse)
  show ?thesis
    using assms(2) by (cases "o_reader_unlock ops") (simp_all add: sc_unlock_def c1 m(2) fst_on_env snd_on_env split_beta Let_def)
qed

interpretation card_lock: reentrant_lock sc_lock sc_unlock c_lock_count lock_reliable
proof
  fix ops :: "('a, 'b) sc_ops" and c c' :: "('a, 'b) sc_card" and e
  assume r: "lock_reliable ops"
  show "c_lock_count c' = Suc (c_lock_count c)" if "sc_lock ops c = (Inr (), c')"
    using sc_lock_count [OF r, of c] that by simp
  show "c_lock_count c' = c_lock_count c" if "sc_lock ops c = (Inl e, c')"
    using sc_lock_count [OF r, of c] that by simp
  show "c_lock_count (snd (sc_unlock ops c)) = c_lock_count c - 1" if "0 < c_lock_count c"
    using sc_unlock_count [OF r that] .
qed

text \<open>The lock and the unlock keep what the reader's and the mutex's functions keep.\<close>

lemma keeps_on_env:
  assumes "keeps P f" shows "keeps (\<lambda>c. P (c_env c)) (on_env f)"
proof (rule keepsI)
  fix c c' :: "('a, 'c) sc_card" and r assume "P (c_env c)" and "on_env f c = (r, c')"
  with keepsD [OF assms, of "c_env c"] show "P (c_env c') \<and> r \<noteq> Inl OUT_OF_FUEL"
    by (auto simp: on_env_def split: prod.splits)
qed

lemma keeps_mutex:
  assumes "\<And>f. o_mutex_lock ops = Some f \<Longrightarrow> keeps P f" and "\<And>f. o_mutex_unlock ops = Some f \<Longrightarrow> keeps P f"
  shows "keeps (\<lambda>c. P (c_env c)) (sc_mutex_lock ops)" and "keeps (\<lambda>c. P (c_env c)) (sc_mutex_unlock ops)"
  using assms by (auto simp: sc_mutex_lock_def sc_mutex_unlock_def keeps_on_env split: option.split)

lemma lock_loop_keeps:
  assumes "keeps P f"
  shows "P e \<Longrightarrow> r \<noteq> Inl OUT_OF_FUEL \<Longrightarrow>
    P (snd (snd (lock_loop f r w e))) \<and> fst (lock_loop f r w e) \<noteq> Inl OUT_OF_FUEL"
  using assms
proof (induction f r w e rule: lock_loop.induct)
  case (1 f r w e)
  obtain r' e' where e': "f e = (r', e')" by (cases "f e")
  show ?case
  proof (cases "lost_card r \<and> w \<le> 4")
    case True
    from keepsD [OF "1.prems"(3) "1.prems"(1) e'] have "P e'" "r' \<noteq> Inl OUT_OF_FUEL" by simp_all
    with True e' "1.IH" [OF _ _ e' [symmetric]] "1.prems"(3) show ?thesis
      by (subst (1 2) lock_loop.simps) simp
  next
    case False
    with "1.prems" show ?thesis by (subst (1 2) lock_loop.simps) auto
  qed
qed

lemma acquire_reader_keeps:
  assumes "\<And>f. o_reader_lock ops = Some f \<Longrightarrow> keeps P f" and "P (c_env c)"
  shows "P (c_env (snd (snd (snd (acquire_reader ops c))))) \<and> fst (acquire_reader ops c) \<noteq> Inl OUT_OF_FUEL"
proof (cases "o_reader_lock ops")
  case None
  with assms(2) show ?thesis by (simp add: acquire_reader_def)
next
  case (Some f)
  obtain r e where e: "f (c_env c) = (r, e)" by (cases "f (c_env c)")
  from keepsD [OF assms(1) [OF Some] assms(2) e] have "P e" "r \<noteq> Inl OUT_OF_FUEL" by simp_all
  from lock_loop_keeps [OF assms(1) [OF Some] this, of 0] Some e assms(2) show ?thesis
    by (simp add: acquire_reader_def split_beta Let_def)
qed

lemma sc_lock_keeps:
  assumes m: "\<And>f. o_mutex_lock ops = Some f \<Longrightarrow> keeps P f" "\<And>f. o_mutex_unlock ops = Some f \<Longrightarrow> keeps P f"
    and r: "\<And>f. o_reader_lock ops = Some f \<Longrightarrow> keeps P f"
    and h: "\<And>g w c. o_card_reader_lock_obtained ops = Some g \<Longrightarrow> P (c_env c) \<Longrightarrow> P (c_env (snd (g w c)))"
  shows "keeps (\<lambda>c. P (c_env c)) (sc_lock ops)"
proof (rule keepsI)
  fix c :: "('a, 'b) sc_card" and q c'
  assume c: "P (c_env c)" and run: "sc_lock ops c = (q, c')"
  obtain q1 c1 where 1: "sc_mutex_lock ops c = (q1, c1)" by (cases "sc_mutex_lock ops c")
  note km = keeps_mutex [of ops P, OF m]
  from keepsD [OF km(1) c 1] have c1: "P (c_env c1)" "q1 \<noteq> Inl OUT_OF_FUEL" by auto
  show "P (c_env c') \<and> q \<noteq> Inl OUT_OF_FUEL"
  proof (cases q1)
    case (Inl e)
    with run 1 c1 show ?thesis by (auto simp: sc_lock_def)
  next
    case (Inr u)
    obtain q2 w b c2 where 2: "acquire_reader ops c1 = (q2, w, b, c2)" by (metis prod.exhaust)
    with acquire_reader_keeps [of ops P c1, OF r c1(1)] have c2: "P (c_env c2)" "q2 \<noteq> Inl OUT_OF_FUEL" by auto
    define c3 where "c3 = (if q2 = Inr () then c2\<lparr>c_lock_count := c_lock_count c2 + 1\<rparr> else c2)"
    obtain q4 c4 where 4: "sc_mutex_unlock ops c3 = (q4, c4)" by (cases "sc_mutex_unlock ops c3")
    have "P (c_env c3)" using c2 by (simp add: c3_def)
    from keepsD [OF km(2) this 4] have c4: "P (c_env c4)" "q4 \<noteq> Inl OUT_OF_FUEL" by auto
    define q5 where "q5 = (if q4 \<noteq> Inr () then (if q2 \<noteq> Inr () then q2 else q4) else q2)"
    have q5: "q5 \<noteq> Inl OUT_OF_FUEL" using c2 c4 by (simp add: q5_def)
    have eq: "sc_lock ops c = (case o_card_reader_lock_obtained ops of
        Some g \<Rightarrow> (if q5 = Inr () \<and> b then (q5, snd (g w c4)) else (q5, c4)) | None \<Rightarrow> (q5, c4))"
      by (simp only: sc_lock_def 1 2 4 Inr c3_def [symmetric] q5_def [symmetric] Let_def prod.case sum.case)
    show ?thesis
    proof (cases "o_card_reader_lock_obtained ops")
      case None
      with run eq c4(1) q5 show ?thesis by simp
    next
      case (Some g)
      with run eq c4(1) q5 h [OF Some c4(1)] show ?thesis by (auto split: if_splits)
    qed
  qed
qed

lemma sc_unlock_keeps:
  assumes m: "\<And>f. o_mutex_lock ops = Some f \<Longrightarrow> keeps P f" "\<And>f. o_mutex_unlock ops = Some f \<Longrightarrow> keeps P f"
    and r: "\<And>f. o_reader_unlock ops = Some f \<Longrightarrow> keeps P f" and c: "P (c_env c)"
  shows "P (c_env (snd (sc_unlock ops c)))"
proof -
  obtain q1 c1 where 1: "sc_mutex_lock ops c = (q1, c1)" by (cases "sc_mutex_lock ops c")
  note km = keeps_mutex [of ops P, OF m]
  from keepsD [OF km(1) c 1] have c1: "P (c_env c1)" by auto
  show ?thesis
  proof (cases "q1 \<noteq> Inr () \<or> c_lock_count c1 < 1")
    case True
    with 1 c1 show ?thesis by (cases q1) (simp_all add: sc_unlock_def)
  next
    case False
    define c2 where "c2 = c1\<lparr>c_lock_count := c_lock_count c1 - 1\<rparr>"
    define p where "p = (if c_lock_count c2 = 0 then
        (case o_reader_unlock ops of None \<Rightarrow> (Inr (), c2) | Some f \<Rightarrow> on_env f c2) else (Inr (), c2))"
    have "P (c_env (snd p))"
      using c1 keeps_snd [OF r] by (auto simp: p_def c2_def snd_on_env split: option.split)
    then have "P (c_env (snd (sc_mutex_unlock ops (snd p))))"
      using keeps_snd [OF km(2)] by blast
    moreover have "snd (sc_unlock ops c) = snd (sc_mutex_unlock ops (snd p))"
      using False 1 by (cases "o_reader_unlock ops") (simp_all add: sc_unlock_def c2_def p_def split_beta Let_def)
    ultimately show ?thesis by simp
  qed
qed

text \<open>Without a driver hook, the lock changes the environment and the count only.\<close>

definition card_frame :: "('r, 'd) sc_card \<Rightarrow> ('r, 'd) sc_card \<Rightarrow> bool" where
  "card_frame c c' \<longleftrightarrow> (\<exists>n e. c' = c\<lparr>c_lock_count := n, c_env := e\<rparr>)"

lemma card_frame_refl [simp]: "card_frame c c"
  unfolding card_frame_def by (rule exI [of _ "c_lock_count c"], rule exI [of _ "c_env c"]) simp

lemma card_frame_upd:
  "card_frame c c' \<Longrightarrow> card_frame c (c'\<lparr>c_env := e\<rparr>)"
  "card_frame c c' \<Longrightarrow> card_frame c (c'\<lparr>c_lock_count := n\<rparr>)"
  unfolding card_frame_def by (cases c; auto)+

lemma card_frame_mutex:
  "card_frame c c' \<Longrightarrow> card_frame c (snd (sc_mutex_lock ops c'))"
  "card_frame c c' \<Longrightarrow> card_frame c (snd (sc_mutex_unlock ops c'))"
  by (simp_all add: sc_mutex_lock_def sc_mutex_unlock_def snd_on_env card_frame_upd split: option.split)

lemma card_frame_acquire:
  "card_frame c c' \<Longrightarrow> card_frame c (snd (snd (snd (acquire_reader ops c'))))"
  by (simp add: acquire_reader_def split_beta Let_def card_frame_upd split: option.split)

lemma sc_lock_frame:
  assumes "o_card_reader_lock_obtained ops = None" and "sc_lock ops c = (r, c')"
  shows "card_frame c c'"
proof -
  obtain q1 c1 where 1: "sc_mutex_lock ops c = (q1, c1)" by (cases "sc_mutex_lock ops c")
  with card_frame_mutex(1) [of c c ops] have f1: "card_frame c c1" by simp
  show ?thesis
  proof (cases q1)
    case (Inl e)
    with assms 1 f1 show ?thesis by (simp add: sc_lock_def)
  next
    case (Inr u)
    obtain q2 w b c2 where 2: "acquire_reader ops c1 = (q2, w, b, c2)" by (metis prod.exhaust)
    with card_frame_acquire [OF f1, of ops] have f2: "card_frame c c2" by simp
    define c3 where "c3 = (if q2 = Inr () then c2\<lparr>c_lock_count := c_lock_count c2 + 1\<rparr> else c2)"
    have "card_frame c c3" using f2 by (simp add: c3_def card_frame_upd)
    then have "card_frame c (snd (sc_mutex_unlock ops c3))" by (rule card_frame_mutex)
    moreover obtain q4 c4 where 4: "sc_mutex_unlock ops c3 = (q4, c4)" by (cases "sc_mutex_unlock ops c3")
    moreover have "snd (sc_lock ops c) = c4"
      by (simp only: sc_lock_def 1 2 4 Inr c3_def [symmetric] Let_def prod.case sum.case assms(1)
          option.case snd_conv)
    ultimately show ?thesis using assms(2) by simp
  qed
qed

section \<open>Lemmas on the lock\<close>

text \<open>The retry loop is bounded: six calls of the reader's lock at most, counting the first.\<close>

lemma lock_loop_was_reset:
  "w \<le> 5 \<Longrightarrow> fst (snd (lock_loop f r w e)) \<le> 6"
proof (induction f r w e rule: lock_loop.induct)
  case (1 f r w e)
  show ?case
  proof (cases "lost_card r \<and> w \<le> 4")
    case True
    with 1 show ?thesis
      by (subst lock_loop.simps) (auto split: prod.splits)
  next
    case False
    with "1.prems" show ?thesis by (subst lock_loop.simps) auto
  qed
qed

lemma lock_loop_result:
  "\<not> lost_card (fst (lock_loop f r w e)) \<or> fst (snd (lock_loop f r w e)) > 5"
proof (induction f r w e rule: lock_loop.induct)
  case (1 f r w e)
  show ?case
  proof (cases "lost_card r \<and> w \<le> 4")
    case True
    with 1 show ?thesis
      by (subst (1 2) lock_loop.simps) (auto split: prod.splits)
  next
    case False
    then show ?thesis by (subst (1 2) lock_loop.simps) auto
  qed
qed

text \<open>While the card is held, a nested lock does not reach the reader.\<close>

lemma nested_lock_no_reader:
  assumes "0 < c_lock_count c" and "o_mutex_lock ops = None" and "o_mutex_unlock ops = None"
  shows "sc_lock ops c = (Inr (), c\<lparr>c_lock_count := c_lock_count c + 1\<rparr>)"
  using assms
  by (cases "o_card_reader_lock_obtained ops")
    (simp_all add: sc_lock_def sc_mutex_lock_def sc_mutex_unlock_def acquire_reader_def)


section \<open>Properties\<close>

text \<open>A reader lock that counts its calls in the environment.\<close>

definition counted :: "('r, unit) prog \<Rightarrow> (nat \<times> 'r, unit) prog" where
  "counted f s = (let (r, e) = f (snd s) in (r, (Suc (fst s), e)))"

lemma counted_fst [simp]: "fst (snd (counted f s)) = Suc (fst s)"
  by (simp add: counted_def split_beta)

lemma lock_loop_attempts:
  "w \<le> 5 \<Longrightarrow> fst (snd (snd (lock_loop (counted f) r w s))) \<le> fst s + (5 - w)"
proof (induction "counted f" r w s rule: lock_loop.induct)
  case (1 r w s)
  show ?case
  proof (cases "lost_card r \<and> w \<le> 4")
    case True
    obtain r' s' where s': "counted f s = (r', s')" by (cases "counted f s")
    then have "fst s' = Suc (fst s)" using counted_fst [of f s] by simp
    with True s' "1.hyps" [of r' s'] show ?thesis
      by (subst lock_loop.simps) auto
  next
    case False
    with "1.prems" show ?thesis by (subst lock_loop.simps) auto
  qed
qed

lemma lock_loop_mono:
  "fst s \<le> fst (snd (snd (lock_loop (counted f) r w s)))"
proof (induction "counted f" r w s rule: lock_loop.induct)
  case (1 r w s)
  obtain r' s' where s': "counted f s = (r', s')" by (cases "counted f s")
  then have "fst s' = Suc (fst s)" using counted_fst [of f s] by simp
  with s' 1 [of r' s'] show ?case
    by (subst lock_loop.simps) (cases "lost_card r \<and> w \<le> 4"; auto)
qed


definition null_ops :: "('r, 'd) sc_ops" where
  "null_ops = \<lparr>o_transmit = None, o_reader_lock = None, o_reader_unlock = None, o_mutex_lock = None,
     o_mutex_unlock = None, o_check_sw = None, o_get_response = None,
     o_card_reader_lock_obtained = None\<rparr>"

definition plain_card :: "'r \<Rightarrow> ('r, unit) sc_card" where
  "plain_card e = \<lparr>c_cla = 0, c_type = 0, c_caps = 0, c_max_send_size = 0, c_max_recv_size = 0,
     c_lock_count = 0, c_algorithms = [], c_disable_hw_pkcs1_padding = 0,
     c_reader_protocol = SC_PROTO_T1, c_reader_max_send_size = 0, c_reader_max_recv_size = 0,
     c_env = e, c_drv_data = None\<rparr>"

text \<open>A card that is reset before each of the first two attempts.\<close>

definition reset_twice :: "(nat, unit) prog" where
  "reset_twice n = (if n < 2 then (Inl SC_ERROR_CARD_RESET, Suc n) else (Inr (), n))"

lemma reset_twice_lock:
  "sc_lock (null_ops\<lparr>o_reader_lock := Some (counted reset_twice)\<rparr>) (plain_card (0, 0)) =
   (Inr (), (plain_card (3, 2))\<lparr>c_lock_count := 1\<rparr>)"
  by (simp add: sc_lock_def sc_mutex_lock_def sc_mutex_unlock_def acquire_reader_def null_ops_def
      plain_card_def counted_def reset_twice_def lock_loop.simps lost_card_def)


text \<open>Releasing a card that is not held fails, and leaves the card's mutex locked: the mutex is
  taken, the reader is not touched and the mutex's unlock function is never called.\<close>
theorem unlock_unheld_keeps_mutex:
  assumes "o_mutex_lock ops = Some f" and "f (c_env c) = (Inr (), e)" and "c_lock_count c = 0"
  shows "sc_unlock ops c = (Inl SC_ERROR_INVALID_ARGUMENTS, c\<lparr>c_env := e\<rparr>)"
  using assms by (simp add: sc_unlock_def sc_mutex_lock_def on_env_def)

text \<open>The environment is the number of times the mutex is locked.\<close>

theorem unlock_unheld_keeps_mutex_witness:
  "sc_unlock (null_ops\<lparr>o_mutex_lock := Some (\<lambda>n. (Inr (), n + 1)), o_mutex_unlock := Some (\<lambda>n. (Inr (), n - 1))\<rparr>)
     (plain_card (0 :: nat)) = (Inl SC_ERROR_INVALID_ARGUMENTS, plain_card 1)"
  using unlock_unheld_keeps_mutex [of
    "null_ops\<lparr>o_mutex_lock := Some (\<lambda>n. (Inr (), n + 1)), o_mutex_unlock := Some (\<lambda>n. (Inr (), n - 1))\<rparr>"
    "\<lambda>n. (Inr (), n + 1)" "plain_card (0 :: nat)" 1]
  by (simp add: null_ops_def plain_card_def)

text \<open>After a card is connected, the transfer limits in force are the stored card limits capped
  by the reader's: never zero, never above a limit the reader states, and stable (storing them
  again changes what is in force no more).\<close>
theorem connected_limits:
  "let d = store_max_sizes c;
       cap = (\<lambda>reader m. if reader = 0 then m else min m reader) in
     0 < sc_get_max_send_size d \<and> 0 < sc_get_max_recv_size d \<and>
     sc_get_max_send_size d = cap (c_reader_max_send_size c) (c_max_send_size d) \<and>
     sc_get_max_recv_size d = cap (c_reader_max_recv_size c) (c_max_recv_size d) \<and>
     sc_get_max_send_size (store_max_sizes d) = sc_get_max_send_size d \<and>
     sc_get_max_recv_size (store_max_sizes d) = sc_get_max_recv_size d"
proof -
  have m: "0 < sc_get_max_send_size (c\<lparr>c_max_recv_size := x\<rparr>)" for x by (rule max_send_size_pos)
  have r: "0 < sc_get_max_recv_size c" by (rule max_recv_size_pos)
  have s: "sc_get_max_send_size x =
      (if c_reader_max_send_size x = 0 then c_max_send_size x
       else min (c_max_send_size x) (c_reader_max_send_size x))"
    if "0 < c_max_send_size x" for x :: "('r, 'd) sc_card"
    using that by (simp add: sc_get_max_send_size_def Let_def)
  have q: "sc_get_max_recv_size x =
      (if c_reader_max_recv_size x = 0 then c_max_recv_size x
       else min (c_max_recv_size x) (c_reader_max_recv_size x))"
    if "0 < c_max_recv_size x" for x :: "('r, 'd) sc_card"
    using that by (simp add: sc_get_max_recv_size_def Let_def)
  show ?thesis
    unfolding Let_def store_max_sizes_def
    using m r by (simp add: s q)
qed

text \<open>As long as the card's own limits are unset (as they are while drivers are matched and
  initialised), the limits stated by the reader have no effect: the sizes are the defaults of
  the APDU format, whatever the reader can transfer.\<close>
theorem reader_limits_ignored_until_set:
  assumes "c_max_send_size c = 0" and "c_max_recv_size c = 0"
  shows "sc_get_max_recv_size c = (if c_caps c AND SC_CARD_CAP_APDU_EXT \<noteq> 0 then 65536 else 256) \<and>
    sc_get_max_send_size c =
      (if c_caps c AND SC_CARD_CAP_APDU_EXT \<noteq> 0 \<and> c_reader_protocol c \<noteq> SC_PROTO_T0
       then 65535 else 255)"
  using assms by (simp add: sc_get_max_recv_size_def sc_get_max_send_size_def Let_def)

theorem reader_limits_ignored_until_set_witness:
  "sc_get_max_send_size ((plain_card ())\<lparr>c_reader_max_send_size := 64\<rparr>) = 255"
  using reader_limits_ignored_until_set [of "(plain_card ())\<lparr>c_reader_max_send_size := 64\<rparr>"]
  by (simp add: plain_card_def)

end
