(* ===== verification/Sc_Transmit.thy ===== *)
theory Sc_Transmit
  imports Sc_Card
begin

text \<open>
  The transfer of a command to the card (the upper half of \<open>libopensc/apdu.c\<close>): one exchange
  with the reader, the retry with the length the card asks for (\<open>6Cxx\<close>), the collection of the
  rest of a response (\<open>61xx\<close>, GET RESPONSE), the division of a long command into a chain, and
  the entry point \<open>sc_transmit_apdu\<close> that locks the card around them.

  The state of these operations is the APDU, which the caller owns and the callee changes,
  together with the card. The loop of \<open>sc_get_response\<close> ends only if the driver's GET RESPONSE
  makes progress; it runs on fuel, one unit per round. The fuel is the number of bytes
  still free in the caller's buffer, plus one, which is enough for a driver whose answer "more
  data follows" always carries a byte.
\<close>

type_synonym ('r, 'd) xfer = "sc_apdu \<times> ('r, 'd) sc_card"

definition on_card :: "(('r, 'd) sc_card, 'a) prog \<Rightarrow> (('r, 'd) xfer, 'a) prog" where
  "on_card f s = (case s of (a, c) \<Rightarrow> (let (r, c') = f c in (r, (a, c'))))"

section \<open>One exchange\<close>

definition sc_single_transmit :: "('r, 'd) sc_ops \<Rightarrow> (('r, 'd) xfer, unit) prog" where
  "sc_single_transmit ops s =
    (case s of (a, c) \<Rightarrow>
      (case o_transmit ops of
         None \<Rightarrow> (Inl SC_ERROR_NOT_SUPPORTED, (a, c))
       | Some tx \<Rightarrow> (case tx (a, c_env c) of (r, (a', e)) \<Rightarrow> (r, (a', c\<lparr>c_env := e\<rparr>)))))"

text \<open>The number of bytes a status word of the form \<open>61xx\<close> or \<open>6Cxx\<close> announces.\<close>

definition sw2_length :: "u32 \<Rightarrow> nat" where
  "sw2_length sw2 = (if sw2 \<noteq> 0 then unat sw2 else 256)"

definition sc_set_le_and_transmit :: "('r, 'd) sc_ops \<Rightarrow> nat \<Rightarrow> (('r, 'd) xfer, unit) prog" where
  "sc_set_le_and_transmit ops olen s =
    (case s of (a, c) \<Rightarrow>
      let nlen = sw2_length (a_sw2 a) in
      if olen < nlen then (Inl SC_ERROR_WRONG_LENGTH, (a, c))
      else sc_single_transmit ops
             (a\<lparr>a_flags := a_flags a OR SC_APDU_FLAGS_NO_RETRY_WL, a_resplen := olen, a_le := nlen\<rparr>, c))"

section \<open>GET RESPONSE\<close>

text \<open>
  The loop. \<open>off\<close> is where the next byte goes in the caller's buffer \<open>resp\<close>, \<open>buflen\<close> the room
  left, \<open>le\<close> the number of bytes to ask for.
\<close>

fun get_response_loop ::
  "nat \<Rightarrow> (nat \<Rightarrow> (('r, 'd) sc_card, nat \<times> bytes) prog) \<Rightarrow> nat \<Rightarrow> nat \<Rightarrow> nat \<Rightarrow> bytes \<Rightarrow>
   ('r, 'd) sc_card \<Rightarrow> unit res \<times> nat \<times> bytes \<times> ('r, 'd) sc_card" where
  "get_response_loop 0 gr off buflen le resp c = (Inl OUT_OF_FUEL, off, resp, c)"
| "get_response_loop (Suc fuel) gr off buflen le resp c =
    (if buflen = 0 then (Inr (), off, resp, c)
     else case gr le c of
         (Inl e, c') \<Rightarrow> (Inl e, off, resp, c')
       | (Inr (rv, data), c') \<Rightarrow>
          let n = min buflen (length data);
              resp' = memcpy_at resp off (take n data)
          in if rv = 0 then (Inr (), off + n, resp', c')
             else get_response_loop fuel gr (off + n) (buflen - n) rv resp' c')"

definition sc_get_response :: "('r, 'd) sc_ops \<Rightarrow> nat \<Rightarrow> (('r, 'd) xfer, unit) prog" where
  "sc_get_response ops olen s =
    (case s of (a, c) \<Rightarrow>
      if a_le a = 0 then (Inr (), (a\<lparr>a_sw1 := 0x90, a_sw2 := 0\<rparr>, c))
      else case o_get_response ops of
          None \<Rightarrow> (Inl SC_ERROR_NOT_SUPPORTED, (a, c))
        | Some gr \<Rightarrow>
           let buflen = olen - a_resplen a in
           (case get_response_loop (Suc buflen) gr (a_resplen a) buflen (sw2_length (a_sw2 a))
                   (mem (a_resp a)) c of
              (Inl e, off, resp, c') \<Rightarrow> (Inl e, (a\<lparr>a_resp := map_option (\<lambda>_. resp) (a_resp a)\<rparr>, c'))
            | (Inr _, off, resp, c') \<Rightarrow>
                (Inr (), (a\<lparr>a_resp := map_option (\<lambda>_. resp) (a_resp a), a_resplen := off,
                            a_sw1 := 0x90, a_sw2 := 0\<rparr>, c'))))"

section \<open>One command\<close>

definition has_flag :: "sc_apdu \<Rightarrow> u64 \<Rightarrow> bool" where
  "has_flag a f \<longleftrightarrow> a_flags a AND f \<noteq> 0"

definition retry_wl :: "('r, 'd) sc_ops \<Rightarrow> nat \<Rightarrow> (('r, 'd) xfer, unit) prog" where
  "retry_wl ops olen s =
    (if a_sw1 (fst s) = 0x6C \<and> \<not> has_flag (fst s) SC_APDU_FLAGS_NO_RETRY_WL
     then sc_set_le_and_transmit ops olen s else (Inr (), s))"

definition fetch_rest :: "('r, 'd) sc_ops \<Rightarrow> nat \<Rightarrow> (('r, 'd) xfer, unit) prog" where
  "fetch_rest ops olen s =
    (if a_sw1 (fst s) = 0x61 \<and> \<not> has_flag (fst s) SC_APDU_FLAGS_NO_GET_RESP
     then sc_get_response ops olen s else (Inr (), s))"

definition sc_transmit :: "('r, 'd) sc_ops \<Rightarrow> (('r, 'd) xfer, unit) prog" where
  "sc_transmit ops s =
    (let olen = a_resplen (fst s) in
     sbind (sc_single_transmit ops)
       (\<lambda>_. sbind (retry_wl ops olen) (\<lambda>_. fetch_rest ops olen)) s)"

section \<open>Command chaining\<close>

text \<open>The command for the next part of the data: \<open>buf\<close> is the rest, \<open>len\<close> its length.\<close>

definition chain_apdu :: "sc_apdu \<Rightarrow> nat \<Rightarrow> bytes \<Rightarrow> nat \<Rightarrow> sc_apdu" where
  "chain_apdu a max_send_size buf len =
    (let t = a\<lparr>a_flags := a_flags a AND NOT SC_APDU_FLAGS_CHAINING\<rparr>;
         plen = (if len > max_send_size then max_send_size else len);
         t = (if len > max_send_size then
                t\<lparr>a_cse := (if a_cse t AND SC_APDU_SHORT_MASK = SC_APDU_CASE_4_SHORT then a_cse t - 1
                            else a_cse t),
                  a_cla := a_cla t OR 0x10, a_le := 0, a_resplen := 0, a_resp := None\<rparr>
              else t)
     in t\<lparr>a_data := Some buf, a_datalen := plen, a_lc := plen\<rparr>)"

fun chain_loop ::
  "nat \<Rightarrow> ('r, 'd) sc_ops \<Rightarrow> nat \<Rightarrow> bytes \<Rightarrow> nat \<Rightarrow> (('r, 'd) xfer, unit) prog" where
  "chain_loop 0 ops max_send_size buf len s = ((if len = 0 then Inr () else Inl OUT_OF_FUEL), s)"
| "chain_loop (Suc fuel) ops max_send_size buf len (a, c) =
    (if len = 0 then (Inr (), (a, c))
     else
       let last = (\<not> len > max_send_size);
           plen = (if len > max_send_size then max_send_size else len);
           t = chain_apdu a max_send_size buf len
       in case sc_check_apdu (c_caps c) t of
            Inl e \<Rightarrow> (Inl e, (a, c))
          | Inr _ \<Rightarrow>
             (case sc_transmit ops (t, c) of
                (Inl e, (t, c)) \<Rightarrow>
                  (Inl e, ((if last then a\<lparr>a_resp := a_resp t\<rparr> else a), c))
              | (Inr _, (t, c)) \<Rightarrow>
                  if last then
                    chain_loop fuel ops max_send_size (drop plen buf) (len - plen)
                      (a\<lparr>a_sw1 := a_sw1 t, a_sw2 := a_sw2 t, a_resplen := a_resplen t,
                         a_resp := a_resp t\<rparr>, c)
                  else (case sc_check_sw ops (a_sw1 t) (a_sw2 t) of
                      Inl e \<Rightarrow> (Inl e, (a, c))
                    | Inr _ \<Rightarrow> chain_loop fuel ops max_send_size (drop plen buf) (len - plen) (a, c))))"

section \<open>The entry point\<close>

definition transmit_body :: "('r, 'd) sc_ops \<Rightarrow> (('r, 'd) xfer, unit) prog" where
  "transmit_body ops s =
    (case s of (a, c) \<Rightarrow>
      let (r, (a', c')) =
            (if chaining a
             then chain_loop (a_datalen a) ops (sc_get_max_send_size c) (mem (a_data a)) (a_datalen a) (a, c)
             else sc_transmit ops (a, c))
      in if lost_card r then
           (case o_card_reader_lock_obtained ops of
              None \<Rightarrow> (r, (a', c'))
            | Some g \<Rightarrow> (r, (a', snd (g 1 c'))))
         else (r, (a', c')))"

definition sc_transmit_apdu :: "('r, 'd) sc_ops \<Rightarrow> (('r, 'd) xfer, unit) prog" where
  "sc_transmit_apdu ops s =
    (case s of (a, c) \<Rightarrow>
      let a = sc_detect_apdu_cse (c_caps c) a in
      case sc_check_apdu (c_caps c) a of
        Inl _ \<Rightarrow> (Inl SC_ERROR_INVALID_ARGUMENTS, (a, c))
      | Inr _ \<Rightarrow>
          bracket (on_card (sc_lock ops)) (on_card (sc_unlock ops)) (transmit_body ops) (a, c))"


section \<open>The reader as an interface\<close>

text \<open>
  What the transfer layer relies on in the reader's \<open>transmit\<close>: it changes the response part of
  the APDU only, writes within the response buffer, and never reports more data than the room
  it was given.
\<close>

definition same_request :: "sc_apdu \<Rightarrow> sc_apdu \<Rightarrow> bool" where
  "same_request a b \<longleftrightarrow>
     (\<exists>r n s1 s2. a = b\<lparr>a_resp := r, a_resplen := n, a_sw1 := s1, a_sw2 := s2\<rparr>)"

definition keeps_room :: "sc_apdu \<Rightarrow> sc_apdu \<Rightarrow> bool" where
  "keeps_room a b \<longleftrightarrow> length (mem (a_resp a)) = length (mem (a_resp b)) \<and>
     (a_resp a = None \<longleftrightarrow> a_resp b = None)"

lemma same_requestD:
  assumes "same_request a b"
  shows "a_cse a = a_cse b" "a_cla a = a_cla b" "a_ins a = a_ins b" "a_p1 a = a_p1 b"
    "a_p2 a = a_p2 b" "a_lc a = a_lc b" "a_le a = a_le b" "a_data a = a_data b"
    "a_datalen a = a_datalen b" "a_control a = a_control b" "a_flags a = a_flags b"
  using assms by (auto simp: same_request_def)

lemma same_request_refl [simp]: "same_request a a"
  unfolding same_request_def
  by (rule exI [of _ "a_resp a"], rule exI [of _ "a_resplen a"], rule exI [of _ "a_sw1 a"],
      rule exI [of _ "a_sw2 a"]) simp

lemma keeps_room_refl [simp]: "keeps_room a a"
  and keeps_room_trans: "keeps_room a b \<Longrightarrow> keeps_room b c \<Longrightarrow> keeps_room a c"
  by (auto simp: keeps_room_def)

locale reader =
  fixes tx :: "(sc_apdu \<times> 'r, unit) prog"
    and env_ok :: "'r \<Rightarrow> bool"
  assumes request: "env_ok e \<Longrightarrow> tx (a, e) = (r, (a', e')) \<Longrightarrow> same_request a' a"
    and room: "env_ok e \<Longrightarrow> a_resplen a \<le> length (mem (a_resp a)) \<Longrightarrow> tx (a, e) = (r, (a', e')) \<Longrightarrow>
      keeps_room a' a \<and> a_resplen a' \<le> a_resplen a"
    and fuel: "env_ok e \<Longrightarrow> tx (a, e) = (r, (a', e')) \<Longrightarrow> r \<noteq> Inl OUT_OF_FUEL"
    and env: "env_ok e \<Longrightarrow> tx (a, e) = (r, (a', e')) \<Longrightarrow> env_ok e'"
    and status: "env_ok e \<Longrightarrow> a_sw2 a < 256 \<Longrightarrow> tx (a, e) = (r, (a', e')) \<Longrightarrow> a_sw2 a' < 256"


text \<open>What it relies on in the rest of the table: none of the functions that reach the environment
  breaks it, the lock is reliable, and GET RESPONSE answers "more data follows" only with data.\<close>

definition get_response_ok ::
  "('r \<Rightarrow> bool) \<Rightarrow> (nat \<Rightarrow> (('r, 'd) sc_card, nat \<times> bytes) prog) \<Rightarrow> bool" where
  "get_response_ok env_ok gr \<longleftrightarrow>
     (\<forall>le \<le> 256. \<forall>n. keeps (\<lambda>c. env_ok (c_env c) \<and> c_lock_count c = n) (gr le)) \<and>
     (\<forall>le \<le> 256. \<forall>c rv d c'. env_ok (c_env c) \<longrightarrow> gr le c = (Inr (rv, d), c') \<longrightarrow>
        rv \<le> 256 \<and> (rv \<noteq> 0 \<longrightarrow> d \<noteq> []))"

definition platform_ok :: "('r \<Rightarrow> bool) \<Rightarrow> ('r, 'd) sc_ops \<Rightarrow> bool" where
  "platform_ok env_ok ops \<longleftrightarrow> lock_reliable ops \<and>
     (\<forall>f \<in> set_option (o_reader_lock ops) \<union> set_option (o_reader_unlock ops) \<union>
        set_option (o_mutex_lock ops) \<union> set_option (o_mutex_unlock ops). keeps env_ok f) \<and>
     (\<forall>f \<in> set_option (o_check_sw ops). \<forall>a b. f a b \<noteq> Inl OUT_OF_FUEL) \<and>
     (\<forall>g \<in> set_option (o_card_reader_lock_obtained ops). \<forall>w c.
        env_ok (c_env c) \<longrightarrow> env_ok (c_env (snd (g w c)))) \<and>
     (\<forall>gr \<in> set_option (o_get_response ops). get_response_ok env_ok gr)"

text \<open>
  The invariant of a transfer: the response buffer keeps its size \<open>m\<close>, the reported length stays
  within the room \<open>olen\<close> the caller gave, the lock count is \<open>n\<close>.
\<close>

definition xfer_inv :: "('r \<Rightarrow> bool) \<Rightarrow> nat \<Rightarrow> nat \<Rightarrow> nat \<Rightarrow> ('r, 'd) xfer \<Rightarrow> bool" where
  "xfer_inv env_ok m olen n s \<longleftrightarrow>
     (case s of (a, c) \<Rightarrow> env_ok (c_env c) \<and> length (mem (a_resp a)) = m \<and> a_resplen a \<le> olen \<and>
        olen \<le> m \<and> c_lock_count c = n \<and> a_sw2 a < 256)"

lemma xfer_inv_apdu:
  "xfer_inv env_ok m olen n (a, c) \<Longrightarrow> a_resp a' = a_resp a \<Longrightarrow> a_resplen a' \<le> olen \<Longrightarrow>
   a_sw2 a' < 256 \<Longrightarrow> xfer_inv env_ok m olen n (a', c)"
  by (simp add: xfer_inv_def)

lemma check_apdu_no_fuel [simp]: "sc_check_apdu caps a \<noteq> Inl OUT_OF_FUEL"
  by (simp add: sc_check_apdu_def Let_def split: if_splits)

lemma get_response_loop_inv:
  assumes "get_response_ok env_ok gr"
  shows "get_response_loop fuel gr off buflen le resp c = (r, off', resp', c') \<Longrightarrow>
    buflen < fuel \<Longrightarrow> off + buflen \<le> length resp \<Longrightarrow> env_ok (c_env c) \<Longrightarrow> le \<le> 256 \<Longrightarrow>
    length resp' = length resp \<and> off \<le> off' \<and> off' \<le> off + buflen \<and> env_ok (c_env c') \<and>
    c_lock_count c' = c_lock_count c \<and> r \<noteq> Inl OUT_OF_FUEL \<and> take off resp' = take off resp"
proof (induction fuel arbitrary: off buflen le resp c)
  case 0
  from "0.prems"(2) show ?case by simp
next
  case (Suc fuel)
  show ?case
  proof (cases "buflen = 0")
    case True
    with Suc.prems show ?thesis by auto
  next
    case False
    obtain q c1 where q: "gr le c = (q, c1)" by (cases "gr le c")
    from assms have k: "keeps (\<lambda>x. env_ok (c_env x) \<and> c_lock_count x = c_lock_count c) (gr le)"
      using Suc.prems(5) unfolding get_response_ok_def by blast
    have c1: "env_ok (c_env c1)" "c_lock_count c1 = c_lock_count c" "q \<noteq> Inl OUT_OF_FUEL"
      using keepsD [OF k _ q] Suc.prems(4) by auto
    show ?thesis
    proof (cases q)
      case (Inl e)
      with q False Suc.prems c1 show ?thesis by auto
    next
      case (Inr p)
      obtain rv d where p: "p = (rv, d)" by (cases p)
      define n where "n = min buflen (length d)"
      define resp1 where "resp1 = memcpy_at resp off (take n d)"
      have n_le: "n \<le> buflen" by (simp add: n_def)
      have len: "length resp1 = length resp" and pre: "take off resp1 = take off resp"
        using Suc.prems(3) by (simp_all add: n_def resp1_def)
      show ?thesis
      proof (cases "rv = 0")
        case True
        with q Inr p False Suc.prems(1) have "r = Inr ()" "off' = off + n" "resp' = resp1" "c' = c1"
          by (simp_all add: Let_def n_def resp1_def)
        with c1 len pre n_le show ?thesis by simp
      next
        case rv: False
        with assms q Inr p Suc.prems(4,5) have d: "d \<noteq> []" "rv \<le> 256"
          unfolding get_response_ok_def by blast+
        from d(1) False have n: "0 < n" by (simp add: n_def)
        from Suc.prems(1) q Inr p False rv
        have "get_response_loop fuel gr (off + n) (buflen - n) rv resp1 c1 = (r, off', resp', c')"
          by (simp add: Let_def n_def resp1_def)
        moreover have "buflen - n < fuel" "off + n + (buflen - n) \<le> length resp1"
          using n n_le Suc.prems(2,3) len by linarith+
        ultimately have IH: "length resp' = length resp1 \<and> off + n \<le> off' \<and>
          off' \<le> off + n + (buflen - n) \<and> env_ok (c_env c') \<and> c_lock_count c' = c_lock_count c1 \<and>
          r \<noteq> Inl OUT_OF_FUEL \<and> take (off + n) resp' = take (off + n) resp1"
          using c1(1) d(2) by (rule Suc.IH)
        then have "take off resp' = take off resp1"
          by (metis le_add1 min.absorb1 take_take)
        with IH n_le c1(2) len pre show ?thesis by simp
      qed
    qed
  qed
qed

section \<open>What holds of every transfer\<close>

lemma if3: "\<not> (A \<and> B \<and> \<not> C) \<Longrightarrow>
    (if A \<and> B then if C then x else y else z) = x \<or> (if A \<and> B then if C then x else y else z) = z"
  by simp

lemma retry_wl_eq:
  "retry_wl ops olen (a, c) =
    (if a_sw1 a = 0x6C \<and> \<not> has_flag a SC_APDU_FLAGS_NO_RETRY_WL then
       if olen < sw2_length (a_sw2 a) then (Inl SC_ERROR_WRONG_LENGTH, (a, c))
       else sc_single_transmit ops
         (a\<lparr>a_flags := a_flags a OR SC_APDU_FLAGS_NO_RETRY_WL, a_resplen := olen,
            a_le := sw2_length (a_sw2 a)\<rparr>, c)
     else (Inr (), (a, c)))"
  by (simp add: retry_wl_def sc_set_le_and_transmit_def)

locale transfer = reader tx env_ok
  for tx :: "(sc_apdu \<times> 'r, unit) prog" and env_ok :: "'r \<Rightarrow> bool" +
  fixes ops :: "('r, 'd) sc_ops"
  assumes ops_tx: "o_transmit ops = Some tx"
    and platform: "platform_ok env_ok ops"
begin

lemma single_keeps: "keeps (xfer_inv env_ok m olen n) (sc_single_transmit ops)"
proof (rule keepsI)
  fix s :: "('r, 'd) xfer" and r s'
  assume inv: "xfer_inv env_ok m olen n s" and run: "sc_single_transmit ops s = (r, s')"
  obtain a c where s: "s = (a, c)" by (cases s)
  obtain q a' e where tx: "tx (a, c_env c) = (q, (a', e))" by (metis prod.exhaust)
  from inv s have i: "env_ok (c_env c)" "length (mem (a_resp a)) = m" "a_resplen a \<le> olen"
    "olen \<le> m" "c_lock_count c = n" "a_sw2 a < 256"
    by (simp_all add: xfer_inv_def)
  have rm: "keeps_room a' a" "a_resplen a' \<le> a_resplen a"
    using room [OF i(1) _ tx] i(2-4) by simp_all
  note sw2 = status [OF i(1,6) tx]
  from run s ops_tx tx have "r = q" "s' = (a', c\<lparr>c_env := e\<rparr>)"
    by (simp_all add: sc_single_transmit_def)
  with i rm sw2 fuel [OF i(1) tx] env [OF i(1) tx]
  show "xfer_inv env_ok m olen n s' \<and> r \<noteq> Inl OUT_OF_FUEL"
    by (simp add: xfer_inv_def keeps_room_def)
qed

lemma retry_keeps: "keeps (xfer_inv env_ok m olen n) (retry_wl ops olen)"
proof (rule keepsI)
  fix s :: "('r, 'd) xfer" and r s'
  assume inv: "xfer_inv env_ok m olen n s" and run: "retry_wl ops olen s = (r, s')"
  obtain a c where s: "s = (a, c)" by (cases s)
  let ?a = "a\<lparr>a_flags := a_flags a OR SC_APDU_FLAGS_NO_RETRY_WL, a_resplen := olen,
    a_le := sw2_length (a_sw2 a)\<rparr>"
  have a: "xfer_inv env_ok m olen n (?a, c)"
    using inv s by (simp add: xfer_inv_def)
  show "xfer_inv env_ok m olen n s' \<and> r \<noteq> Inl OUT_OF_FUEL"
  proof (cases "a_sw1 a = 0x6C \<and> \<not> has_flag a SC_APDU_FLAGS_NO_RETRY_WL \<and> \<not> olen < sw2_length (a_sw2 a)")
    case True
    with run s have "sc_single_transmit ops (?a, c) = (r, s')" by (simp only: retry_wl_eq if_True if_False simp_thms)
    then show ?thesis by (rule keepsD [OF single_keeps a])
  next
    case False
    have "retry_wl ops olen (a, c) = (Inl SC_ERROR_WRONG_LENGTH, (a, c)) \<or>
        retry_wl ops olen (a, c) = (Inr (), (a, c))"
      unfolding retry_wl_eq using if3 [OF False] .
    with run s have "s' = s \<and> r \<noteq> Inl OUT_OF_FUEL" by auto
    with inv show ?thesis by simp
  qed
qed

lemma get_response_keeps: "keeps (xfer_inv env_ok m olen n) (sc_get_response ops olen)"
proof (rule keepsI)
  fix s :: "('r, 'd) xfer" and r s'
  assume inv: "xfer_inv env_ok m olen n s" and run: "sc_get_response ops olen s = (r, s')"
  obtain a c where s: "s = (a, c)" by (cases s)
  from inv s have i: "env_ok (c_env c)" "length (mem (a_resp a)) = m" "a_resplen a \<le> olen"
    "olen \<le> m" "c_lock_count c = n" "a_sw2 a < 256"
    by (simp_all add: xfer_inv_def)
  have le: "sw2_length (a_sw2 a) \<le> 256"
    using i(6) by (auto simp: sw2_length_def word_less_nat_alt)
  show "xfer_inv env_ok m olen n s' \<and> r \<noteq> Inl OUT_OF_FUEL"
  proof (cases "a_le a = 0 \<or> o_get_response ops = None")
    case True
    then have "sc_get_response ops olen (a, c) = (Inl SC_ERROR_NOT_SUPPORTED, (a, c)) \<or>
        sc_get_response ops olen (a, c) = (Inr (), (a\<lparr>a_sw1 := 0x90, a_sw2 := 0\<rparr>, c))"
      by (cases "a_le a = 0") (simp_all add: sc_get_response_def)
    with run s have "r \<noteq> Inl OUT_OF_FUEL \<and> (s' = (a, c) \<or> s' = (a\<lparr>a_sw1 := 0x90, a_sw2 := 0\<rparr>, c))"
      by auto
    with i show ?thesis by (auto simp: xfer_inv_def)
  next
    case False
    then obtain gr where gr: "o_get_response ops = Some gr" by auto
    let ?b = "olen - a_resplen a"
    obtain q off resp c' where loop: "get_response_loop (Suc ?b) gr (a_resplen a) ?b
        (sw2_length (a_sw2 a)) (mem (a_resp a)) c = (q, off, resp, c')"
      by (metis prod.exhaust)
    from platform gr have ok: "get_response_ok env_ok gr" by (simp add: platform_ok_def)
    have b: "a_resplen a + ?b \<le> length (mem (a_resp a))" using i by simp
    note l = get_response_loop_inv [OF ok loop lessI b i(1) le]
    have m: "length (mem (map_option (\<lambda>_. resp) (a_resp a))) = m"
      using l i(2) by (cases "a_resp a") auto
    show ?thesis
    proof (cases q)
      case (Inl e)
      with run s gr loop False have "r = Inl e" "s' = (a\<lparr>a_resp := map_option (\<lambda>_. resp) (a_resp a)\<rparr>, c')"
        by (simp_all add: sc_get_response_def Let_def)
      with l m i Inl show ?thesis by (simp add: xfer_inv_def)
    next
      case (Inr u)
      with run s gr loop False have "r = Inr ()" "s' = (a\<lparr>a_resp := map_option (\<lambda>_. resp) (a_resp a),
          a_resplen := off, a_sw1 := 0x90, a_sw2 := 0\<rparr>, c')"
        by (simp_all add: sc_get_response_def Let_def)
      with l m i show ?thesis by (simp add: xfer_inv_def)
    qed
  qed
qed

lemma fetch_keeps: "keeps (xfer_inv env_ok m olen n) (fetch_rest ops olen)"
  using get_response_keeps [of m olen n] unfolding keeps_def by (auto simp: fetch_rest_def)

lemma transmit_keeps:
  assumes "xfer_inv env_ok m (a_resplen a) n (a, c)" and "sc_transmit ops (a, c) = (r, s')"
  shows "xfer_inv env_ok m (a_resplen a) n s' \<and> r \<noteq> Inl OUT_OF_FUEL"
proof -
  let ?o = "a_resplen a"
  have "keeps (xfer_inv env_ok m ?o n)
      (sbind (sc_single_transmit ops) (\<lambda>_. sbind (retry_wl ops ?o) (\<lambda>_. fetch_rest ops ?o)))"
    by (intro keeps_sbind single_keeps retry_keeps fetch_keeps)
  from keepsD [OF this assms(1)] assms(2) show ?thesis by (simp add: sc_transmit_def Let_def)
qed

end


section \<open>Chaining and the lock\<close>

text \<open>A transfer holds the card's lock as the card itself does.\<close>

lemma on_card_count:
  "on_card f s = (r, s') \<Longrightarrow> \<exists>c'. f (snd s) = (r, c') \<and> s' = (fst s, c')"
  by (cases s) (auto simp: on_card_def split: prod.splits)

interpretation xfer_lock: reentrant_lock
  "\<lambda>ops. on_card (sc_lock ops)" "\<lambda>ops. on_card (sc_unlock ops)" "\<lambda>s. c_lock_count (snd s)" lock_reliable
proof
  fix ops :: "('a, 'b) sc_ops" and s s' :: "('a, 'b) xfer" and e
  assume rel: "lock_reliable ops"
  show "c_lock_count (snd s') = Suc (c_lock_count (snd s))" if "on_card (sc_lock ops) s = (Inr (), s')"
    using on_card_count [OF that] card_lock.lock_ok [OF rel] by auto
  show "c_lock_count (snd s') = c_lock_count (snd s)" if "on_card (sc_lock ops) s = (Inl e, s')"
    using on_card_count [OF that] card_lock.lock_err [OF rel] by auto
  show "c_lock_count (snd (snd (on_card (sc_unlock ops) s))) = c_lock_count (snd s) - 1"
    if "0 < c_lock_count (snd s)"
    using card_lock.unlock_ok [OF rel that] by (cases s) (simp add: on_card_def split_beta Let_def)
qed

lemma xfer_inv_count:
  "xfer_inv env_ok m olen n s \<longleftrightarrow>
    xfer_inv env_ok m olen (c_lock_count (snd s)) s \<and> c_lock_count (snd s) = n"
  by (auto simp: xfer_inv_def split: prod.splits)

lemma chain_apdu_fields [simp]:
  "a_resp (chain_apdu a mx buf len) = (if len > mx then None else a_resp a)"
  "a_resplen (chain_apdu a mx buf len) = (if len > mx then 0 else a_resplen a)"
  "a_datalen (chain_apdu a mx buf len) = min len mx"
  "a_lc (chain_apdu a mx buf len) = min len mx"
  "a_data (chain_apdu a mx buf len) = Some buf"
  "a_sw2 (chain_apdu a mx buf len) = a_sw2 a"
  by (simp_all add: chain_apdu_def Let_def min_def)

context transfer
begin

lemma check_sw_no_fuel: "sc_check_sw ops s1 s2 \<noteq> Inl OUT_OF_FUEL"
  using platform by (auto simp: sc_check_sw_def platform_ok_def split: option.split)

lemma chain_loop_keeps:
  assumes mx: "0 < mx"
  shows "len \<le> fuel \<Longrightarrow> keeps (xfer_inv env_ok m olen n) (chain_loop fuel ops mx buf len)"
proof (induction fuel arbitrary: buf len)
  case 0
  then show ?case by (simp add: keeps_def)
next
  case (Suc fuel)
  show ?case
  proof (rule keepsI)
    fix s :: "('r, 'd) xfer" and r s'
    assume inv: "xfer_inv env_ok m olen n s" and run: "chain_loop (Suc fuel) ops mx buf len s = (r, s')"
    obtain a c where s: "s = (a, c)" by (cases s)
    define t where "t = chain_apdu a mx buf len"
    define pl where "pl = (if len > mx then mx else len)"
    from inv s have i: "env_ok (c_env c)" "length (mem (a_resp a)) = m" "a_resplen a \<le> olen"
      "olen \<le> m" "c_lock_count c = n" "a_sw2 a < 256"
      by (simp_all add: xfer_inv_def)
    have run': "chain_loop (Suc fuel) ops mx buf len (a, c) = (r, s')" using run s by simp
    show "xfer_inv env_ok m olen n s' \<and> r \<noteq> Inl OUT_OF_FUEL"
    proof (cases "len = 0 \<or> (\<exists>e. sc_check_apdu (c_caps c) t = Inl e)")
      case True
      then have "\<exists>q. chain_loop (Suc fuel) ops mx buf len (a, c) = (q, (a, c)) \<and> q \<noteq> Inl OUT_OF_FUEL"
        using check_apdu_no_fuel [of "c_caps c" t] by (auto simp: t_def)
      with run' inv s show ?thesis by auto
    next
      case False
      then obtain u where chk: "sc_check_apdu (c_caps c) t = Inr u" and len: "0 < len"
        by (cases "sc_check_apdu (c_caps c) t") auto
      have rest: "len - pl \<le> fuel" using Suc.prems mx len by (cases "mx < len") (simp_all add: pl_def)
      obtain q t' c' where tr: "sc_transmit ops (t, c) = (q, (t', c'))" by (metis prod.exhaust)
      show ?thesis
      proof (cases "len > mx")
        case more: True
        have "xfer_inv env_ok 0 (a_resplen t) n (t, c)"
          using i more by (simp add: xfer_inv_def t_def)
        from transmit_keeps [OF this tr]
        have c': "env_ok (c_env c')" "c_lock_count c' = n" "q \<noteq> Inl OUT_OF_FUEL"
          by (simp_all add: xfer_inv_def)
        then have inv': "xfer_inv env_ok m olen n (a, c')" using i by (simp add: xfer_inv_def)
        show ?thesis
        proof (cases "\<exists>e. q = Inl e \<or> q = Inr () \<and> sc_check_sw ops (a_sw1 t') (a_sw2 t') = Inl e")
          case True
          then obtain e where e: "q = Inl e \<or> q = Inr () \<and> sc_check_sw ops (a_sw1 t') (a_sw2 t') = Inl e"
            by blast
          then have "e \<noteq> OUT_OF_FUEL" using c'(3) check_sw_no_fuel [of "a_sw1 t'" "a_sw2 t'"] by metis
          moreover from e have "chain_loop (Suc fuel) ops mx buf len (a, c) = (Inl e, (a, c'))"
            using more len chk tr by (elim disjE) (simp_all add: t_def [symmetric] Let_def)
          ultimately show ?thesis using run' inv' by auto
        next
          case False
          then obtain v where "q = Inr ()" "sc_check_sw ops (a_sw1 t') (a_sw2 t') = Inr v"
            by (cases q; cases "sc_check_sw ops (a_sw1 t') (a_sw2 t')") auto
          with run' more len chk tr have "chain_loop fuel ops mx (drop pl buf) (len - pl) (a, c') = (r, s')"
            by (simp add: t_def [symmetric] Let_def pl_def)
          then show ?thesis by (rule keepsD [OF Suc.IH [OF rest] inv'])
        qed
      next
        case last: False
        have "xfer_inv env_ok m (a_resplen t) n (t, c)"
          using i last by (simp add: xfer_inv_def t_def)
        from transmit_keeps [OF this tr]
        have c': "env_ok (c_env c')" "c_lock_count c' = n" "q \<noteq> Inl OUT_OF_FUEL"
            "length (mem (a_resp t')) = m" "a_resplen t' \<le> a_resplen a" "a_sw2 t' < 256"
          using last by (simp_all add: xfer_inv_def t_def)
        show ?thesis
        proof (cases q)
          case (Inl e)
          with last len chk tr run' have "r = Inl e" "s' = (a\<lparr>a_resp := a_resp t'\<rparr>, c')"
            by (simp_all add: t_def [symmetric] Let_def)
          with c' i Inl show ?thesis by (simp add: xfer_inv_def)
        next
          case (Inr v)
          let ?a = "a\<lparr>a_sw1 := a_sw1 t', a_sw2 := a_sw2 t', a_resplen := a_resplen t', a_resp := a_resp t'\<rparr>"
          from Inr last len chk tr run'
          have "chain_loop fuel ops mx (drop pl buf) (len - pl) (?a, c') = (r, s')"
            by (simp add: t_def [symmetric] Let_def pl_def)
          moreover have "xfer_inv env_ok m olen n (?a, c')" using c' i by (simp add: xfer_inv_def)
          ultimately show ?thesis using keepsD [OF Suc.IH [OF rest]] by blast
        qed
      qed
    qed
  qed
qed


lemma hook_keeps: "o_card_reader_lock_obtained ops = Some g \<Longrightarrow>
    xfer_inv env_ok m olen n (a, c) \<Longrightarrow> xfer_inv env_ok m olen n (a, snd (g w c))"
  using platform lock_reliableD(3) [of ops g w c] by (auto simp: xfer_inv_def platform_ok_def)

lemma transmit_body_inv:
  assumes inv: "xfer_inv env_ok m (a_resplen a) n (a, c)" and run: "transmit_body ops (a, c) = (r, s')"
  shows "xfer_inv env_ok m (a_resplen a) n s' \<and> r \<noteq> Inl OUT_OF_FUEL"
proof -
  define p where "p = (if chaining a
    then chain_loop (a_datalen a) ops (sc_get_max_send_size c) (mem (a_data a)) (a_datalen a) (a, c)
    else sc_transmit ops (a, c))"
  obtain q a' c' where p: "p = (q, (a', c'))" by (metis prod.exhaust)
  have i: "xfer_inv env_ok m (a_resplen a) n (a', c')" "q \<noteq> Inl OUT_OF_FUEL"
    using p keepsD [OF chain_loop_keeps [OF max_send_size_pos [of c] le_refl [of "a_datalen a"]] inv]
      transmit_keeps [OF inv]
    unfolding p_def by (cases "chaining a"; simp)+
  have eq: "transmit_body ops (a, c) = (if lost_card q then
      (case o_card_reader_lock_obtained ops of None \<Rightarrow> (q, (a', c')) | Some g \<Rightarrow> (q, (a', snd (g 1 c'))))
      else (q, (a', c')))"
    using p by (simp add: transmit_body_def p_def [symmetric] Let_def)
  show ?thesis
    using i hook_keeps [OF _ i(1)] run unfolding eq by (auto split: if_splits option.splits)
qed

lemma xfer_inv_weaken:
  "xfer_inv env_ok m k n (a, c) \<Longrightarrow> k \<le> olen \<Longrightarrow> olen \<le> m \<Longrightarrow> xfer_inv env_ok m olen n (a, c)"
  by (simp add: xfer_inv_def)

lemma transmit_body_keeps: "keeps (xfer_inv env_ok m olen n) (transmit_body ops)"
proof (rule keepsI)
  fix s :: "('r, 'd) xfer" and r s'
  assume inv: "xfer_inv env_ok m olen n s" and run: "transmit_body ops s = (r, s')"
  obtain a c a' c' where s: "s = (a, c)" "s' = (a', c')" by (metis prod.exhaust)
  from inv s have k: "a_resplen a \<le> olen" "olen \<le> m" and "xfer_inv env_ok m (a_resplen a) n (a, c)"
    by (simp_all add: xfer_inv_def)
  from transmit_body_inv [OF this(3)] run s
  have "xfer_inv env_ok m (a_resplen a) n (a', c') \<and> r \<noteq> Inl OUT_OF_FUEL" by simp
  with k s show "xfer_inv env_ok m olen n s' \<and> r \<noteq> Inl OUT_OF_FUEL"
    by (auto intro: xfer_inv_weaken)
qed

lemma platformD:
  "o_reader_lock ops = Some f \<Longrightarrow> keeps env_ok f"
  "o_reader_unlock ops = Some f \<Longrightarrow> keeps env_ok f"
  "o_mutex_lock ops = Some f \<Longrightarrow> keeps env_ok f"
  "o_mutex_unlock ops = Some f \<Longrightarrow> keeps env_ok f"
  "o_card_reader_lock_obtained ops = Some g \<Longrightarrow> env_ok (c_env c) \<Longrightarrow> env_ok (c_env (snd (g w c)))"
  using platform unfolding platform_ok_def by simp_all

lemma lock_keeps_env:
  "keeps (\<lambda>c. env_ok (c_env c)) (sc_lock ops)"
  "env_ok (c_env c) \<Longrightarrow> env_ok (c_env (snd (sc_unlock ops c)))"
  by (rule sc_lock_keeps; rule platformD; assumption) (rule sc_unlock_keeps; (rule platformD)?; assumption)

text \<open>The entry point: the response buffer, the lock and the environment survive every path.\<close>

lemma transmit_apdu_keeps: "keeps (xfer_inv env_ok m olen n) (sc_transmit_apdu ops)"
proof (rule keepsI)
  fix s :: "('r, 'd) xfer" and r s'
  assume inv: "xfer_inv env_ok m olen n s" and run: "sc_transmit_apdu ops s = (r, s')"
  obtain a c where s: "s = (a, c)" by (cases s)
  define b where "b = sc_detect_apdu_cse (c_caps c) a"
  have "a_resp b = a_resp a" "a_resplen b = a_resplen a" "a_sw2 b = a_sw2 a"
    by (simp_all add: b_def sc_detect_apdu_cse_def Let_def)
  with inv s have invb: "xfer_inv env_ok m olen n (b, c)" by (simp add: xfer_inv_def)
  let ?I = "\<lambda>s. xfer_inv env_ok m olen (c_lock_count (snd s)) s"
  have rel: "lock_reliable ops" using platform by (simp add: platform_ok_def)
  have "keeps ?I (on_card (sc_lock ops))"
  proof (rule keepsI)
    fix x :: "('r, 'd) xfer" and q x' assume "?I x" and "on_card (sc_lock ops) x = (q, x')"
    with on_card_count [OF this(2)] keepsD [OF lock_keeps_env(1), of "snd x"]
    show "?I x' \<and> q \<noteq> Inl OUT_OF_FUEL" by (cases x) (auto simp: xfer_inv_def)
  qed
  moreover have "?I (snd (on_card (sc_unlock ops) x))" if "?I x" for x
    using that lock_keeps_env(2) [of "snd x"]
    by (cases x) (simp add: xfer_inv_def on_card_def split_beta Let_def)
  moreover have "keeps (\<lambda>s. ?I s \<and> c_lock_count (snd s) = Suc k) (transmit_body ops)" for k
    unfolding xfer_inv_count [symmetric] by (rule transmit_body_keeps)
  ultimately have "keeps (\<lambda>s. ?I s \<and> c_lock_count (snd s) = n)
      (bracket (on_card (sc_lock ops)) (on_card (sc_unlock ops)) (transmit_body ops))"
    by (rule xfer_lock.bracket_keeps [OF rel])
  then have br: "keeps (xfer_inv env_ok m olen n)
      (bracket (on_card (sc_lock ops)) (on_card (sc_unlock ops)) (transmit_body ops))"
    unfolding xfer_inv_count [symmetric] .
  show "xfer_inv env_ok m olen n s' \<and> r \<noteq> Inl OUT_OF_FUEL"
  proof (cases "sc_check_apdu (c_caps c) b")
    case (Inl e)
    with run s invb show ?thesis by (auto simp: sc_transmit_apdu_def b_def [symmetric])
  next
    case (Inr u)
    with run s have "bracket (on_card (sc_lock ops)) (on_card (sc_unlock ops)) (transmit_body ops) (b, c) = (r, s')"
      by (simp add: sc_transmit_apdu_def b_def [symmetric])
    then show ?thesis by (rule keepsD [OF br invb])
  qed
qed

end


section \<open>What a chained command sends\<close>

text \<open>A reader that records the commands it is given.\<close>

type_synonym 'r logging = "sc_apdu list \<times> 'r"

definition logged :: "(sc_apdu \<times> 'r, unit) prog \<Rightarrow> (sc_apdu \<times> 'r logging, unit) prog" where
  "logged tx s = (case s of (a, (cmds, e)) \<Rightarrow>
     (case tx (a, e) of (r, (a', e')) \<Rightarrow> (r, (a', (cmds @ [a], e')))))"

definition sent :: "sc_apdu \<Rightarrow> bytes" where
  "sent t = take (a_datalen t) (mem (a_data t))"

text \<open>One command of a chain for \<open>a\<close>, a command that is not the last, and the last one.\<close>

definition chain_member :: "sc_apdu \<Rightarrow> nat \<Rightarrow> sc_apdu \<Rightarrow> bool" where
  "chain_member a mx t \<longleftrightarrow> a_ins t = a_ins a \<and> a_p1 t = a_p1 a \<and> a_p2 t = a_p2 a \<and>
     a_datalen t \<le> mx \<and> a_lc t = a_datalen t \<and> \<not> chaining t"

definition chain_middle :: "sc_apdu \<Rightarrow> sc_apdu \<Rightarrow> bool" where
  "chain_middle a t \<longleftrightarrow> a_cla t = a_cla a OR 0x10 \<and> a_le t = 0 \<and> a_resp t = None"

definition chain_last :: "sc_apdu \<Rightarrow> sc_apdu \<Rightarrow> bool" where
  "chain_last a t \<longleftrightarrow> a_cla t = a_cla a \<and> a_le t = a_le a \<and> a_resp t = a_resp a"

text \<open>A reader whose card answers neither \<open>61xx\<close> nor \<open>6Cxx\<close>: one exchange per command.\<close>

definition final_status :: "(sc_apdu \<times> 'r, unit) prog \<Rightarrow> bool" where
  "final_status tx \<longleftrightarrow>
     (\<forall>a e a' e'. tx (a, e) = (Inr (), (a', e')) \<longrightarrow> a_sw1 a' \<noteq> 0x61 \<and> a_sw1 a' \<noteq> 0x6C)"

lemma clear_chaining: "(x AND NOT SC_APDU_FLAGS_CHAINING) AND SC_APDU_FLAGS_CHAINING = (0 :: u64)"
  by (rule bit_word_eqI) (auto simp: bit_simps)

lemma clear_chaining_num: "(x AND - 2) AND 1 = (0 :: u64)"
proof -
  have "NOT 1 = (- 2 :: u64)" by simp
  with clear_chaining [of x] show ?thesis by metis
qed

lemma chain_apdu_shape:
  "chain_member a mx (chain_apdu a mx buf len)"
  "mx < len \<Longrightarrow> chain_middle a (chain_apdu a mx buf len)"
  "\<not> mx < len \<Longrightarrow> chain_last a (chain_apdu a mx buf len)"
  by (simp_all add: chain_member_def chain_middle_def chain_last_def chain_apdu_def chaining_def
      clear_chaining_num Let_def min_def)

lemma transmit_logged:
  assumes tx: "o_transmit ops = Some (logged tx)" and fin: "final_status tx"
    and run: "sc_transmit ops (t, c) = (Inr (), (t', c'))"
  shows "\<exists>e'. c' = c\<lparr>c_env := (fst (c_env c) @ [t], e')\<rparr>"
proof -
  obtain cmds e where c: "c_env c = (cmds, e)" by (cases "c_env c")
  obtain q a1 e1 where 1: "tx (t, e) = (q, (a1, e1))" by (metis prod.exhaust)
  let ?c1 = "c\<lparr>c_env := (cmds @ [t], e1)\<rparr>"
  have s: "sc_single_transmit ops (t, c) = (q, (a1, ?c1))"
    using tx c 1 by (simp add: sc_single_transmit_def logged_def)
  show ?thesis
  proof (cases q)
    case (Inl x)
    with s run show ?thesis by (simp add: sc_transmit_def sbind_def)
  next
    case (Inr u)
    with 1 have "tx (t, e) = (Inr (), (a1, e1))" by simp
    with fin have "a_sw1 a1 \<noteq> 0x61 \<and> a_sw1 a1 \<noteq> 0x6C" unfolding final_status_def by blast
    with s Inr run c have "c' = ?c1"
      by (simp add: sc_transmit_def sbind_def retry_wl_def fetch_rest_def)
    then show ?thesis using c by auto
  qed
qed

lemma chain_loop_logged:
  assumes tx: "o_transmit ops = Some (logged tx)" and fin: "final_status tx" and mx: "0 < mx"
  shows "chain_loop fuel ops mx buf (length buf) (a, c) = (Inr (), (a', c')) \<Longrightarrow>
    \<exists>cmds e'. c' = c\<lparr>c_env := (fst (c_env c) @ cmds, e')\<rparr> \<and> concat (map sent cmds) = buf \<and>
      (\<forall>t \<in> set cmds. chain_member a mx t) \<and> (\<forall>t \<in> set (butlast cmds). chain_middle a t) \<and>
      (buf \<noteq> [] \<longrightarrow> cmds \<noteq> [] \<and> chain_last a (last cmds))"
proof (induction fuel arbitrary: buf c a)
  case 0
  then have "buf = []" "c' = c" by (simp_all split: if_splits)
  then show ?case by (intro exI [of _ "[]"] exI [of _ "snd (c_env c)"]) simp
next
  case (Suc fuel)
  let ?len = "length buf" let ?t = "chain_apdu a mx buf (length buf)"
  show ?case
  proof (cases "buf = []")
    case True
    with Suc.prems have "c' = c" by simp
    then show ?thesis using True by (intro exI [of _ "[]"] exI [of _ "snd (c_env c)"]) simp
  next
    case False
    obtain u where chk: "sc_check_apdu (c_caps c) ?t = Inr u"
      using Suc.prems False by (cases "sc_check_apdu (c_caps c) ?t") simp_all
    obtain q t' c1 where tr: "sc_transmit ops (?t, c) = (q, (t', c1))" by (metis prod.exhaust)
    with Suc.prems False chk have "q = Inr ()"
      by (cases q) (simp_all add: Let_def)
    with tr have tr: "sc_transmit ops (?t, c) = (Inr (), (t', c1))" by simp
    from transmit_logged [OF tx fin this] obtain e1 where
      c1: "c1 = c\<lparr>c_env := (fst (c_env c) @ [?t], e1)\<rparr>" by blast
    show ?thesis
    proof (cases "mx < ?len")
      case more: True
      obtain v where "sc_check_sw ops (a_sw1 t') (a_sw2 t') = Inr v"
        using Suc.prems False chk tr more
        by (cases "sc_check_sw ops (a_sw1 t') (a_sw2 t')") (simp_all add: Let_def)
      with Suc.prems False chk tr more
      have "chain_loop fuel ops mx (drop mx buf) (length (drop mx buf)) (a, c1) = (Inr (), (a', c'))"
        by (simp add: Let_def)
      from Suc.IH [OF this] obtain cmds e' where IH:
        "c' = c1\<lparr>c_env := (fst (c_env c1) @ cmds, e')\<rparr>" "concat (map sent cmds) = drop mx buf"
        "\<forall>t \<in> set cmds. chain_member a mx t" "\<forall>t \<in> set (butlast cmds). chain_middle a t"
        "cmds \<noteq> [] \<and> chain_last a (last cmds)"
        using more by auto
      have "sent ?t = take mx buf" using more by (simp add: sent_def min_def)
      with IH c1 more chain_apdu_shape [where a=a and mx=mx and buf=buf and len="?len"] show ?thesis
        by (intro exI [of _ "?t # cmds"] exI [of _ e']) simp
    next
      case last: False
      with Suc.prems False chk tr have c': "c' = c1"
        by (cases fuel) (simp_all add: Let_def)
      have "sent ?t = buf" using last by (simp add: sent_def)
      with c' c1 last chain_apdu_shape [where a=a and mx=mx and buf=buf and len="?len"] show ?thesis
        by (intro exI [of _ "[?t]"] exI [of _ e1]) simp
    qed
  qed
qed


lemma sent_detect [simp]: "sent (sc_detect_apdu_cse caps a) = sent a"
  by (simp add: sent_def sc_detect_apdu_cse_def Let_def)

lemma detect_fields [simp]:
  "a_cla (sc_detect_apdu_cse caps a) = a_cla a" "a_ins (sc_detect_apdu_cse caps a) = a_ins a"
  "a_p1 (sc_detect_apdu_cse caps a) = a_p1 a" "a_p2 (sc_detect_apdu_cse caps a) = a_p2 a"
  "a_lc (sc_detect_apdu_cse caps a) = a_lc a" "a_le (sc_detect_apdu_cse caps a) = a_le a"
  "a_data (sc_detect_apdu_cse caps a) = a_data a" "a_datalen (sc_detect_apdu_cse caps a) = a_datalen a"
  "a_resp (sc_detect_apdu_cse caps a) = a_resp a" "a_resplen (sc_detect_apdu_cse caps a) = a_resplen a"
  "a_flags (sc_detect_apdu_cse caps a) = a_flags a"
  by (simp_all add: sc_detect_apdu_cse_def Let_def)

lemma chain_detect [simp]:
  "chain_member (sc_detect_apdu_cse caps a) = chain_member a"
  "chain_middle (sc_detect_apdu_cse caps a) = chain_middle a"
  "chain_last (sc_detect_apdu_cse caps a) = chain_last a"
  "chaining (sc_detect_apdu_cse caps a) = chaining a"
  by (simp_all add: fun_eq_iff chain_member_def chain_middle_def chain_last_def chaining_def)

text \<open>The lock's functions send nothing to the card.\<close>

definition silent_lock :: "('r logging, 'd) sc_ops \<Rightarrow> bool" where
  "silent_lock ops \<longleftrightarrow> o_card_reader_lock_obtained ops = None \<and>
     (\<forall>l. \<forall>f \<in> set_option (o_reader_lock ops) \<union> set_option (o_reader_unlock ops) \<union>
        set_option (o_mutex_lock ops) \<union> set_option (o_mutex_unlock ops). keeps (\<lambda>e. fst e = l) f)"

lemma silent_lockD:
  assumes "silent_lock ops"
  shows "sc_lock ops c = (r, c') \<Longrightarrow> fst (c_env c') = fst (c_env c)"
    and "sc_unlock ops c = (r, c') \<Longrightarrow> fst (c_env c') = fst (c_env c)"
proof -
  have s: "o_reader_lock ops = Some f \<Longrightarrow> keeps (\<lambda>e. fst e = l) f"
    "o_reader_unlock ops = Some f \<Longrightarrow> keeps (\<lambda>e. fst e = l) f"
    "o_mutex_lock ops = Some f \<Longrightarrow> keeps (\<lambda>e. fst e = l) f"
    "o_mutex_unlock ops = Some f \<Longrightarrow> keeps (\<lambda>e. fst e = l) f"
    "o_card_reader_lock_obtained ops = None" for f l
    using assms by (simp_all add: silent_lock_def)
  let ?P = "\<lambda>e. fst e = fst (c_env c)"
  have "keeps (\<lambda>c. ?P (c_env c)) (sc_lock ops)"
    by (rule sc_lock_keeps) (simp_all add: s)
  then show "sc_lock ops c = (r, c') \<Longrightarrow> fst (c_env c') = fst (c_env c)"
    by (auto dest: keepsD)
  have "?P (c_env (snd (sc_unlock ops c)))"
    by (rule sc_unlock_keeps) (simp_all add: s)
  then show "sc_unlock ops c = (r, c') \<Longrightarrow> fst (c_env c') = fst (c_env c)" by simp
qed

text \<open>C2: Command chaining divides the data: when the transfer of a command with the chaining flag
  succeeds, on a card that answers neither \<open>61xx\<close> nor \<open>6Cxx\<close>, the commands sent to the reader
  carry, one after the other, exactly the caller's data; none exceeds the send limit, all keep
  the instruction and parameters and have the flag cleared, every command but the last has the
  chaining bit in its class byte and asks for no response, and the last one has the caller's
  class byte, expected length and response buffer.\<close>
theorem chaining_divides_data:
  assumes tx: "o_transmit ops = Some (logged tx)" and fin: "final_status tx"
    and quiet: "silent_lock ops" and ch: "chaining a"
    and dat: "a_data a = Some dat" "a_datalen a = length dat" "dat \<noteq> []"
    and run: "sc_transmit_apdu ops (a, c) = (Inr (), (a', c'))"
  shows "\<exists>cmds. fst (c_env c') = fst (c_env c) @ cmds \<and> concat (map sent cmds) = dat \<and>
    (\<forall>t \<in> set cmds. chain_member a (sc_get_max_send_size c) t) \<and>
    (\<forall>t \<in> set (butlast cmds). chain_middle a t) \<and> cmds \<noteq> [] \<and> chain_last a (last cmds)"
proof -
  let ?b = "sc_detect_apdu_cse (c_caps c) a"
  have br: "bracket (on_card (sc_lock ops)) (on_card (sc_unlock ops)) (transmit_body ops) (?b, c) = (Inr (), (a', c'))"
    using run by (simp add: sc_transmit_apdu_def Let_def split: sum.splits)
  obtain r1 c1 where lk: "sc_lock ops c = (r1, c1)" by (cases "sc_lock ops c")
  from br lk have r1: "r1 = Inr ()"
    by (cases r1) (simp_all add: bracket_def on_card_def)
  obtain r2 a2 c2 where bd: "transmit_body ops (?b, c1) = (r2, (a2, c2))" by (metis prod.exhaust)
  obtain r3 c3 where ul: "sc_unlock ops c2 = (r3, c3)" by (cases "sc_unlock ops c2")
  from br lk r1 bd ul have r2: "r2 = Inr ()" and c': "c' = c3"
    by (simp_all add: bracket_def on_card_def)
  have hook: "o_card_reader_lock_obtained ops = None" using quiet by (simp add: silent_lock_def)
  have mx: "sc_get_max_send_size c1 = sc_get_max_send_size c"
    using sc_lock_frame [OF hook lk] by (auto simp: card_frame_def sc_get_max_send_size_def Let_def)
  from bd r2 ch dat hook mx have "chain_loop (length dat) ops (sc_get_max_send_size c) dat (length dat) (?b, c1)
      = (Inr (), (a2, c2))"
    by (simp add: transmit_body_def Let_def split_beta prod_eq_iff split: if_splits)
  from chain_loop_logged [OF tx fin max_send_size_pos this] dat(3) obtain cmds e' where
    "c2 = c1\<lparr>c_env := (fst (c_env c1) @ cmds, e')\<rparr>" "concat (map sent cmds) = dat"
    "\<forall>t \<in> set cmds. chain_member a (sc_get_max_send_size c) t"
    "\<forall>t \<in> set (butlast cmds). chain_middle a t" "cmds \<noteq> [] \<and> chain_last a (last cmds)"
    by auto
  moreover from this silent_lockD [OF quiet] lk ul c' have "fst (c_env c') = fst (c_env c) @ cmds" by simp
  ultimately show ?thesis by blast
qed


text \<open>A card that accepts everything, for the witnesses.\<close>

definition accept_all :: "(sc_apdu \<times> unit, unit) prog" where
  "accept_all s = (Inr (), ((fst s)\<lparr>a_resplen := 0, a_sw1 := 0x90, a_sw2 := 0\<rparr>, ()))"

definition accept_ops :: "(unit logging, unit) sc_ops" where
  "accept_ops = null_ops\<lparr>o_transmit := Some (logged accept_all), o_check_sw := Some (\<lambda>_ _. Inr ())\<rparr>"

definition chain_example :: sc_apdu where
  "chain_example = zero_apdu\<lparr>a_cse := SC_APDU_CASE_3_SHORT, a_ins := 0xD6, a_lc := 5, a_datalen := 5,
     a_data := Some [1, 2, 3, 4, 5], a_flags := SC_APDU_FLAGS_CHAINING\<rparr>"

lemma chain_example_run:
  "fst (sc_transmit_apdu accept_ops (chain_example, (plain_card ([], ()))\<lparr>c_max_send_size := 2\<rparr>)) = Inr ()"
  by code_simp

theorem chaining_divides_data_witness:
  "\<exists>cmds. concat (map sent cmds) = [1, 2, 3, 4, 5] \<and>
    (\<forall>t \<in> set cmds. chain_member chain_example 2 t) \<and>
    fst (c_env (snd (snd (sc_transmit_apdu accept_ops
      (chain_example, (plain_card ([], ()))\<lparr>c_max_send_size := 2\<rparr>))))) = cmds"
proof -
  let ?c = "(plain_card (([], ()) :: unit logging))\<lparr>c_max_send_size := 2\<rparr>"
  obtain r a' c' where run: "sc_transmit_apdu accept_ops (chain_example, ?c) = (r, (a', c'))"
    by (metis prod.exhaust)
  with chain_example_run have r: "r = Inr ()" by simp
  have mx: "sc_get_max_send_size ?c = 2"
    by (simp add: sc_get_max_send_size_def plain_card_def Let_def)
  have env: "c_env ?c = ([], ())" by (simp add: plain_card_def)
  have fin: "final_status accept_all" by (auto simp: final_status_def accept_all_def)
  have ops: "o_transmit accept_ops = Some (logged accept_all)" "silent_lock accept_ops"
    and ex: "chaining chain_example" "a_data chain_example = Some [1, 2, 3, 4, 5]"
      "a_datalen chain_example = length [1, 2, 3, 4, 5 :: u8]"
    by (simp_all add: accept_ops_def null_ops_def silent_lock_def chain_example_def chaining_def zero_apdu_def)
  from run r have run': "sc_transmit_apdu accept_ops (chain_example, ?c) = (Inr (), (a', c'))" by simp
  have "[1, 2, 3, 4, 5 :: u8] \<noteq> []" by simp
  from chaining_divides_data [OF ops(1) fin ops(2) ex this run'] env mx run
  show ?thesis by auto
qed

section \<open>The retry and GET RESPONSE\<close>

definition request_stable :: "(sc_apdu \<times> 'r, unit) prog \<Rightarrow> bool" where
  "request_stable tx \<longleftrightarrow> (\<forall>a e r a' e'. tx (a, e) = (r, (a', e')) \<longrightarrow> same_request a' a)"

lemma single_transmit_logged:
  assumes "o_transmit ops = Some (logged tx)" and "sc_single_transmit ops (a, c) = (r, (a', c'))"
  shows "fst (c_env c') = fst (c_env c) @ [a] \<and> (request_stable tx \<longrightarrow> same_request a' a)"
proof -
  obtain l e where c: "c_env c = (l, e)" by (cases "c_env c")
  obtain q b e1 where b: "tx (a, e) = (q, (b, e1))" by (metis prod.exhaust)
  with assms c have "a' = b" "c' = c\<lparr>c_env := (l @ [a], e1)\<rparr>"
    by (simp_all add: sc_single_transmit_def logged_def)
  with b c show ?thesis unfolding request_stable_def by fastforce
qed

lemma has_flag_or [simp]: "has_flag (a\<lparr>a_flags := a_flags b OR f, a_resplen := n, a_le := m\<rparr>) g =
    (a_flags b AND g \<noteq> 0 \<or> f AND g \<noteq> 0)"
  by (simp add: has_flag_def word_ao_dist or_eq_0_iff)



text \<open>A card that first asks for another expected length (\<open>6C02\<close>), then answers.\<close>

definition asks_length :: "(sc_apdu \<times> unit, unit) prog" where
  "asks_length s = (let a = fst s in
     (Inr (), (if a_le a = 2 then a\<lparr>a_resplen := 2, a_sw1 := 0x90, a_sw2 := 0\<rparr>
               else a\<lparr>a_resplen := 0, a_sw1 := 0x6C, a_sw2 := 2\<rparr>, ())))"

definition retry_example :: sc_apdu where
  "retry_example = zero_apdu\<lparr>a_cse := SC_APDU_CASE_2_SHORT, a_ins := 0xB0, a_le := 16, a_resplen := 16,
     a_resp := Some (replicate 16 0), a_flags := SC_APDU_FLAGS_NO_GET_RESP\<rparr>"

lemma asks_length_stable: "request_stable asks_length"
  unfolding request_stable_def asks_length_def same_request_def Let_def
proof (intro allI impI)
  fix a :: sc_apdu and e r a' e'
  assume h: "(Inr (), if a_le (fst (a, e)) = 2 then fst (a, e)\<lparr>a_resplen := 2, a_sw1 := 144, a_sw2 := 0\<rparr>
      else fst (a, e)\<lparr>a_resplen := 0, a_sw1 := 108, a_sw2 := 2\<rparr>, ()) = (r, a', e')"
  show "\<exists>ra n s1 s2. a' = a\<lparr>a_resp := ra, a_resplen := n, a_sw1 := s1, a_sw2 := s2\<rparr>"
    using h by (cases a, cases a') (auto split: if_splits)
qed


text \<open>
  A command that forbids GET RESPONSE does not depend on the driver's implementation of it. The
  driver's GET RESPONSE is itself such a command, so it may be run over the table that has none.
\<close>

lemma single_transmit_cong: "o_transmit ops = o_transmit ops' \<Longrightarrow> sc_single_transmit ops = sc_single_transmit ops'"
  by (rule ext) (simp add: sc_single_transmit_def)

lemma transmit_no_get_response:
  assumes tx: "o_transmit ops = Some tx" and st: "request_stable tx"
    and fl: "has_flag a SC_APDU_FLAGS_NO_GET_RESP" and same: "o_transmit ops' = o_transmit ops"
  shows "sc_transmit ops' (a, c) = sc_transmit ops (a, c)"
proof -
  have fl_tx: "a_flags b' AND SC_APDU_FLAGS_NO_GET_RESP \<noteq> 0"
    if "sc_single_transmit ops (b, d) = (q, (b', d'))" "a_flags b AND SC_APDU_FLAGS_NO_GET_RESP \<noteq> 0" for b d q b' d'
  proof -
    obtain q1 b1 e1 where 1: "tx (b, c_env d) = (q1, (b1, e1))" by (metis prod.exhaust)
    with tx that(1) have "b' = b1" by (simp add: sc_single_transmit_def)
    with 1 st have "same_request b' b" unfolding request_stable_def by blast
    with that(2) show ?thesis by (simp add: same_requestD)
  qed
  have nofetch: "fetch_rest o' n (b, d) = (Inr (), (b, d))" if "a_flags b AND SC_APDU_FLAGS_NO_GET_RESP \<noteq> 0"
    for o' :: "('a, 'b) sc_ops" and n b d
    using that by (simp add: fetch_rest_def has_flag_def)
  have s: "sc_single_transmit ops' = sc_single_transmit ops" by (rule single_transmit_cong [OF same])
  have r: "retry_wl ops' = retry_wl ops"
    by (simp add: fun_eq_iff retry_wl_eq s)
  obtain q1 a1 c1 where 1: "sc_single_transmit ops (a, c) = (q1, (a1, c1))" by (metis prod.exhaust)
  have f1: "a_flags a1 AND SC_APDU_FLAGS_NO_GET_RESP \<noteq> 0"
    using fl_tx [OF 1] fl by (simp add: has_flag_def)
  obtain q2 a2 c2 where 2: "retry_wl ops (a_resplen a) (a1, c1) = (q2, (a2, c2))" by (metis prod.exhaust)
  have f2: "a_flags a2 AND SC_APDU_FLAGS_NO_GET_RESP \<noteq> 0"
  proof (cases "a_sw1 a1 = 0x6C \<and> \<not> has_flag a1 SC_APDU_FLAGS_NO_RETRY_WL \<and> \<not> a_resplen a < sw2_length (a_sw2 a1)")
    case True
    then have "sc_single_transmit ops (a1\<lparr>a_flags := a_flags a1 OR SC_APDU_FLAGS_NO_RETRY_WL, a_resplen := a_resplen a,
      a_le := sw2_length (a_sw2 a1)\<rparr>, c1) = (q2, (a2, c2))"
      using 2 by (simp only: retry_wl_eq if_True if_False simp_thms)
    then show ?thesis by (rule fl_tx) (use f1 in \<open>simp add: word_ao_dist or_eq_0_iff\<close>)
  next
    case False
    have "retry_wl ops (a_resplen a) (a1, c1) = (Inl SC_ERROR_WRONG_LENGTH, (a1, c1)) \<or>
        retry_wl ops (a_resplen a) (a1, c1) = (Inr (), (a1, c1))"
      unfolding retry_wl_eq using if3 [OF False] .
    with 2 f1 show ?thesis by auto
  qed
  show ?thesis
    using 1 2 nofetch [OF f2, of _ "a_resplen a" c2]
    by (cases q1; cases q2) (simp_all add: sc_transmit_def sbind_def s r Let_def)
qed

end
