(* ===== verification/Sc_Atr.thy ===== *)
theory Sc_Atr
  imports Sc_Bytes
begin

text \<open>
  The answer to reset: parsing (\<open>_sc_parse_atr\<close> of \<open>libopensc/sc.c\<close>) and matching against a
  driver's table (\<open>match_atr_table\<close>, \<open>_sc_match_atr\<close> of \<open>libopensc/card.c\<close>, the table of
  \<open>libopensc/card-starsign.c\<close>).

  The ATR is an array of \<open>SC_MAX_ATR_SIZE\<close> bytes of which the first \<open>len\<close> are in use; a position
  in it stands for the pointer \<open>p\<close> of the source.
\<close>

abbreviation (input) SC_MAX_ATR_SIZE :: nat where "SC_MAX_ATR_SIZE \<equiv> 33"

section \<open>Parsing\<close>

record atr_info =
  ai_hist_bytes :: "nat option"
  ai_hist_bytes_len :: nat
  ai_Fi :: int
  ai_f :: int
  ai_Di :: int
  ai_N :: int
  ai_FI :: nat
  ai_DI :: nat

definition Fi_table :: "int list" where
  "Fi_table = [372, 372, 558, 744, 1116, 1488, 1860, -1, -1, 512, 768, 1024, 1536, 2048, -1, -1]"

definition f_table :: "int list" where
  "f_table = [40, 50, 60, 80, 120, 160, 200, -1, -1, 50, 75, 100, 150, 200, -1, -1]"

definition Di_table :: "int list" where
  "Di_table = [-1, 1, 2, 4, 8, 16, 32, -1, 12, 20, -1, -1, -1, -1, -1, -1]"

text \<open>
  One group of interface bytes: for each \<open>i\<close> of the list, as long as bytes are left, the byte
  \<open>tx[i]\<close> is read when bit \<open>i\<close> of \<open>x\<close> announces it and is -1 otherwise.
\<close>

fun interface_bytes ::
  "nat list \<Rightarrow> nat \<Rightarrow> bytes \<Rightarrow> nat \<Rightarrow> int \<Rightarrow> int list \<Rightarrow> int list \<times> nat \<times> int" where
  "interface_bytes [] x atr p left tx = (tx, p, left)"
| "interface_bytes (i # is) x atr p left tx =
    (if left > 0 then
       if bit x i then interface_bytes is x atr (p + 1) (left - 1) (tx[i := int (unat (atr ! p))])
       else interface_bytes is x atr p left (tx[i := - 1])
     else (tx, p, left))"

lemma interface_bytes_left:
  "left \<ge> 0 \<Longrightarrow> interface_bytes is x atr p left tx = (tx', p', left') \<Longrightarrow>
    0 \<le> left' \<and> left' \<le> left \<and> int p' + left' = int p + left \<and> length tx' = length tx"
proof (induction "is" arbitrary: p left tx)
  case Nil
  then show ?case by simp
next
  case (Cons i "is")
  show ?case
  proof (cases "left > 0 \<and> bit x i")
    case True
    with Cons.prems Cons.IH [of "left - 1" "p + 1" "tx[i := int (unat (atr ! p))]"] show ?thesis by simp
  next
    case False
    with Cons.prems Cons.IH [of left p "tx[i := - 1]"] show ?thesis by (auto split: if_splits)
  qed
qed

lemma interface_bytes_less:
  "left > 0 \<Longrightarrow> i \<in> set is \<Longrightarrow> bit x i \<Longrightarrow> interface_bytes is x atr p left tx = (tx', p', left') \<Longrightarrow>
    left' < left"
proof (induction "is" arbitrary: p tx)
  case Nil
  then show ?case by simp
next
  case (Cons j "is")
  show ?case
  proof (cases "bit x j")
    case True
    with Cons.prems interface_bytes_left [of "left - 1" "is" x atr "p + 1" "tx[j := int (unat (atr ! p))]" tx' p' left']
    show ?thesis by simp
  next
    case False
    with Cons.prems Cons.IH [of p "tx[j := - 1]"] show ?thesis by (cases "i = j") auto
  qed
qed

text \<open>A byte with something in its upper half announces a byte.\<close>

lemma upper_half_bit:
  assumes "(n AND 0xF0 :: nat) \<noteq> 0"
  shows "\<exists>i \<in> set [0..<4]. bit (n div 16) i"
proof (rule ccontr)
  assume none: "\<not> (\<exists>i \<in> set [0..<4]. bit (n div 16) i)"
  have d: "n div 16 = drop_bit 4 n" by (simp add: drop_bit_eq_div)
  have "n AND 0xF0 = 0"
  proof (rule bit_eqI)
    fix k
    show "bit (n AND 0xF0) k = bit (0 :: nat) k"
    proof (cases "4 \<le> k \<and> k < 8")
      case True
      then have "k - 4 \<in> set [0..<4]" by auto
      with none have "\<not> bit (n div 16) (k - 4)" by blast
      with True show ?thesis by (simp add: d bit_simps)
    next
      case False
      have eq: "(0xF0 :: nat) = push_bit 4 (mask 4)" by (simp add: mask_eq_exp_minus_1 push_bit_eq_mult)
      have "bit (0xF0 :: nat) k = (4 \<le> k \<and> k < 8)"
        unfolding eq by (auto simp only: bit_push_bit_iff_nat bit_mask_iff possible_bit_nat)
      with False show ?thesis by (simp add: bit_and_iff)
    qed
  qed
  with assms show False by simp
qed

function further_bytes ::
  "bytes \<Rightarrow> nat \<Rightarrow> int \<Rightarrow> int list \<Rightarrow> int list \<times> nat \<times> int" where
  "further_bytes atr p left tx =
    (if tx ! 3 > 0 \<and> nat (tx ! 3) AND 0xF0 \<noteq> 0 \<and> left > 0 then
       case interface_bytes [0, 1, 2, 3] (nat (tx ! 3) div 16) atr p left tx of
         (tx', p', left') \<Rightarrow> further_bytes atr p' left' tx'
     else (tx, p, left))"
  by pat_completeness auto
termination
proof (relation "measure (\<lambda>(atr, p, left, tx). nat left)")
  fix atr p left tx tx' r' p' left'
  assume c: "(tx :: int list) ! 3 > 0 \<and> nat (tx ! 3) AND 0xF0 \<noteq> 0 \<and> left > (0 :: int)"
    and r: "(tx', r') = interface_bytes [0, 1, 2, 3] (nat (tx ! 3) div 16) atr p left tx"
    "(p', left') = r'"
  from c have "nat (tx ! 3) AND 0xF0 \<noteq> 0" by blast
  from upper_half_bit [OF this] obtain i where i4: "i \<in> set [0..<4]" and i: "bit (nat (tx ! 3) div 16) i" ..
  from i4 have i4': "i \<in> set [0, 1, 2, 3]" by auto
  from c have left: "left > 0" by blast
  from r have "interface_bytes [0, 1, 2, 3] (nat (tx ! 3) div 16) atr p left tx = (tx', p', left')" by simp
  from interface_bytes_less [OF left i4' i this] have "left' < left" .
  with c show "((atr, p', left', tx'), atr, p, left, tx) \<in> measure (\<lambda>(atr, p, left, tx). nat left)"
    by simp
qed simp

declare further_bytes.simps [simp del]

text \<open>The transmission parameters read from the first group.\<close>

definition atr_params :: "int list \<Rightarrow> atr_info \<Rightarrow> atr_info" where
  "atr_params tx info =
    (let info = (if tx ! 0 \<ge> 0 then
                   let FI = nat (tx ! 0) div 16; DI = nat (tx ! 0) mod 16
                   in info\<lparr>ai_FI := FI, ai_DI := DI, ai_Fi := Fi_table ! FI, ai_f := f_table ! FI,
                           ai_Di := Di_table ! DI\<rparr>
                 else info\<lparr>ai_Fi := - 1, ai_f := - 1, ai_Di := - 1\<rparr>)
     in if tx ! 2 \<ge> 0 then info\<lparr>ai_N := tx ! 3\<rparr> else info\<lparr>ai_N := - 1\<rparr>)"

definition sc_parse_atr :: "bytes \<Rightarrow> nat \<Rightarrow> atr_info \<Rightarrow> unit res \<times> atr_info" where
  "sc_parse_atr atr len info =
    (let info = info\<lparr>ai_hist_bytes_len := 0, ai_hist_bytes := None\<rparr> in
     if len = 0 then (Inl SC_ERROR_INTERNAL, info)
     else if atr ! 0 \<noteq> 0x3B \<and> atr ! 0 \<noteq> 0x3F then (Inl SC_ERROR_INTERNAL, info)
     else
       let n_hist = unat (atr ! 1 AND 0x0F);
           x = unat (drop_bit 4 (atr ! 1));
           (tx, p, left) = interface_bytes [0, 1, 2, 3] x atr 2 (int len - 2) [-1, -1, -1, -1];
           info = atr_params tx info;
           (tx, p, left) = further_bytes atr p left tx
       in if left \<le> 0 then (Inr (), info)
          else (Inr (), info\<lparr>ai_hist_bytes_len := (if int n_hist > left then nat left else n_hist),
                             ai_hist_bytes := Some p\<rparr>))"

lemma atr_params_hist [simp]:
  "ai_hist_bytes (atr_params tx info) = ai_hist_bytes info"
  "ai_hist_bytes_len (atr_params tx info) = ai_hist_bytes_len info"
  by (simp_all add: atr_params_def Let_def)

lemma parse_atr_eq:
  assumes "len \<noteq> 0" and "atr ! 0 = 0x3B \<or> atr ! 0 = 0x3F"
    and "interface_bytes [0, 1, 2, 3] (unat (drop_bit 4 (atr ! 1))) atr 2 (int len - 2)
      [-1, -1, -1, -1] = (tx, p, left)"
    and "further_bytes atr p left tx = (tx', p', left')"
  shows "sc_parse_atr atr len info =
    (let info = atr_params tx (info\<lparr>ai_hist_bytes_len := 0, ai_hist_bytes := None\<rparr>);
         n_hist = unat (atr ! 1 AND 0x0F)
     in if left' \<le> 0 then (Inr (), info)
        else (Inr (), info\<lparr>ai_hist_bytes_len := (if int n_hist > left' then nat left' else n_hist),
                           ai_hist_bytes := Some p'\<rparr>))"
proof -
  have "\<not> (atr ! 0 \<noteq> 0x3B \<and> atr ! 0 \<noteq> 0x3F)" using assms(2) by blast
  with assms(1) show ?thesis
    by (simp only: sc_parse_atr_def Let_def assms(3,4) if_False prod.case)
qed

section \<open>Matching\<close>

record sc_atr_table_entry =
  at_atr :: string
  at_atrmask :: "string option"
  at_type :: int

definition tolower :: "char \<Rightarrow> char" where
  "tolower c = (if 65 \<le> (of_char c :: nat) \<and> (of_char c :: nat) \<le> 90 then char_of ((of_char c :: nat) + 32) else c)"

definition strncasecmp_eq :: "string \<Rightarrow> string \<Rightarrow> nat \<Rightarrow> bool" where
  "strncasecmp_eq s t n \<longleftrightarrow> map tolower (take n s) = map tolower (take n t)"

text \<open>The body of the loop for one entry of the table.\<close>

definition match_entry :: "sc_atr_table_entry \<Rightarrow> bytes \<Rightarrow> string \<Rightarrow> bool" where
  "match_entry e card_atr card_atr_hex =
    (if length (at_atr e) \<noteq> length card_atr_hex then False
     else case at_atrmask e of
         Some matr \<Rightarrow>
          if length (at_atr e) \<noteq> length matr then False
          else
            let tbin = snd (sc_hex_to_bin (at_atr e) SC_MAX_ATR_SIZE);
                mbin = snd (sc_hex_to_bin matr SC_MAX_ATR_SIZE)
            in length mbin = length card_atr \<and>
               (\<forall>s < length tbin. tbin ! s AND mbin ! s = card_atr ! s AND mbin ! s)
       | None \<Rightarrow> strncasecmp_eq (at_atr e) card_atr_hex (length (at_atr e)))"

fun find_entry :: "nat \<Rightarrow> sc_atr_table_entry list \<Rightarrow> bytes \<Rightarrow> string \<Rightarrow> nat option" where
  "find_entry i [] card_atr hex = None"
| "find_entry i (e # es) card_atr hex =
     (if match_entry e card_atr hex then Some i else find_entry (Suc i) es card_atr hex)"

definition match_atr_table :: "sc_atr_table_entry list \<Rightarrow> bytes \<Rightarrow> nat option" where
  "match_atr_table table atr =
     find_entry 0 table atr
       (case sc_bin_to_hex atr (3 * SC_MAX_ATR_SIZE) (Some CHR '':'') of Inl _ \<Rightarrow> [] | Inr s \<Rightarrow> s)"

definition sc_match_atr :: "sc_atr_table_entry list \<Rightarrow> bytes \<Rightarrow> (nat \<times> int) option" where
  "sc_match_atr table atr =
     map_option (\<lambda>i. (i, at_type (table ! i))) (match_atr_table table atr)"

abbreviation (input) SC_CARD_TYPE_STARSIGN :: int where "SC_CARD_TYPE_STARSIGN \<equiv> 46000"

definition starsign_atrs :: "sc_atr_table_entry list" where
  "starsign_atrs =
    [\<lparr>at_atr = ''3B:F9:96:00:00:81:31:FE:45:53:43:45:37:20:0E:00:20:20:28'', at_atrmask = None,
      at_type = SC_CARD_TYPE_STARSIGN\<rparr>]"


section \<open>Lemmas on parsing\<close>

lemma further_bytes_left:
  "left \<ge> 0 \<Longrightarrow> further_bytes atr p left tx = (tx', p', left') \<Longrightarrow>
    0 \<le> left' \<and> int p' + left' = int p + left"
proof (induction atr p left tx rule: further_bytes.induct)
  case (1 atr p left tx)
  obtain tx1 p1 left1 where i: "interface_bytes [0, 1, 2, 3] (nat (tx ! 3) div 16) atr p left tx = (tx1, p1, left1)"
    by (metis prod.exhaust)
  from interface_bytes_left [OF "1.prems"(1) i] have l: "0 \<le> left1" "int p1 + left1 = int p + left" by auto
  show ?case
  proof (cases "tx ! 3 > 0 \<and> nat (tx ! 3) AND 0xF0 \<noteq> 0 \<and> left > 0")
    case True
    with "1.prems"(2) i have "further_bytes atr p1 left1 tx1 = (tx', p', left')"
      by (subst (asm) further_bytes.simps) simp
    with "1.IH" [OF True i [symmetric] refl l(1)] l show ?thesis by simp
  next
    case False
    with "1.prems" show ?thesis
      by (subst (asm) further_bytes.simps) (auto simp del: further_bytes.simps)
  qed
qed

lemma further_bytes_mono:
  "left \<ge> 0 \<Longrightarrow> further_bytes atr p left tx = (tx', p', left') \<Longrightarrow> left' \<le> left"
proof (induction atr p left tx rule: further_bytes.induct)
  case (1 atr p left tx)
  obtain tx1 p1 left1 where i: "interface_bytes [0, 1, 2, 3] (nat (tx ! 3) div 16) atr p left tx = (tx1, p1, left1)"
    by (metis prod.exhaust)
  from interface_bytes_left [OF "1.prems"(1) i] have l: "0 \<le> left1" "left1 \<le> left" by auto
  show ?case
  proof (cases "tx ! 3 > 0 \<and> nat (tx ! 3) AND 0xF0 \<noteq> 0 \<and> left > 0")
    case True
    with "1.prems"(2) i have "further_bytes atr p1 left1 tx1 = (tx', p', left')"
      by (subst (asm) further_bytes.simps) simp
    with "1.IH" [OF True i [symmetric] refl l(1)] l show ?thesis by simp
  next
    case False
    with "1.prems" show ?thesis by (subst (asm) further_bytes.simps) auto
  qed
qed

text \<open>Parsing an answer to reset stays inside it: of an ATR of at least two bytes the historical
  bytes reported lie within the bytes in use, and there are at most fifteen of them.\<close>
theorem parse_atr_within:
  assumes "2 \<le> len" and "sc_parse_atr atr len info = (Inr (), info')"
  shows "case ai_hist_bytes info' of
      None \<Rightarrow> ai_hist_bytes_len info' = 0
    | Some h \<Rightarrow> 2 \<le> h \<and> h + ai_hist_bytes_len info' \<le> len \<and> ai_hist_bytes_len info' \<le> 15"
proof -
  obtain tx p left where i: "interface_bytes [0, 1, 2, 3] (unat (drop_bit 4 (atr ! 1))) atr 2 (int len - 2)
      [-1, -1, -1, -1] = (tx, p, left)" by (metis prod.exhaust)
  obtain tx' p' left' where f: "further_bytes atr p left tx = (tx', p', left')" by (metis prod.exhaust)
  have l: "0 \<le> left" "int p + left = int len"
    using interface_bytes_left [OF _ i] assms(1) by auto
  have l': "0 \<le> left'" "int p' + left' = int len"
    using further_bytes_left [OF l(1) f] l by auto
  have "left \<le> int len - 2" using interface_bytes_left [OF _ i] assms(1) by auto
  have p: "2 \<le> p'"
  proof -
    have "left' \<le> left \<Longrightarrow> 2 \<le> p'" using l' \<open>left \<le> int len - 2\<close> by linarith
    moreover have "left' \<le> left" using further_bytes_mono [OF l(1) f] .
    ultimately show ?thesis by blast
  qed
  have n: "unat (atr ! 1 AND 0x0F) \<le> 15" using unat_nibble [of "atr ! 1"] by simp
  have ok: "len \<noteq> 0" "atr ! 0 = 0x3B \<or> atr ! 0 = 0x3F"
    using assms by (auto simp: sc_parse_atr_def Let_def split: if_splits)
  note eq = parse_atr_eq [OF ok i f, of info]
  show ?thesis
  proof (cases "left' \<le> 0")
    case True
    with assms(2) eq show ?thesis by (auto simp: Let_def)
  next
    case False
    with assms(2) eq have h: "ai_hist_bytes info' = Some p'"
      "ai_hist_bytes_len info' = (if int (unat (atr ! 1 AND 0x0F)) > left' then nat left' else unat (atr ! 1 AND 0x0F))"
      by (auto simp: Let_def)
    have "(if int k > left' then nat left' else k) \<le> nat left'" for k
      using False by auto
    then have "ai_hist_bytes_len info' \<le> nat left'" unfolding h(2) .
    moreover have "(if int k > left' then nat left' else k) \<le> 15" if "k \<le> 15" for k
      using that False by auto
    then have "ai_hist_bytes_len info' \<le> 15" unfolding h(2) using n .
    moreover have "p' + nat left' = len" using l' by linarith
    ultimately show ?thesis using h(1) p by simp
  qed
qed


definition starsign_atr :: bytes where
  "starsign_atr = [0x3B, 0xF9, 0x96, 0x00, 0x00, 0x81, 0x31, 0xFE, 0x45, 0x53, 0x43, 0x45, 0x37, 0x20,
     0x0E, 0x00, 0x20, 0x20, 0x28]"

definition no_info :: atr_info where
  "no_info = \<lparr>ai_hist_bytes = None, ai_hist_bytes_len = 0, ai_Fi = 0, ai_f = 0, ai_Di = 0, ai_N = 0,
     ai_FI = 0, ai_DI = 0\<rparr>"

lemma starsign_atr_parsed:
  "sc_parse_atr starsign_atr 19 no_info =
    (Inr (), \<lparr>ai_hist_bytes = Some 9, ai_hist_bytes_len = 9, ai_Fi = 512, ai_f = 50, ai_Di = 32,
              ai_N = 0x81, ai_FI = 9, ai_DI = 6\<rparr>)"
  by code_simp

theorem parse_atr_within_witness:
  "sc_parse_atr starsign_atr 19 no_info \<noteq> (Inl SC_ERROR_INTERNAL, no_info) \<and> 9 + (9 :: nat) \<le> 19"
  using parse_atr_within [OF _ starsign_atr_parsed] starsign_atr_parsed by simp

text \<open>The guard time of an answer to reset is read from the wrong byte: when the four interface
  bytes TA1, TB1, TC1 and TD1 are all present, \<open>atr_info.N\<close> is set to TD1 and not to TC1, the byte
  that carries the extra guard time N.\<close>
theorem parse_atr_guard_time:
  assumes "6 \<le> len" and "atr ! 0 = 0x3B" and "drop_bit 4 (atr ! 1) = 0xF"
  shows "ai_N (snd (sc_parse_atr atr len info)) = int (unat (atr ! 5))"
proof -
  have "interface_bytes [0, 1, 2, 3] (unat (drop_bit 4 (atr ! 1))) atr 2 (int len - 2) [-1, -1, -1, -1] =
      ([int (unat (atr ! 2)), int (unat (atr ! 3)), int (unat (atr ! 4)), int (unat (atr ! 5))], 6, int len - 6)"
    using assms(1,3) by (simp add: bit_iff_odd)
  moreover obtain tx' p' left' where "further_bytes atr 6 (int len - 6)
      [int (unat (atr ! 2)), int (unat (atr ! 3)), int (unat (atr ! 4)), int (unat (atr ! 5))] = (tx', p', left')"
    by (metis prod.exhaust)
  ultimately show ?thesis
    using parse_atr_eq [of len atr _ 6 "int len - 6" tx' p' left' info] assms(1,2)
    by (simp add: Let_def atr_params_def)
qed

theorem parse_atr_guard_time_witness:
  "ai_N (snd (sc_parse_atr starsign_atr 19 no_info)) = 0x81 \<and> starsign_atr ! 4 = 0"
  using parse_atr_guard_time [of 19 starsign_atr no_info] by (simp add: starsign_atr_def)

section \<open>Lemmas on matching\<close>

lemma of_char_tolower:
  "(of_char (tolower c) :: nat) = (let n = of_char c in if 65 \<le> n \<and> n \<le> 90 then n + 32 else n)"
  by (auto simp: tolower_def Let_def)

lemma hex_nibble_tolower: "hex_nibble (tolower c) = hex_nibble c"
  by (auto simp: hex_nibble_def of_char_tolower Let_def)

lemma separator_tolower: "hex_separator (tolower c) = hex_separator c"
proof -
  have "hex_separator d = ((of_char d :: nat) = 32 \<or> (of_char d :: nat) = 58)" for d
  proof -
    have "(d = CHR '' '') = ((of_char d :: nat) = of_char (CHR '' ''))" "(d = CHR '':'') = ((of_char d :: nat) = of_char (CHR '':''))"
      by (simp_all only: of_char_eq_iff)
    then show ?thesis by (simp add: hex_separator_def)
  qed
  then show ?thesis by (auto simp: of_char_tolower Let_def)
qed

lemma hex_loop_tolower:
  "hex_loop (map tolower s) left pend out =
    (case hex_loop s left pend out of (r, rest, l, p, os) \<Rightarrow> (r, map tolower rest, l, p, os))"
  by (induction s left pend out rule: hex_loop.induct)
    (auto simp: hex_nibble_tolower separator_tolower split: option.splits)

lemma hex_to_bin_tolower: "sc_hex_to_bin (map tolower s) n = sc_hex_to_bin s n"
proof -
  obtain r rest l p os where h: "hex_loop s n None [] = (r, rest, l, p, os)" by (metis prod.exhaust)
  have "(dropWhile hex_separator (map tolower rest) = []) = (dropWhile hex_separator rest = [])"
    by (simp add: separator_tolower)
  with h show ?thesis
    by (cases r) (simp_all add: sc_hex_to_bin_def hex_loop_tolower Let_def)
qed


text \<open>A table entry whose text is the hexadecimal form of \<open>ebs\<close>, in any mix of cases.\<close>

definition text_of :: "bytes \<Rightarrow> string \<Rightarrow> bool" where
  "text_of ebs s \<longleftrightarrow> map tolower s = map tolower (hex_text (Some CHR '':'') ebs) \<and> length ebs \<le> SC_MAX_ATR_SIZE"

lemma good_colon [simp]: "good_sep (Some CHR '':'')"
  by (simp add: good_sep_def hex_separator_def)

lemma text_of_bytes:
  assumes "text_of ebs s"
  shows "sc_hex_to_bin s SC_MAX_ATR_SIZE = (Inr (), ebs)"
proof -
  have "sc_hex_to_bin s SC_MAX_ATR_SIZE = sc_hex_to_bin (map tolower s) SC_MAX_ATR_SIZE"
    by (rule hex_to_bin_tolower [symmetric])
  also have "\<dots> = sc_hex_to_bin (map tolower (hex_text (Some CHR '':'') ebs)) SC_MAX_ATR_SIZE"
    using assms unfolding text_of_def by simp
  also have "\<dots> = sc_hex_to_bin (hex_text (Some CHR '':'') ebs) SC_MAX_ATR_SIZE"
    by (rule hex_to_bin_tolower)
  also have "\<dots> = (Inr (), ebs)"
    using assms unfolding text_of_def by (intro hex_to_bin_text) simp_all
  finally show ?thesis .
qed

lemma length_hex_text: "length (hex_text (Some c) bs) = 3 * length bs - 1"
  by (induction "Some c" bs rule: hex_text.induct) (simp_all add: hex_byte_def)

lemma text_of_length: "text_of ebs s \<Longrightarrow> length s = 3 * length ebs - 1"
  unfolding text_of_def by (metis length_hex_text length_map)

lemma text_of_inj: "text_of ebs s \<Longrightarrow> length atr \<le> SC_MAX_ATR_SIZE \<Longrightarrow>
    (map tolower s = map tolower (hex_text (Some CHR '':'') atr)) = (atr = ebs)"
proof
  assume s: "text_of ebs s" and l: "length atr \<le> SC_MAX_ATR_SIZE"
    and e: "map tolower s = map tolower (hex_text (Some CHR '':'') atr)"
  have "text_of atr s" using l e by (simp add: text_of_def)
  from text_of_bytes [OF this] text_of_bytes [OF s] show "atr = ebs" by simp
qed (simp add: text_of_def)

definition masked_eq :: "bytes \<Rightarrow> bytes \<Rightarrow> bytes \<Rightarrow> bool" where
  "masked_eq m a b \<longleftrightarrow> (\<forall>i < length m. a ! i AND m ! i = b ! i AND m ! i)"

text \<open>An entry with its bytes and mask, as the table means it.\<close>

definition entry_matches :: "bytes \<times> bytes option \<Rightarrow> bytes \<Rightarrow> bool" where
  "entry_matches e atr \<longleftrightarrow>
     (case e of (ebs, None) \<Rightarrow> atr = ebs
      | (ebs, Some m) \<Rightarrow> length atr = length ebs \<and> masked_eq m atr ebs)"

definition entry_means :: "sc_atr_table_entry \<Rightarrow> bytes \<times> bytes option \<Rightarrow> bool" where
  "entry_means e b \<longleftrightarrow> text_of (fst b) (at_atr e) \<and> fst b \<noteq> [] \<and>
     (case snd b of None \<Rightarrow> at_atrmask e = None
      | Some m \<Rightarrow> length m = length (fst b) \<and> (\<exists>s. at_atrmask e = Some s \<and> text_of m s))"

lemma match_entry_means:
  assumes m: "entry_means e b" and l: "length atr \<le> SC_MAX_ATR_SIZE" "atr \<noteq> []"
  shows "match_entry e atr (hex_text (Some CHR '':'') atr) = entry_matches b atr"
proof -
  obtain ebs mask where b: "b = (ebs, mask)" by (cases b)
  have t: "text_of ebs (at_atr e)" "ebs \<noteq> []" using m b by (simp_all add: entry_means_def)
  have len: "(length (at_atr e) = length (hex_text (Some CHR '':'') atr)) = (length atr = length ebs)"
    using t l(2) by (cases ebs; cases atr) (auto simp: text_of_length length_hex_text)
  show ?thesis
  proof (cases mask)
    case None
    with m b have n: "at_atrmask e = None" by (simp add: entry_means_def)
    have "strncasecmp_eq (at_atr e) (hex_text (Some CHR '':'') atr) (length (at_atr e)) = (atr = ebs)"
      if "length atr = length ebs"
      using text_of_inj [OF t(1) l(1)] that len by (simp add: strncasecmp_eq_def)
    with n b None len show ?thesis
      by (auto simp: match_entry_def entry_matches_def)
  next
    case (Some mb)
    with m b obtain s where s: "at_atrmask e = Some s" "text_of mb s" "length mb = length ebs"
      by (auto simp: entry_means_def)
    have ls: "length s = length (at_atr e)" using text_of_length [OF s(2)] text_of_length [OF t(1)] s(3) by simp
    show ?thesis
      using s len ls b Some text_of_bytes [OF t(1)] text_of_bytes [OF s(2)]
      by (auto simp: match_entry_def entry_matches_def masked_eq_def Let_def)
  qed
qed

text \<open>Matching a card by its answer to reset: when every entry of a table is the hexadecimal
  text of some bytes, in upper or lower case, the search returns the first entry whose bytes
  are the card's (under the entry's mask, when it has one), and nothing when there is none.\<close>
theorem match_atr_first:
  assumes "list_all2 entry_means table es" and "length atr \<le> SC_MAX_ATR_SIZE" and "atr \<noteq> []"
  shows "match_atr_table table atr =
    (if \<exists>e \<in> set es. entry_matches e atr
     then Some (length (takeWhile (\<lambda>e. \<not> entry_matches e atr) es)) else None)"
proof -
  let ?h = "hex_text (Some CHR '':'') atr"
  have "sc_bin_to_hex atr (3 * SC_MAX_ATR_SIZE) (Some CHR '':'') = Inr ?h"
    using assms(2) by (simp add: sc_bin_to_hex_def)
  then have t: "match_atr_table table atr = find_entry 0 table atr ?h"
    by (simp add: match_atr_table_def)
  have "find_entry i table atr ?h =
    (if \<exists>e \<in> set es. entry_matches e atr
     then Some (i + length (takeWhile (\<lambda>e. \<not> entry_matches e atr) es)) else None)" for i
    using assms(1)
  proof (induction table es arbitrary: i rule: list_all2_induct)
    case Nil
    then show ?case by simp
  next
    case (Cons e table b es)
    with match_entry_means [OF Cons.hyps(1) assms(2,3)] show ?case by simp
  qed
  with t show ?thesis by simp
qed

lemma starsign_entry: "list_all2 entry_means starsign_atrs [(starsign_atr, None)]"
proof -
  have "map tolower (at_atr (hd starsign_atrs)) = map tolower (hex_text (Some CHR '':'') starsign_atr)"
    by code_simp
  then show ?thesis
    by (simp add: starsign_atrs_def entry_means_def text_of_def) (simp add: starsign_atr_def)
qed

theorem match_atr_first_witness:
  "match_atr_table starsign_atrs starsign_atr = Some 0 \<and> match_atr_table starsign_atrs [0x3B, 0x80] = None"
  using match_atr_first [OF starsign_entry, of starsign_atr] match_atr_first [OF starsign_entry, of "[0x3B, 0x80]"]
  by (simp add: entry_matches_def starsign_atr_def)

end
