(* ===== verification/Sc_Pcsc.thy ===== *)
theory Sc_Pcsc
  imports Sc_Transmit Sc_Atr
begin

text \<open>
  The PC/SC reader driver (\<open>libopensc/reader-pcsc.c\<close>): status and error translation, transmission,
  connection, reconnection, the transaction that serves as the reader's lock, reset.

  The PC/SC service is not part of the sources: the record \<open>pcsc_api\<close> holds its functions, which
  act on a state \<open>'s\<close> of their own. The driver's state of one reader is the record
  \<open>pcsc_reader\<close>: the public fields of \<open>sc_reader_t\<close>, the fields of \<open>pcsc_private_data\<close> and
  \<open>pcsc_global_private_data\<close>, and the service. The library is built for PCSC-lite.

  A transmission that fails may reconnect the card, connecting may ask the card for its UID, and
  that is a transmission again: \<open>pcsc_transmit\<close> runs on fuel, one unit per level of that nesting.
  One unit is enough for a reader without escape commands.
\<close>

section \<open>Constants\<close>

abbreviation (input) SCARD_S_SUCCESS :: int where "SCARD_S_SUCCESS \<equiv> 0"
abbreviation (input) SCARD_E_INVALID_HANDLE :: int where "SCARD_E_INVALID_HANDLE \<equiv> 0x80100003"
abbreviation (input) SCARD_E_UNKNOWN_READER :: int where "SCARD_E_UNKNOWN_READER \<equiv> 0x80100009"
abbreviation (input) SCARD_E_TIMEOUT :: int where "SCARD_E_TIMEOUT \<equiv> 0x8010000A"
abbreviation (input) SCARD_E_SHARING_VIOLATION :: int where "SCARD_E_SHARING_VIOLATION \<equiv> 0x8010000B"
abbreviation (input) SCARD_E_NO_SMARTCARD :: int where "SCARD_E_NO_SMARTCARD \<equiv> 0x8010000C"
abbreviation (input) SCARD_E_PROTO_MISMATCH :: int where "SCARD_E_PROTO_MISMATCH \<equiv> 0x8010000F"
abbreviation (input) SCARD_E_INVALID_VALUE :: int where "SCARD_E_INVALID_VALUE \<equiv> 0x80100011"
abbreviation (input) SCARD_E_NOT_TRANSACTED :: int where "SCARD_E_NOT_TRANSACTED \<equiv> 0x80100016"
abbreviation (input) SCARD_E_READER_UNAVAILABLE :: int where "SCARD_E_READER_UNAVAILABLE \<equiv> 0x80100017"
abbreviation (input) SCARD_E_NO_SERVICE :: int where "SCARD_E_NO_SERVICE \<equiv> 0x8010001D"
abbreviation (input) SCARD_E_SERVICE_STOPPED :: int where "SCARD_E_SERVICE_STOPPED \<equiv> 0x8010001E"
abbreviation (input) SCARD_E_NO_READERS_AVAILABLE :: int where "SCARD_E_NO_READERS_AVAILABLE \<equiv> 0x8010002E"
abbreviation (input) SCARD_W_UNRESPONSIVE_CARD :: int where "SCARD_W_UNRESPONSIVE_CARD \<equiv> 0x80100066"
abbreviation (input) SCARD_W_UNPOWERED_CARD :: int where "SCARD_W_UNPOWERED_CARD \<equiv> 0x80100067"
abbreviation (input) SCARD_W_RESET_CARD :: int where "SCARD_W_RESET_CARD \<equiv> 0x80100068"
abbreviation (input) SCARD_W_REMOVED_CARD :: int where "SCARD_W_REMOVED_CARD \<equiv> 0x80100069"

abbreviation (input) SCARD_PROTOCOL_T0 :: u32 where "SCARD_PROTOCOL_T0 \<equiv> 1"
abbreviation (input) SCARD_PROTOCOL_T1 :: u32 where "SCARD_PROTOCOL_T1 \<equiv> 2"
abbreviation (input) SCARD_PROTOCOL_RAW :: u32 where "SCARD_PROTOCOL_RAW \<equiv> 4"
abbreviation (input) SCARD_STATE_UNKNOWN :: u32 where "SCARD_STATE_UNKNOWN \<equiv> 0x04"
abbreviation (input) SCARD_STATE_PRESENT :: u32 where "SCARD_STATE_PRESENT \<equiv> 0x20"
abbreviation (input) SCARD_STATE_EXCLUSIVE :: u32 where "SCARD_STATE_EXCLUSIVE \<equiv> 0x80"
abbreviation (input) SCARD_STATE_INUSE :: u32 where "SCARD_STATE_INUSE \<equiv> 0x100"
abbreviation (input) SCARD_SHARE_EXCLUSIVE :: u32 where "SCARD_SHARE_EXCLUSIVE \<equiv> 1"
abbreviation (input) SCARD_SHARE_SHARED :: u32 where "SCARD_SHARE_SHARED \<equiv> 2"
abbreviation (input) SCARD_LEAVE_CARD :: u32 where "SCARD_LEAVE_CARD \<equiv> 0"
abbreviation (input) SCARD_RESET_CARD :: u32 where "SCARD_RESET_CARD \<equiv> 1"
abbreviation (input) SCARD_UNPOWER_CARD :: u32 where "SCARD_UNPOWER_CARD \<equiv> 2"

abbreviation (input) SC_READER_CARD_PRESENT :: u64 where "SC_READER_CARD_PRESENT \<equiv> 0x01"
abbreviation (input) SC_READER_CARD_CHANGED :: u64 where "SC_READER_CARD_CHANGED \<equiv> 0x02"
abbreviation (input) SC_READER_CARD_INUSE :: u64 where "SC_READER_CARD_INUSE \<equiv> 0x04"
abbreviation (input) SC_READER_CARD_EXCLUSIVE :: u64 where "SC_READER_CARD_EXCLUSIVE \<equiv> 0x08"
abbreviation (input) SC_READER_REMOVED :: u64 where "SC_READER_REMOVED \<equiv> 0x20"
abbreviation (input) SC_READER_ENABLE_ESCAPE :: u64 where "SC_READER_ENABLE_ESCAPE \<equiv> 0x40"
abbreviation (input) SC_CTX_FLAG_TERMINATE :: u64 where "SC_CTX_FLAG_TERMINATE \<equiv> 1"
abbreviation (input) MAXDWORD :: nat where "MAXDWORD \<equiv> 4294967295"
abbreviation (input) SC_MAX_UID_SIZE :: nat where "SC_MAX_UID_SIZE \<equiv> 10"

section \<open>State\<close>

record 's pcsc_api =
  SCardTransmit :: "nat \<Rightarrow> u32 \<Rightarrow> bytes \<Rightarrow> nat \<Rightarrow> 's \<Rightarrow> (int \<times> bytes) \<times> 's"
  SCardControlOLD :: "(nat \<Rightarrow> bytes \<Rightarrow> nat \<Rightarrow> 's \<Rightarrow> (int \<times> bytes) \<times> 's) option"
  SCardControl :: "(nat \<Rightarrow> u8 \<Rightarrow> bytes \<Rightarrow> nat \<Rightarrow> 's \<Rightarrow> (int \<times> bytes) \<times> 's) option"
  SCardGetStatusChange :: "u32 \<Rightarrow> 's \<Rightarrow> (int \<times> u32 \<times> bytes) \<times> 's"
  SCardStatus :: "nat \<Rightarrow> 's \<Rightarrow> int \<times> 's"
  SCardReconnect :: "nat \<Rightarrow> u32 \<Rightarrow> u32 \<Rightarrow> u32 \<Rightarrow> u32 \<Rightarrow> 's \<Rightarrow> (int \<times> u32) \<times> 's"
  SCardConnect :: "u32 \<Rightarrow> u32 \<Rightarrow> 's \<Rightarrow> (int \<times> nat \<times> u32) \<times> 's"
  SCardDisconnect :: "nat \<Rightarrow> u32 \<Rightarrow> 's \<Rightarrow> int \<times> 's"
  SCardBeginTransaction :: "nat \<Rightarrow> 's \<Rightarrow> int \<times> 's"
  SCardEndTransaction :: "nat \<Rightarrow> u32 \<Rightarrow> 's \<Rightarrow> int \<times> 's"

text \<open>\<open>r_atr\<close> is the whole array \<open>atr.value\<close>, \<open>r_atr_len\<close> the bytes in use.\<close>

record 's pcsc_reader =
  r_flags :: u64
  r_active_protocol :: u32
  r_atr :: bytes
  r_atr_len :: nat
  r_uid :: bytes
  r_ctx_flags :: u64
  p_pcsc_card :: nat
  p_named :: bool
  p_current_state :: u32
  p_event_state :: u32
  p_locked :: bool
  g_cardmod :: bool
  g_connect_exclusive :: bool
  g_transaction_end_action :: u32
  g_disconnect_action :: u32
  g_removed_reader :: bool
  g_env :: 's

text \<open>The configuration the driver reads: \<open>force_protocol\<close> of the block that matches the ATR
  (\<open>unknown\<close> when there is none).\<close>

type_synonym force_conf = "bytes \<Rightarrow> string"

section \<open>Translations\<close>

definition pcsc_to_opensc_error :: "int \<Rightarrow> unit res" where
  "pcsc_to_opensc_error rv =
    (if rv = SCARD_S_SUCCESS then Inr ()
     else if rv = SCARD_W_REMOVED_CARD then Inl SC_ERROR_CARD_REMOVED
     else if rv = SCARD_E_NOT_TRANSACTED then Inl SC_ERROR_TRANSMIT_FAILED
     else if rv = SCARD_W_UNRESPONSIVE_CARD then Inl SC_ERROR_CARD_UNRESPONSIVE
     else if rv = SCARD_W_UNPOWERED_CARD then Inl SC_ERROR_CARD_UNRESPONSIVE
     else if rv = SCARD_E_SHARING_VIOLATION then Inl SC_ERROR_READER_LOCKED
     else if rv = SCARD_E_NO_READERS_AVAILABLE then Inl SC_ERROR_NO_READERS_FOUND
     else if rv = SCARD_E_UNKNOWN_READER then Inl SC_ERROR_READER_DETACHED
     else if rv = SCARD_E_NO_SERVICE \<or> rv = SCARD_E_SERVICE_STOPPED then Inl SC_ERROR_NO_READERS_FOUND
     else if rv = SCARD_E_NO_SMARTCARD then Inl SC_ERROR_CARD_NOT_PRESENT
     else if rv = SCARD_E_PROTO_MISMATCH then Inl SC_ERROR_READER
     else Inl SC_ERROR_UNKNOWN)"

definition pcsc_proto_to_opensc :: "u32 \<Rightarrow> u32" where
  "pcsc_proto_to_opensc proto =
    (if proto = SCARD_PROTOCOL_T0 then SC_PROTO_T0
     else if proto = SCARD_PROTOCOL_T1 then SC_PROTO_T1
     else if proto = SCARD_PROTOCOL_RAW then SC_PROTO_RAW else 0)"

definition opensc_proto_to_pcsc :: "u32 \<Rightarrow> u32" where
  "opensc_proto_to_pcsc proto =
    (if proto = SC_PROTO_T0 then SCARD_PROTOCOL_T0
     else if proto = SC_PROTO_T1 then SCARD_PROTOCOL_T1
     else if proto = SC_PROTO_RAW then SCARD_PROTOCOL_RAW else 0)"

definition pcsc_reset_action :: "string \<Rightarrow> u32" where
  "pcsc_reset_action str =
    (if str = ''reset'' then SCARD_RESET_CARD
     else if str = ''unpower'' then SCARD_UNPOWER_CARD else SCARD_LEAVE_CARD)"

section \<open>Status\<close>

definition set_flag :: "u64 \<Rightarrow> 's pcsc_reader \<Rightarrow> 's pcsc_reader" where
  "set_flag f r = r\<lparr>r_flags := r_flags r OR f\<rparr>"

definition clear_flag :: "u64 \<Rightarrow> 's pcsc_reader \<Rightarrow> 's pcsc_reader" where
  "clear_flag f r = r\<lparr>r_flags := r_flags r AND NOT f\<rparr>"

definition flag :: "'s pcsc_reader \<Rightarrow> u64 \<Rightarrow> bool" where
  "flag r f \<longleftrightarrow> r_flags r AND f \<noteq> 0"

definition terminating :: "'s pcsc_reader \<Rightarrow> bool" where
  "terminating r \<longleftrightarrow> r_ctx_flags r AND SC_CTX_FLAG_TERMINATE \<noteq> 0"

text \<open>The timeout branch of the status query: nothing changed, unless the card handle is dead.\<close>

definition status_timeout :: "'s pcsc_api \<Rightarrow> 's pcsc_reader \<Rightarrow> 's pcsc_reader" where
  "status_timeout api r =
    (let r = (if p_event_state r AND SCARD_STATE_PRESENT \<noteq> 0 then set_flag SC_READER_CARD_PRESENT r else r);
         r = clear_flag SC_READER_CARD_CHANGED r
     in if p_pcsc_card r \<noteq> 0 then
          let (rv, e) = SCardStatus api (p_pcsc_card r) (g_env r); r = r\<lparr>g_env := e\<rparr>
          in if rv \<noteq> SCARD_S_SUCCESS then set_flag SC_READER_CARD_CHANGED r else r
        else r)"

text \<open>The reader is gone.\<close>

definition status_detached :: "'s pcsc_reader \<Rightarrow> 's pcsc_reader" where
  "status_detached r =
    (let r = (if flag r SC_READER_REMOVED then clear_flag SC_READER_CARD_CHANGED r
              else set_flag SC_READER_CARD_CHANGED r)
     in (set_flag SC_READER_REMOVED (clear_flag SC_READER_CARD_PRESENT r))\<lparr>g_removed_reader := True\<rparr>)"

text \<open>A card is present: \<open>atr\<close> is its answer to reset, \<open>old_flags\<close> the flags before the query.\<close>

definition status_present :: "'s pcsc_api \<Rightarrow> u64 \<Rightarrow> bytes \<Rightarrow> ('s pcsc_reader, unit) prog" where
  "status_present api old_flags atr r =
    (let r = set_flag SC_READER_CARD_PRESENT r; state = p_event_state r; prev = p_current_state r in
     if length atr > SC_MAX_ATR_SIZE then (Inl SC_ERROR_INTERNAL, r)
     else
       let r = (if atr \<noteq> take (length atr) (r_atr r)
                then r\<lparr>r_atr_len := length atr, r_atr := memcpy_at (r_atr r) 0 atr\<rparr> else r);
           r = (if state AND SCARD_STATE_INUSE \<noteq> 0 then set_flag SC_READER_CARD_INUSE r else r);
           r = (if state AND SCARD_STATE_EXCLUSIVE \<noteq> 0 then set_flag SC_READER_CARD_EXCLUSIVE r else r)
       in if old_flags AND SC_READER_CARD_PRESENT \<noteq> 0 then
            if state AND 0xFFFF0000 \<noteq> prev AND 0xFFFF0000 then (Inr (), set_flag SC_READER_CARD_CHANGED r)
            else
              let (rv, e) = SCardStatus api (p_pcsc_card r) (g_env r); r = r\<lparr>g_env := e\<rparr>
              in (Inr (), (if rv = SCARD_W_REMOVED_CARD \<or> rv = SCARD_E_INVALID_VALUE
                           then set_flag SC_READER_CARD_CHANGED r else r))
          else (Inr (), set_flag SC_READER_CARD_CHANGED r))"

definition refresh_attributes :: "'s pcsc_api \<Rightarrow> ('s pcsc_reader, unit) prog" where
  "refresh_attributes api r =
    (if terminating r then (Inl SC_ERROR_NOT_ALLOWED, r)
     else
       let old_flags = r_flags r;
           r = (if \<not> p_named r \<or> flag r SC_READER_REMOVED
                then r\<lparr>p_named := True, p_current_state := 0, p_event_state := 0\<rparr>
                else r\<lparr>p_current_state := p_event_state r\<rparr>);
           ((rv, ev, atr), e) = SCardGetStatusChange api (p_current_state r) (g_env r);
           r = r\<lparr>p_event_state := ev, g_env := e\<rparr>
       in if rv \<noteq> SCARD_S_SUCCESS then
            if rv = SCARD_E_TIMEOUT then (Inr (), status_timeout api r)
            else if rv = SCARD_E_UNKNOWN_READER \<or> rv = SCARD_E_NO_READERS_AVAILABLE \<or> rv = SCARD_E_SERVICE_STOPPED
            then (Inr (), status_detached r)
            else (pcsc_to_opensc_error rv, r)
          else if ev AND SCARD_STATE_UNKNOWN \<noteq> 0 then (Inr (), clear_flag SC_READER_CARD_PRESENT r)
          else
            let r = clear_flag (SC_READER_CARD_CHANGED OR SC_READER_CARD_INUSE OR SC_READER_CARD_EXCLUSIVE) r
            in if ev AND SCARD_STATE_PRESENT \<noteq> 0 then status_present api old_flags atr r
               else (Inr (), clear_flag SC_READER_CARD_PRESENT r))"

text \<open>The value is the flags word, 0 when there is no card.\<close>

definition pcsc_detect_card_presence :: "'s pcsc_api \<Rightarrow> ('s pcsc_reader, u64) prog" where
  "pcsc_detect_card_presence api =
     sbind (refresh_attributes api)
       (\<lambda>_ r. (Inr (if flag r SC_READER_CARD_PRESENT then r_flags r else 0), r))"


section \<open>Protocol and connection\<close>

text \<open>The known SmartCard-HSM cards (\<open>libopensc/card-sc-hsm.c\<close>), which are forced to T=1.\<close>

definition sc_hsm_atrs :: "sc_atr_table_entry list" where
  "sc_hsm_atrs =
    [\<lparr>at_atr = ''3B:FE:18:00:00:81:31:FE:45:80:31:81:54:48:53:4D:31:73:80:21:40:81:07:FA'', at_atrmask = None,
       at_type = 26000\<rparr>,
     \<lparr>at_atr = ''3B:8E:80:01:80:31:81:54:48:53:4D:31:73:80:21:40:81:07:18'', at_atrmask = None,
       at_type = 26000\<rparr>,
     \<lparr>at_atr = ''3B:DE:18:FF:81:91:FE:1F:C3:80:31:81:54:48:53:4D:31:73:80:21:40:81:07:1C'', at_atrmask = None,
       at_type = 26000\<rparr>,
     \<lparr>at_atr = ''3B:DE:96:FF:81:91:FE:1F:C3:80:31:81:54:48:53:4D:31:73:80:21:40:81:07:92'', at_atrmask = None,
       at_type = 26000\<rparr>,
     \<lparr>at_atr = ''3B:80:80:01:01'', at_atrmask = None,
       at_type = 26001\<rparr>,
     \<lparr>at_atr = ''3B:84:80:01:47:6f:49:44:00'', at_atrmask = Some ''FF:FF:FF:FF:FF:FF:FF:FF:00'',
       at_type = 26002\<rparr>,
     \<lparr>at_atr = ''3B:85:80:01:47:6f:49:44:00:00'', at_atrmask = Some ''FF:FF:FF:FF:FF:FF:FF:FF:00:00'',
       at_type = 26002\<rparr>,
     \<lparr>at_atr = ''3B:86:80:01:47:6f:49:44:00:00:00'', at_atrmask = Some ''FF:FF:FF:FF:FF:FF:FF:FF:00:00:00'',
       at_type = 26002\<rparr>,
     \<lparr>at_atr = ''3B:87:80:01:47:6f:49:44:00:00:00:00'', at_atrmask = Some ''FF:FF:FF:FF:FF:FF:FF:FF:00:00:00:00'',
       at_type = 26002\<rparr>,
     \<lparr>at_atr = ''3B:88:80:01:47:6f:49:44:00:00:00:00:00'', at_atrmask = Some ''FF:FF:FF:FF:FF:FF:FF:FF:00:00:00:00:00'',
       at_type = 26002\<rparr>,
     \<lparr>at_atr = ''3B:89:80:01:47:6f:49:44:00:00:00:00:00:00'', at_atrmask = Some ''FF:FF:FF:FF:FF:FF:FF:FF:00:00:00:00:00:00'',
       at_type = 26002\<rparr>,
     \<lparr>at_atr = ''3B:8a:80:01:47:6f:49:44:00:00:00:00:00:00:00'', at_atrmask = Some ''FF:FF:FF:FF:FF:FF:FF:FF:00:00:00:00:00:00:00'',
       at_type = 26002\<rparr>,
     \<lparr>at_atr = ''3B:8b:80:01:47:6f:49:44:00:00:00:00:00:00:00:00'', at_atrmask = Some ''FF:FF:FF:FF:FF:FF:FF:FF:00:00:00:00:00:00:00:00'',
       at_type = 26002\<rparr>,
     \<lparr>at_atr = ''3B:8c:80:01:47:6f:49:44:00:00:00:00:00:00:00:00:00'', at_atrmask = Some ''FF:FF:FF:FF:FF:FF:FF:FF:00:00:00:00:00:00:00:00:00'',
       at_type = 26002\<rparr>,
     \<lparr>at_atr = ''3B:8d:80:01:47:6f:49:44:00:00:00:00:00:00:00:00:00:00'', at_atrmask = Some ''FF:FF:FF:FF:FF:FF:FF:FF:00:00:00:00:00:00:00:00:00:00'',
       at_type = 26002\<rparr>,
     \<lparr>at_atr = ''3B:8e:80:01:47:6f:49:44:00:00:00:00:00:00:00:00:00:00:00'', at_atrmask = Some ''FF:FF:FF:FF:FF:FF:FF:FF:00:00:00:00:00:00:00:00:00:00:00'',
       at_type = 26002\<rparr>,
     \<lparr>at_atr = ''3B:8f:80:01:47:6f:49:44:00:00:00:00:00:00:00:00:00:00:00:00'', at_atrmask = Some ''FF:FF:FF:FF:FF:FF:FF:FF:00:00:00:00:00:00:00:00:00:00:00:00'',
       at_type = 26002\<rparr>]"

text \<open>The protocol to force, if any.\<close>

definition check_forced_protocol :: "force_conf \<Rightarrow> 's pcsc_reader \<Rightarrow> u32 option" where
  "check_forced_protocol conf r =
    (let atr = take (r_atr_len r) (r_atr r); forcestr = conf atr in
     if forcestr = ''t0'' then Some SCARD_PROTOCOL_T0
     else if forcestr = ''t1'' then Some SCARD_PROTOCOL_T1
     else if forcestr = ''raw'' then Some SCARD_PROTOCOL_RAW
     else if r_uid r \<noteq> [] then Some SCARD_PROTOCOL_T1
     else if sc_match_atr sc_hsm_atrs atr \<noteq> None then Some SCARD_PROTOCOL_T1
     else None)"

definition share_mode :: "'s pcsc_reader \<Rightarrow> u32" where
  "share_mode r = (if g_connect_exclusive r then SCARD_SHARE_EXCLUSIVE else SCARD_SHARE_SHARED)"

definition pcsc_reconnect :: "'s pcsc_api \<Rightarrow> force_conf \<Rightarrow> u32 \<Rightarrow> ('s pcsc_reader, unit) prog" where
  "pcsc_reconnect api conf action r0 =
    (let active_proto = opensc_proto_to_pcsc (r_active_protocol r0) in
     sbind (refresh_attributes api) (\<lambda>_ r.
       if \<not> flag r SC_READER_CARD_PRESENT then (Inl SC_ERROR_CARD_NOT_PRESENT, r)
       else
         let protocol = (case check_forced_protocol conf r of Some p \<Rightarrow> p | None \<Rightarrow> SCARD_PROTOCOL_T0 OR SCARD_PROTOCOL_T1);
             ((rv, proto), e) = SCardReconnect api (p_pcsc_card r) (share_mode r) protocol action active_proto (g_env r);
             r = r\<lparr>g_env := e\<rparr>
         in if rv \<noteq> SCARD_S_SUCCESS then (pcsc_to_opensc_error rv, r)
            else (pcsc_to_opensc_error rv, r\<lparr>r_active_protocol := pcsc_proto_to_opensc proto\<rparr>)) r0)"

text \<open>
  Asking a contactless card for its UID; \<open>tx\<close> is the reader's transmission. Its failures are
  ignored, except that a run out of fuel is passed on.
\<close>

definition uid_apdu :: sc_apdu where
  "uid_apdu = zero_apdu\<lparr>a_cse := SC_APDU_CASE_2_SHORT, a_cla := 0xFF, a_ins := 0xCA,
     a_resp := Some (replicate 256 0), a_resplen := 256\<rparr>"

definition initialize_uid :: "(sc_apdu \<times> 's pcsc_reader, unit) prog \<Rightarrow> ('s pcsc_reader, unit) prog" where
  "initialize_uid tx r =
    (if flag r SC_READER_ENABLE_ESCAPE then
       (case tx (uid_apdu, r) of (res, (a, r)) \<Rightarrow>
          if res = Inl OUT_OF_FUEL then (Inl OUT_OF_FUEL, r)
          else if res = Inr () \<and> a_sw1 a = 0x90 \<and> a_sw2 a = 0 \<and> 0 < a_resplen a \<and> a_resplen a \<le> SC_MAX_UID_SIZE
          then (Inr (), r\<lparr>r_uid := resp_data a\<rparr>)
          else (Inr (), r))
     else (Inr (), r))"

definition pcsc_connect ::
  "'s pcsc_api \<Rightarrow> force_conf \<Rightarrow> (sc_apdu \<times> 's pcsc_reader, unit) prog \<Rightarrow> ('s pcsc_reader, unit) prog" where
  "pcsc_connect api conf tx =
     sbind (refresh_attributes api) (\<lambda>_ r.
       if \<not> flag r SC_READER_CARD_PRESENT then (Inl SC_ERROR_CARD_NOT_PRESENT, r)
       else
         sbind
           (if \<not> g_cardmod r then
              (\<lambda>r. let ((rv, card_handle, active_proto), e) =
                     SCardConnect api (share_mode r) (SCARD_PROTOCOL_T0 OR SCARD_PROTOCOL_T1) (g_env r);
                   r = r\<lparr>g_env := e\<rparr>
               in if rv \<noteq> SCARD_S_SUCCESS then (pcsc_to_opensc_error rv, r)
                  else
                    sbind (initialize_uid tx) (\<lambda>_ r.
                      case check_forced_protocol conf r of
                        None \<Rightarrow> (Inr (), r)
                      | Some tmp \<Rightarrow>
                          if active_proto \<noteq> tmp then pcsc_reconnect api conf SCARD_UNPOWER_CARD r
                          else (Inr (), r))
                      (r\<lparr>r_active_protocol := pcsc_proto_to_opensc active_proto, p_pcsc_card := card_handle\<rparr>))
            else initialize_uid tx)
           (\<lambda>_ r. (Inr (), r\<lparr>p_locked := False\<rparr>)) r)"

section \<open>Transmission\<close>

text \<open>The call of the service: \<open>control\<close> selects the escape command.\<close>

definition service_call ::
  "'s pcsc_api \<Rightarrow> bytes \<Rightarrow> nat \<Rightarrow> u8 \<Rightarrow> 's pcsc_reader \<Rightarrow> (int \<times> bytes) \<times> 's pcsc_reader" where
  "service_call api sendbuf recvsize control r =
    (let (x, e) =
      (if control = 0 then
         SCardTransmit api (p_pcsc_card r) (opensc_proto_to_pcsc (r_active_protocol r)) sendbuf recvsize (g_env r)
       else case SCardControlOLD api of
           Some f \<Rightarrow> f (p_pcsc_card r) sendbuf recvsize (g_env r)
         | None \<Rightarrow>
            (case SCardControl api of
               Some f \<Rightarrow> f (p_pcsc_card r) control sendbuf recvsize (g_env r)
             | None \<Rightarrow> ((SCARD_E_INVALID_VALUE, []), g_env r)))
     in (x, r\<lparr>g_env := e\<rparr>))"

definition pcsc_internal_transmit ::
  "'s pcsc_api \<Rightarrow> force_conf \<Rightarrow> ('s pcsc_reader, unit) prog \<Rightarrow> bytes \<Rightarrow> nat \<Rightarrow> u8 \<Rightarrow>
   ('s pcsc_reader, bytes) prog" where
  "pcsc_internal_transmit api conf connect sendbuf recvsize control r =
    (if length sendbuf > MAXDWORD then (Inl SC_ERROR_INVALID_ARGUMENTS, r)
     else if recvsize > MAXDWORD then (Inl SC_ERROR_INVALID_ARGUMENTS, r)
     else if terminating r then (Inl SC_ERROR_NOT_ALLOWED, r)
     else
       let ((rv, recv), r) = service_call api sendbuf recvsize control r
       in if rv \<noteq> SCARD_S_SUCCESS then
            if rv = SCARD_W_REMOVED_CARD then (Inl SC_ERROR_CARD_REMOVED, r)
            else if rv = SCARD_E_INVALID_HANDLE \<or> rv = SCARD_E_INVALID_VALUE \<or> rv = SCARD_E_READER_UNAVAILABLE
            then sbind connect (\<lambda>_. sfail SC_ERROR_READER_REATTACHED) r
            else if rv = SCARD_W_RESET_CARD
            then sbind (pcsc_reconnect api conf SCARD_LEAVE_CARD) (\<lambda>_. sfail SC_ERROR_CARD_RESET) r
            else
              let (_, r) = pcsc_detect_card_presence api r;
                  (p, r) = pcsc_detect_card_presence api r
              in if (case p of Inr f \<Rightarrow> f AND SC_READER_CARD_PRESENT = 0
                      | Inl e \<Rightarrow> (word_of_int e :: u64) AND SC_READER_CARD_PRESENT = 0)
                 then (Inl SC_ERROR_CARD_REMOVED, r) else (Inl SC_ERROR_TRANSMIT_FAILED, r)
          else if control = 0 \<and> length recv < 2 then (Inl SC_ERROR_UNKNOWN_DATA_RECEIVED, r)
          else (Inr recv, r))"

text \<open>The body of the transmission over the way to connect.\<close>

definition transmit_step ::
  "(nat \<Rightarrow> bytes option) \<Rightarrow> 's pcsc_api \<Rightarrow> force_conf \<Rightarrow> ('s pcsc_reader, unit) prog \<Rightarrow>
   (sc_apdu \<times> 's pcsc_reader, unit) prog" where
  "transmit_step malloc api conf connect s =
    (case s of (a, r) \<Rightarrow>
      let rbuflen = (if a_resplen a \<le> 256 then 258 else a_resplen a + 2) in
      case malloc rbuflen of
        None \<Rightarrow> (Inl SC_ERROR_OUT_OF_MEMORY, (a, r))
      | Some _ \<Rightarrow>
         (case sc_apdu_get_octets malloc a (r_active_protocol r) of
            Inl e \<Rightarrow> (Inl e, (a, r))
          | Inr sbuf \<Rightarrow>
             (case pcsc_internal_transmit api conf connect sbuf rbuflen (a_control a) r of
                (Inl e, r) \<Rightarrow> (Inl e, (a, r))
              | (Inr rbuf, r) \<Rightarrow>
                 (case sc_apdu_set_resp a rbuf of
                    Inl e \<Rightarrow> (Inl e, (a, r))
                  | Inr a \<Rightarrow> (Inr (), (a, r))))))"

fun pcsc_transmit ::
  "nat \<Rightarrow> (nat \<Rightarrow> bytes option) \<Rightarrow> 's pcsc_api \<Rightarrow> force_conf \<Rightarrow> (sc_apdu \<times> 's pcsc_reader, unit) prog" where
  "pcsc_transmit 0 malloc api conf s = (Inl OUT_OF_FUEL, s)"
| "pcsc_transmit (Suc n) malloc api conf s =
     transmit_step malloc api conf (pcsc_connect api conf (pcsc_transmit n malloc api conf)) s"

section \<open>Transaction, reset, disconnection\<close>

definition pcsc_lock ::
  "'s pcsc_api \<Rightarrow> force_conf \<Rightarrow> (sc_apdu \<times> 's pcsc_reader, unit) prog \<Rightarrow> ('s pcsc_reader, unit) prog" where
  "pcsc_lock api conf tx r =
    (if g_cardmod r then (Inr (), r)
     else if terminating r then (Inl SC_ERROR_NOT_ALLOWED, r)
     else
       let (rv, e) = SCardBeginTransaction api (p_pcsc_card r) (g_env r); r = r\<lparr>g_env := e\<rparr>
       in if rv = SCARD_E_INVALID_VALUE \<or> rv = SCARD_E_INVALID_HANDLE \<or> rv = SCARD_E_READER_UNAVAILABLE
          then sbind (pcsc_connect api conf tx) (\<lambda>_. sfail SC_ERROR_READER_REATTACHED) r
          else if rv = SCARD_W_RESET_CARD
          then sbind (pcsc_reconnect api conf SCARD_LEAVE_CARD) (\<lambda>_. sfail SC_ERROR_CARD_RESET) r
          else if rv = SCARD_S_SUCCESS then (Inr (), r\<lparr>p_locked := True\<rparr>)
          else (pcsc_to_opensc_error rv, r))"

definition pcsc_unlock :: "'s pcsc_api \<Rightarrow> ('s pcsc_reader, unit) prog" where
  "pcsc_unlock api r =
    (if g_cardmod r then (Inr (), r)
     else if terminating r then (Inl SC_ERROR_NOT_ALLOWED, r)
     else
       let (rv, e) = SCardEndTransaction api (p_pcsc_card r) (g_transaction_end_action r) (g_env r);
           r = r\<lparr>g_env := e, p_locked := False\<rparr>
       in if rv \<noteq> SCARD_S_SUCCESS then (pcsc_to_opensc_error rv, r) else (Inr (), r))"

definition pcsc_reset :: "'s pcsc_api \<Rightarrow> force_conf \<Rightarrow> bool \<Rightarrow> ('s pcsc_reader, unit) prog" where
  "pcsc_reset api conf do_cold_reset =
     pcsc_reconnect api conf (if do_cold_reset then SCARD_UNPOWER_CARD else SCARD_RESET_CARD)"

definition pcsc_disconnect :: "'s pcsc_api \<Rightarrow> ('s pcsc_reader, unit) prog" where
  "pcsc_disconnect api r =
    (let r = (if \<not> g_cardmod r \<and> \<not> terminating r then
                let (rv, e) = SCardDisconnect api (p_pcsc_card r) (g_disconnect_action r) (g_env r);
                    r = r\<lparr>g_env := e\<rparr>
                in if rv = SCARD_S_SUCCESS then r\<lparr>p_pcsc_card := 0\<rparr> else r
              else r)
     in (Inr (), r\<lparr>r_flags := r_flags r AND SC_READER_REMOVED\<rparr>))"


section \<open>A reader without escape commands\<close>

text \<open>The driver never sets the flag for escape commands; every operation keeps it clear.\<close>

definition no_escape :: "'s pcsc_reader \<Rightarrow> bool" where
  "no_escape r \<longleftrightarrow> \<not> bit (r_flags r) 6"

lemma no_escape_flag: "no_escape r \<Longrightarrow> \<not> flag r SC_READER_ENABLE_ESCAPE"
proof -
  assume n: "no_escape r"
  have "r_flags r AND SC_READER_ENABLE_ESCAPE = 0"
  proof (rule bit_word_eqI)
    fix k
    have "(64 :: u64) = push_bit 6 1" by simp
    then have "bit (64 :: u64) k = (k = 6)" by (simp only: bit_push_bit_iff bit_1_iff) auto
    with n show "bit (r_flags r AND SC_READER_ENABLE_ESCAPE) k = bit 0 k"
      by (auto simp: bit_and_iff no_escape_def)
  qed
  then show ?thesis by (simp add: flag_def)
qed

lemma no_escape_flags [simp]:
  "no_escape (set_flag SC_READER_CARD_PRESENT r) = no_escape r"
  "no_escape (set_flag SC_READER_CARD_CHANGED r) = no_escape r"
  "no_escape (set_flag SC_READER_CARD_INUSE r) = no_escape r"
  "no_escape (set_flag SC_READER_CARD_EXCLUSIVE r) = no_escape r"
  "no_escape (set_flag SC_READER_REMOVED r) = no_escape r"
  "no_escape r \<Longrightarrow> no_escape (clear_flag f r)"
  by (simp_all add: no_escape_def set_flag_def clear_flag_def bit_or_iff bit_and_iff bit_not_iff)

lemma no_escape_upd [simp]:
  "no_escape (r\<lparr>g_env := e\<rparr>) = no_escape r"
  "no_escape (r\<lparr>g_removed_reader := b\<rparr>) = no_escape r"
  "no_escape (r\<lparr>p_named := n, p_current_state := c, p_event_state := ev\<rparr>) = no_escape r"
  "no_escape (r\<lparr>p_current_state := c\<rparr>) = no_escape r"
  "no_escape (r\<lparr>p_named := n\<rparr>) = no_escape r"
  "no_escape (r\<lparr>p_event_state := ev\<rparr>) = no_escape r"
  "no_escape (r\<lparr>r_atr_len := l, r_atr := a\<rparr>) = no_escape r"
  "no_escape (r\<lparr>r_active_protocol := pr\<rparr>) = no_escape r"
  "no_escape (r\<lparr>p_pcsc_card := h\<rparr>) = no_escape r"
  "no_escape (r\<lparr>p_locked := l'\<rparr>) = no_escape r"
  "no_escape (r\<lparr>r_uid := u\<rparr>) = no_escape r"
  by (simp_all add: no_escape_def)

lemma pcsc_error_no_fuel [simp]: "pcsc_to_opensc_error rv \<noteq> Inl OUT_OF_FUEL"
  by (simp add: pcsc_to_opensc_error_def)

lemma no_escape_timeout: "no_escape r \<Longrightarrow> no_escape (status_timeout api r)"
  by (simp add: status_timeout_def Let_def split_beta)

lemma no_escape_detached: "no_escape r \<Longrightarrow> no_escape (status_detached r)"
  by (simp add: status_detached_def Let_def)

lemma keeps_status_present: "keeps no_escape (status_present api old atr)"
proof (rule keepsI)
  fix r res r' assume "no_escape r" and "status_present api old atr r = (res, r')"
  then show "no_escape r' \<and> res \<noteq> Inl OUT_OF_FUEL"
    by (auto simp: status_present_def Let_def split_beta split: if_splits)
qed

lemma keeps_refresh: "keeps no_escape (refresh_attributes api)"
proof (rule keepsI)
  fix r :: "'a pcsc_reader" and res r' assume n: "no_escape r" and run: "refresh_attributes api r = (res, r')"
  show "no_escape r' \<and> res \<noteq> Inl OUT_OF_FUEL"
  proof (cases "terminating r")
    case True
    with run n show ?thesis by (auto simp: refresh_attributes_def)
  next
    case False
    define q where "q = (if \<not> p_named r \<or> flag r SC_READER_REMOVED
      then r\<lparr>p_named := True, p_current_state := 0, p_event_state := 0\<rparr>
      else r\<lparr>p_current_state := p_event_state r\<rparr>)"
    have q: "no_escape q" using n by (simp add: q_def)
    obtain rv ev atr e where g: "SCardGetStatusChange api (p_current_state q) (g_env q) = ((rv, ev, atr), e)"
      by (metis prod.exhaust)
    define u where "u = q\<lparr>p_event_state := ev, g_env := e\<rparr>"
    have u: "no_escape u" using q by (simp add: u_def no_escape_def)
    have eq: "refresh_attributes api r =
      (if rv \<noteq> SCARD_S_SUCCESS then
         if rv = SCARD_E_TIMEOUT then (Inr (), status_timeout api u)
         else if rv = SCARD_E_UNKNOWN_READER \<or> rv = SCARD_E_NO_READERS_AVAILABLE \<or> rv = SCARD_E_SERVICE_STOPPED
         then (Inr (), status_detached u)
         else (pcsc_to_opensc_error rv, u)
       else if ev AND SCARD_STATE_UNKNOWN \<noteq> 0 then (Inr (), clear_flag SC_READER_CARD_PRESENT u)
       else if ev AND SCARD_STATE_PRESENT \<noteq> 0
         then status_present api (r_flags r) atr
           (clear_flag (SC_READER_CARD_CHANGED OR SC_READER_CARD_INUSE OR SC_READER_CARD_EXCLUSIVE) u)
       else (Inr (), clear_flag SC_READER_CARD_PRESENT
           (clear_flag (SC_READER_CARD_CHANGED OR SC_READER_CARD_INUSE OR SC_READER_CARD_EXCLUSIVE) u)))"
      by (simp only: refresh_attributes_def False if_False Let_def q_def [symmetric] g prod.case u_def)
    have c: "no_escape (clear_flag f u)" for f using u by simp
    have "no_escape (snd (refresh_attributes api r)) \<and> fst (refresh_attributes api r) \<noteq> Inl OUT_OF_FUEL"
      unfolding eq
      using u c keeps_fst [OF keeps_status_present c] keeps_snd [OF keeps_status_present c]
      by (simp add: no_escape_timeout no_escape_detached)
    with run show ?thesis by simp
  qed
qed

lemma keeps_reconnect: "keeps no_escape (pcsc_reconnect api conf action)"
  unfolding pcsc_reconnect_def Let_def
  by (rule keeps_sbind_start [OF keeps_refresh]) (auto simp: keeps_def split_beta)

lemma keeps_initialize_uid: "keeps no_escape (initialize_uid tx)"
  unfolding keeps_def initialize_uid_def by (simp add: no_escape_flag)

lemma keeps_locked: "keeps no_escape (\<lambda>r. (Inr (), r\<lparr>p_locked := b\<rparr>))"
  by (simp add: keeps_def)

lemma keeps_connect: "keeps no_escape (pcsc_connect api conf tx)"
  unfolding pcsc_connect_def
proof (rule keeps_sbind [OF keeps_refresh], rule keepsI)
  fix r :: "'a pcsc_reader" and res r'
  assume n: "no_escape r"
  let ?force = "\<lambda>proto (_ :: unit) r. case check_forced_protocol conf r of
      None \<Rightarrow> (Inr (), r)
    | Some tmp \<Rightarrow> if proto \<noteq> tmp then pcsc_reconnect api conf SCARD_UNPOWER_CARD r else (Inr (), r)"
  have force: "keeps no_escape (?force proto u)" for proto u
    using keeps_reconnect [of api conf SCARD_UNPOWER_CARD]
    by (auto simp: keeps_def split: option.split)
  have conn: "keeps no_escape (\<lambda>r. let ((rv, card_handle, active_proto), e) =
          SCardConnect api (share_mode r) (SCARD_PROTOCOL_T0 OR SCARD_PROTOCOL_T1) (g_env r);
         r = r\<lparr>g_env := e\<rparr>
     in if rv \<noteq> SCARD_S_SUCCESS then (pcsc_to_opensc_error rv, r)
        else sbind (initialize_uid tx) (?force active_proto)
            (r\<lparr>r_active_protocol := pcsc_proto_to_opensc active_proto, p_pcsc_card := card_handle\<rparr>))" (is "keeps _ ?conn")
  proof (rule keepsI)
    fix r :: "'a pcsc_reader" and res r' assume n: "no_escape r" and run: "?conn r = (res, r')"
    obtain rv h pr e where c: "SCardConnect api (share_mode r) (SCARD_PROTOCOL_T0 OR SCARD_PROTOCOL_T1) (g_env r) = ((rv, h, pr), e)"
      by (metis prod.exhaust)
    let ?u = "r\<lparr>g_env := e, r_active_protocol := pcsc_proto_to_opensc pr, p_pcsc_card := h\<rparr>"
    have u: "no_escape ?u" using n by (simp add: no_escape_def)
    show "no_escape r' \<and> res \<noteq> Inl OUT_OF_FUEL"
    proof (cases "rv = SCARD_S_SUCCESS")
      case True
      with run c have "sbind (initialize_uid tx) (?force pr) ?u = (res, r')" by (simp add: Let_def)
      then show ?thesis by (rule keepsD [OF keeps_sbind [OF keeps_initialize_uid force] u])
    next
      case False
      with run c n show ?thesis by (auto simp: Let_def)
    qed
  qed
  have body: "keeps no_escape (sbind (if b then ?conn else initialize_uid tx) (\<lambda>_ r. (Inr (), r\<lparr>p_locked := False\<rparr>)))" for b
    using keeps_sbind [OF conn keeps_locked] keeps_sbind [OF keeps_initialize_uid keeps_locked] by (cases b) simp_all
  assume "(if \<not> flag r SC_READER_CARD_PRESENT then (Inl SC_ERROR_CARD_NOT_PRESENT, r)
    else sbind (if \<not> g_cardmod r then ?conn else initialize_uid tx) (\<lambda>_ r. (Inr (), r\<lparr>p_locked := False\<rparr>)) r) = (res, r')"
  then show "no_escape r' \<and> res \<noteq> Inl OUT_OF_FUEL"
    using n keepsD [OF body n] by (auto split: if_splits)
qed


section \<open>The driver as a reader\<close>

lemma keeps_internal_transmit:
  assumes "keeps no_escape connect"
  shows "keeps no_escape (pcsc_internal_transmit api conf connect sendbuf recvsize control)"
proof (rule keepsI)
  fix r :: "'a pcsc_reader" and res r'
  assume n: "no_escape r" and run: "pcsc_internal_transmit api conf connect sendbuf recvsize control r = (res, r')"
  obtain rv recv u where s: "service_call api sendbuf recvsize control r = ((rv, recv), u)"
    by (metis prod.exhaust)
  have u: "no_escape u"
    using s n by (auto simp: service_call_def Let_def split_beta)
  have d: "keeps no_escape (pcsc_detect_card_presence api)"
    unfolding pcsc_detect_card_presence_def
    by (rule keeps_sbind [OF keeps_refresh]) (simp add: keeps_def)
  have c: "keeps no_escape (sbind connect (\<lambda>_. sfail SC_ERROR_READER_REATTACHED :: ('a pcsc_reader, bytes) prog))"
    by (rule keeps_sbind [OF assms]) (simp add: keeps_def)
  have rc: "keeps no_escape (sbind (pcsc_reconnect api conf SCARD_LEAVE_CARD)
      (\<lambda>_. sfail SC_ERROR_CARD_RESET :: ('a pcsc_reader, bytes) prog))"
    by (rule keeps_sbind [OF keeps_reconnect]) (simp add: keeps_def)
  have "no_escape (snd (pcsc_internal_transmit api conf connect sendbuf recvsize control r)) \<and>
      fst (pcsc_internal_transmit api conf connect sendbuf recvsize control r) \<noteq> Inl OUT_OF_FUEL"
    unfolding pcsc_internal_transmit_def s Let_def prod.case
    using n u keeps_fst [OF c u] keeps_snd [OF c u] keeps_fst [OF rc u] keeps_snd [OF rc u]
      keeps_snd [OF d keeps_snd [OF d u]]
    by (simp add: split_beta)
  with run show "no_escape r' \<and> res \<noteq> Inl OUT_OF_FUEL" by simp
qed

lemma set_resp_contract:
  assumes "sc_apdu_set_resp a buf = Inr a'"
  shows "same_request a' a" and "a_resplen a' \<le> a_resplen a"
    and "a_resplen a \<le> length (mem (a_resp a)) \<Longrightarrow> keeps_room a' a"
proof -
  define s1 s2 :: u32 where "s1 = ucast (buf ! (length buf - 2))" and "s2 = ucast (buf ! (length buf - 1))"
  define n where "n = (if length buf - 2 \<le> a_resplen a then length buf - 2 else a_resplen a)"
  define p where "p = (if n \<noteq> 0 then Some (memcpy_at (mem (a_resp a)) 0 (take n buf)) else a_resp a)"
  have two: "\<not> length buf < 2" using assms by (auto simp: sc_apdu_set_resp_def)
  have eq: "a' = a\<lparr>a_resp := p, a_resplen := n, a_sw1 := s1, a_sw2 := s2\<rparr>"
  proof (cases "length buf - 2 \<le> a_resplen a")
    case True
    with assms two show ?thesis
      by (cases "length buf - 2 = 0"; cases a)
        (simp_all add: sc_apdu_set_resp_def n_def p_def s1_def s2_def Let_def, (metis sc_apdu.select_convs)?)
  next
    case False
    with assms two show ?thesis
      by (cases "a_resplen a = 0"; cases a)
        (simp_all add: sc_apdu_set_resp_def n_def p_def s1_def s2_def Let_def)
  qed
  then show "same_request a' a" unfolding same_request_def by blast
  show "a_resplen a' \<le> a_resplen a" using eq by (simp add: n_def)
  assume l: "a_resplen a \<le> length (mem (a_resp a))"
  have "n \<le> a_resplen a" by (simp add: n_def)
  with l have "length (mem p) = length (mem (a_resp a)) \<and> (p = None \<longleftrightarrow> a_resp a = None)"
    unfolding p_def by (cases "n = 0"; cases "a_resp a") auto
  with eq show "keeps_room a' a" by (simp add: keeps_room_def)
qed

lemma set_resp_status: "sc_apdu_set_resp a buf = Inr a' \<Longrightarrow> a_sw2 a' < 256"
proof -
  assume "sc_apdu_set_resp a buf = Inr a'"
  then have "a_sw2 a' = ucast (buf ! (length buf - 1))"
    by (auto simp: sc_apdu_set_resp_def Let_def split: if_splits)
  then show "a_sw2 a' < 256"
    by (simp add: word_less_nat_alt unsigned_ucast_eq)
      (metis unat_u8_lt le_less_trans mod_less_eq_dividend take_bit_nat_def)
qed

lemma get_octets_no_fuel: "sc_apdu_get_octets malloc a proto \<noteq> Inl OUT_OF_FUEL"
  by (auto simp: sc_apdu_get_octets_def Let_def split: option.splits sum.splits)

lemma set_resp_no_fuel: "sc_apdu_set_resp a buf \<noteq> Inl OUT_OF_FUEL"
  by (auto simp: sc_apdu_set_resp_def Let_def)

lemma transmit_step_contract:
  assumes conn: "keeps no_escape connect" and n: "no_escape r"
    and run: "transmit_step malloc api conf connect (a, r) = (res, (a', r'))"
  shows "no_escape r' \<and> res \<noteq> Inl OUT_OF_FUEL \<and>
    (a' = a \<or> (\<exists>buf. sc_apdu_set_resp a buf = Inr a'))"
proof -
  let ?l = "if a_resplen a \<le> 256 then 258 else a_resplen a + 2"
  show ?thesis
  proof (cases "malloc ?l = None \<or> (\<exists>e. sc_apdu_get_octets malloc a (r_active_protocol r) = Inl e)")
    case True
    then have "\<exists>e. transmit_step malloc api conf connect (a, r) = (Inl e, (a, r)) \<and> e \<noteq> OUT_OF_FUEL"
      using get_octets_no_fuel [of malloc a "r_active_protocol r"]
      by (cases "malloc ?l") (auto simp: transmit_step_def Let_def)
    with run n show ?thesis by auto
  next
    case False
    then obtain b sbuf where m: "malloc ?l = Some b" and o': "sc_apdu_get_octets malloc a (r_active_protocol r) = Inr sbuf"
      by (cases "malloc ?l"; cases "sc_apdu_get_octets malloc a (r_active_protocol r)") auto
    obtain q u where t: "pcsc_internal_transmit api conf connect sbuf ?l (a_control a) r = (q, u)"
      by (metis prod.exhaust)
    from keepsD [OF keeps_internal_transmit [OF conn] n t] have u: "no_escape u" "q \<noteq> Inl OUT_OF_FUEL" by auto
    have eq: "transmit_step malloc api conf connect (a, r) =
        (case q of Inl e \<Rightarrow> (Inl e, (a, u))
         | Inr rbuf \<Rightarrow> (case sc_apdu_set_resp a rbuf of Inl e \<Rightarrow> (Inl e, (a, u)) | Inr a \<Rightarrow> (Inr (), (a, u))))"
      unfolding transmit_step_def by (simp only: Let_def m o' t prod.case option.case sum.case)
    show ?thesis
    proof (cases q)
      case (Inl e)
      with eq run u show ?thesis by auto
    next
      case (Inr rbuf)
      show ?thesis
      proof (cases "sc_apdu_set_resp a rbuf")
        case (Inl e)
        with eq run u Inr set_resp_no_fuel [of a rbuf] show ?thesis by auto
      next
        case (Inr a1)
        with eq run u \<open>q = Inr rbuf\<close> show ?thesis by auto
      qed
    qed
  qed
qed

interpretation pcsc: reader "pcsc_transmit (Suc n) malloc api conf" no_escape
  for n and malloc :: "nat \<Rightarrow> bytes option" and api :: "'s pcsc_api" and conf :: force_conf
proof
  fix a a' :: sc_apdu and r r' :: "'s pcsc_reader" and res
  assume n: "no_escape r" and run: "pcsc_transmit (Suc n) malloc api conf (a, r) = (res, (a', r'))"
  from transmit_step_contract [OF keeps_connect n run [unfolded pcsc_transmit.simps]]
  have c: "no_escape r'" "res \<noteq> Inl OUT_OF_FUEL" "a' = a \<or> (\<exists>buf. sc_apdu_set_resp a buf = Inr a')"
    by auto
  show "same_request a' a" using c(3) set_resp_contract(1) by auto
  show "res \<noteq> Inl OUT_OF_FUEL" "no_escape r'" by (fact c)+
  show "keeps_room a' a \<and> a_resplen a' \<le> a_resplen a" if "a_resplen a \<le> length (mem (a_resp a))"
    using c(3) set_resp_contract(2,3) that by auto
  show "a_sw2 a' < 256" if "a_sw2 a < 256"
    using c(3) set_resp_status that by auto
qed

text \<open>The transaction as the reader's lock.\<close>

lemma keeps_pcsc_lock: "keeps no_escape (pcsc_lock api conf tx)"
proof (rule keepsI)
  fix r :: "'a pcsc_reader" and res r' assume n: "no_escape r" and run: "pcsc_lock api conf tx r = (res, r')"
  obtain rv e where b: "SCardBeginTransaction api (p_pcsc_card r) (g_env r) = (rv, e)"
    by (cases "SCardBeginTransaction api (p_pcsc_card r) (g_env r)")
  let ?u = "r\<lparr>g_env := e\<rparr>"
  have u: "no_escape ?u" using n by simp
  have c: "keeps no_escape (sbind (pcsc_connect api conf tx) (\<lambda>_. sfail SC_ERROR_READER_REATTACHED :: ('a pcsc_reader, unit) prog))"
    by (rule keeps_sbind [OF keeps_connect]) (simp add: keeps_def)
  have rc: "keeps no_escape (sbind (pcsc_reconnect api conf SCARD_LEAVE_CARD)
      (\<lambda>_. sfail SC_ERROR_CARD_RESET :: ('a pcsc_reader, unit) prog))"
    by (rule keeps_sbind [OF keeps_reconnect]) (simp add: keeps_def)
  have "no_escape (snd (pcsc_lock api conf tx r)) \<and> fst (pcsc_lock api conf tx r) \<noteq> Inl OUT_OF_FUEL"
    unfolding pcsc_lock_def b Let_def prod.case
    using n u keeps_fst [OF c u] keeps_snd [OF c u] keeps_fst [OF rc u] keeps_snd [OF rc u] by simp
  with run show "no_escape r' \<and> res \<noteq> Inl OUT_OF_FUEL" by simp
qed

lemma keeps_pcsc_unlock: "keeps no_escape (pcsc_unlock api)"
  unfolding keeps_def pcsc_unlock_def by (simp add: Let_def split_beta)

lemma pcsc_lock_locked:
  assumes "pcsc_lock api conf tx r = (Inr (), r')"
  shows "p_locked r' \<or> g_cardmod r'"
proof -
  have f: "fst (sbind f (\<lambda>_. sfail e) s) \<noteq> Inr ()" for f :: "('a pcsc_reader, unit) prog" and e s
    by (cases "f s"; cases "fst (f s)") (auto simp: sbind_def)
  obtain rv e where b: "SCardBeginTransaction api (p_pcsc_card r) (g_env r) = (rv, e)"
    by (cases "SCardBeginTransaction api (p_pcsc_card r) (g_env r)")
  from assms have "fst (pcsc_lock api conf tx r) = Inr ()" "snd (pcsc_lock api conf tx r) = r'" by simp_all
  then show ?thesis
    unfolding pcsc_lock_def b Let_def prod.case
    using f by (auto split: if_splits simp: pcsc_to_opensc_error_def)
qed


section \<open>Properties\<close>

lemma lock_loop_success:
  assumes "\<And>e e'. f e = (Inr (), e') \<Longrightarrow> Q e'"
  shows "(r = Inr () \<longrightarrow> Q e) \<Longrightarrow> lock_loop f r w e = (Inr (), w', e') \<Longrightarrow> Q e'"
  using assms
proof (induction f r w e rule: lock_loop.induct)
  case (1 f r w e)
  obtain r1 e1 where e1: "f e = (r1, e1)" by (cases "f e")
  show ?case
  proof (cases "lost_card r \<and> w \<le> 4")
    case True
    with "1.prems"(2) e1 have "lock_loop f r1 (Suc w) e1 = (Inr (), w', e')"
      by (subst (asm) lock_loop.simps) simp
    moreover have "r1 = Inr () \<longrightarrow> Q e1" using "1.prems"(3) e1 by blast
    ultimately show ?thesis using "1.IH" [OF _ _ e1 [symmetric]] True "1.prems"(3) by auto
  next
    case False
    with "1.prems"(2) have "r = Inr () \<and> e = e'"
      by (subst (asm) lock_loop.simps) (auto split: if_splits simp: lost_card_def)
    with "1.prems"(1) show ?thesis by blast
  qed
qed


text \<open>A service whose first transaction fails because the card was reset; the service's state is
  the number of transactions asked for.\<close>

definition demo_api :: "nat pcsc_api" where
  "demo_api = \<lparr>SCardTransmit = (\<lambda>h p b n s. ((0, [0x90, 0]), s)), SCardControlOLD = None, SCardControl = None,
     SCardGetStatusChange = (\<lambda>c s. ((0, SCARD_STATE_PRESENT, [0x3B, 0x80]), s)), SCardStatus = (\<lambda>h s. (0, s)),
     SCardReconnect = (\<lambda>h sh p a ap s. ((0, SCARD_PROTOCOL_T1), s)),
     SCardConnect = (\<lambda>sh p s. ((0, 7, SCARD_PROTOCOL_T1), s)), SCardDisconnect = (\<lambda>h a s. (0, s)),
     SCardBeginTransaction = (\<lambda>h s. (if s = 0 then SCARD_W_RESET_CARD else 0, Suc s)),
     SCardEndTransaction = (\<lambda>h a s. (0, s))\<rparr>"

definition demo_reader :: "nat pcsc_reader" where
  "demo_reader = \<lparr>r_flags = SC_READER_CARD_PRESENT, r_active_protocol = SC_PROTO_T1,
     r_atr = [0x3B, 0x80, 0x80, 0x01, 0x01] @ replicate 28 0, r_atr_len = 5, r_uid = [], r_ctx_flags = 0,
     p_pcsc_card = 7, p_named = True, p_current_state = 0, p_event_state = SCARD_STATE_PRESENT,
     p_locked = False, g_cardmod = False, g_connect_exclusive = False, g_transaction_end_action = 0,
     g_disconnect_action = 0, g_removed_reader = False, g_env = 0\<rparr>"

definition no_force :: force_conf where
  "no_force atr = ''unknown''"

definition demo_lock_ops :: "(nat pcsc_reader, unit) sc_ops" where
  "demo_lock_ops = null_ops\<lparr>o_reader_lock := Some (pcsc_lock demo_api no_force
     (pcsc_transmit 1 (\<lambda>n. Some (replicate n 0)) demo_api no_force))\<rparr>"

lemma demo_lock: "fst (sc_lock demo_lock_ops (plain_card demo_reader)) = Inr ()"
  by code_simp


lemma set_clear_atr [simp]:
  "r_atr (set_flag f r) = r_atr r" "r_atr_len (set_flag f r) = r_atr_len r"
  "r_atr (clear_flag f r) = r_atr r" "r_atr_len (clear_flag f r) = r_atr_len r"
  by (simp_all add: set_flag_def clear_flag_def)

text \<open>The answer to reset after a status query that finds a card: it is the new card's, except
  that an answer which is a prefix of the bytes already stored leaves the stored length as it
  was, so a card whose answer to reset is a proper prefix of its predecessor's is taken for it.\<close>
theorem refreshed_atr:
  assumes "\<not> terminating r" and "p_named r" and "\<not> flag r SC_READER_REMOVED"
    and "SCardGetStatusChange api (p_event_state r) (g_env r) = ((SCARD_S_SUCCESS, ev, atr), e)"
    and "ev AND SCARD_STATE_UNKNOWN = 0" and "ev AND SCARD_STATE_PRESENT \<noteq> 0"
    and "length atr \<le> SC_MAX_ATR_SIZE" and "length (r_atr r) = SC_MAX_ATR_SIZE"
    and "refresh_attributes api r = (res, r')"
  shows "res = Inr () \<and>
    (if atr = take (length atr) (r_atr r) then r_atr r' = r_atr r \<and> r_atr_len r' = r_atr_len r
     else take (r_atr_len r') (r_atr r') = atr)"
proof -
  let ?c = "clear_flag (SC_READER_CARD_CHANGED OR SC_READER_CARD_INUSE OR SC_READER_CARD_EXCLUSIVE)
    (r\<lparr>p_current_state := p_event_state r, p_event_state := ev, g_env := e\<rparr>)"
  have eq: "refresh_attributes api r = status_present api (r_flags r) atr ?c"
    using assms by (simp add: refresh_attributes_def Let_def)
  have len: "\<not> length atr > SC_MAX_ATR_SIZE" using assms(7) by simp
  have "fst (status_present api old atr u) = Inr () \<and>
     (if atr = take (length atr) (r_atr u)
      then r_atr (snd (status_present api old atr u)) = r_atr u \<and>
           r_atr_len (snd (status_present api old atr u)) = r_atr_len u
      else r_atr (snd (status_present api old atr u)) = memcpy_at (r_atr u) 0 atr \<and>
           r_atr_len (snd (status_present api old atr u)) = length atr)" for u :: "'a pcsc_reader" and old
    using len by (simp add: status_present_def Let_def split_beta)
  note sp = this [of "r_flags r" ?c]
  have res: "res = fst (status_present api (r_flags r) atr ?c)" and r': "r' = snd (status_present api (r_flags r) atr ?c)"
    using assms(9) unfolding eq by (metis fst_conv, metis snd_conv)
  have same: "r_atr ?c = r_atr r" "r_atr_len ?c = r_atr_len r" by simp_all
  have "take (length atr) (memcpy_at (r_atr r) 0 atr) = atr"
    using assms(7,8) by simp
  with sp show ?thesis unfolding res r' same by (cases "atr = take (length atr) (r_atr r)") simp_all
qed

theorem refreshed_atr_witness:
  "r_atr_len (snd (refresh_attributes demo_api demo_reader)) = 5"
proof -
  obtain res r' where run: "refresh_attributes demo_api demo_reader = (res, r')"
    by (cases "refresh_attributes demo_api demo_reader")
  have api: "SCardGetStatusChange demo_api (p_event_state demo_reader) (g_env demo_reader) =
      ((SCARD_S_SUCCESS, SCARD_STATE_PRESENT, [0x3B, 0x80]), g_env demo_reader)"
    by (simp add: demo_api_def)
  have fl: "\<not> terminating demo_reader" "p_named demo_reader" "\<not> flag demo_reader SC_READER_REMOVED"
    "length (r_atr demo_reader) = SC_MAX_ATR_SIZE" "r_atr_len demo_reader = 5"
    "[0x3B, 0x80] = take (length [0x3B, 0x80 :: u8]) (r_atr demo_reader)"
    by (simp_all add: terminating_def flag_def demo_reader_def)
  have "if [0x3B, 0x80] = take (length [0x3B, 0x80 :: u8]) (r_atr demo_reader)
      then r_atr r' = r_atr demo_reader \<and> r_atr_len r' = r_atr_len demo_reader
      else take (r_atr_len r') (r_atr r') = [0x3B, 0x80]"
    using refreshed_atr [OF fl(1,2,3) api _ _ _ fl(4) run] by simp
  with fl run show ?thesis by simp
qed

end
