(* ===== verification/Sc_File.thy ===== *)
theory Sc_File
  imports Sc_Bytes
begin

text \<open>
  File objects and their access control lists (\<open>libopensc/sc.c\<close>, \<open>struct sc_file\<close> of
  \<open>libopensc/types.h\<close>).

  The source keeps the list of an operation behind a pointer whose values 1, 2 and 3 stand for
  "never", "none" and "unknown"; here they are constructors and the null pointer is the empty
  list. \<open>alloc n\<close> says whether an allocation of \<open>n\<close> bytes succeeds.
\<close>

section \<open>Access control lists\<close>

abbreviation (input) SC_AC_NONE :: u32 where "SC_AC_NONE \<equiv> 0"
abbreviation (input) SC_AC_UNKNOWN :: u32 where "SC_AC_UNKNOWN \<equiv> 0xFFFFFFFE"
abbreviation (input) SC_AC_NEVER :: u32 where "SC_AC_NEVER \<equiv> 0xFFFFFFFF"
abbreviation (input) SC_AC_KEY_REF_NONE :: u32 where "SC_AC_KEY_REF_NONE \<equiv> 0xFFFFFFFF"
abbreviation (input) SC_MAX_AC_OPS :: nat where "SC_MAX_AC_OPS \<equiv> 31"

record sc_acl_entry =
  ac_method :: u32
  ac_key_ref :: u32

datatype acl = Acl_Never | Acl_None | Acl_Unknown | Acl_List "sc_acl_entry list"

record sc_file =
  f_path :: sc_path
  f_name :: bytes
  f_type :: u32
  f_ef_structure :: u32
  f_status :: u32
  f_shareable :: u32
  f_size :: nat
  f_id :: int
  f_sid :: int
  f_acl :: "acl list"
  f_acl_inactive :: int
  f_record_length :: nat
  f_record_count :: nat
  f_sec_attr :: "bytes option"
  f_prop_attr :: "bytes option"
  f_type_attr :: "bytes option"
  f_encoded_content :: "bytes option"

definition zero_file :: sc_file where
  "zero_file = \<lparr>f_path = zero_path, f_name = [], f_type = 0, f_ef_structure = 0, f_status = 0,
     f_shareable = 0, f_size = 0, f_id = 0, f_sid = 0, f_acl = replicate SC_MAX_AC_OPS (Acl_List []),
     f_acl_inactive = 0, f_record_length = 0, f_record_count = 0, f_sec_attr = None,
     f_prop_attr = None, f_type_attr = None, f_encoded_content = None\<rparr>"

text \<open>The sizes of the two structures on a 64-bit platform.\<close>

abbreviation (input) sizeof_acl_entry :: nat where "sizeof_acl_entry \<equiv> 16"
abbreviation (input) sizeof_file :: nat where "sizeof_file \<equiv> 496"

definition sc_file_clear_acl_entries :: "sc_file \<Rightarrow> nat \<Rightarrow> sc_file" where
  "sc_file_clear_acl_entries file oper =
    (if oper \<ge> SC_MAX_AC_OPS then file else file\<lparr>f_acl := (f_acl file)[oper := Acl_List []]\<rparr>)"

definition set_acl :: "sc_file \<Rightarrow> nat \<Rightarrow> acl \<Rightarrow> sc_file" where
  "set_acl file oper a = file\<lparr>f_acl := (f_acl file)[oper := a]\<rparr>"

definition sc_file_add_acl_entry ::
  "(nat \<Rightarrow> bool) \<Rightarrow> sc_file \<Rightarrow> nat \<Rightarrow> u32 \<Rightarrow> u64 \<Rightarrow> unit res \<times> sc_file" where
  "sc_file_add_acl_entry alloc file oper method key_ref =
    (if oper \<ge> SC_MAX_AC_OPS then (Inl SC_ERROR_INVALID_ARGUMENTS, file)
     else if method = SC_AC_NEVER then
       (Inr (), set_acl (sc_file_clear_acl_entries file oper) oper Acl_Never)
     else if method = SC_AC_NONE then
       (Inr (), set_acl (sc_file_clear_acl_entries file oper) oper Acl_None)
     else if method = SC_AC_UNKNOWN then
       (Inr (), set_acl (sc_file_clear_acl_entries file oper) oper Acl_Unknown)
     else case f_acl file ! oper of
         Acl_Never \<Rightarrow> (Inr (), file)
       | a \<Rightarrow>
          let es = (case a of Acl_List es \<Rightarrow> es | _ \<Rightarrow> []);
              file = set_acl file oper (Acl_List es)
          in if \<exists>e \<in> set es. ac_method e = method \<and> ucast (ac_key_ref e) = key_ref then (Inr (), file)
             else if \<not> alloc sizeof_acl_entry then (Inl SC_ERROR_OUT_OF_MEMORY, file)
             else (Inr (), set_acl file oper
                    (Acl_List (es @ [\<lparr>ac_method = method, ac_key_ref = ucast key_ref\<rparr>]))))"

text \<open>The list of entries behind the pointer the lookup returns; an empty list is the null pointer.\<close>

definition sc_file_get_acl_entry :: "sc_file \<Rightarrow> nat \<Rightarrow> sc_acl_entry list" where
  "sc_file_get_acl_entry file oper =
    (if oper \<ge> SC_MAX_AC_OPS then []
     else case f_acl file ! oper of
         Acl_Never \<Rightarrow> [\<lparr>ac_method = SC_AC_NEVER, ac_key_ref = SC_AC_KEY_REF_NONE\<rparr>]
       | Acl_None \<Rightarrow> [\<lparr>ac_method = SC_AC_NONE, ac_key_ref = SC_AC_KEY_REF_NONE\<rparr>]
       | Acl_Unknown \<Rightarrow> [\<lparr>ac_method = SC_AC_UNKNOWN, ac_key_ref = SC_AC_KEY_REF_NONE\<rparr>]
       | Acl_List es \<Rightarrow> es)"

section \<open>Attributes\<close>

text \<open>The four setters: an empty value frees the attribute, a failed allocation clears it.\<close>

definition new_attr :: "(nat \<Rightarrow> bool) \<Rightarrow> bytes option \<Rightarrow> unit res \<times> bytes option" where
  "new_attr alloc v =
    (case v of
       None \<Rightarrow> (Inr (), None)
     | Some bs \<Rightarrow>
        if bs = [] then (Inr (), None)
        else if \<not> alloc (length bs) then (Inl SC_ERROR_OUT_OF_MEMORY, None)
        else (Inr (), Some bs))"

definition sc_file_set_sec_attr ::
  "(nat \<Rightarrow> bool) \<Rightarrow> sc_file \<Rightarrow> bytes option \<Rightarrow> unit res \<times> sc_file" where
  "sc_file_set_sec_attr alloc file v = (let (r, a) = new_attr alloc v in (r, file\<lparr>f_sec_attr := a\<rparr>))"

definition sc_file_set_prop_attr ::
  "(nat \<Rightarrow> bool) \<Rightarrow> sc_file \<Rightarrow> bytes option \<Rightarrow> unit res \<times> sc_file" where
  "sc_file_set_prop_attr alloc file v = (let (r, a) = new_attr alloc v in (r, file\<lparr>f_prop_attr := a\<rparr>))"

definition sc_file_set_type_attr ::
  "(nat \<Rightarrow> bool) \<Rightarrow> sc_file \<Rightarrow> bytes option \<Rightarrow> unit res \<times> sc_file" where
  "sc_file_set_type_attr alloc file v = (let (r, a) = new_attr alloc v in (r, file\<lparr>f_type_attr := a\<rparr>))"

definition sc_file_set_content ::
  "(nat \<Rightarrow> bool) \<Rightarrow> sc_file \<Rightarrow> bytes option \<Rightarrow> unit res \<times> sc_file" where
  "sc_file_set_content alloc file v =
    (let (r, a) = new_attr alloc v in (r, file\<lparr>f_encoded_content := a\<rparr>))"

section \<open>Copying a file object\<close>

definition sc_file_new :: "(nat \<Rightarrow> bool) \<Rightarrow> sc_file option" where
  "sc_file_new alloc = (if alloc sizeof_file then Some zero_file else None)"

text \<open>The loop over the operations: each copies the entry the lookup points to.\<close>

fun dup_acls :: "(nat \<Rightarrow> bool) \<Rightarrow> nat list \<Rightarrow> sc_file \<Rightarrow> sc_file \<Rightarrow> unit res \<times> sc_file" where
  "dup_acls alloc [] src newf = (Inr (), newf)"
| "dup_acls alloc (oper # opers) src newf =
    (let newf = set_acl newf oper (Acl_List []) in
     case sc_file_get_acl_entry src oper of
       [] \<Rightarrow> dup_acls alloc opers src newf
     | e # _ \<Rightarrow>
        (case sc_file_add_acl_entry alloc newf oper (ac_method e) (ucast (ac_key_ref e)) of
           (Inl err, newf) \<Rightarrow> (Inl err, newf)
         | (Inr _, newf) \<Rightarrow> dup_acls alloc opers src newf))"

definition sc_file_dup :: "(nat \<Rightarrow> bool) \<Rightarrow> sc_file \<Rightarrow> sc_file option" where
  "sc_file_dup alloc src =
    (case sc_file_new alloc of
       None \<Rightarrow> None
     | Some newf \<Rightarrow>
        let newf = newf\<lparr>f_path := f_path src, f_name := f_name src, f_type := f_type src,
              f_shareable := f_shareable src, f_ef_structure := f_ef_structure src,
              f_size := f_size src, f_id := f_id src, f_status := f_status src\<rparr>;
            (r, newf) = dup_acls alloc [0..<SC_MAX_AC_OPS] src newf
        in if r \<noteq> Inr () then None
           else
             let newf = newf\<lparr>f_record_length := f_record_length src, f_record_count := f_record_count src\<rparr>;
                 (r1, newf) = sc_file_set_sec_attr alloc newf (f_sec_attr src);
                 (r2, newf) = sc_file_set_prop_attr alloc newf (f_prop_attr src);
                 (r3, newf) = sc_file_set_type_attr alloc newf (f_type_attr src);
                 (r4, newf) = sc_file_set_content alloc newf (f_encoded_content src)
             in if r1 = Inr () \<and> r2 = Inr () \<and> r3 = Inr () \<and> r4 = Inr () then Some newf else None)"

section \<open>Lemmas\<close>

text \<open>A file object whose lists are in order: one list per operation, no entry twice, and no
  entry with one of the three special methods.\<close>

definition special_method :: "u32 \<Rightarrow> bool" where
  "special_method m \<longleftrightarrow> m = SC_AC_NEVER \<or> m = SC_AC_NONE \<or> m = SC_AC_UNKNOWN"

definition acl_ok :: "acl \<Rightarrow> bool" where
  "acl_ok a \<longleftrightarrow> (case a of Acl_List es \<Rightarrow> distinct es \<and> (\<forall>e \<in> set es. \<not> special_method (ac_method e)) | _ \<Rightarrow> True)"

definition file_ok :: "sc_file \<Rightarrow> bool" where
  "file_ok f \<longleftrightarrow> length (f_acl f) = SC_MAX_AC_OPS \<and> (\<forall>a \<in> set (f_acl f). acl_ok a)"

lemma acl_okD: "file_ok f \<Longrightarrow> n < SC_MAX_AC_OPS \<Longrightarrow> acl_ok (f_acl f ! n)"
  by (auto simp: file_ok_def)

lemma set_acl_ok: "file_ok f \<Longrightarrow> acl_ok a \<Longrightarrow> file_ok (set_acl f n a)"
  by (auto simp: file_ok_def set_acl_def dest!: set_update_subset_insert [THEN subsetD])

lemma f_acl_set_acl [simp]: "f_acl (set_acl f n a) = (f_acl f)[n := a]"
  by (simp add: set_acl_def)

lemma zero_file_ok [simp]: "file_ok zero_file"
  by (simp add: file_ok_def zero_file_def acl_ok_def)

lemma clear_ok: "file_ok f \<Longrightarrow> file_ok (sc_file_clear_acl_entries f n)"
  using set_acl_ok [of f "Acl_List []" n] by (simp add: sc_file_clear_acl_entries_def set_acl_def acl_ok_def)


text \<open>The list an added entry joins: "none" and "unknown" are replaced.\<close>

definition joined :: "acl \<Rightarrow> sc_acl_entry list" where
  "joined a = (case a of Acl_List es \<Rightarrow> es | _ \<Rightarrow> [])"

lemma add_acl_special:
  assumes "oper < SC_MAX_AC_OPS" and "special_method m"
  shows "sc_file_add_acl_entry alloc f oper m k = (Inr (), set_acl f oper
    (if m = SC_AC_NEVER then Acl_Never else if m = SC_AC_NONE then Acl_None else Acl_Unknown))"
  using assms
  by (auto simp: sc_file_add_acl_entry_def special_method_def sc_file_clear_acl_entries_def set_acl_def)

lemma add_acl_never:
  assumes "oper < SC_MAX_AC_OPS" and "\<not> special_method m" and "f_acl f ! oper = Acl_Never"
  shows "sc_file_add_acl_entry alloc f oper m k = (Inr (), f)"
  using assms by (simp add: sc_file_add_acl_entry_def special_method_def)

lemma entry_eta [simp]: "\<lparr>ac_method = ac_method e, ac_key_ref = ac_key_ref e\<rparr> = (e :: sc_acl_entry)"
  by (cases e) simp

lemma ucast_u64 [simp]: "ucast (ucast k :: u64) = (k :: u32)"
  by (rule bit_word_eqI) (auto simp: bit_simps)

lemma ucast_u64_inject [simp]: "(ucast x = (ucast k :: u64)) = (x = (k :: u32))"
  using ucast_u64 by metis

lemma add_acl_entry:
  assumes "oper < SC_MAX_AC_OPS" and "\<not> special_method m" and "f_acl f ! oper \<noteq> Acl_Never"
    and "alloc sizeof_acl_entry"
  shows "sc_file_add_acl_entry alloc f oper m (ucast k) = (Inr (), set_acl f oper (Acl_List
    (let es = joined (f_acl f ! oper); e = \<lparr>ac_method = m, ac_key_ref = k\<rparr>
     in if e \<in> set es then es else es @ [e])))"
proof -
  have ex: "(\<exists>e \<in> set es. ac_method e = m \<and> ac_key_ref e = k) = (\<lparr>ac_method = m, ac_key_ref = k\<rparr> \<in> set es)"
    for es
  proof
    assume "\<exists>e \<in> set es. ac_method e = m \<and> ac_key_ref e = k"
    then obtain e where "e \<in> set es" "m = ac_method e" "k = ac_key_ref e" by auto
    then show "\<lparr>ac_method = m, ac_key_ref = k\<rparr> \<in> set es" by simp
  qed force
  have sp: "m \<noteq> SC_AC_NEVER" "m \<noteq> SC_AC_NONE" "m \<noteq> SC_AC_UNKNOWN"
    using assms(2) by (simp_all add: special_method_def)
  show ?thesis
    using assms(1,3,4) sp
    by (cases "f_acl f ! oper") (simp_all add: sc_file_add_acl_entry_def joined_def ex set_acl_def Let_def)
qed

lemma joined_ok: "acl_ok a \<Longrightarrow> distinct (joined a) \<and> (\<forall>e \<in> set (joined a). \<not> special_method (ac_method e))"
  by (cases a) (simp_all add: acl_ok_def joined_def)

lemma add_acl_ok:
  assumes "file_ok f" and "alloc sizeof_acl_entry"
  shows "file_ok (snd (sc_file_add_acl_entry alloc f oper m (ucast (k :: u32))))"
proof -
  consider "oper \<ge> SC_MAX_AC_OPS" | "oper < SC_MAX_AC_OPS" "special_method m"
    | "oper < SC_MAX_AC_OPS" "\<not> special_method m" "f_acl f ! oper = Acl_Never"
    | "oper < SC_MAX_AC_OPS" "\<not> special_method m" "f_acl f ! oper \<noteq> Acl_Never" by linarith
  then show ?thesis
  proof cases
    case 1
    with assms show ?thesis by (simp add: sc_file_add_acl_entry_def)
  next
    case 2
    with assms show ?thesis by (simp add: add_acl_special set_acl_ok acl_ok_def)
  next
    case 3
    with assms show ?thesis by (simp add: add_acl_never)
  next
    case 4
    from joined_ok [OF acl_okD [OF assms(1) 4(1)]] 4(2)
    have "acl_ok (Acl_List (let es = joined (f_acl f ! oper); e = \<lparr>ac_method = m, ac_key_ref = k\<rparr>
        in if e \<in> set es then es else es @ [e]))"
      by (auto simp: acl_ok_def Let_def)
    with 4 assms show ?thesis by (simp add: add_acl_entry set_acl_ok)
  qed
qed



text \<open>What the copy keeps of a list: at most the first entry, as the copying loop reads one entry
  only.\<close>

definition first_entry :: "acl \<Rightarrow> acl" where
  "first_entry a = (case a of Acl_List es \<Rightarrow> Acl_List (take 1 es) | _ \<Rightarrow> a)"

lemma dup_one:
  assumes "file_ok src" and "oper < SC_MAX_AC_OPS" and "alloc sizeof_acl_entry"
    and "length (f_acl newf) = SC_MAX_AC_OPS"
  shows "dup_acls alloc (oper # opers) src newf =
    dup_acls alloc opers src (set_acl newf oper (first_entry (f_acl src ! oper)))"
proof -
  let ?n = "set_acl newf oper (Acl_List [])"
  have at: "f_acl ?n ! oper = Acl_List []" using assms by simp
  have ss: "set_acl ?n oper a = set_acl newf oper a" for a by (simp add: set_acl_def)
  show ?thesis
  proof (cases "f_acl src ! oper")
    case (Acl_List es)
    show ?thesis
    proof (cases es)
      case Nil
      with Acl_List assms(2) show ?thesis
        by (simp add: sc_file_get_acl_entry_def first_entry_def Let_def)
    next
      case (Cons e es')
      from acl_okD [OF assms(1,2)] Acl_List Cons have "\<not> special_method (ac_method e)"
        by (simp add: acl_ok_def)
      from add_acl_entry [where alloc=alloc and f="?n" and k="ac_key_ref e", OF assms(2) this _ assms(3)] at
      have "sc_file_add_acl_entry alloc ?n oper (ac_method e) (ucast (ac_key_ref e)) =
          (Inr (), set_acl newf oper (Acl_List [e]))"
        by (simp add: joined_def ss Let_def)
      with Acl_List Cons assms(2) show ?thesis
        by (simp add: sc_file_get_acl_entry_def first_entry_def Let_def)
    qed
  qed (use assms(2) in \<open>simp_all add: sc_file_get_acl_entry_def first_entry_def add_acl_special special_method_def ss Let_def\<close>)
qed

lemma dup_acls_all:
  assumes "file_ok src" and "alloc sizeof_acl_entry"
  shows "\<forall>oper \<in> set opers. oper < SC_MAX_AC_OPS \<Longrightarrow> distinct opers \<Longrightarrow> length (f_acl newf) = SC_MAX_AC_OPS \<Longrightarrow>
    \<exists>as. dup_acls alloc opers src newf = (Inr (), newf\<lparr>f_acl := as\<rparr>) \<and> length as = SC_MAX_AC_OPS \<and>
      (\<forall>n < SC_MAX_AC_OPS. as ! n = (if n \<in> set opers then first_entry (f_acl src ! n) else f_acl newf ! n))"
proof (induction opers arbitrary: newf)
  case Nil
  then show ?case by (intro exI [of _ "f_acl newf"]) simp
next
  case (Cons oper opers)
  let ?n = "set_acl newf oper (first_entry (f_acl src ! oper))"
  have "length (f_acl ?n) = SC_MAX_AC_OPS" using Cons.prems by simp
  with Cons.IH [of ?n] Cons.prems obtain as where
    as: "dup_acls alloc opers src ?n = (Inr (), ?n\<lparr>f_acl := as\<rparr>)" "length as = SC_MAX_AC_OPS"
      "\<forall>n < SC_MAX_AC_OPS. as ! n = (if n \<in> set opers then first_entry (f_acl src ! n) else f_acl ?n ! n)"
    by auto
  have "dup_acls alloc (oper # opers) src newf = (Inr (), newf\<lparr>f_acl := as\<rparr>)"
    using dup_one [where alloc=alloc, OF assms(1) _ assms(2)] Cons.prems as(1) by (simp add: set_acl_def)
  with as(2,3) Cons.prems show ?case
    by (intro exI [of _ as]) (auto simp: nth_list_update)
qed

lemma new_attr_ok: "alloc (length bs) \<Longrightarrow> bs \<noteq> [] \<Longrightarrow> new_attr alloc (Some bs) = (Inr (), Some bs)"
  "new_attr alloc None = (Inr (), None)"
  by (simp_all add: new_attr_def)

definition attrs_nonempty :: "sc_file \<Rightarrow> bool" where
  "attrs_nonempty f \<longleftrightarrow> f_sec_attr f \<noteq> Some [] \<and> f_prop_attr f \<noteq> Some [] \<and> f_type_attr f \<noteq> Some [] \<and>
     f_encoded_content f \<noteq> Some []"

lemma new_attr_all: "v \<noteq> Some [] \<Longrightarrow> new_attr (\<lambda>_. True) v = (Inr (), v)"
  by (cases v) (simp_all add: new_attr_def)

text \<open>Copying a file object with enough memory: every attribute is copied, but of each access
  control list only the first entry, and the short identifier and the flag for inactive access
  control are reset to zero.\<close>
theorem file_dup_first_entry:
  assumes "file_ok src" and "attrs_nonempty src"
  shows "sc_file_dup (\<lambda>_. True) src =
    Some (src\<lparr>f_acl := map first_entry (f_acl src), f_sid := 0, f_acl_inactive := 0\<rparr>)"
proof -
  let ?n = "zero_file\<lparr>f_path := f_path src, f_name := f_name src, f_type := f_type src,
      f_shareable := f_shareable src, f_ef_structure := f_ef_structure src,
      f_size := f_size src, f_id := f_id src, f_status := f_status src\<rparr>"
  have "length (f_acl ?n) = SC_MAX_AC_OPS" by (simp add: zero_file_def)
  with dup_acls_all [of src "\<lambda>_. True" "[0..<SC_MAX_AC_OPS]" ?n] assms(1) obtain as where
    as: "dup_acls (\<lambda>_. True) [0..<SC_MAX_AC_OPS] src ?n = (Inr (), ?n\<lparr>f_acl := as\<rparr>)" "length as = SC_MAX_AC_OPS"
      "\<forall>n < SC_MAX_AC_OPS. as ! n = first_entry (f_acl src ! n)"
    by auto
  have "as = map first_entry (f_acl src)"
    using as(2,3) assms(1) by (intro nth_equalityI) (simp_all add: file_ok_def)
  then show ?thesis
    using as(1) assms(2)
    by (simp add: sc_file_dup_def sc_file_new_def Let_def sc_file_set_sec_attr_def
        sc_file_set_prop_attr_def sc_file_set_type_attr_def sc_file_set_content_def new_attr_all
        attrs_nonempty_def zero_file_def del: upt.simps)
qed

text \<open>A file that may be read after the PIN or after a key authentication: the copy forgets the key.\<close>

theorem file_dup_first_entry_witness:
  "let src = set_acl zero_file 22 (Acl_List [\<lparr>ac_method = 1, ac_key_ref = 1\<rparr>, \<lparr>ac_method = 8, ac_key_ref = 5\<rparr>])
   in map_option (\<lambda>f. sc_file_get_acl_entry f 22) (sc_file_dup (\<lambda>_. True) src) =
        Some [\<lparr>ac_method = 1, ac_key_ref = 1\<rparr>]"
proof -
  let ?src = "set_acl zero_file 22 (Acl_List [\<lparr>ac_method = 1, ac_key_ref = 1\<rparr>, \<lparr>ac_method = 8, ac_key_ref = 5\<rparr>])"
  have "file_ok ?src" by (intro set_acl_ok zero_file_ok) (simp add: acl_ok_def special_method_def)
  moreover have "attrs_nonempty ?src" by (simp add: attrs_nonempty_def set_acl_def zero_file_def)
  ultimately show ?thesis
    using file_dup_first_entry [of ?src]
    by (simp add: Let_def sc_file_get_acl_entry_def set_acl_def zero_file_def first_entry_def)
qed

end
