(* ===== verification/Sc_Tlv.thy ===== *)
theory Sc_Tlv
  imports Sc_Bytes Sc_Apdu
begin

text \<open>
  The tags and lengths of ASN.1 in \<open>libopensc/asn1.c\<close>: reading and writing of a header, the
  search for a tag among siblings. An input buffer is the list of the bytes the caller passes,
  a returned pointer the bytes from there on; \<open>malloc n\<close> gives \<open>n\<close> bytes of unknown content, or
  None. Tags are 32-bit words as in the source, with two conventions there: the tag's bytes as
  one number (\<open>sc_asn1_put_tag\<close>, \<open>sc_asn1_find_tag\<close>) and the tag number with the class in the top
  byte (\<open>sc_asn1_skip_tag\<close>, \<open>asn1_write_element\<close>).

  Main results: the search finds in a sequence of written elements exactly the first one with
  the tag asked for (lookup in an association list), and an element that was written is
  skipped as a whole, its contents unchanged.
\<close>

unbundle bit_operations_syntax

abbreviation (input) SC_ASN1_TAG_CLASS :: u8 where "SC_ASN1_TAG_CLASS \<equiv> 0xC0"
abbreviation (input) SC_ASN1_TAG_CONSTRUCTED :: u8 where "SC_ASN1_TAG_CONSTRUCTED \<equiv> 0x20"
abbreviation (input) SC_ASN1_TAG_PRIMITIVE :: u8 where "SC_ASN1_TAG_PRIMITIVE \<equiv> 0x1F"
abbreviation (input) SC_ASN1_CLASS_MASK :: u32 where "SC_ASN1_CLASS_MASK \<equiv> 0xC0000000"
abbreviation (input) SC_ASN1_UNI :: u32 where "SC_ASN1_UNI \<equiv> 0"
abbreviation (input) SC_ASN1_APP :: u32 where "SC_ASN1_APP \<equiv> 0x40000000"
abbreviation (input) SC_ASN1_CTX :: u32 where "SC_ASN1_CTX \<equiv> 0x80000000"
abbreviation (input) SC_ASN1_PRV :: u32 where "SC_ASN1_PRV \<equiv> 0xC0000000"
abbreviation (input) SC_ASN1_CONS :: u32 where "SC_ASN1_CONS \<equiv> 0x20000000"
abbreviation (input) SC_ASN1_TAG_MASK :: u32 where "SC_ASN1_TAG_MASK \<equiv> 0x00FFFFFF"
abbreviation (input) SC_ASN1_TAGNUM_SIZE :: nat where "SC_ASN1_TAGNUM_SIZE \<equiv> 3"

section \<open>Reading a tag\<close>

text \<open>
  The outcomes of \<open>sc_asn1_read_tag\<close>: an invalid header (\<open>buf\<close> is set to NULL), the end of the
  data (success, with \<open>buf\<close> NULL), a header whose value does not fit in the buffer
  (\<open>SC_ERROR_ASN1_END_OF_CONTENTS\<close>, all outputs set), and success. The arguments are the class
  bits, the tag number, the length and the bytes after the header.
\<close>

datatype read_tag =
    Tag_invalid
  | Tag_end
  | Tag_truncated u32 u32 nat bytes
  | Tag_read u32 u32 nat bytes

fun high_tag :: "nat \<Rightarrow> u32 \<Rightarrow> bytes \<Rightarrow> (u32 \<times> bytes) option" where
  "high_tag (Suc n) tag (b # left) =
     (let tag = push_bit 8 tag OR ucast b
      in if tag AND 0x80 \<noteq> 0 then high_tag n tag left else Some (tag, left))"
| "high_tag _ _ _ = None"

definition read_length :: "bytes \<Rightarrow> (nat \<times> bytes) option" where
  "read_length p =
    (case p of
       [] \<Rightarrow> None
     | b # left \<Rightarrow>
        if b AND 0x80 \<noteq> 0 then
          let len = unat (b AND 0x7F) in
          if len > 4 \<or> len > length left then None
          else Some (unat (foldl (\<lambda>a b. push_bit 8 a OR ucast b) (0 :: u32) (take len left)), drop len left)
        else Some (unat b, left))"

definition sc_asn1_read_tag :: "bytes \<Rightarrow> read_tag" where
  "sc_asn1_read_tag buf =
    (case buf of
       [] \<Rightarrow> Tag_invalid
     | b # left \<Rightarrow>
        if b = 0xFF \<or> b = 0 then Tag_end
        else
          let cla = ucast ((b AND SC_ASN1_TAG_CLASS) OR (b AND SC_ASN1_TAG_CONSTRUCTED)) :: u32;
              tag = ucast (b AND SC_ASN1_TAG_PRIMITIVE) :: u32
          in case (if b AND SC_ASN1_TAG_PRIMITIVE = SC_ASN1_TAG_PRIMITIVE
                   then high_tag (SC_ASN1_TAGNUM_SIZE - 1) tag left else Some (tag, left)) of
               None \<Rightarrow> Tag_invalid
             | Some (tag, left) \<Rightarrow>
                (case read_length left of
                   None \<Rightarrow> Tag_invalid
                 | Some (len, left) \<Rightarrow>
                    if len > length left then Tag_truncated cla tag len left
                    else Tag_read cla tag len left))"

text \<open>The class bits are moved to the first byte of the tag: one byte to the left for every byte
  of the tag number above the lowest. The mask is \<open>0xff00\<close> moved left by \<open>k\<close> bytes; it is 0 for
  three, which ends the loop.\<close>

function shift_cla :: "nat \<Rightarrow> u32 \<Rightarrow> u32 \<Rightarrow> u32" where
  "shift_cla k tag cla =
    (if tag AND push_bit (8 * k) 0xFF00 \<noteq> 0 then shift_cla (Suc k) tag (push_bit 8 cla) else cla)"
  by pat_completeness auto

termination
proof (relation "measure (\<lambda>(k, _, _). 3 - k)")
  fix k and tag cla :: u32
  assume a: "tag AND push_bit (8 * k) 0xFF00 \<noteq> 0"
  have "k < 3"
  proof (rule ccontr)
    assume "\<not> k < 3"
    then have "push_bit (8 * k) (0xFF00 :: u32) = push_bit (8 * k - 24) (push_bit 24 0xFF00)"
      by (simp only: push_bit_push_bit) simp
    also have "push_bit 24 (0xFF00 :: u32) = 0" by (simp add: push_bit_eq_mult)
    finally show False using a by simp
  qed
  then show "((Suc k, tag, push_bit 8 cla), (k, tag, cla)) \<in> measure (\<lambda>(k, _, _). 3 - k)" by simp
qed simp

declare shift_cla.simps [simp del]

text \<open>The value of the first element with the tag. Every round takes at least the header's two
  bytes, so the length of the buffer bounds their number.\<close>

fun find_tag_loop :: "nat \<Rightarrow> bytes \<Rightarrow> u32 \<Rightarrow> bytes option" where
  "find_tag_loop 0 p tag_in = None"
| "find_tag_loop (Suc n) p tag_in =
    (if length p \<ge> 2 then
       (case sc_asn1_read_tag p of
          Tag_read cla tag taglen q \<Rightarrow>
            if tag OR shift_cla 0 tag cla = tag_in then Some (take taglen q)
            else find_tag_loop n (drop taglen q) tag_in
        | _ \<Rightarrow> None)
     else None)"

definition sc_asn1_find_tag :: "bytes \<Rightarrow> u32 \<Rightarrow> bytes option" where
  "sc_asn1_find_tag buf tag_in = find_tag_loop (length buf) buf tag_in"

text \<open>The element at the front, which must have the tag: its value and the bytes after it.\<close>

definition sc_asn1_skip_tag :: "bytes \<Rightarrow> u32 \<Rightarrow> (bytes \<times> bytes) option" where
  "sc_asn1_skip_tag buf tag_in =
    (case sc_asn1_read_tag buf of
       Tag_read cla tag taglen p \<Rightarrow>
         if tag_in AND SC_ASN1_CLASS_MASK \<noteq>
              (let c = cla AND 0xC0 in if c = 0 then SC_ASN1_UNI else if c = 0x40 then SC_ASN1_APP
               else if c = 0x80 then SC_ASN1_CTX else SC_ASN1_PRV)
         then None
         else if (if cla AND 0x20 \<noteq> 0 then tag_in AND SC_ASN1_CONS = 0 else tag_in AND SC_ASN1_CONS \<noteq> 0)
         then None
         else if tag_in AND SC_ASN1_TAG_MASK \<noteq> tag then None
         else if taglen > length p then None
         else Some (take taglen p, drop taglen p)
     | _ \<Rightarrow> None)"

definition sc_asn1_verify_tag :: "bytes \<Rightarrow> u32 \<Rightarrow> bytes option" where
  "sc_asn1_verify_tag buf tag_in = map_option fst (sc_asn1_skip_tag buf tag_in)"

text \<open>What is left to read is shorter than the input.\<close>

lemma high_tag_shorter: "high_tag n tag left = Some (t, r) \<Longrightarrow> length r < length left"
  by (induction n tag left rule: high_tag.induct) (auto simp: Let_def split: if_splits)

lemma read_length_shorter: "read_length p = Some (n, r) \<Longrightarrow> length r < length p"
  by (cases p) (auto simp: read_length_def Let_def split: if_splits)

lemma read_tag_shorter:
  assumes "sc_asn1_read_tag buf = Tag_read cla tag len rest"
  shows "length rest < length buf \<and> len \<le> length rest"
proof (cases buf)
  case Nil
  with assms show ?thesis by (simp add: sc_asn1_read_tag_def)
next
  case (Cons b left)
  with assms show ?thesis
    by (auto simp: sc_asn1_read_tag_def Let_def not_less split: if_splits option.splits
        dest!: high_tag_shorter read_length_shorter)
qed

section \<open>Writing a tag\<close>

text \<open>The bytes of a tag, the lowest first (the array \<open>tag_char\<close>).\<close>

function tag_chars :: "u32 \<Rightarrow> bytes" where
  "tag_chars tag = (if tag = 0 then [] else ucast (tag AND 0xFF) # tag_chars (drop_bit 8 tag))"
  by pat_completeness auto

termination
proof (relation "measure unat")
  fix tag :: u32
  assume "tag \<noteq> 0"
  then have "0 < unat tag" by (simp add: unat_gt_0)
  then show "(drop_bit 8 tag, tag) \<in> measure unat"
    by (simp add: unat_drop_bit_eq drop_bit_eq_div unat_div)
qed simp

declare tag_chars.simps [simp del]

text \<open>The number of bytes of the long form of the length, and the bytes of the length.\<close>

function length_bytes :: "nat \<Rightarrow> nat \<Rightarrow> nat" where
  "length_bytes c datalen = (if drop_bit (8 * c) datalen \<noteq> 0 then length_bytes (Suc c) datalen else c)"
  by pat_completeness auto

termination
proof (relation "measure (\<lambda>(c, d). d - c)")
  fix c datalen :: nat
  assume "drop_bit (8 * c) datalen \<noteq> 0"
  then have "2 ^ (8 * c) \<le> datalen"
    by (simp add: drop_bit_eq_div div_eq_0_iff not_less)
  moreover have "c < 2 ^ (8 * c)"
    by (rule less_le_trans [OF less_exp [of c]]) (rule power_increasing, simp_all)
  ultimately show "((Suc c, datalen), (c, datalen)) \<in> measure (\<lambda>(c, d). d - c)" by simp
qed simp

declare length_bytes.simps [simp del]

definition len_size :: "nat \<Rightarrow> nat" where
  "len_size datalen = (if datalen > 127 then length_bytes 1 datalen else 0)"

definition len_octets :: "nat \<Rightarrow> bytes" where
  "len_octets datalen =
    (let c = len_size datalen
     in if c > 0 then (0x80 OR of_nat c) # map (\<lambda>i. of_nat (drop_bit (8 * i) datalen)) (rev [0..<c])
        else [of_nat datalen AND 0x7F])"

text \<open>The checks on a tag of several bytes, given as the array \<open>tag_char\<close>.\<close>

definition tag_chars_ok :: "bytes \<Rightarrow> bool" where
  "tag_chars_ok t \<longleftrightarrow> (length t > 1 \<longrightarrow>
     last t AND SC_ASN1_TAG_PRIMITIVE = SC_ASN1_TAG_PRIMITIVE \<and>
     list_all (\<lambda>b. b AND 0x80 = 0x80) (butlast (tl t)) \<and> hd t AND 0x80 = 0)"

text \<open>
  \<open>sc_asn1_put_tag\<close>: \<open>room\<close> is \<open>outlen\<close>, 0 when \<open>out\<close> is NULL (the caller only asks for the
  length). The value is the return code with the bytes written; the source moves \<open>ptr\<close> by
  their number. When \<open>data\<close> is NULL only the header is written.
\<close>

definition sc_asn1_put_tag :: "u32 \<Rightarrow> bytes option \<Rightarrow> nat \<Rightarrow> nat \<Rightarrow> nat res \<times> bytes" where
  "sc_asn1_put_tag tag data datalen room =
    (let t = tag_chars tag; n = length t + (len_size datalen + 1) + datalen in
     if tag = 0 then (Inl SC_ERROR_INVALID_DATA, [])
     else if \<not> tag_chars_ok t then (Inl SC_ERROR_INVALID_DATA, [])
     else if room = 0 then (Inr n, [])
     else if room < n then (Inl SC_ERROR_BUFFER_TOO_SMALL, [])
     else (Inr 0, rev t @ len_octets datalen @ (case data of None \<Rightarrow> [] | Some d \<Rightarrow> take datalen d)))"

definition asn1_write_element :: "(nat \<Rightarrow> bytes option) \<Rightarrow> u32 \<Rightarrow> bytes option \<Rightarrow> nat \<Rightarrow> bytes res" where
  "asn1_write_element malloc tag data datalen =
    (let short = tag AND SC_ASN1_TAG_MASK;
         t = (if short = 0 then [0] else tag_chars short) in
     if \<not> tag_chars_ok t then Inl SC_ERROR_INVALID_DATA
     else
       let b = last t AND 0x1F;
           c = tag AND SC_ASN1_CLASS_MASK;
           b = (if c = SC_ASN1_APP then b OR 0x40 else if c = SC_ASN1_CTX then b OR 0x80
                else if c = SC_ASN1_PRV then b OR 0xC0 else b);
           b = (if tag AND SC_ASN1_CONS \<noteq> 0 then b OR SC_ASN1_TAG_CONSTRUCTED else b)
       in case malloc (length t + length (len_octets datalen) + datalen) of
            None \<Rightarrow> Inl SC_ERROR_OUT_OF_MEMORY
          | Some buf \<Rightarrow> Inr (memcpy_at buf 0 (b # rev (butlast t) @ len_octets datalen @
                         (case data of None \<Rightarrow> [] | Some d \<Rightarrow> take datalen d))))"

section \<open>Lemmas: the length\<close>

lemma unat_shift_or:
  assumes "unat (a :: u32) < 2 ^ 24"
  shows "unat (push_bit 8 a OR ucast (b :: u8)) = unat a * 256 + unat b"
proof -
  have "push_bit 8 a AND ucast b = 0"
  proof (rule bit_word_eqI)
    fix n assume "n < LENGTH(32)"
    then show "bit (push_bit 8 a AND ucast b) n = bit (0 :: u32) n"
      by (auto simp: bit_simps dest: bit_imp_le_length)
  qed
  then have "push_bit 8 a OR ucast b = push_bit 8 a + ucast b"
    by (simp add: disjunctive_add_eq_or)
  moreover have "unat (push_bit 8 a) = unat a * 256"
    using assms by (simp add: push_bit_eq_mult unat_word_ariths(2))
  moreover have "unat (ucast b :: u32) = unat b"
    by (simp add: unsigned_ucast_eq take_bit_nat_eq_self_iff less_trans [OF unat_u8_lt])
  moreover have "unat a * 256 + unat b < 2 ^ LENGTH(32)"
  proof -
    have "unat b \<le> 255" using unat_u8_lt [of b] by linarith
    with assms show ?thesis by simp
  qed
  ultimately show ?thesis by (simp add: unat_word_ariths(1))
qed

lemma be_word:
  "length bs \<le> 4 \<Longrightarrow> unat (foldl (\<lambda>a b. push_bit 8 a OR ucast b) (0 :: u32) bs) = be_nat bs"
proof (induction bs rule: rev_induct)
  case Nil
  then show ?case by simp
next
  case (snoc b bs)
  let ?a = "foldl (\<lambda>a b. push_bit 8 a OR ucast b) (0 :: u32) bs"
  from snoc have a: "unat ?a = be_nat bs" by simp
  have "be_nat bs < 256 ^ length bs" by (rule be_nat_bound)
  also have "(256 :: nat) ^ length bs \<le> 256 ^ 3"
    using snoc.prems by (intro power_increasing) simp_all
  finally have "unat ?a < 2 ^ 24" using a by simp
  with a show ?case by (simp add: unat_shift_or)
qed

lemma be_nat_digits:
  "be_nat (map (\<lambda>i. of_nat (drop_bit (8 * i) n)) (rev [0..<c])) = n mod 256 ^ c"
proof (induction c)
  case (Suc c)
  have "n mod 256 ^ Suc c = 256 ^ c * (n div 256 ^ c mod 256) + n mod 256 ^ c"
    by (metis mod_mult2_eq power_Suc2)
  moreover have "(2 :: nat) ^ (8 * c) = 256 ^ c" by (simp add: power_mult)
  ultimately show ?case
    using Suc by (simp add: be_nat_Cons unat_of_nat drop_bit_eq_div algebra_simps)
qed simp

lemma length_bytes_le: "n < 2 ^ (8 * k) \<Longrightarrow> c \<le> k \<Longrightarrow> length_bytes c n \<le> k"
proof (induction c n rule: length_bytes.induct)
  case (1 c n)
  show ?case
  proof (cases "drop_bit (8 * c) n = 0")
    case True
    with 1 show ?thesis by (simp add: length_bytes.simps [of c n])
  next
    case False
    then have "c \<noteq> k" using 1 by (auto simp: drop_bit_eq_div)
    with 1 False show ?thesis by (simp add: length_bytes.simps [of c n])
  qed
qed

lemma length_bytes_bound: "n < 2 ^ (8 * length_bytes c n) \<and> c \<le> length_bytes c n"
proof (induction c n rule: length_bytes.induct)
  case (1 c n)
  show ?case
  proof (cases "drop_bit (8 * c) n = 0")
    case True
    then show ?thesis by (simp add: length_bytes.simps [of c n] drop_bit_eq_div div_eq_0_iff)
  next
    case False
    with 1 show ?thesis by (simp add: length_bytes.simps [of c n])
  qed
qed

lemma short_length:
  assumes "n \<le> 127"
  shows "of_nat n AND 0x7F = (of_nat n :: u8)" and "(of_nat n :: u8) AND 0x80 = 0" and "unat (of_nat n :: u8) = n"
proof -
  show n: "unat (of_nat n :: u8) = n" using assms by (simp add: unat_of_nat)
  have "of_nat n AND (mask 7 :: u8) = of_nat (take_bit 7 n)"
    by (simp only: take_bit_eq_mask [symmetric] take_bit_of_nat)
  moreover have "take_bit 7 n = n" using assms by (simp add: take_bit_nat_eq_self_iff)
  ultimately show *: "of_nat n AND 0x7F = (of_nat n :: u8)" by (simp add: mask_eq_exp_minus_1)
  have "(of_nat n :: u8) AND 0x80 = of_nat n AND (0x7F AND 0x80)"
    by (subst * [symmetric]) (simp only: and.assoc)
  then show "(of_nat n :: u8) AND 0x80 = 0" by simp
qed

lemma long_length:
  assumes "c \<le> 4"
  shows "(0x80 OR of_nat c) AND 0x80 \<noteq> (0 :: u8)" and "unat ((0x80 OR of_nat c) AND (0x7F :: u8)) = c"
proof -
  have "c \<in> {0, 1, 2, 3, 4}" using assms by auto
  then show "(0x80 OR of_nat c) AND 0x80 \<noteq> (0 :: u8)" "unat ((0x80 OR of_nat c) AND (0x7F :: u8)) = c"
    by auto
qed

lemma read_len_octets:
  assumes "n < 2 ^ 32"
  shows "read_length (len_octets n @ rest) = Some (n, rest)"
proof (cases "n \<le> 127")
  case True
  then show ?thesis
    by (simp add: read_length_def len_octets_def len_size_def Let_def short_length)
next
  case False
  define c where "c = length_bytes 1 n"
  have c: "c \<le> 4" "1 \<le> c" "n < 2 ^ (8 * c)"
    using assms length_bytes_le [of n 4 1] length_bytes_bound [of n 1] by (simp_all add: c_def)
  let ?bs = "map (\<lambda>i. of_nat (drop_bit (8 * i) n)) (rev [0..<c]) :: bytes"
  have "len_octets n = (0x80 OR of_nat c) # ?bs"
    using False c(2) by (simp add: len_octets_def len_size_def c_def Let_def del: One_nat_def)
  moreover have "be_nat ?bs = n"
    using c by (simp only: be_nat_digits) (simp add: power_mult)
  ultimately show ?thesis
    using c be_word [of ?bs] long_length [OF c(1)]
    by (simp add: read_length_def Let_def)
qed

lemma length_len_octets [simp]: "length (len_octets n) = len_size n + 1"
  by (simp add: len_octets_def Let_def)

section \<open>Lemmas: the tag\<close>

lemma tag_chars_0 [simp]: "tag_chars 0 = []"
  by (simp add: tag_chars.simps)

lemma tag_chars_nz: "t \<noteq> 0 \<Longrightarrow> tag_chars t = ucast t # tag_chars (drop_bit 8 t)"
proof -
  have "ucast (t AND 0xFF) = (ucast t :: u8)"
  proof (rule bit_word_eqI)
    fix n assume "n < LENGTH(8)"
    then have "n \<in> {0, 1, 2, 3, 4, 5, 6, 7}" by auto
    then show "bit (ucast (t AND 0xFF) :: u8) n = bit (ucast t :: u8) n"
      by (auto simp: bit_simps)
  qed
  then show "t \<noteq> 0 \<Longrightarrow> ?thesis" by (simp add: tag_chars.simps [of t])
qed

lemma tag_chars_eq_Nil [simp]: "tag_chars t = [] \<longleftrightarrow> t = 0"
  by (cases "t = 0") (simp_all add: tag_chars_nz)

text \<open>A tag from its bytes.\<close>

lemma tag_chars_value: "tag_chars t = b # bs \<Longrightarrow> t = push_bit 8 (drop_bit 8 t) OR ucast b \<and> bs = tag_chars (drop_bit 8 t)"
proof -
  assume h: "tag_chars t = b # bs"
  then have "t \<noteq> 0" by auto
  with h have b: "b = ucast t" "bs = tag_chars (drop_bit 8 t)" by (simp_all add: tag_chars_nz)
  have "t = push_bit 8 (drop_bit 8 t) OR ucast b"
  proof (rule bit_word_eqI)
    fix n assume "n < LENGTH(32)"
    then show "bit t n = bit (push_bit 8 (drop_bit 8 t) OR ucast b) n"
      unfolding b by (auto simp: bit_simps)
  qed
  with b show ?thesis by simp
qed

lemma tag_chars_cases:
  shows "tag_chars t = [b0] \<Longrightarrow> t = ucast b0"
    and "tag_chars t = [b1, b0] \<Longrightarrow> t = push_bit 8 (ucast b0) OR ucast b1"
    and "tag_chars t = [b2, b1, b0] \<Longrightarrow> t = push_bit 8 (push_bit 8 (ucast b0) OR ucast b1) OR ucast b2"
proof -
  have 1: "tag_chars u = [b] \<Longrightarrow> u = ucast b" for u b
    using tag_chars_value [of u b "[]"] by (metis or.left_neutral push_bit_of_0 tag_chars_eq_Nil)
  have 2: "tag_chars u = [b', b] \<Longrightarrow> u = push_bit 8 (ucast b) OR ucast b'" for u b b'
    using tag_chars_value [of u b' "[b]"] 1 by metis
  show "tag_chars t = [b0] \<Longrightarrow> t = ucast b0" by (rule 1)
  show "tag_chars t = [b1, b0] \<Longrightarrow> t = push_bit 8 (ucast b0) OR ucast b1" by (rule 2)
  show "tag_chars t = [b2, b1, b0] \<Longrightarrow> t = push_bit 8 (push_bit 8 (ucast b0) OR ucast b1) OR ucast b2"
    using tag_chars_value [of t b2 "[b1, b0]"] 2 by metis
qed



section \<open>Lemmas: reading what was written\<close>

text \<open>The bytes of a tag that the reader accepts.\<close>

definition header_ok :: "bytes \<Rightarrow> bool" where
  "header_ok h \<longleftrightarrow>
    (case h of
       [b] \<Rightarrow> b \<noteq> 0xFF \<and> b \<noteq> 0 \<and> b AND 0x1F \<noteq> 0x1F
     | [b, b1] \<Rightarrow> b \<noteq> 0xFF \<and> b AND 0x1F = 0x1F \<and> b1 AND 0x80 = 0
     | [b, b1, b2] \<Rightarrow> b \<noteq> 0xFF \<and> b AND 0x1F = 0x1F \<and> b1 AND 0x80 \<noteq> 0 \<and> b2 AND 0x80 = 0
     | _ \<Rightarrow> False)"

definition tag_class :: "bytes \<Rightarrow> u32" where
  "tag_class h = ucast ((hd h AND SC_ASN1_TAG_CLASS) OR (hd h AND SC_ASN1_TAG_CONSTRUCTED))"

definition tag_number :: "bytes \<Rightarrow> u32" where
  "tag_number h = foldl (\<lambda>a b. push_bit 8 a OR ucast b) (ucast (hd h AND SC_ASN1_TAG_PRIMITIVE)) (tl h)"

lemma header_okE:
  assumes "header_ok h"
  obtains b where "h = [b]" "b \<noteq> 0xFF" "b \<noteq> 0" "b AND 0x1F \<noteq> 0x1F"
  | b b1 where "h = [b, b1]" "b \<noteq> 0xFF" "b AND 0x1F = 0x1F" "b1 AND 0x80 = 0"
  | b b1 b2 where "h = [b, b1, b2]" "b \<noteq> 0xFF" "b AND 0x1F = 0x1F" "b1 AND 0x80 \<noteq> 0" "b2 AND 0x80 = 0"
  using assms by (auto simp: header_ok_def split: list.splits)

lemma and_0x80: "x AND 0x80 = 0 \<longleftrightarrow> \<not> bit (x :: 'a :: len word) 7"
  using and_exp_eq_0_iff_not_bit [of x 7] by simp

lemma more_octets [simp]: "(push_bit 8 a OR ucast b) AND 0x80 = (0 :: u32) \<longleftrightarrow> (b :: u8) AND 0x80 = 0"
  by (simp only: and_0x80) (simp add: bit_simps)

lemma more_octets_num [simp]: "push_bit 8 a AND 128 OR ucast b AND 128 = (0 :: u32) \<longleftrightarrow> (b :: u8) AND 128 = 0"
  using more_octets [of a b] by (simp only: word_ao_dist)

lemma read_first:
  assumes "b \<noteq> 0xFF" "b \<noteq> 0" and n: "n < 2 ^ 32" "n \<le> length rest"
    and "(if b AND SC_ASN1_TAG_PRIMITIVE = SC_ASN1_TAG_PRIMITIVE
          then high_tag 2 (ucast (b AND SC_ASN1_TAG_PRIMITIVE)) left
          else Some (ucast (b AND SC_ASN1_TAG_PRIMITIVE), left)) = Some (tag, len_octets n @ rest)"
  shows "sc_asn1_read_tag (b # left) =
    Tag_read (ucast ((b AND SC_ASN1_TAG_CLASS) OR (b AND SC_ASN1_TAG_CONSTRUCTED))) tag n rest"
proof -
  have "SC_ASN1_TAGNUM_SIZE - 1 = 2" and "(length rest < n) = False" using n by simp_all
  then show ?thesis
    using assms by (simp only: sc_asn1_read_tag_def list.case Let_def if_False simp_thms option.case
        prod.case read_len_octets)
qed

lemma high_tag1: "b1 AND 0x80 = 0 \<Longrightarrow> high_tag 2 t (b1 # r) = Some (push_bit 8 t OR ucast b1, r)"
  using more_octets [of t b1] by (simp add: numeral_2_eq_2 del: more_octets)

lemma high_tag2: "b1 AND 0x80 \<noteq> 0 \<Longrightarrow> b2 AND 0x80 = 0 \<Longrightarrow>
  high_tag 2 t (b1 # b2 # r) = Some (push_bit 8 (push_bit 8 t OR ucast b1) OR ucast b2, r)"
  using more_octets [of t b1] more_octets [of "push_bit 8 t OR ucast b1" b2]
  by (simp add: numeral_2_eq_2 Let_def del: more_octets more_octets_num)

lemma read_header:
  assumes "header_ok h" and n: "n < 2 ^ 32" "n \<le> length rest"
  shows "sc_asn1_read_tag (h @ len_octets n @ rest) = Tag_read (tag_class h) (tag_number h) n rest"
  using assms(1)
proof (cases rule: header_okE)
  case (1 b)
  show ?thesis unfolding 1(1) append_Cons append_Nil
    by (subst read_first [OF 1(2,3) n]) (use 1 in \<open>simp_all add: tag_class_def tag_number_def\<close>)
next
  case (2 b b1)
  then have nz: "b \<noteq> 0" by auto
  show ?thesis unfolding 2(1) append_Cons append_Nil
    by (subst read_first [OF 2(2) nz n]) (use 2 in \<open>simp_all add: tag_class_def tag_number_def high_tag1\<close>)
next
  case (3 b b1 b2)
  then have nz: "b \<noteq> 0" by auto
  show ?thesis unfolding 3(1) append_Cons append_Nil
    by (subst read_first [OF 3(2) nz n]) (use 3 in \<open>simp_all add: tag_class_def tag_number_def high_tag2\<close>)
qed

text \<open>The tags \<open>sc_asn1_put_tag\<close> writes and the reader accepts.\<close>

definition readable_tag :: "u32 \<Rightarrow> bool" where
  "readable_tag t \<longleftrightarrow> t \<noteq> 0 \<and> tag_chars_ok (tag_chars t) \<and> length (tag_chars t) \<le> 3 \<and>
     last (tag_chars t) \<noteq> 0xFF \<and> (length (tag_chars t) = 1 \<longrightarrow> last (tag_chars t) AND 0x1F \<noteq> 0x1F)"

lemma tag_chars_last: "t \<noteq> 0 \<Longrightarrow> last (tag_chars t) \<noteq> 0"
proof (induction t rule: tag_chars.induct)
  case (1 t)
  show ?case
  proof (cases "drop_bit 8 t = 0")
    case True
    have "ucast t \<noteq> (0 :: u8)"
    proof
      assume u: "ucast t = (0 :: u8)"
      have "tag_chars t = [ucast t]" using 1 True by (simp add: tag_chars_nz)
      from tag_chars_value [OF this] True u have "t = 0" by simp
      with 1 show False by simp
    qed
    with 1 True show ?thesis by (simp add: tag_chars_nz)
  next
    case False
    with 1 show ?thesis by (simp add: tag_chars_nz)
  qed
qed

lemma u8_0x80: "(b :: u8) AND 0x80 = 0x80 \<longleftrightarrow> b AND 0x80 \<noteq> 0"
proof -
  have "b AND 0x80 = (if bit b 7 then 0x80 else 0)"
  proof (rule bit_word_eqI)
    fix n assume "n < LENGTH(8)"
    then have "n \<in> {0, 1, 2, 3, 4, 5, 6, 7}" by auto
    then show "bit (b AND 0x80) n = bit (if bit b 7 then 0x80 else 0 :: u8) n"
      by (auto simp: bit_simps)
  qed
  then show ?thesis by simp
qed

lemma readable_header:
  assumes "readable_tag t"
  shows "header_ok (rev (tag_chars t))"
proof -
  have "t \<noteq> 0" using assms by (simp add: readable_tag_def)
  then have ne: "tag_chars t \<noteq> []" "last (tag_chars t) \<noteq> 0" by (simp_all add: tag_chars_last)
  consider b where "tag_chars t = [b]" | b b1 where "tag_chars t = [b1, b]"
    | b b1 b2 where "tag_chars t = [b2, b1, b]"
    using assms ne(1) by (auto simp: readable_tag_def le_Suc_eq length_Suc_conv eval_nat_numeral)
  then show ?thesis
    using assms ne by cases (auto simp: readable_tag_def header_ok_def tag_chars_ok_def u8_0x80)
qed

lemma byte_range: "n < 8 \<Longrightarrow> n \<in> {0, 1, 2, 3, 4, 5, 6, 7 :: nat}"
  by auto

lemma first_byte:
  "ucast ((b :: u8) AND 0x1F) OR ucast ((b AND 0xC0) OR (b AND 0x20)) = (ucast b :: u32)"
proof -
  have "(b AND 0x1F) OR ((b AND 0xC0) OR (b AND 0x20)) = b"
  proof (rule bit_word_eqI)
    fix n assume "n < LENGTH(8)"
    then have "n \<in> {0, 1, 2, 3, 4, 5, 6, 7}" using byte_range by simp
    then show "bit ((b AND 0x1F) OR ((b AND 0xC0) OR (b AND 0x20))) n = bit b n"
      by (auto simp: bit_simps)
  qed
  then show ?thesis by (metis unsigned_or_eq)
qed

lemma byte_masks [simp]:
  "(ucast (b :: u8) :: u32) AND 0xFF00 = 0" "(ucast b :: u32) AND 0xFF0000 = 0"
  "(ucast b :: u32) AND 0xFF000000 = 0"
proof -
  have "(ucast b :: u32) = ucast b AND mask 8"
    by (rule bit_word_eqI) (auto simp: bit_simps dest: bit_imp_le_length)
  then have "(ucast b :: u32) = ucast b AND 0xFF" by (simp add: mask_eq_exp_minus_1)
  then have *: "(ucast b :: u32) AND m = ucast b AND (0xFF AND m)" for m
    by (metis and.assoc)
  show "(ucast b :: u32) AND 0xFF00 = 0" "(ucast b :: u32) AND 0xFF0000 = 0"
    "(ucast b :: u32) AND 0xFF000000 = 0"
    by (simp_all add: * [of "0xFF00"] * [of "0xFF0000"] * [of "0xFF000000"])
qed

lemma shifted_byte_mask:
  "push_bit 8 (ucast (b :: u8)) AND (0xFF00 :: u32) \<noteq> 0" if "b AND 0x80 \<noteq> 0"
proof
  assume "push_bit 8 (ucast b) AND (0xFF00 :: u32) = 0"
  moreover have "bit (push_bit 8 (ucast b) AND (0xFF00 :: u32)) 15"
    using that by (simp add: bit_simps and_0x80)
  ultimately show False by simp
qed

lemma shifted_byte_masks [simp]:
  "push_bit 8 (ucast (b :: u8)) AND (0xFF0000 :: u32) = 0"
  "push_bit 8 (ucast (b :: u8)) AND (0xFF000000 :: u32) = 0"
proof -
  have "push_bit 8 (ucast b) AND (0xFF0000 :: u32) = push_bit 8 (ucast b AND 0xFF00)"
    "push_bit 8 (ucast b) AND (0xFF000000 :: u32) = push_bit 8 (ucast b AND 0xFF0000)"
    by (simp_all only: push_bit_and) simp_all
  then show "push_bit 8 (ucast (b :: u8)) AND (0xFF0000 :: u32) = 0"
    "push_bit 8 (ucast (b :: u8)) AND (0xFF000000 :: u32) = 0" by simp_all
qed

lemma shift_cla_steps:
  "t AND 0xFF00 = 0 \<Longrightarrow> shift_cla 0 t c = c"
  "t AND 0xFF00 \<noteq> 0 \<Longrightarrow> t AND 0xFF0000 = 0 \<Longrightarrow> shift_cla 0 t c = push_bit 8 c"
  "t AND 0xFF00 \<noteq> 0 \<Longrightarrow> t AND 0xFF0000 \<noteq> 0 \<Longrightarrow> t AND 0xFF000000 = 0 \<Longrightarrow> shift_cla 0 t c = push_bit 16 c"
  using shift_cla.simps [of 0 t c] shift_cla.simps [of 1 t "push_bit 8 c"]
    shift_cla.simps [of 2 t "push_bit 16 c"]
  by (simp_all add: numeral_2_eq_2)

text \<open>The value that the search compares with the tag: the header's bytes as one number.\<close>

lemma shifted_tag:
  assumes "header_ok h"
  shows "tag_number h OR shift_cla 0 (tag_number h) (tag_class h) =
    foldl (\<lambda>a b. push_bit 8 a OR ucast b) (0 :: u32) h"
  using assms
proof (cases rule: header_okE)
  case (1 b)
  have "(ucast (b AND 0x1F) :: u32) AND 0xFF00 = 0" by (rule byte_masks)
  with 1 show ?thesis
    by (simp add: tag_number_def tag_class_def shift_cla_steps first_byte)
next
  case (2 b b1)
  have f: "0x1F OR ucast ((b AND 0xC0) OR (b AND 0x20)) = (ucast b :: u32)"
    using first_byte [of b] 2 by simp
  have "shift_cla 0 (0x1F00 OR ucast b1) c = push_bit 8 c" for c
    by (rule shift_cla_steps(2)) (simp_all add: word_ao_dist or_eq_0_iff)
  moreover have "tag_number h = 0x1F00 OR ucast b1" using 2 by (simp add: tag_number_def)
  moreover have "((0x1F00 :: u32) OR x) OR push_bit 8 c = push_bit 8 (0x1F OR c) OR x" for x c
    by (simp add: push_bit_or or.assoc or.commute or.left_commute)
  ultimately have "tag_number h OR shift_cla 0 (tag_number h) (tag_class h) =
      push_bit 8 (0x1F OR tag_class h) OR ucast b1"
    by (simp only:)
  also have "\<dots> = push_bit 8 (ucast b) OR ucast b1"
    using f 2 by (simp only: tag_class_def list.sel)
  finally show ?thesis using 2 by simp
next
  case (3 b b1 b2)
  have f: "0x1F OR ucast ((b AND 0xC0) OR (b AND 0x20)) = (ucast b :: u32)"
    using first_byte [of b] 3 by simp
  let ?t = "0x1F0000 OR (push_bit 8 (ucast b1) OR ucast b2) :: u32"
  have "?t AND 0xFF00 \<noteq> 0" "?t AND 0xFF0000 \<noteq> 0" "?t AND 0xFF000000 = 0"
    using shifted_byte_mask [OF 3(4)] by (simp_all only: word_ao_dist or_eq_0_iff byte_masks shifted_byte_masks) simp_all
  then have "shift_cla 0 ?t c = push_bit 16 c" for c
    by (rule shift_cla_steps(3))
  moreover have "tag_number h = ?t" using 3 by (simp add: tag_number_def push_bit_or or.assoc)
  moreover have "((0x1F0000 :: u32) OR x) OR push_bit 16 c = push_bit 16 (0x1F OR c) OR x" for x c
    by (simp add: push_bit_or or.assoc or.commute or.left_commute)
  ultimately have "tag_number h OR shift_cla 0 (tag_number h) (tag_class h) =
      push_bit 16 (0x1F OR tag_class h) OR (push_bit 8 (ucast b1) OR ucast b2)"
    by (simp only:)
  also have "\<dots> = push_bit 16 (ucast b) OR (push_bit 8 (ucast b1) OR ucast b2)"
    using f 3 by (simp only: tag_class_def list.sel)
  finally show ?thesis using 3 by (simp add: push_bit_or or.assoc)
qed

lemma readable_value:
  assumes "readable_tag t"
  shows "foldl (\<lambda>a b. push_bit 8 a OR ucast b) (0 :: u32) (rev (tag_chars t)) = t"
proof -
  from readable_header [OF assms] show ?thesis
  proof (cases rule: header_okE)
    case (1 b)
    then have "tag_chars t = [b]" by simp
    from tag_chars_cases(1) [OF this] 1 show ?thesis by simp
  next
    case (2 b b1)
    then have "tag_chars t = [b1, b]" by (simp add: rev_swap)
    from tag_chars_cases(2) [OF this] 2 show ?thesis by simp
  next
    case (3 b b1 b2)
    then have "tag_chars t = [b2, b1, b]" by (simp add: rev_swap)
    from tag_chars_cases(3) [OF this] 3 show ?thesis by simp
  qed
qed

section \<open>The search among siblings\<close>

text \<open>An element as the writer puts it, and what the search does with it at the front.\<close>

definition element :: "u32 \<Rightarrow> bytes \<Rightarrow> bytes" where
  "element t v = rev (tag_chars t) @ len_octets (length v) @ v"

lemma put_tag_element:
  assumes "readable_tag t" and "length (element t v) \<le> room"
  shows "sc_asn1_put_tag t (Some v) (length v) room = (Inr 0, element t v)"
  using assms by (simp add: sc_asn1_put_tag_def element_def readable_tag_def Let_def)

lemma read_element:
  assumes "readable_tag t" and "length v < 2 ^ 32"
  shows "sc_asn1_read_tag (element t v @ rest) =
    Tag_read (tag_class (rev (tag_chars t))) (tag_number (rev (tag_chars t))) (length v) (v @ rest)"
  using read_header [OF readable_header [OF assms(1)] assms(2), of "v @ rest"]
  by (simp add: element_def)

lemma element_length: "readable_tag t \<Longrightarrow> 2 \<le> length (element t v)"
  by (cases "tag_chars t") (simp_all add: element_def readable_tag_def)

lemma find_loop_element:
  assumes "readable_tag t" and "length v < 2 ^ 32"
  shows "find_tag_loop (Suc n) (element t v @ rest) tag_in =
    (if t = tag_in then Some v else find_tag_loop n rest tag_in)"
  using read_element [OF assms] element_length [OF assms(1), of v]
    shifted_tag [OF readable_header [OF assms(1)]] readable_value [OF assms(1)]
  by simp

definition elements :: "(u32 \<times> bytes) list \<Rightarrow> bytes" where
  "elements tvs = concat (map (\<lambda>(t, v). element t v) tvs)"

text \<open>Whatever remains after the elements decides when none of them has the tag.\<close>

lemma find_loop_elements:
  assumes "\<forall>(t, v) \<in> set tvs. readable_tag t \<and> length v < 2 ^ 32"
  shows "length (elements tvs @ rest) \<le> n \<Longrightarrow>
    find_tag_loop n (elements tvs @ rest) tag_in =
      (case map_of tvs tag_in of Some v \<Rightarrow> Some v | None \<Rightarrow> find_tag_loop (n - length tvs) rest tag_in)"
  using assms
proof (induction tvs arbitrary: n)
  case Nil
  then show ?case by (simp add: elements_def)
next
  case (Cons p tvs)
  obtain t v where p: "p = (t, v)" by (cases p)
  with Cons.prems have t: "readable_tag t" "length v < 2 ^ 32" by simp_all
  from Cons.prems(1) element_length [OF t(1), of v] obtain m where n: "n = Suc m" "length (elements tvs @ rest) \<le> m"
    by (cases n) (simp_all add: elements_def p)
  have "find_tag_loop n (elements (p # tvs) @ rest) tag_in =
      (if t = tag_in then Some v else find_tag_loop m (elements tvs @ rest) tag_in)"
    using find_loop_element [OF t, of m "elements tvs @ rest" tag_in] by (simp add: n(1) p elements_def del: find_tag_loop.simps)
  moreover have "n - length (p # tvs) = m - length tvs" by (simp add: n(1))
  ultimately show ?case using Cons.IH [OF n(2)] Cons.prems(2)
    by (cases "t = tag_in"; cases "map_of tvs tag_in") (simp_all add: p n(1) del: find_tag_loop.simps)
qed

lemma find_loop_Nil [simp]: "find_tag_loop n [] tag_in = None"
  by (cases n) simp_all

text \<open>C37: The search for a tag refines lookup in an association list: in the concatenation of elements
  written by \<open>sc_asn1_put_tag\<close>, \<open>sc_asn1_find_tag\<close> returns exactly the value of the first one with
  the tag, for all tags that the reader accepts and values of less than 4 GiB.\<close>
theorem find_tag_first:
  assumes "\<forall>(t, v) \<in> set tvs. readable_tag t \<and> length v < 2 ^ 32 \<and>
      sc_asn1_put_tag t (Some v) (length v) room = (Inr 0, out (t, v))"
  shows "sc_asn1_find_tag (concat (map out tvs)) tag_in = map_of tvs tag_in"
proof -
  have "out (t, v) = element t v" if "(t, v) \<in> set tvs" for t v
  proof -
    from that assms have o: "readable_tag t" "sc_asn1_put_tag t (Some v) (length v) room = (Inr 0, out (t, v))"
      by auto
    have "room \<noteq> 0 \<and> length (element t v) \<le> room"
      using o by (auto simp: sc_asn1_put_tag_def element_def readable_tag_def Let_def split: if_splits)
    with o put_tag_element [of t v room] show ?thesis by simp
  qed
  then have "map out tvs = map (\<lambda>(t, v). element t v) tvs" by auto
  then have "concat (map out tvs) = elements tvs" by (simp only: elements_def)
  moreover have "\<forall>(t, v) \<in> set tvs. readable_tag t \<and> length v < 2 ^ 32" using assms by auto
  ultimately show ?thesis
    using find_loop_elements [of tvs "[]" "length (elements tvs)" tag_in]
    by (simp add: sc_asn1_find_tag_def split: option.splits)
qed

theorem find_tag_first_witness:
  "sc_asn1_find_tag [0x84, 1, 9, 0x7F, 0x49, 2, 1, 2, 0x84, 0] 0x7F49 = Some [1, 2]"
proof -
  let ?tvs = "[(0x84, [9]), (0x7F49, [1, 2]), (0x84, [])] :: (u32 \<times> bytes) list"
  have "list_all (\<lambda>(t, v). readable_tag t) ?tvs" by code_simp
  moreover have "map (\<lambda>(t, v). sc_asn1_put_tag t (Some v) (length v) 10) ?tvs =
      map (\<lambda>(t, v). (Inr 0, element t v)) ?tvs" by code_simp
  ultimately have "\<forall>(t, v) \<in> set ?tvs. readable_tag t \<and> length v < 2 ^ 32 \<and>
      sc_asn1_put_tag t (Some v) (length v) 10 = (Inr 0, (\<lambda>(t, v). element t v) (t, v))"
    by simp
  from find_tag_first [OF this, of "0x7F49"]
  have "sc_asn1_find_tag (concat (map (\<lambda>(t, v). element t v) ?tvs)) 0x7F49 = Some [1, 2]" by simp
  moreover have "concat (map (\<lambda>(t, v). element t v) ?tvs) = [0x84, 1, 9, 0x7F, 0x49, 2, 1, 2, 0x84, 0]"
    by code_simp
  ultimately show ?thesis by simp
qed

section \<open>Elements with the class in the top byte\<close>

text \<open>The first byte that \<open>asn1_write_element\<close> puts for a tag, and the bytes of the tag.\<close>

definition class_byte :: "u32 \<Rightarrow> u8" where
  "class_byte tag =
    (let c = tag AND SC_ASN1_CLASS_MASK
     in if c = SC_ASN1_APP then 0x40 else if c = SC_ASN1_CTX then 0x80 else if c = SC_ASN1_PRV then 0xC0 else 0)"

definition short_chars :: "u32 \<Rightarrow> bytes" where
  "short_chars tag = (let s = tag AND SC_ASN1_TAG_MASK in if s = 0 then [0] else tag_chars s)"

definition write_header :: "u32 \<Rightarrow> bytes" where
  "write_header tag =
    (let t = short_chars tag
     in ((last t AND 0x1F OR class_byte tag) OR (if tag AND SC_ASN1_CONS \<noteq> 0 then SC_ASN1_TAG_CONSTRUCTED else 0))
        # rev (butlast t))"

text \<open>The tags for which the element can be read back: the number fits its form, and the first
  byte does not look like the end of the data.\<close>

definition elem_tag :: "u32 \<Rightarrow> bool" where
  "elem_tag tag \<longleftrightarrow> tag_chars_ok (short_chars tag) \<and> last (short_chars tag) AND 0xE0 = 0 \<and>
     header_ok (write_header tag)"

lemma class_cases: "tag AND SC_ASN1_CLASS_MASK \<in> {SC_ASN1_UNI, SC_ASN1_APP, SC_ASN1_CTX, SC_ASN1_PRV}"
proof -
  have m: "SC_ASN1_CLASS_MASK = push_bit 30 (mask 2 :: u32)" by (simp add: mask_eq_exp_minus_1)
  have "tag AND SC_ASN1_CLASS_MASK = push_bit 30 (take_bit 2 (drop_bit 30 tag))"
    unfolding m by (rule bit_word_eqI) (auto simp: bit_simps)
  moreover have "take_bit 2 (drop_bit 30 tag) \<in> {0, 1, 2, 3}"
  proof -
    have "unat (take_bit 2 (drop_bit 30 tag)) < 4"
      by (simp add: unsigned_take_bit_eq take_bit_nat_def)
    then have "unat (take_bit 2 (drop_bit 30 tag)) \<in> {0, 1, 2, 3}" by auto
    then show ?thesis by (simp add: word_unat_eq_iff del: take_bit_drop_bit)
  qed
  ultimately show ?thesis by auto
qed

lemma class_byteE:
  obtains "tag AND SC_ASN1_CLASS_MASK = SC_ASN1_UNI" "class_byte tag = 0"
  | "tag AND SC_ASN1_CLASS_MASK = SC_ASN1_APP" "class_byte tag = 0x40"
  | "tag AND SC_ASN1_CLASS_MASK = SC_ASN1_CTX" "class_byte tag = 0x80"
  | "tag AND SC_ASN1_CLASS_MASK = SC_ASN1_PRV" "class_byte tag = 0xC0"
  using class_cases [of tag] by (auto simp: class_byte_def)

lemma short_chars_eq: "(if tag AND SC_ASN1_TAG_MASK = 0 then [0] else tag_chars (tag AND SC_ASN1_TAG_MASK)) = short_chars tag"
  by (simp add: short_chars_def Let_def)

lemma write_element_bytes:
  assumes "malloc_ok malloc" and ok: "tag_chars_ok (short_chars tag)"
    and w: "asn1_write_element malloc tag (Some d) (length d) = Inr e"
  shows "e = write_header tag @ len_octets (length d) @ d"
proof -
  let ?t = "short_chars tag"
  have ne: "?t \<noteq> []" by (simp add: short_chars_def Let_def)
  let ?b = "(last ?t AND 0x1F OR class_byte tag) OR (if tag AND SC_ASN1_CONS \<noteq> 0 then SC_ASN1_TAG_CONSTRUCTED else 0)"
  let ?n = "length ?t + length (len_octets (length d)) + length d"
  have eq: "asn1_write_element malloc tag (Some d) (length d) =
      (case malloc ?n of None \<Rightarrow> Inl SC_ERROR_OUT_OF_MEMORY
       | Some buf \<Rightarrow> Inr (memcpy_at buf 0 (?b # rev (butlast ?t) @ len_octets (length d) @ d)))"
    by (cases rule: class_byteE [of tag])
      (simp_all only: asn1_write_element_def Let_def short_chars_eq ok not_True_eq_False if_False option.case,
       simp_all del: length_len_octets split: option.split)
  then obtain buf where b: "malloc ?n = Some buf" "e = memcpy_at buf 0 (?b # rev (butlast ?t) @ len_octets (length d) @ d)"
    using w by (auto split: option.splits)
  have "length buf = ?n" using assms(1) b(1) unfolding malloc_ok_def by (metis option.inject)
  then have "drop (length (?b # rev (butlast ?t) @ len_octets (length d) @ d)) buf = []"
    using ne by simp
  with b show ?thesis by (simp add: memcpy_at_0 write_header_def Let_def)
qed


lemma header_bits:
  fixes x :: u8
  assumes "x AND 0xE0 = 0"
  shows "x AND 0x1F = x" "x AND 0xC0 = 0" "x AND 0x20 = 0"
proof -
  have b: "\<not> bit x 5 \<and> \<not> bit x 6 \<and> \<not> bit x 7"
  proof -
    have "\<not> bit (x AND 0xE0) 5" "\<not> bit (x AND 0xE0) 6" "\<not> bit (x AND 0xE0) 7"
      by (simp_all only: assms bit_0_eq) simp_all
    then show ?thesis by (simp add: bit_simps)
  qed
  show "x AND 0x1F = x" "x AND 0xC0 = 0" "x AND 0x20 = 0"
  proof -
    have "bit (x AND 0x1F) n = bit x n \<and> bit (x AND 0xC0) n = bit (0 :: u8) n \<and> bit (x AND 0x20) n = bit (0 :: u8) n"
      if "n < LENGTH(8)" for n
    proof -
      from that have "n \<in> {0, 1, 2, 3, 4, 5, 6, 7}" by auto
      with b show ?thesis by (auto simp: bit_simps)
    qed
    then show "x AND 0x1F = x" "x AND 0xC0 = 0" "x AND 0x20 = 0"
      by (blast intro: bit_word_eqI)+
  qed
qed

lemma short_chars_value:
  assumes "elem_tag tag"
  shows "tag_number (write_header tag) = tag AND SC_ASN1_TAG_MASK"
proof -
  let ?t = "short_chars tag" let ?s = "tag AND SC_ASN1_TAG_MASK"
  have h: "header_ok (write_header tag)" and e: "last ?t AND 0xE0 = 0" using assms by (simp_all add: elem_tag_def)
  have t: "?s = 0 \<and> ?t = [0] \<or> ?t = tag_chars ?s" by (simp add: short_chars_def Let_def)
  have first: "hd (write_header tag) AND 0x1F = last ?t"
    using header_bits [OF e]
    by (cases rule: class_byteE [of tag]) (simp_all add: write_header_def Let_def word_ao_dist and.assoc)
  have len: "length (write_header tag) = length ?t"
    by (simp add: write_header_def Let_def short_chars_def)
  have eq: "tag_number (write_header tag) = foldl (\<lambda>a b. push_bit 8 a OR ucast b) (ucast (last ?t)) (rev (butlast ?t))"
    using first by (simp add: tag_number_def write_header_def Let_def)
  from h show ?thesis
  proof (cases rule: header_okE)
    case (1 b)
    then obtain x where x: "?t = [x]" using len by (cases ?t) auto
    have "?s = ucast x" using t x by (auto dest: tag_chars_cases(1) [OF sym])
    with eq x show ?thesis by simp
  next
    case (2 b b1)
    then obtain x y where x: "?t = [y, x]" using len by (cases ?t; cases "tl ?t") auto
    have "tag_chars ?s = [y, x]" using t x by auto
    from tag_chars_cases(2) [OF this] eq x show ?thesis by simp
  next
    case (3 b b1 b2)
    then have "length ?t = 3" using len by simp
    then obtain x y z where x: "?t = [z, y, x]" by (auto simp: length_Suc_conv eval_nat_numeral)
    have "tag_chars ?s = [z, y, x]" using t x by auto
    from tag_chars_cases(3) [OF this] eq x show ?thesis by simp
  qed
qed

lemma class_of_header:
  assumes "elem_tag tag"
  shows "tag_class (write_header tag) = ucast (class_byte tag OR (if tag AND SC_ASN1_CONS \<noteq> 0 then 0x20 else 0))"
proof -
  have e: "last (short_chars tag) AND 0xE0 = 0" using assms by (simp add: elem_tag_def)
  show ?thesis using header_bits [OF e]
    by (cases rule: class_byteE [of tag])
      (simp_all add: tag_class_def write_header_def Let_def word_ao_dist and.assoc)
qed

lemma skip_written_element:
  assumes "malloc_ok malloc" and tag: "elem_tag tag" and len: "length d < 2 ^ 32"
    and w: "asn1_write_element malloc tag (Some d) (length d) = Inr e"
  shows "sc_asn1_skip_tag (e @ rest) tag = Some (d, rest)"
proof -
  have e: "e = write_header tag @ len_octets (length d) @ d"
    using write_element_bytes [OF assms(1) _ w] tag by (simp add: elem_tag_def)
  have h: "header_ok (write_header tag)" using tag by (simp add: elem_tag_def)
  have r: "sc_asn1_read_tag (e @ rest) =
      Tag_read (tag_class (write_header tag)) (tag_number (write_header tag)) (length d) (d @ rest)"
    using read_header [OF h len, of "d @ rest"] by (simp add: e)
  note r' = r [unfolded short_chars_value [OF tag] class_of_header [OF tag]]
  show ?thesis
  proof (cases "tag AND SC_ASN1_CONS = 0")
    case True
    then show ?thesis
      by (cases rule: class_byteE [of tag]) (simp_all add: sc_asn1_skip_tag_def r' Let_def)
  next
    case False
    then show ?thesis
      by (cases rule: class_byteE [of tag]) (simp_all add: sc_asn1_skip_tag_def r' Let_def)
  qed
qed

text \<open>An element that \<open>sc_asn1_write_element\<close> wrote is read back: \<open>sc_asn1_skip_tag\<close> with the same
  tag returns its contents and leaves what follows, for every class, primitive or constructed,
  of the tags that are readable at all.\<close>
theorem skip_written:
  assumes "malloc_ok malloc" and tag: "elem_tag tag" and len: "length d < 2 ^ 32"
    and w: "asn1_write_element malloc tag (Some d) (length d) = Inr e"
  shows "sc_asn1_skip_tag (e @ rest) tag = Some (d, rest)"
  using assms by (rule skip_written_element)

text \<open>An implicit context tag and a constructed one.\<close>

definition zero_malloc :: "nat \<Rightarrow> bytes option" where
  "zero_malloc n = Some (replicate n 0)"

lemma zero_malloc_ok [simp]: "malloc_ok zero_malloc"
  by (simp add: malloc_ok_def zero_malloc_def)

theorem skip_written_witness:
  "sc_asn1_skip_tag ([0xA3, 2, 1, 2] @ [9]) (SC_ASN1_CTX OR SC_ASN1_CONS OR 3) = Some ([1, 2], [9])"
proof -
  have "elem_tag (SC_ASN1_CTX OR SC_ASN1_CONS OR 3)" by code_simp
  moreover have "length [1, 2 :: u8] < 2 ^ 32" by simp
  moreover have "asn1_write_element zero_malloc (SC_ASN1_CTX OR SC_ASN1_CONS OR 3) (Some [1, 2]) (length [1, 2 :: u8]) =
      Inr [0xA3, 2, 1, 2]" by code_simp
  ultimately show ?thesis by (rule skip_written [OF zero_malloc_ok])
qed

end
