(* ===== verification/Sc_Asn1.thy ===== *)
theory Sc_Asn1
  imports Sc_Tlv
begin

text \<open>
  The primitive types of \<open>libopensc/asn1.c\<close>: bit string, bit field, integer, object identifier. An
  output buffer of the caller is its content, a buffer the function allocates the bytes
  written into it.

  Main results: every encoder is inverted by its decoder (the locale \<open>codec\<close>, interpreted for
  integers, object identifiers and bit fields), inside an element too.
\<close>

unbundle bit_operations_syntax

section \<open>Bit strings\<close>

text \<open>The lowest \<open>n\<close> bits of the result are the highest \<open>n\<close> of \<open>b\<close> in reverse order.\<close>

definition rev_bits :: "nat \<Rightarrow> u8 \<Rightarrow> u8" where
  "rev_bits n b = foldl (\<lambda>oc i. oc OR push_bit i (drop_bit (7 - i) b AND 1)) 0 [0..<n]"

text \<open>The loop over the octets; \<open>count\<close> is the number already written.\<close>

fun decode_bits :: "bool \<Rightarrow> nat \<Rightarrow> bytes \<Rightarrow> nat \<Rightarrow> bytes \<Rightarrow> int res \<times> bytes" where
  "decode_bits invert zero_bits [] count out = (Inr (int (count * 8) - int zero_bits), out)"
| "decode_bits invert zero_bits (b # rest) count out =
    (let out = out[count := 0]; partial = (rest = [] \<and> zero_bits > 0) in
     if partial \<and> b AND push_bit (zero_bits - 1) 1 \<noteq> 0 then (Inl SC_ERROR_INVALID_ASN1_OBJECT, out)
     else
       let bits_to_go = (if partial then 8 - zero_bits else 8);
           out = out[count := (if invert then rev_bits bits_to_go b else b)]
       in decode_bits invert zero_bits rest (count + 1) out)"

definition decode_bit_string :: "bytes \<Rightarrow> bytes \<Rightarrow> bool \<Rightarrow> bool \<Rightarrow> int res \<times> bytes" where
  "decode_bit_string inbuf outbuf invert strict =
    (if length inbuf < 1 then (Inl SC_ERROR_INVALID_ASN1_OBJECT, outbuf)
     else if strict \<and> (length inbuf = 1 \<and> hd inbuf \<noteq> 0) then (Inl SC_ERROR_INVALID_ASN1_OBJECT, outbuf)
     else if strict \<and> hd inbuf AND NOT 0x07 \<noteq> 0 then (Inl SC_ERROR_INVALID_ASN1_OBJECT, outbuf)
     else
       let outbuf = replicate (length outbuf) 0; zero_bits = unat (hd inbuf AND 0x07) in
       if length outbuf < length (tl inbuf) then (Inl SC_ERROR_BUFFER_TOO_SMALL, outbuf)
       else decode_bits invert zero_bits (tl inbuf) 0 outbuf)"

text \<open>The octets of the first \<open>bits_left\<close> bits of \<open>inp\<close>, which holds that many.\<close>

fun encode_bits :: "bool \<Rightarrow> bytes \<Rightarrow> nat \<Rightarrow> bytes res" where
  "encode_bits invert inp bits_left =
    (if bits_left = 0 then Inr []
     else
       let bits_to_go = min 8 bits_left;
           oc = (if invert
                 then foldl (\<lambda>oc i. oc OR push_bit (7 - i) (drop_bit i (hd inp) AND 1)) 0 [0..<bits_to_go]
                 else hd inp)
       in if \<not> invert \<and> bits_left < 8 then Inl SC_ERROR_NOT_SUPPORTED
          else ebind (encode_bits invert (tl inp) (bits_left - bits_to_go)) (\<lambda>os. Inr (oc # os)))"

declare encode_bits.simps [simp del]

definition encode_bit_string :: "(nat \<Rightarrow> bytes option) \<Rightarrow> bytes \<Rightarrow> nat \<Rightarrow> bool \<Rightarrow> bytes res" where
  "encode_bit_string malloc inbuf bits_left invert =
    (case malloc ((bits_left + 7) div 8 + 1) of
       None \<Rightarrow> Inl SC_ERROR_OUT_OF_MEMORY
     | Some buf \<Rightarrow>
        ebind (encode_bits invert inbuf bits_left)
          (\<lambda>os. Inr (memcpy_at buf 0 (of_nat ((8 - bits_left mod 8) mod 8) # os))))"

text \<open>A bit field is a bit string in a 32-bit word.\<close>

definition decode_bit_field :: "bytes \<Rightarrow> nat \<Rightarrow> bool \<Rightarrow> u32 res" where
  "decode_bit_field inbuf outlen strict =
    (if outlen \<noteq> 4 then Inl SC_ERROR_BUFFER_TOO_SMALL
     else case decode_bit_string inbuf (replicate 4 0) True strict of
         (Inl e, _) \<Rightarrow> Inl e
       | (Inr n, data) \<Rightarrow>
          if n < 0 then Inl n
          else Inr (foldl (\<lambda>field i. field OR push_bit (8 * i) (ucast (data ! i))) 0 [0..<(nat n + 7) div 8]))"

function bit_count :: "u32 \<Rightarrow> nat" where
  "bit_count field = (if field = 0 then 0 else Suc (bit_count (drop_bit 1 field)))"
  by pat_completeness auto

termination
proof (relation "measure unat")
  fix field :: u32
  assume "field \<noteq> 0"
  then have "0 < unat field" by (simp add: unat_gt_0)
  then show "(drop_bit 1 field, field) \<in> measure unat"
    by (simp add: drop_bit_eq_div unat_div)
qed simp

declare bit_count.simps [simp del]

definition encode_bit_field :: "(nat \<Rightarrow> bytes option) \<Rightarrow> u32 \<Rightarrow> bytes res" where
  "encode_bit_field malloc field =
    (let bits = bit_count field;
         data = map (\<lambda>i. ucast (drop_bit (8 * i) field)) [0..<(bits + 7) div 8]
     in encode_bit_string malloc data bits True)"

section \<open>Integers\<close>

fun decode_int_loop :: "bool \<Rightarrow> int \<Rightarrow> bytes \<Rightarrow> int res" where
  "decode_int_loop is_negative a [] = Inr a"
| "decode_int_loop is_negative a (b # bs) =
    (if a > 0x7FFFFF \<or> a < - 0x80000000 + 0x100 then Inl SC_ERROR_NOT_SUPPORTED
     else decode_int_loop is_negative
            (push_bit 8 a OR (if is_negative then uint (b XOR 0xFF) else uint b)) bs)"

definition sc_asn1_decode_integer :: "bytes \<Rightarrow> bool \<Rightarrow> int res" where
  "sc_asn1_decode_integer inbuf strict =
    (if length inbuf = 0 then Inl SC_ERROR_INVALID_ASN1_OBJECT
     else if length inbuf > 4 then Inl SC_ERROR_NOT_SUPPORTED
     else if hd inbuf AND 0x80 \<noteq> 0 then
       if strict \<and> length inbuf > 1 \<and> hd inbuf = 0xFF \<and> inbuf ! 1 AND 0x80 \<noteq> 0
       then Inl SC_ERROR_INVALID_ASN1_OBJECT
       else ebind (decode_int_loop True (uint (hd inbuf XOR 0xFF)) (tl inbuf)) (\<lambda>a. Inr (- 1 * a - 1))
     else
       if strict \<and> length inbuf > 1 \<and> hd inbuf = 0 \<and> inbuf ! 1 AND 0x80 = 0
       then Inl SC_ERROR_INVALID_ASN1_OBJECT
       else decode_int_loop False 0 inbuf)"

text \<open>
  The encoder's loop over the bytes of the number, highest first. \<open>out\<close> is what was written
  before the position \<open>p\<close>, \<open>cur\<close> the byte at \<open>p\<close>.
\<close>

fun encode_int_loop :: "int \<Rightarrow> bytes \<Rightarrow> bool \<Rightarrow> bool \<Rightarrow> bytes \<Rightarrow> u8 \<Rightarrow> bytes" where
  "encode_int_loop inp [] skip_zero skip_sign out cur = (if skip_sign then out @ [cur] else out)"
| "encode_int_loop inp (b # bs) skip_zero skip_sign out cur =
    (let skip_sign1 = (skip_sign \<and> b = 0xFF);
         cur1 = (if skip_sign \<and> b AND 0x80 \<noteq> 0 then b else cur);
         out1 = (if skip_sign \<and> b AND 0x80 = 0 then out @ [cur] else out)
     in if skip_sign \<and> b AND 0x80 \<noteq> 0 \<and> b = 0xFF then encode_int_loop inp bs skip_zero skip_sign1 out1 cur1
        else if b = 0 \<and> skip_zero then encode_int_loop inp bs skip_zero skip_sign1 out1 cur1
        else
          let out2 = (if skip_zero \<and> b AND 0x80 \<noteq> 0 \<and> inp > 0 then out1 @ [0] else out1)
          in encode_int_loop inp bs False skip_sign1 (out2 @ [b]) cur1)"

definition asn1_encode_integer :: "(nat \<Rightarrow> bytes option) \<Rightarrow> int \<Rightarrow> bytes res" where
  "asn1_encode_integer malloc inp =
    (case malloc 5 of
       None \<Rightarrow> Inl SC_ERROR_OUT_OF_MEMORY
     | Some obj \<Rightarrow>
        let bs = map (\<lambda>i. word_of_int (drop_bit i inp)) [24, 16, 8, 0];
            out = encode_int_loop inp bs (\<not> inp < 0) (inp < 0) [] (hd obj)
        in Inr (if out = [] then [0] else out))"

section \<open>Object identifiers\<close>

text \<open>The rest of an arc after its first byte \<open>cur\<close>; \<open>rest\<close> are the bytes after it.\<close>

fun oid_arc :: "u32 \<Rightarrow> u8 \<Rightarrow> bytes \<Rightarrow> (u32 \<times> bytes) res" where
  "oid_arc a cur [] = (if cur AND 0x80 \<noteq> 0 then Inl SC_ERROR_INVALID_ASN1_OBJECT else Inr (a, []))"
| "oid_arc a cur (b # rest) =
    (if cur AND 0x80 \<noteq> 0 then
       if a > 0x1FFFFFF then Inl SC_ERROR_NOT_SUPPORTED
       else oid_arc (push_bit 7 a OR ucast (b AND 0x7F)) b rest
     else Inr (a, b # rest))"

lemma oid_arc_length: "oid_arc a cur rest = Inr (a', rest') \<Longrightarrow> length rest' \<le> length rest"
  by (induction a cur rest rule: oid_arc.induct) (auto split: if_splits)

function oid_arcs :: "bool \<Rightarrow> bytes \<Rightarrow> nat \<Rightarrow> oid \<Rightarrow> oid res" where
  "oid_arcs large [] n v = Inr v"
| "oid_arcs large (c # rest) n v =
    (if c = 0x80 then Inl SC_ERROR_INVALID_ASN1_OBJECT
     else case oid_arc (ucast (c AND 0x7F)) c rest of
         Inl e \<Rightarrow> Inl e
       | Inr (a, rest') \<Rightarrow>
          let a = (if large then a - 2 * 40 else a) in
          if a > 0x7FFFFFFF then Inl SC_ERROR_NOT_SUPPORTED
          else
            let v = v[n := uint a] in
            if n + 1 \<ge> SC_MAX_OBJECT_ID_OCTETS then Inl SC_ERROR_INVALID_ASN1_OBJECT
            else oid_arcs False rest' (n + 1) v)"
  by pat_completeness auto

termination
  by (relation "measure (\<lambda>(_, p, _, _). length p)") (auto dest!: oid_arc_length)

definition sc_asn1_decode_object_id :: "bytes option \<Rightarrow> oid \<Rightarrow> unit res \<times> oid" where
  "sc_asn1_decode_object_id inbuf v0 =
    (case inbuf of
       None \<Rightarrow> (Inl SC_ERROR_INVALID_ARGUMENTS, v0)
     | Some [] \<Rightarrow> (Inl SC_ERROR_INVALID_ARGUMENTS, v0)
     | Some (b # bs) \<Rightarrow>
        let a = min (unat b div 40) 2;
            v = sc_init_oid[0 := int a]
        in case (if b AND 0x80 = 0 then oid_arcs False bs 2 (v[1 := int (unat b - a * 40)])
                 else oid_arcs True (b # bs) 1 v) of
             Inl e \<Rightarrow> (Inl e, sc_init_oid)
           | Inr v \<Rightarrow> (Inr (), v))"

text \<open>The number of continuation bytes of an arc, and its bytes.\<close>

primrec arc_shift :: "nat \<Rightarrow> u32 \<Rightarrow> nat" where
  "arc_shift 0 k = 0"
| "arc_shift (Suc s) k = (if drop_bit (7 * Suc s) k = 0 then arc_shift s k else Suc s)"

definition arc_octets :: "u32 \<Rightarrow> bytes" where
  "arc_octets k =
    map (\<lambda>s. 0x80 OR (ucast (drop_bit (7 * s) k) AND 0x7F)) (rev [1..<Suc (arc_shift 4 k)]) @ [ucast (k AND 0x7F)]"

definition sc_asn1_encode_object_id :: "(nat \<Rightarrow> bytes option) \<Rightarrow> oid \<Rightarrow> bytes res" where
  "sc_asn1_encode_object_id malloc v =
    (if v ! 0 = - 1 \<or> v ! 1 = - 1 then Inl SC_ERROR_INVALID_ARGUMENTS
     else
       let k0 = word_of_int (v ! 0) :: u32; k1 = word_of_int (v ! 1) :: u32 in
       if k0 > 2 then Inl SC_ERROR_INVALID_ARGUMENTS
       else if k1 > 39 \<and> v ! 0 < 2 then Inl SC_ERROR_INVALID_ARGUMENTS
       else
         let temp = arc_octets (k1 + k0 * 40) @
               concat (map (\<lambda>x. arc_octets (word_of_int x)) (takeWhile (\<lambda>x. x \<noteq> - 1) (drop 2 v)))
         in case malloc (length temp) of
              None \<Rightarrow> Inl SC_ERROR_OUT_OF_MEMORY
            | Some buf \<Rightarrow> Inr (memcpy_at buf 0 temp))"

definition sc_asn1_decode_utf8string :: "bytes \<Rightarrow> bytes \<Rightarrow> nat res \<times> bytes" where
  "sc_asn1_decode_utf8string inbuf out =
    (if length inbuf + 1 > length out then (Inl SC_ERROR_BUFFER_TOO_SMALL, out)
     else (Inr (length inbuf + 1), memcpy_at out 0 (inbuf @ [0])))"

section \<open>Integers read back\<close>

definition digits_val :: "bool \<Rightarrow> int \<Rightarrow> bytes \<Rightarrow> int" where
  "digits_val neg a bs = foldl (\<lambda>a b. a * 256 + (if neg then 255 - uint b else uint b)) a bs"

lemma uint_u8_range: "0 \<le> uint (b :: u8) \<and> uint b \<le> 255"
  using uint_bounded [of b] by simp

lemma digit_range:
  "0 \<le> (if neg then 255 - uint b else uint (b :: u8))" "(if neg then 255 - uint b else uint (b :: u8)) \<le> 255"
  using uint_u8_range [of b] by auto

lemma digits_val_ge: "0 \<le> a \<Longrightarrow> a \<le> digits_val neg a bs"
proof (induction bs arbitrary: a)
  case (Cons b bs)
  let ?a = "a * 256 + (if neg then 255 - uint b else uint b)"
  have "0 \<le> ?a" "a \<le> ?a"
    using Cons.prems digit_range [of neg b] by linarith+
  with Cons.IH [of ?a] show ?case by (simp add: digits_val_def)
qed (simp add: digits_val_def)

lemma flip_byte: "uint (b XOR 0xFF :: u8) = 255 - uint b"
proof -
  have m: "(0xFF :: u8) = - 1" by simp
  have "b XOR 0xFF = - 1 - b" unfolding m by (simp add: not_eq_complement)
  then have "uint (b XOR 0xFF) = (uint (- 1 :: u8) - uint b) mod 2 ^ LENGTH(8)"
    by (simp only: uint_word_ariths)
  moreover have "uint (- 1 :: u8) = 255" by code_simp
  moreover have "0 \<le> uint b" "uint b < 256" using uint_bounded [of b] by simp_all
  ultimately show ?thesis by simp
qed

lemma shift_or_int:
  assumes "0 \<le> (d :: int)" "d < 256"
  shows "push_bit 8 a OR d = a * 256 + d"
proof -
  have "push_bit 8 a AND d = 0"
  proof (rule bit_eqI)
    fix n
    have "take_bit 8 d = d" using assms by (simp add: take_bit_int_eq_self_iff)
    then show "bit (push_bit 8 a AND d) n = bit (0 :: int) n"
      by (metis bit_and_iff bit_push_bit_iff bit_take_bit_iff bit_0_eq bot_apply bot_bool_def not_le)
  qed
  then show ?thesis by (simp add: disjunctive_add_eq_or [symmetric] push_bit_eq_mult)
qed

lemma decode_int_loop_val:
  "0 \<le> a \<Longrightarrow> digits_val neg a bs < 2 ^ 31 \<Longrightarrow> decode_int_loop neg a bs = Inr (digits_val neg a bs)"
proof (induction bs arbitrary: a)
  case (Cons b bs)
  let ?d = "if neg then 255 - uint b else uint b"
  have d: "0 \<le> ?d" "?d < 256"
    using digit_range [of neg b] by linarith+
  have "a * 256 + ?d \<le> digits_val neg a (b # bs)"
    using digits_val_ge [of "a * 256 + ?d" neg bs] Cons.prems(1) d by (simp add: digits_val_def)
  then have "a \<le> 0x7FFFFF" using Cons.prems d by simp
  moreover have "push_bit 8 a OR (if neg then uint (b XOR 0xFF) else uint b) = a * 256 + ?d"
    unfolding flip_byte by (rule shift_or_int [OF d])
  moreover have "0 \<le> a * 256 + ?d" using Cons.prems(1) d by simp
  ultimately show ?case
    using Cons.IH [of "a * 256 + ?d"] Cons.prems by (simp add: digits_val_def)
qed (simp add: digits_val_def)

lemma msb_uint: "b AND 0x80 \<noteq> 0 \<longleftrightarrow> 128 \<le> uint (b :: u8)"
proof -
  have "bit b 7 \<longleftrightarrow> odd (uint b div 128)"
    using bit_uint_iff [of b 7] bit_iff_odd [of "uint b" 7] by simp
  moreover have "odd (u div 128) \<longleftrightarrow> 128 \<le> u" if "0 \<le> u" "u \<le> 255" for u :: int
    using that by presburger
  ultimately show ?thesis using uint_u8_range [of b] by (simp add: and_0x80)
qed

lemma decode_pos:
  assumes "l \<noteq> []" "length l \<le> 4" "hd l AND 0x80 = 0"
    and "\<not> (length l > 1 \<and> hd l = 0 \<and> l ! 1 AND 0x80 = 0)"
    and "digits_val False 0 l = x" "x < 2 ^ 31"
  shows "sc_asn1_decode_integer l strict = Inr x"
  using assms decode_int_loop_val [of 0 False l] by (auto simp: sc_asn1_decode_integer_def)

lemma decode_neg:
  assumes "l \<noteq> []" "length l \<le> 4" "hd l AND 0x80 \<noteq> 0"
    and "\<not> (length l > 1 \<and> hd l = 0xFF \<and> l ! 1 AND 0x80 \<noteq> 0)"
    and "digits_val True 0 l = - x - 1" "- (2 ^ 31) \<le> x"
  shows "sc_asn1_decode_integer l strict = Inr x"
proof -
  obtain b bs where l: "l = b # bs" using assms(1) by (cases l) auto
  have "digits_val True (255 - uint b) bs = - x - 1" using assms(5) by (simp add: digits_val_def l)
  moreover have "0 \<le> 255 - uint b" using uint_u8_range [of b] by linarith
  ultimately have "decode_int_loop True (uint (b XOR 0xFF)) bs = Inr (- x - 1)"
    using decode_int_loop_val [of "255 - uint b" True bs] assms(6) by (simp add: flip_byte)
  with assms l show ?thesis by (auto simp: sc_asn1_decode_integer_def)
qed

text \<open>The four bytes of a number.\<close>

lemma int_bytes:
  fixes x :: int
  assumes "- (2 ^ 31) \<le> x" "x < 2 ^ 31"
    and b: "b3 = (word_of_int (drop_bit 24 x) :: u8)" "b2 = (word_of_int (drop_bit 16 x) :: u8)"
      "b1 = (word_of_int (drop_bit 8 x) :: u8)" "b0 = (word_of_int (drop_bit 0 x) :: u8)"
  shows "0 \<le> x \<Longrightarrow> digits_val False 0 [b3, b2, b1, b0] = x"
    and "x < 0 \<Longrightarrow> digits_val True 0 [b3, b2, b1, b0] = - x - 1"
    and "b3 AND 0x80 \<noteq> 0 \<longleftrightarrow> x < 0"
proof -
  define q1 q2 q3 where "q1 = x div 256" and "q2 = q1 div 256" and "q3 = q2 div 256"
  have u: "uint b3 = q3 mod 256" "uint b2 = q2 mod 256" "uint b1 = q1 mod 256" "uint b0 = x mod 256"
    by (simp_all add: b uint_word_of_int drop_bit_eq_div q1_def q2_def q3_def zdiv_zmult2_eq [symmetric])
  have q: "x = q1 * 256 + x mod 256" "q1 = q2 * 256 + q1 mod 256" "q2 = q3 * 256 + q2 mod 256"
    by (simp_all only: q1_def q2_def q3_def div_mult_mod_eq)
  have r: "0 \<le> x mod 256" "x mod 256 < 256" "0 \<le> q1 mod 256" "q1 mod 256 < 256" "0 \<le> q2 mod 256" "q2 mod 256 < 256"
    by simp_all
  have q3: "- 128 \<le> q3 \<and> q3 \<le> 127" and s: "x < 0 \<longleftrightarrow> q3 < 0"
    using assms(1,2) q r by (simp_all, linarith+)
  have m: "q3 mod 256 = (if q3 < 0 then q3 + 256 else q3)"
  proof (cases "q3 < 0")
    case True
    have "q3 mod 256 = (q3 + 256) mod 256" by simp
    also have "\<dots> = q3 + 256" using True q3 by (intro mod_pos_pos_trivial) auto
    finally show ?thesis using True by simp
  next
    case False
    then show ?thesis using q3 by (simp add: mod_pos_pos_trivial)
  qed
  show "0 \<le> x \<Longrightarrow> digits_val False 0 [b3, b2, b1, b0] = x"
    using q m s by (simp add: digits_val_def u)
  show "x < 0 \<Longrightarrow> digits_val True 0 [b3, b2, b1, b0] = - x - 1"
    using q m s by (simp add: digits_val_def u)
  show "b3 AND 0x80 \<noteq> 0 \<longleftrightarrow> x < 0"
    unfolding msb_uint u m s using q3 by auto
qed

lemma loop_copies: "encode_int_loop x bs False False out cur = out @ bs"
  by (induction bs arbitrary: out cur) simp_all

lemma top_set: "b = 0xFF \<Longrightarrow> (b :: u8) AND 0x80 \<noteq> 0" by simp

lemma proper_suffix: "dropWhile P bs = cs \<Longrightarrow> bs \<noteq> cs \<Longrightarrow> length cs \<noteq> length bs"
  using takeWhile_dropWhile_id [of P bs] by (cases "takeWhile P bs") (auto dest: arg_cong [of _ _ length])

text \<open>What the encoder's loop leaves: the bytes from the first one that carries information, with a
  byte for the sign where it is needed.\<close>

lemma encode_loop_pos:
  assumes "0 \<le> x" and "digits_val False 0 bs = x" and "hd bs AND 0x80 = 0" and "bs \<noteq> []"
  shows "\<exists>l. encode_int_loop x bs True False [] cur = l \<and> length l \<le> length bs \<and>
    (if x = 0 then l = [] else l \<noteq> [] \<and> hd l AND 0x80 = 0 \<and> \<not> (length l > 1 \<and> hd l = 0 \<and> l ! 1 AND 0x80 = 0) \<and>
       digits_val False 0 l = x)"
proof -
  have skip: "encode_int_loop x bs True False [] cur =
     (case dropWhile (\<lambda>b. b = 0) bs of [] \<Rightarrow> [] | b # r \<Rightarrow> (if b AND 0x80 \<noteq> 0 \<and> x > 0 then [0] else []) @ b # r)" for bs
    by (induction bs) (simp_all add: loop_copies)
  have val: "digits_val False 0 (dropWhile (\<lambda>b. b = 0) bs) = digits_val False 0 bs" for bs
    by (induction bs) (simp_all add: digits_val_def)
  show ?thesis
  proof (cases "dropWhile (\<lambda>b. b = 0) bs")
    case Nil
    then have "x = 0"
      using val [of bs] assms(2) by (simp add: digits_val_def del: dropWhile_eq_Nil_conv)
    moreover have "encode_int_loop x bs True False [] cur = []"
      using skip [of bs] by (simp only: Nil list.case)
    ultimately show ?thesis by simp
  next
    case (Cons b r)
    then have b: "b \<noteq> 0" using hd_dropWhile [of "\<lambda>b. b = 0" bs] by simp
    have ge: "uint b \<le> x"
      using digits_val_ge [of "uint b" False r] val [of bs] assms(2) Cons uint_u8_range [of b]
      by (simp add: digits_val_def)
    with b have "0 < x" using uint_u8_range [of b] by (metis dual_order.strict_trans1 order_le_less uint_0_iff)
    have len: "length (b # r) \<le> length bs" using length_dropWhile_le [of "\<lambda>b. b = 0" bs] Cons by simp
    show ?thesis
    proof (cases "b AND 0x80 = 0")
      case True
      with Cons skip [of bs] val [of bs] assms(2) \<open>0 < x\<close> b len show ?thesis by simp
    next
      case False
      then have ne: "bs \<noteq> b # r" using assms(3) by auto
      then have "length (b # r) \<noteq> length bs"
        by (rule proper_suffix [OF Cons])
      with False Cons skip [of bs] val [of bs] assms(2) \<open>0 < x\<close> len show ?thesis
        by (simp add: digits_val_def)
    qed
  qed
qed

lemma encode_loop_neg:
  assumes "x < 0" and "digits_val True 0 bs = - x - 1" and "hd bs AND 0x80 \<noteq> 0" and "bs \<noteq> []"
  shows "\<exists>l. encode_int_loop x bs False True [] cur = l \<and> length l \<le> length bs \<and>
    l \<noteq> [] \<and> hd l AND 0x80 \<noteq> 0 \<and> \<not> (length l > 1 \<and> hd l = 0xFF \<and> l ! 1 AND 0x80 \<noteq> 0) \<and>
    digits_val True 0 l = - x - 1"
proof -
  have skip: "encode_int_loop x bs False True [] cur =
     (case dropWhile (\<lambda>b. b = 0xFF) bs of [] \<Rightarrow> [if bs = [] then cur else 0xFF]
      | b # r \<Rightarrow> (if b AND 0x80 \<noteq> 0 then [] else [if bs = b # r then cur else 0xFF]) @ b # r)" for bs cur
  proof (induction bs arbitrary: cur)
    case (Cons a as)
    show ?case
    proof (cases "a = 0xFF")
      case True
      then show ?thesis using Cons [of "0xFF"]
        by (auto split: list.split simp del: dropWhile_eq_Nil_conv)
    next
      case False
      then show ?thesis by (simp add: loop_copies)
    qed
  qed simp
  have val: "digits_val True 0 (dropWhile (\<lambda>b. b = 0xFF) bs) = digits_val True 0 bs" for bs
    by (induction bs) (simp_all add: digits_val_def)
  show ?thesis
  proof (cases "dropWhile (\<lambda>b. b = 0xFF) bs")
    case Nil
    then have "x = - 1"
      using val [of bs] assms(2) by (simp add: digits_val_def del: dropWhile_eq_Nil_conv)
    moreover have "1 \<le> length bs" using assms(4) by (cases bs) simp_all
    moreover have "encode_int_loop x bs False True [] cur = [0xFF]"
      using skip [of bs cur] assms(4) by (simp only: Nil list.case if_False)
    ultimately show ?thesis by (simp add: digits_val_def)
  next
    case (Cons b r)
    then have b: "b \<noteq> 0xFF" using hd_dropWhile [of "\<lambda>b. b = 0xFF" bs] by simp
    have len: "length (b # r) \<le> length bs" using length_dropWhile_le [of "\<lambda>b. b = 0xFF" bs] Cons by simp
    show ?thesis
    proof (cases "b AND 0x80 = 0")
      case False
      with Cons skip [of bs] val [of bs] assms(2) b len show ?thesis by simp
    next
      case True
      then have ne: "bs \<noteq> b # r" using assms(3) by auto
      then have "length (b # r) \<noteq> length bs"
        by (rule proper_suffix [OF Cons])
      with True ne Cons skip [of bs] val [of bs] assms(2) len show ?thesis
        by (simp add: digits_val_def)
    qed
  qed
qed

lemma integer_roundtrip:
  assumes "malloc_ok malloc" and x: "- (2 ^ 31) \<le> x" "x < 2 ^ 31"
  shows "\<exists>bs. asn1_encode_integer malloc x = Inr bs \<and> sc_asn1_decode_integer bs strict = Inr x \<and>
    bs \<noteq> [] \<and> length bs \<le> 4"
proof -
  obtain obj where obj: "malloc 5 = Some obj" using malloc_okE [OF assms(1)] by blast
  define bs where "bs = map (\<lambda>i. word_of_int (drop_bit i x) :: u8) [24, 16, 8, 0]"
  note b = int_bytes [OF x refl refl refl refl]
  have bs: "bs \<noteq> []" "length bs = 4" by (simp_all add: bs_def)
  show ?thesis
  proof (cases "0 \<le> x")
    case True
    then obtain l where l: "encode_int_loop x bs True False [] (hd obj) = l" "length l \<le> 4"
      "if x = 0 then l = [] else l \<noteq> [] \<and> hd l AND 0x80 = 0 \<and>
         \<not> (length l > 1 \<and> hd l = 0 \<and> l ! 1 AND 0x80 = 0) \<and> digits_val False 0 l = x"
      using encode_loop_pos [of x bs "hd obj"] b bs by (auto simp: bs_def)
    have e: "asn1_encode_integer malloc x = Inr (if l = [] then [0] else l)"
      using l(1) True obj by (simp add: asn1_encode_integer_def bs_def Let_def)
    show ?thesis
    proof (cases "x = 0")
      case True
      with l e show ?thesis by (simp add: sc_asn1_decode_integer_def)
    next
      case False
      with l e x decode_pos [of l x strict] show ?thesis by auto
    qed
  next
    case False
    then obtain l where l: "encode_int_loop x bs False True [] (hd obj) = l" "length l \<le> 4" "l \<noteq> []"
      "hd l AND 0x80 \<noteq> 0" "\<not> (length l > 1 \<and> hd l = 0xFF \<and> l ! 1 AND 0x80 \<noteq> 0)"
      "digits_val True 0 l = - x - 1"
      using encode_loop_neg [of x bs "hd obj"] b bs by (auto simp: bs_def)
    have "asn1_encode_integer malloc x = Inr l"
      using l(1,3) False obj by (simp add: asn1_encode_integer_def bs_def Let_def)
    with l x decode_neg [of l x strict] show ?thesis by auto
  qed
qed

section \<open>Object identifiers read back\<close>

definition arc_oct :: "nat \<Rightarrow> u32 \<Rightarrow> u8" where
  "arc_oct s k = (if s = 0 then ucast (k AND 0x7F) else 0x80 OR (ucast (drop_bit (7 * s) k) AND 0x7F))"

lemma mask7: "(0x7F :: 'a :: len word) = mask 7"
  by (simp add: mask_eq_exp_minus_1)

lemma arc_oct_low: "(ucast (arc_oct s k AND 0x7F) :: u32) = drop_bit (7 * s) k AND 0x7F"
proof (cases "s = 0")
  case True
  then show ?thesis
    unfolding mask7 arc_oct_def by (intro bit_word_eqI) (auto simp: bit_simps)
next
  case False
  have "(0x80 OR x AND 0x7F) AND 0x7F = x AND (0x7F :: u8)" for x by (simp add: word_ao_dist)
  with False have "arc_oct s k AND 0x7F = ucast (drop_bit (7 * s) k) AND 0x7F"
    by (simp only: arc_oct_def if_False)
  then show ?thesis
    unfolding mask7 by (intro bit_word_eqI) (auto simp: bit_simps)
qed

lemma arc_oct_more: "arc_oct s k AND 0x80 \<noteq> 0 \<longleftrightarrow> s \<noteq> 0"
  unfolding arc_oct_def and_0x80 mask7 by (simp add: bit_simps)

lemma arc_join:
  fixes k :: u32
  shows "push_bit 7 (drop_bit (7 * Suc s) k) OR (drop_bit (7 * s) k AND 0x7F) = drop_bit (7 * s) k"
  unfolding mask7
proof (rule bit_word_eqI)
  fix n assume "n < LENGTH(32)"
  then show "bit (push_bit 7 (drop_bit (7 * Suc s) k) OR (drop_bit (7 * s) k AND mask 7)) n = bit (drop_bit (7 * s) k) n"
    by (cases "n < 7") (auto simp: bit_simps add.commute)
qed

lemma arc_octets_alt: "arc_octets k = map (\<lambda>s. arc_oct s k) (rev [0..<Suc (arc_shift 4 k)])"
proof -
  have "map (\<lambda>s. arc_oct s k) (rev [1..<Suc n]) = map (\<lambda>s. 0x80 OR (ucast (drop_bit (7 * s) k) AND 0x7F)) (rev [1..<Suc n])" for n
    by (rule map_cong) (auto simp: arc_oct_def)
  moreover have "rev [0..<Suc n] = rev [1..<Suc n] @ [0]" for n
    by (simp add: upt_conv_Cons del: upt_Suc)
  ultimately show ?thesis by (simp add: arc_octets_def arc_oct_def del: upt_Suc)
qed

lemma arc_shift_top: "drop_bit (7 * Suc n) k = 0 \<Longrightarrow> drop_bit (7 * Suc (arc_shift n k)) k = 0"
  by (induction n) (simp_all split: if_splits)

lemma arc_shift_low: "arc_shift n k \<noteq> 0 \<Longrightarrow> drop_bit (7 * arc_shift n k) k \<noteq> 0"
  by (induction n) (auto split: if_splits)

lemma drop_small: "drop_bit (7 * Suc s) (k :: u32) = 0 \<Longrightarrow> drop_bit (7 * s) k AND 0x7F = drop_bit (7 * s) k"
  using arc_join [of s k] by simp

lemma unat_drop_25: "drop_bit (7 * Suc s) (k :: u32) \<le> 0x1FFFFFF"
proof -
  have "unat (drop_bit (7 * Suc s) k) = unat k div 2 ^ (7 * Suc s)"
    by (subst unat_drop_bit_eq) (simp only: drop_bit_eq_div)
  also have "\<dots> \<le> unat k div 2 ^ 7"
    by (rule div_le_mono2) (simp, rule power_increasing, simp_all)
  also have "\<dots> \<le> 4294967295 div 2 ^ 7"
    using unat_u32_lt [of k] by (intro div_le_mono) linarith
  also have "\<dots> = 0x1FFFFFF" by simp
  finally show ?thesis by (simp add: word_le_nat_alt)
qed

lemma oid_arc_octets:
  "oid_arc (drop_bit (7 * s) k) (arc_oct s k) (map (\<lambda>s. arc_oct s k) (rev [0..<s]) @ rest) = Inr (k, rest)"
proof (induction s)
  case 0
  then show ?case by (cases rest) (simp_all add: arc_oct_more [of 0, simplified])
next
  case (Suc s)
  have "\<not> drop_bit (7 * Suc s) k > 0x1FFFFFF" using unat_drop_25 [of s k] by (simp only: not_less)
  then show ?case
    using Suc arc_oct_more [of "Suc s" k] arc_join [of s k] arc_oct_low [of s k]
    by (simp del: mult_Suc_right)
qed

lemma arc_shift_top_4: "drop_bit (7 * Suc (arc_shift 4 k)) k = 0"
proof (rule arc_shift_top)
  show "drop_bit (7 * Suc 4) k = 0"
    by (rule bit_word_eqI) (auto simp: bit_simps dest: bit_imp_le_length)
qed

text \<open>One arc, with its first byte.\<close>

lemma arc_octets_read:
  obtains c r where "arc_octets k = c # r" and "c \<noteq> 0x80"
    and "oid_arc (ucast (c AND 0x7F)) c (r @ rest) = Inr (k, rest)" and "c AND 0x80 = 0 \<longleftrightarrow> arc_shift 4 k = 0"
proof -
  let ?s = "arc_shift 4 k"
  have top: "drop_bit (7 * Suc ?s) k = 0" by (rule arc_shift_top_4)
  then have low: "ucast (arc_oct ?s k AND 0x7F) = drop_bit (7 * ?s) k"
    using drop_small [OF top] arc_oct_low [of ?s k] by simp
  have "arc_oct ?s k \<noteq> 0x80"
  proof
    assume h: "arc_oct ?s k = 0x80"
    then have "?s \<noteq> 0" using arc_oct_more [of ?s k] by simp
    then have "drop_bit (7 * ?s) k \<noteq> 0" by (rule arc_shift_low)
    with low h show False by simp
  qed
  moreover have "arc_octets k = arc_oct ?s k # map (\<lambda>s. arc_oct s k) (rev [0..<?s])"
    by (simp add: arc_octets_alt)
  ultimately show thesis
    using low oid_arc_octets [of ?s k rest] arc_oct_more [of ?s k]
    by (intro that [of "arc_oct ?s k" "map (\<lambda>s. arc_oct s k) (rev [0..<?s])"]) auto
qed

text \<open>A sequence of arcs is read into the places from \<open>length pre\<close> on.\<close>

lemma upd_place: "length pre = n \<Longrightarrow> 0 < m \<Longrightarrow> (pre @ replicate m (- 1))[n := (x :: int)] = (pre @ [x]) @ replicate (m - 1) (- 1)"
  by (cases m) (simp_all add: list_update_append)

lemma oid_arcs_first:
  assumes "length pre = n" "n + m = 16" "1 < m" "(if large then k - 80 else k) \<le> 0x7FFFFFFF"
  shows "oid_arcs large (arc_octets k @ rest) n (pre @ replicate m (- 1)) =
    oid_arcs False rest (n + 1) ((pre @ [uint (if large then k - 80 else k)]) @ replicate (m - 1) (- 1))"
proof -
  obtain c r where "arc_octets k = c # r" "c \<noteq> 0x80"
    "oid_arc (ucast (c AND 0x7F)) c (r @ rest) = Inr (k, rest)"
    by (rule arc_octets_read [of k rest])
  moreover have "\<not> n + 1 \<ge> SC_MAX_OBJECT_ID_OCTETS" using assms by simp
  moreover have "\<not> (if large then k - 80 else k) > 0x7FFFFFFF" using assms(4) by (simp only: not_less)
  ultimately show ?thesis using assms(1-3) upd_place [OF assms(1), of m]
    by (cases large) (simp_all add: Let_def)
qed

lemma oid_arcs_read:
  "length pre = n \<Longrightarrow> n + m = 16 \<Longrightarrow> length ks < m \<Longrightarrow> list_all (\<lambda>k. 0 \<le> k \<and> k < 2 ^ 31) ks \<Longrightarrow>
   oid_arcs False (concat (map (\<lambda>x. arc_octets (word_of_int x)) ks)) n (pre @ replicate m (- 1)) =
     Inr (pre @ ks @ replicate (m - length ks) (- 1))"
proof (induction ks arbitrary: pre n m)
  case (Cons x ks)
  have u: "uint (word_of_int x :: u32) = x"
    using Cons.prems by (simp add: uint_word_of_int)
  then have "\<not> 0x7FFFFFFF < (word_of_int x :: u32)" using Cons.prems by (simp add: word_less_def not_less)
  with Cons.prems have "oid_arcs False (concat (map (\<lambda>x. arc_octets (word_of_int x)) (x # ks))) n (pre @ replicate m (- 1)) =
      oid_arcs False (concat (map (\<lambda>x. arc_octets (word_of_int x)) ks)) (n + 1) ((pre @ [x]) @ replicate (m - 1) (- 1))"
    using oid_arcs_first [of pre n m False "word_of_int x" "concat (map (\<lambda>x. arc_octets (word_of_int x)) ks)"]
    by (simp add: u not_less)
  also have "\<dots> = Inr ((pre @ [x]) @ ks @ replicate (m - 1 - length ks) (- 1))"
    using Cons.prems by (intro Cons.IH) simp_all
  finally show ?case by simp
qed simp

lemma uint_drop: "uint (drop_bit n (w :: 'a :: len word)) = uint w div 2 ^ n"
  by (simp only: uint_nat unat_drop_bit_eq) (simp add: drop_bit_eq_div zdiv_int)

lemma arc_length: "length (arc_octets k) \<le> 5"
proof -
  have "arc_shift n k \<le> n" for n by (induction n) simp_all
  from this [of 4] show ?thesis by (simp add: arc_octets_def)
qed

lemma arcs_length: "length (concat (map (\<lambda>x. arc_octets (word_of_int x)) ks)) \<le> 5 * length ks"
proof (induction ks)
  case (Cons k ks)
  then show ?case using arc_length [of "word_of_int k"] by simp
qed simp

text \<open>The object identifiers with 2 to 15 components that X.660 allows.\<close>

definition oid_ok :: "oid \<Rightarrow> bool" where
  "oid_ok v \<longleftrightarrow> (\<exists>ks. v = ks @ replicate (16 - length ks) (- 1) \<and> 2 \<le> length ks \<and> length ks \<le> 15 \<and>
     list_all (\<lambda>k. 0 \<le> k \<and> k < 2 ^ 31) ks \<and> hd ks \<le> 2 \<and> (hd ks < 2 \<longrightarrow> ks ! 1 \<le> 39))"

lemma oid_roundtrip:
  assumes "malloc_ok malloc" and "oid_ok v"
  shows "\<exists>bs. sc_asn1_encode_object_id malloc v = Inr bs \<and>
    sc_asn1_decode_object_id (Some bs) v0 = (Inr (), v) \<and> length bs \<le> 80"
proof -
  from assms(2) obtain a b ks where v: "v = a # b # ks @ replicate (14 - length ks) (- 1)" "length ks \<le> 13"
    and r: "0 \<le> a" "a \<le> 2" "0 \<le> b" "b < 2 ^ 31" "a < 2 \<longrightarrow> b \<le> 39" and ks: "list_all (\<lambda>k. 0 \<le> k \<and> k < 2 ^ 31) ks"
  proof -
    from assms(2) obtain l where l: "v = l @ replicate (16 - length l) (- 1)" "2 \<le> length l" "length l \<le> 15"
      "list_all (\<lambda>k. 0 \<le> k \<and> k < 2 ^ 31) l" "hd l \<le> 2" "hd l < 2 \<longrightarrow> l ! 1 \<le> 39"
      unfolding oid_ok_def by blast
    then obtain a b ks where "l = a # b # ks" by (cases l; cases "tl l") auto
    with l that [of a b ks] show thesis by auto
  qed
  let ?p = "word_of_int a :: u32" and ?q = "word_of_int b :: u32"
  have u: "uint ?p = a" "uint ?q = b" using r by (simp_all add: uint_word_of_int)
  let ?k = "?q + ?p * 40" let ?rest = "concat (map (\<lambda>x. arc_octets (word_of_int x)) ks)"
  have uk: "uint ?k = b + a * 40" using r by (simp add: uint_word_ariths u)
  have tk: "takeWhile (\<lambda>x. x \<noteq> - 1) (ks @ replicate (14 - length ks) (- 1)) = ks"
  proof -
    have "\<forall>x \<in> set ks. x \<noteq> - 1" using ks by (auto simp: list_all_iff)
    then show ?thesis by (simp add: takeWhile_append2)
  qed
  obtain buf where buf: "malloc (length (arc_octets ?k @ ?rest)) = Some buf" "length buf = length (arc_octets ?k @ ?rest)"
    using malloc_okE [OF assms(1)] by blast
  have g: "\<not> 2 < ?p" "\<not> (39 < ?q \<and> a < 2)" using r by (auto simp: word_less_def u)
  have enc: "sc_asn1_encode_object_id malloc v = Inr (arc_octets ?k @ ?rest)"
    using buf r g tk by (auto simp: sc_asn1_encode_object_id_def v Let_def memcpy_at_0)
  have init: "sc_init_oid[0 := x] = [x] @ replicate 15 (- 1)" for x
    by (simp add: sc_init_oid_def eval_nat_numeral)
  obtain c r' where c: "arc_octets ?k = c # r'" "c AND 0x80 = 0 \<longleftrightarrow> arc_shift 4 ?k = 0"
    by (rule arc_octets_read [of ?k "[]"])
  have dec: "sc_asn1_decode_object_id (Some (arc_octets ?k @ ?rest)) v0 = (Inr (), v)"
  proof (cases "arc_shift 4 ?k = 0")
    case True
    then have o: "arc_octets ?k = [ucast (?k AND 0x7F)]" by (simp add: arc_octets_def)
    have "drop_bit (7 * Suc (arc_shift 4 ?k)) ?k = 0" by (rule arc_shift_top_4)
    with True have d: "drop_bit 7 ?k = 0" by simp
    then have "?k AND 0x7F = ?k" using drop_small [of 0 ?k] by simp
    moreover have k: "uint ?k < 128"
    proof -
      have "uint (drop_bit 7 ?k) = uint ?k div 128" by (simp only: uint_drop) simp
      with d have "uint ?k div 128 = 0" by simp
      then show ?thesis using uint_ge_0 [of ?k] by presburger
    qed
    ultimately have c': "uint c = b + a * 40" using o c(1) uk r
      by (simp add: unsigned_ucast_eq take_bit_int_eq_self_iff)
    then have uc: "unat c = nat (b + a * 40)" by (simp add: unat_eq_nat_uint)
    have "a \<in> {0, 1, 2}" using r by auto
    then have sec: "int (min (unat c div 40) 2) = a" "int (unat c - min (unat c div 40) 2 * 40) = b"
      using r unfolding uc by auto
        have init2: "sc_init_oid[0 := a, Suc 0 := b] = [a, b] @ replicate 14 (- 1)"
      by (simp add: sc_init_oid_def eval_nat_numeral)
    have "oid_arcs False ?rest 2 ([a, b] @ replicate 14 (- 1)) = Inr ([a, b] @ ks @ replicate (14 - length ks) (- 1))"
      using v(2) ks by (intro oid_arcs_read) simp_all
    then show ?thesis
      using True c o sec init2 v(1) by (simp add: sc_asn1_decode_object_id_def Let_def)
  next
    case False
    then have "drop_bit (7 * arc_shift 4 ?k) ?k \<noteq> 0" by (rule arc_shift_low)
    have "128 \<le> uint ?k"
    proof (rule ccontr)
      assume "\<not> 128 \<le> uint ?k"
      moreover have "uint (drop_bit (7 * arc_shift 4 ?k) ?k) = uint ?k div 2 ^ (7 * arc_shift 4 ?k)"
        by (rule uint_drop)
      moreover have "(2 :: int) ^ 7 \<le> 2 ^ (7 * arc_shift 4 ?k)"
        using False by (intro power_increasing) auto
      ultimately have "uint (drop_bit (7 * arc_shift 4 ?k) ?k) = 0"
        by (simp add: div_pos_pos_trivial)
      with \<open>drop_bit (7 * arc_shift 4 ?k) ?k \<noteq> 0\<close> show False by (simp only: uint_0_iff)
    qed
    with uk r have a: "a = 2" by (cases "a = 2") auto
    have "128 \<le> uint c" using False c(2) msb_uint [of c] by simp
    moreover have "int (unat c) = uint c" by (rule uint_nat [symmetric])
    ultimately have "128 \<le> unat c" by linarith
    moreover have "min (x div 40) 2 = 2" if "128 \<le> x" for x :: nat
      using div_le_mono [OF that, of 40] by simp
    ultimately have m: "min (unat c div 40) 2 = 2" by blast
    have "?k - 80 = ?q" using a by simp
    then have u80: "uint (?k - 80) = b" using u(2) by simp
    then have "?k - 80 \<le> 0x7FFFFFFF" using r by (simp add: word_le_def)
    then have "oid_arcs True (arc_octets ?k @ ?rest) 1 ([2] @ replicate 15 (- 1)) =
        oid_arcs False ?rest 2 ([2, b] @ replicate 14 (- 1))"
      using oid_arcs_first [of "[2]" 1 15 True ?k ?rest] u80 by (simp add: numeral_2_eq_2)
    also have "\<dots> = Inr ([2, b] @ ks @ replicate (14 - length ks) (- 1))"
      using v(2) ks by (intro oid_arcs_read) simp_all
    finally have "oid_arcs True (c # r' @ ?rest) 1 ([2] @ replicate 15 (- 1)) =
        Inr ([2, b] @ ks @ replicate (14 - length ks) (- 1))"
      by (simp only: c(1) append_Cons)
    moreover have "c AND 0x80 \<noteq> 0" using False c(2) by simp
    ultimately show ?thesis
      using m init [of 2] v(1) a unfolding c(1) append_Cons
      by (simp add: sc_asn1_decode_object_id_def Let_def del: oid_arcs.simps)
  qed
  have "length (arc_octets ?k @ ?rest) \<le> 80"
    using arcs_length [of ks] arc_length [of ?k] v(2) by simp
  with enc dec show ?thesis by blast
qed

section \<open>Bit fields read back\<close>

lemma bit_1_iff' [simp]: "bit (drop_bit m x AND 1) i \<longleftrightarrow> i = 0 \<and> bit (x :: u8) m"
  by (auto simp: bit_simps)

lemma bit_or_fold:
  "bit (foldl (\<lambda>oc i. oc OR push_bit (f i) (drop_bit (g i) x AND 1)) (0 :: u8) [0..<n]) j \<longleftrightarrow>
    j < 8 \<and> (\<exists>i < n. f i = j \<and> bit x (g i))"
proof (induction n)
  case (Suc n)
  then show ?case by (auto simp: bit_simps less_Suc_eq)
qed simp

definition oct_bits :: "nat \<Rightarrow> u8 \<Rightarrow> u8" where
  "oct_bits n x = foldl (\<lambda>oc i. oc OR push_bit (7 - i) (drop_bit i x AND 1)) 0 [0..<n]"

lemma bit_oct: "n \<le> 8 \<Longrightarrow> bit (oct_bits n x) j \<longleftrightarrow> j < 8 \<and> 7 - j < n \<and> bit x (7 - j)"
  unfolding oct_bits_def bit_or_fold by (auto intro!: exI [of _ "7 - j"])

lemma bit_rev: "n \<le> 8 \<Longrightarrow> bit (rev_bits n x) j \<longleftrightarrow> j < n \<and> bit x (7 - j)"
  unfolding rev_bits_def bit_or_fold by auto

lemma rev_oct: "n \<le> 8 \<Longrightarrow> rev_bits n (oct_bits n x) = take_bit n x"
  by (rule bit_word_eqI) (auto simp: bit_rev bit_oct bit_simps)

lemma oct_padding: "0 < z \<Longrightarrow> z < 8 \<Longrightarrow> oct_bits (8 - z) x AND push_bit (z - 1) 1 = 0"
  by (rule bit_word_eqI) (auto simp: bit_oct bit_simps)

text \<open>The bytes with the bits above the length cleared.\<close>

fun mask_bits :: "bytes \<Rightarrow> nat \<Rightarrow> bytes" where
  "mask_bits inp bits =
    (if bits = 0 then [] else take_bit (min 8 bits) (hd inp) # mask_bits (tl inp) (bits - min 8 bits))"

declare mask_bits.simps [simp del]

lemma mask_bits_0 [simp]: "mask_bits inp 0 = []" by (simp add: mask_bits.simps)

lemma length_mask_bits [simp]: "length (mask_bits inp bits) = (bits + 7) div 8"
proof (induction inp bits rule: mask_bits.induct)
  case (1 inp bits)
  then show ?case by (cases "bits < 8") (auto simp: mask_bits.simps [of inp bits] min_def)
qed

lemma encode_bits_step:
  "0 < bits \<Longrightarrow> encode_bits True inp bits =
    ebind (encode_bits True (tl inp) (bits - min 8 bits)) (\<lambda>os. Inr (oct_bits (min 8 bits) (hd inp) # os))"
  by (subst encode_bits.simps) (simp add: Let_def oct_bits_def)

lemma encode_bits_total: "\<exists>os. encode_bits True inp bits = Inr os \<and> length os = (bits + 7) div 8"
proof (induction inp bits rule: mask_bits.induct)
  case (1 inp bits)
  show ?case
  proof (cases "bits = 0")
    case True
    then show ?thesis by (simp add: encode_bits.simps)
  next
    case False
    with 1 obtain os where "encode_bits True (tl inp) (bits - min 8 bits) = Inr os"
      "length os = (bits - min 8 bits + 7) div 8" by auto
    then show ?thesis using False by (cases "bits < 8") (auto simp: encode_bits_step)
  qed
qed

lemma update_memcpy:
  "count < length out \<Longrightarrow> memcpy_at (out[count := y]) (Suc count) ys = memcpy_at out count (y # ys)"
  by (simp add: memcpy_at_def take_Suc_conv_app_nth)

lemma decode_encode_bits:
  "encode_bits True inp bits = Inr os \<Longrightarrow> count + length os \<le> length out \<Longrightarrow> z = (8 - bits mod 8) mod 8 \<Longrightarrow>
   decode_bits True z os count out =
     (Inr (int ((count + length os) * 8) - int z), memcpy_at out count (mask_bits inp bits))"
proof (induction inp bits arbitrary: os count out rule: mask_bits.induct)
  case (1 inp bits)
  show ?case
  proof (cases "bits = 0")
    case True
    with 1 show ?thesis by (simp add: encode_bits.simps)
  next
    case False
    with 1(2) obtain os' where o: "encode_bits True (tl inp) (bits - min 8 bits) = Inr os'"
      "os = oct_bits (min 8 bits) (hd inp) # os'"
      by (auto simp: encode_bits_step ebind_Inr_iff)
    have l: "length os' = (bits - min 8 bits + 7) div 8"
      using encode_bits_total [of "tl inp" "bits - min 8 bits"] o(1) by auto
    have m: "mask_bits inp bits = take_bit (min 8 bits) (hd inp) # mask_bits (tl inp) (bits - min 8 bits)"
      using False by (simp add: mask_bits.simps [of inp bits])
    show ?thesis
    proof (cases "bits \<le> 8")
      case True
      then have os': "os' = []" using l by simp
      have z: "bits = 8 - z" "z < 8" using True False 1(4) by (cases "bits = 8"; simp)+
      show ?thesis
      proof (cases "z = 0")
        case True
        with z o os' m 1(3) show ?thesis
          by (simp add: rev_oct Let_def memcpy_at_def upd_conv_take_nth_drop)
      next
        case False
        with z o os' m 1(3) oct_padding [of z "hd inp"] show ?thesis
          by (simp add: rev_oct Let_def memcpy_at_def upd_conv_take_nth_drop)
      qed
    next
      case False
      then have "os' \<noteq> []" using l by (cases os') simp_all
      moreover have "z = (8 - (bits - min 8 bits) mod 8) mod 8"
        using 1(4) False by (simp add: mod_if [of bits 8] min_def le_mod_geq)
      ultimately show ?thesis
        using False o m 1(3) 1(1) [OF _ o(1), of "Suc count" "out[count := take_bit 8 (hd inp)]"]
        by (simp add: rev_oct Let_def update_memcpy)
    qed
  qed
qed

lemma bit_count_bound: "bit f k \<Longrightarrow> k < bit_count f"
proof (induction f arbitrary: k rule: bit_count.induct)
  case (1 f)
  then have "f \<noteq> 0" by auto
  then show ?case
  proof (cases k)
    case 0
    then show ?thesis using \<open>f \<noteq> 0\<close> by (simp add: bit_count.simps [of f])
  next
    case (Suc j)
    with 1 \<open>f \<noteq> 0\<close> show ?thesis by (simp add: bit_count.simps [of f] bit_drop_bit_eq)
  qed
qed

lemma bit_count_le: "(\<And>k. n \<le> k \<Longrightarrow> \<not> bit f k) \<Longrightarrow> bit_count f \<le> n"
proof (induction n arbitrary: f)
  case 0
  then have "f = 0" by (simp add: bit_eq_iff)
  then show ?case by (simp add: bit_count.simps)
next
  case (Suc n)
  have "bit_count (drop_bit 1 f) \<le> n" using Suc.prems by (intro Suc.IH) (simp add: bit_drop_bit_eq)
  then show ?case by (subst bit_count.simps) simp
qed

definition field_bytes :: "u32 \<Rightarrow> nat \<Rightarrow> bytes" where
  "field_bytes f bits = map (\<lambda>i. ucast (drop_bit (8 * i) f)) [0..<(bits + 7) div 8]"

lemma mask_bits_id:
  "(\<And>i j. i < (bits + 7) div 8 \<Longrightarrow> bit (inp ! i) j \<Longrightarrow> 8 * i + j < bits) \<Longrightarrow> length inp = (bits + 7) div 8 \<Longrightarrow>
   mask_bits inp bits = inp"
proof (induction inp bits rule: mask_bits.induct)
  case (1 inp bits)
  show ?case
  proof (cases "bits = 0")
    case False
    then obtain x xs where inp: "inp = x # xs" using 1(3) by (cases inp) auto
    have "Suc (length xs) = (bits + 7) div 8" using 1(3) inp by simp
    moreover obtain b where "bits = Suc b" using False by (cases bits) auto
    ultimately have len: "length xs = (bits - min 8 bits + 7) div 8"
      by (cases "b \<le> 7") (simp_all add: min_def div_add_self1)
    have "take_bit (min 8 bits) x = x"
    proof (rule bit_word_eqI)
      fix j assume "j < LENGTH(8)"
      then show "bit (take_bit (min 8 bits) x) j = bit x j"
        using 1(2) [of 0 j] False inp by (auto simp: bit_simps)
    qed
    moreover have "mask_bits xs (bits - min 8 bits) = xs"
    proof -
      have "8 * i + j < bits - min 8 bits" if "i < (bits - min 8 bits + 7) div 8" "bit (xs ! i) j" for i j
      proof -
        have "i < length xs" using that(1) len by simp
        then have "Suc i < (bits + 7) div 8" using 1(3) inp by simp
        with 1(2) [of "Suc i" j] that inp show ?thesis by (auto simp: min_def)
      qed
      with 1(1) [OF False] len inp show ?thesis by simp
    qed
    ultimately show ?thesis
      using False unfolding inp by (subst mask_bits.simps) simp
  qed (use 1 in simp)
qed

lemma field_mask: "mask_bits (field_bytes f (bit_count f)) (bit_count f) = field_bytes f (bit_count f)"
proof (rule mask_bits_id)
  fix i j assume i: "i < (bit_count f + 7) div 8" and b: "bit (field_bytes f (bit_count f) ! i) j"
  then have "bit f (8 * i + j)" by (simp add: field_bytes_def bit_simps)
  then show "8 * i + j < bit_count f" by (rule bit_count_bound)
qed (simp add: field_bytes_def)

lemma bit_or_bytes:
  "bit (foldl (\<lambda>a i. a OR push_bit (8 * i) (ucast (d i :: u8))) (0 :: u32) [0..<n]) k \<longleftrightarrow>
    k < 32 \<and> k div 8 < n \<and> bit (d (k div 8)) (k mod 8)"
proof (induction n)
  case (Suc n)
  have "8 * n \<le> k \<and> k < 32 \<and> bit (d n) (k - 8 * n) \<longleftrightarrow> k < 32 \<and> k div 8 = n \<and> bit (d (k div 8)) (k mod 8)"
  proof (cases "k div 8 = n")
    case True
    then have "8 * n \<le> k" "k - 8 * n = k mod 8" by (auto simp: minus_mult_div_eq_mod)
    with True show ?thesis by auto
  next
    case False
    then consider "k div 8 + 1 \<le> n" | "n + 1 \<le> k div 8" by linarith
    then have "k < 8 * n \<or> 8 \<le> k - 8 * n"
      using mult_div_mod_eq [of 8 k] mod_less_divisor [of 8 k] by cases linarith+
    then have "\<not> (8 * n \<le> k \<and> bit (d n) (k - 8 * n))" by (auto dest: bit_imp_le_length)
    with False show ?thesis by blast
  qed
  with Suc show ?case by (auto simp: bit_simps less_Suc_eq)
qed simp

lemma field_of_bytes:
  "foldl (\<lambda>a i. a OR push_bit (8 * i) (ucast ((field_bytes f (bit_count f) @ z) ! i))) (0 :: u32)
     [0..<(bit_count f + 7) div 8] = f"
proof (rule bit_word_eqI)
  fix k assume k: "k < LENGTH(32)"
  have "k div 8 < (bit_count f + 7) div 8" if "bit f k" using bit_count_bound [OF that] by linarith
  moreover have "bit ((field_bytes f (bit_count f) @ z) ! (k div 8)) (k mod 8) \<longleftrightarrow> bit f k"
    if "k div 8 < (bit_count f + 7) div 8"
    using that by (simp add: field_bytes_def nth_append bit_simps)
  ultimately show "bit (foldl (\<lambda>a i. a OR push_bit (8 * i) (ucast ((field_bytes f (bit_count f) @ z) ! i))) (0 :: u32)
     [0..<(bit_count f + 7) div 8]) k = bit f k"
    unfolding bit_or_bytes using k by auto
qed

lemma padding_length: "n + (8 - n mod 8) mod 8 = (n + 7) div 8 * (8 :: nat)"
proof -
  obtain m r where n: "n = 8 * m + r" "r < 8" by (metis mod_less_divisor mult_div_mod_eq zero_less_numeral)
  then have "r \<in> {0, 1, 2, 3, 4, 5, 6, 7}" by auto
  then show ?thesis by (auto simp: n(1))
qed

lemma bit_field_roundtrip:
  assumes "malloc_ok malloc"
  shows "\<exists>bs. encode_bit_field malloc f = Inr bs \<and> decode_bit_field bs 4 strict = Inr f \<and> length bs \<le> 5"
proof -
  let ?n = "bit_count f" let ?z = "(8 - ?n mod 8) mod 8" let ?d = "field_bytes f ?n"
  obtain os where os: "encode_bits True ?d ?n = Inr os" "length os = (?n + 7) div 8"
    using encode_bits_total by blast
  obtain buf where buf: "malloc ((?n + 7) div 8 + 1) = Some buf" "length buf = (?n + 7) div 8 + 1"
    using malloc_okE [OF assms] by blast
  have n: "?n \<le> 32" by (rule bit_count_le) (auto dest: bit_imp_le_length)
  have e: "encode_bit_field malloc f = Inr (of_nat ?z # os)"
    using os buf by (simp add: encode_bit_field_def encode_bit_string_def Let_def memcpy_at_0
        field_bytes_def [symmetric])
  have zb: "unat ((of_nat ?z :: u8) AND 7) = ?z" "(of_nat ?z :: u8) AND NOT 7 = 0"
  proof -
    have "z < 8 \<Longrightarrow> z \<in> {0, 1, 2, 3, 4, 5, 6, 7}" for z :: nat by auto
    moreover have "?z < 8" by simp
    ultimately have "?z \<in> {0, 1, 2, 3, 4, 5, 6, 7}" by blast
    then show "unat ((of_nat ?z :: u8) AND 7) = ?z" "(of_nat ?z :: u8) AND NOT 7 = 0" by auto
  qed
  have zero: "os = [] \<Longrightarrow> ?z = 0" using os(2) by (auto simp: div_eq_0_iff)
  have len: "length os \<le> 4" using os(2) n by auto
  have "decode_bits True ?z os 0 (replicate 4 0) =
      (Inr (int (length os * 8) - int ?z), memcpy_at (replicate 4 0) 0 ?d)"
    using decode_encode_bits [OF os(1), of 0 "replicate 4 0" ?z] len by (simp add: field_mask)
  moreover have "int (length os * 8) - int ?z = int ?n" using padding_length [of ?n] os(2) by simp
  ultimately have "decode_bit_string (of_nat ?z # os) (replicate 4 0) True strict =
      (Inr (int ?n), memcpy_at (replicate 4 0) 0 ?d)"
    using zb zero len by (cases os) (simp_all add: decode_bit_string_def Let_def)
  then have "decode_bit_field (of_nat ?z # os) 4 strict = Inr f"
    using field_of_bytes [of f] by (simp add: decode_bit_field_def memcpy_at_0)
  with e len show ?thesis by auto
qed

section \<open>Codecs\<close>

text \<open>
  The contract that the primitive types share: what the encoder makes of a value in its range,
  the decoder turns back into it. The client writes the code as the contents of an element
  and reads it from there.
\<close>

locale codec =
  fixes enc :: "(nat \<Rightarrow> bytes option) \<Rightarrow> 'a \<Rightarrow> bytes res"
    and dec :: "bytes \<Rightarrow> 'a res"
    and ok :: "'a \<Rightarrow> bool"
  assumes inverse: "malloc_ok malloc \<Longrightarrow> ok x \<Longrightarrow>
    \<exists>bs. enc malloc x = Inr bs \<and> dec bs = Inr x \<and> length bs < 2 ^ 32"
begin

lemma injective:
  assumes "malloc_ok malloc" "ok x" "ok y" "enc malloc x = enc malloc y"
  shows "x = y"
  using inverse [OF assms(1,2)] inverse [OF assms(1,3)] assms(4) by auto

lemma written_element:
  assumes m: "malloc_ok malloc" and "ok x" "elem_tag tag" "enc malloc x = Inr bs"
    and "asn1_write_element malloc tag (Some bs) (length bs) = Inr e"
  shows "\<exists>v. sc_asn1_skip_tag (e @ rest) tag = Some (v, rest) \<and> dec v = Inr x"
  using inverse [OF m assms(2)] assms skip_written_element [OF m assms(3) _ assms(5)] by auto

end

interpretation int_codec: codec asn1_encode_integer "\<lambda>bs. sc_asn1_decode_integer bs strict"
  "\<lambda>x. - (2 ^ 31) \<le> x \<and> x < 2 ^ 31" for strict
proof
  fix malloc and x :: int assume "malloc_ok malloc" "- (2 ^ 31) \<le> x \<and> x < 2 ^ 31"
  with integer_roundtrip [of malloc x strict]
  show "\<exists>bs. asn1_encode_integer malloc x = Inr bs \<and> sc_asn1_decode_integer bs strict = Inr x \<and> length bs < 2 ^ 32"
    by fastforce
qed

definition decoded_oid :: "bytes \<Rightarrow> oid res" where
  "decoded_oid bs =
    (case sc_asn1_decode_object_id (Some bs) sc_init_oid of (Inl e, _) \<Rightarrow> Inl e | (Inr _, v) \<Rightarrow> Inr v)"

interpretation oid_codec: codec sc_asn1_encode_object_id decoded_oid oid_ok
proof
  fix malloc v assume "malloc_ok malloc" "oid_ok v"
  from oid_roundtrip [OF this, of sc_init_oid]
  show "\<exists>bs. sc_asn1_encode_object_id malloc v = Inr bs \<and> decoded_oid bs = Inr v \<and> length bs < 2 ^ 32"
    by (fastforce simp: decoded_oid_def)
qed

interpretation field_codec: codec encode_bit_field "\<lambda>bs. decode_bit_field bs 4 strict" "\<lambda>_. True" for strict
proof
  fix malloc and f :: u32 assume "malloc_ok malloc"
  from bit_field_roundtrip [OF this, of f strict]
  show "\<exists>bs. encode_bit_field malloc f = Inr bs \<and> decode_bit_field bs 4 strict = Inr f \<and> length bs < 2 ^ 32"
    by fastforce
qed

text \<open>An integer written as an element is read back: for every C \<open>int\<close> and every readable tag, the
  element that holds the code of \<open>x\<close> is skipped as a whole and its contents decode to \<open>x\<close>, with
  the strict rules for minimal length as well as without them.\<close>
theorem integer_element:
  assumes "malloc_ok malloc" "- (2 ^ 31) \<le> x \<and> x < 2 ^ 31" "elem_tag tag"
    and "asn1_encode_integer malloc x = Inr bs"
    and "asn1_write_element malloc tag (Some bs) (length bs) = Inr e"
  shows "\<exists>v. sc_asn1_skip_tag (e @ rest) tag = Some (v, rest) \<and> sc_asn1_decode_integer v strict = Inr x"
  using assms by (rule int_codec.written_element)

theorem integer_element_witness:
  "\<exists>v. sc_asn1_skip_tag [2, 2, 0xFF, 0x7F, 5] 2 = Some (v, [5]) \<and> sc_asn1_decode_integer v True = Inr (- 129)"
proof -
  have "asn1_encode_integer zero_malloc (- 129) = Inr [0xFF, 0x7F]" by code_simp
  moreover have "asn1_write_element zero_malloc 2 (Some [0xFF, 0x7F]) (length [0xFF, 0x7F :: u8]) = Inr [2, 2, 0xFF, 0x7F]"
    by code_simp
  moreover have "elem_tag 2" by code_simp
  ultimately show ?thesis
    using integer_element [of zero_malloc "- 129" 2 "[0xFF, 0x7F]" "[2, 2, 0xFF, 0x7F]" "[5]" True] by simp
qed

text \<open>C38: An object identifier written as an element is read back, for all identifiers of 2 to 15
  components that X.660 allows (first component at most 2, second at most 39 below that,
  every component less than 2 to the 31).\<close>
theorem oid_element:
  assumes "malloc_ok malloc" "oid_ok v" "elem_tag tag"
    and "sc_asn1_encode_object_id malloc v = Inr bs"
    and "asn1_write_element malloc tag (Some bs) (length bs) = Inr e"
  shows "\<exists>c. sc_asn1_skip_tag (e @ rest) tag = Some (c, rest) \<and>
    sc_asn1_decode_object_id (Some c) sc_init_oid = (Inr (), v)"
proof -
  obtain c where "sc_asn1_skip_tag (e @ rest) tag = Some (c, rest)" "decoded_oid c = Inr v"
    using oid_codec.written_element [OF assms] by blast
  moreover obtain r w where "sc_asn1_decode_object_id (Some c) sc_init_oid = (r, w)"
    by (metis prod.exhaust)
  ultimately show ?thesis by (cases r) (simp_all add: decoded_oid_def)
qed

text \<open>\<open>1.2.840.113549\<close>.\<close>

definition rsadsi :: oid where
  "rsadsi = [1, 2, 840, 113549] @ replicate 12 (- 1)"

theorem oid_element_witness:
  "\<exists>c. sc_asn1_skip_tag [6, 6, 0x2A, 0x86, 0x48, 0x86, 0xF7, 0x0D] 6 = Some (c, []) \<and>
    sc_asn1_decode_object_id (Some c) sc_init_oid = (Inr (), rsadsi)"
proof -
  let ?bs = "[0x2A, 0x86, 0x48, 0x86, 0xF7, 0x0D] :: bytes"
  have "oid_ok rsadsi"
    unfolding oid_ok_def by (rule exI [of _ "[1, 2, 840, 113549]"]) (simp add: rsadsi_def)
  moreover have "sc_asn1_encode_object_id zero_malloc rsadsi = Inr ?bs" by code_simp
  moreover have "asn1_write_element zero_malloc 6 (Some ?bs) (length ?bs) = Inr (6 # 6 # ?bs)" by code_simp
  moreover have "elem_tag 6" by code_simp
  ultimately show ?thesis using oid_element [of zero_malloc rsadsi 6 ?bs "6 # 6 # ?bs" "[]"] by simp
qed

text \<open>The decoder refuses the longest identifiers the encoder writes.\<close>

lemma oid_16_not_read:
  "case sc_asn1_encode_object_id zero_malloc [1, 2, 3, 4, 5, 6, 7, 8, 9, 10, 11, 12, 13, 14, 15, 16] of
     Inr bs \<Rightarrow> fst (sc_asn1_decode_object_id (Some bs) sc_init_oid) = Inl SC_ERROR_INVALID_ASN1_OBJECT
   | Inl _ \<Rightarrow> False"
  by code_simp

text \<open>A bit field written as an element is read back: any 32-bit word, by the strict rules too.\<close>
theorem bit_field_element:
  assumes "malloc_ok malloc" "elem_tag tag" "encode_bit_field malloc f = Inr bs"
    and "asn1_write_element malloc tag (Some bs) (length bs) = Inr e"
  shows "\<exists>v. sc_asn1_skip_tag (e @ rest) tag = Some (v, rest) \<and> decode_bit_field v 4 strict = Inr f"
  by (rule field_codec.written_element [OF assms(1) TrueI assms(2-4)])

theorem bit_field_element_witness:
  "\<exists>v. sc_asn1_skip_tag [3, 2, 6, 0xC0] 3 = Some (v, []) \<and> decode_bit_field v 4 True = Inr 3"
proof -
  have "encode_bit_field zero_malloc 3 = Inr [6, 0xC0]" by code_simp
  moreover have "asn1_write_element zero_malloc 3 (Some [6, 0xC0]) (length [6, 0xC0 :: u8]) = Inr [3, 2, 6, 0xC0]"
    by code_simp
  moreover have "elem_tag 3" by code_simp
  ultimately show ?thesis
    using bit_field_element [of zero_malloc 3 3 "[6, 0xC0]" "[3, 2, 6, 0xC0]" "[]" True] by simp
qed

text \<open>Of the padding bits only the first is checked: a code that is not DER is accepted as strict.\<close>

lemma padding_not_checked: "decode_bit_field [6, 0xDF] 4 True = Inr 3"
  by code_simp

text \<open>A lone length octet gives a negative count, which the caller takes for an error code.\<close>

lemma lone_octet: "fst (decode_bit_string [3] [0] True False) = Inr (- 3)"
  by code_simp

end
