(* ===== verification/Sc_Iso7816.thy ===== *)
theory Sc_Iso7816
  imports Sc_Pcsc
begin

text \<open>
  The operations of the ISO 7816 driver that are one command each (\<open>libopensc/iso7816.c\<close>):
  the meaning of status words, reading and writing of binary files, GET CHALLENGE, GET RESPONSE,
  GET DATA, selection by name, deletion, the security environment and its use. Every driver of
  the library inherits this table and replaces some of its entries.

  An operation is a program over the card. The one that fills a buffer returns the number of
  bytes and the buffer; a failed one returns the error alone. Pointers the code compares with
  NULL are options. The driver's GET RESPONSE is called by the transfer and itself transmits a
  command, which forbids a nested GET RESPONSE: it is defined over a table without that entry
  (lemma \<open>transmit_no_get_response\<close>), and the driver's table is that one with the entry added.

  The last sections put the driver on the PC/SC reader and discharge the interface of the
  transfer for this table.
\<close>

abbreviation (input) SC_SEC_OPERATION_DECIPHER :: int where "SC_SEC_OPERATION_DECIPHER \<equiv> 1"
abbreviation (input) SC_SEC_OPERATION_SIGN :: int where "SC_SEC_OPERATION_SIGN \<equiv> 2"
abbreviation (input) SC_SEC_OPERATION_AUTHENTICATE :: int where "SC_SEC_OPERATION_AUTHENTICATE \<equiv> 3"
abbreviation (input) SC_SEC_OPERATION_DERIVE :: int where "SC_SEC_OPERATION_DERIVE \<equiv> 4"
abbreviation (input) SC_SEC_ENV_ALG_REF_PRESENT :: u64 where "SC_SEC_ENV_ALG_REF_PRESENT \<equiv> 0x01"
abbreviation (input) SC_SEC_ENV_FILE_REF_PRESENT :: u64 where "SC_SEC_ENV_FILE_REF_PRESENT \<equiv> 0x02"
abbreviation (input) SC_SEC_ENV_KEY_REF_PRESENT :: u64 where "SC_SEC_ENV_KEY_REF_PRESENT \<equiv> 0x04"
abbreviation (input) SC_SEC_ENV_KEY_REF_SYMMETRIC :: u64 where "SC_SEC_ENV_KEY_REF_SYMMETRIC \<equiv> 0x08"
abbreviation (input) SC_MAX_KEYREF_SIZE :: nat where "SC_MAX_KEYREF_SIZE \<equiv> 8"
abbreviation (input) SC_MAX_PATH_SIZE :: nat where "SC_MAX_PATH_SIZE \<equiv> 16"

section \<open>Status words\<close>

definition iso7816_errors :: "(u32 \<times> sc_error) list" where
  "iso7816_errors =
    [(0x6200, SC_ERROR_CARD_CMD_FAILED), (0x6281, SC_ERROR_CORRUPTED_DATA),
     (0x6282, SC_ERROR_FILE_END_REACHED), (0x6283, SC_ERROR_CARD_CMD_FAILED),
     (0x6284, SC_ERROR_CARD_CMD_FAILED), (0x6285, SC_ERROR_CARD_CMD_FAILED),
     (0x6286, SC_ERROR_CARD_CMD_FAILED),
     (0x6300, SC_ERROR_CARD_CMD_FAILED), (0x6381, SC_ERROR_CARD_CMD_FAILED),
     (0x6400, SC_ERROR_CARD_CMD_FAILED), (0x6401, SC_ERROR_CARD_CMD_FAILED),
     (0x6581, SC_ERROR_MEMORY_FAILURE),
     (0x6700, SC_ERROR_WRONG_LENGTH),
     (0x6800, SC_ERROR_NO_CARD_SUPPORT), (0x6881, SC_ERROR_NO_CARD_SUPPORT),
     (0x6882, SC_ERROR_NO_CARD_SUPPORT), (0x6883, SC_ERROR_CARD_CMD_FAILED),
     (0x6884, SC_ERROR_NO_CARD_SUPPORT),
     (0x6900, SC_ERROR_NOT_ALLOWED), (0x6981, SC_ERROR_CARD_CMD_FAILED),
     (0x6982, SC_ERROR_SECURITY_STATUS_NOT_SATISFIED), (0x6983, SC_ERROR_AUTH_METHOD_BLOCKED),
     (0x6984, SC_ERROR_REF_DATA_NOT_USABLE), (0x6985, SC_ERROR_NOT_ALLOWED),
     (0x6986, SC_ERROR_NOT_ALLOWED), (0x6987, SC_ERROR_INCORRECT_PARAMETERS),
     (0x6988, SC_ERROR_INCORRECT_PARAMETERS),
     (0x6A00, SC_ERROR_INCORRECT_PARAMETERS), (0x6A80, SC_ERROR_INCORRECT_PARAMETERS),
     (0x6A81, SC_ERROR_NO_CARD_SUPPORT), (0x6A82, SC_ERROR_FILE_NOT_FOUND),
     (0x6A83, SC_ERROR_RECORD_NOT_FOUND), (0x6A84, SC_ERROR_NOT_ENOUGH_MEMORY),
     (0x6A85, SC_ERROR_INCORRECT_PARAMETERS), (0x6A86, SC_ERROR_INCORRECT_PARAMETERS),
     (0x6A87, SC_ERROR_INCORRECT_PARAMETERS), (0x6A88, SC_ERROR_DATA_OBJECT_NOT_FOUND),
     (0x6A89, SC_ERROR_FILE_ALREADY_EXISTS), (0x6A8A, SC_ERROR_FILE_ALREADY_EXISTS),
     (0x6B00, SC_ERROR_INCORRECT_PARAMETERS), (0x6D00, SC_ERROR_INS_NOT_SUPPORTED),
     (0x6E00, SC_ERROR_CLASS_NOT_SUPPORTED), (0x6F00, SC_ERROR_CARD_CMD_FAILED)]"

text \<open>The loop of the source takes the first entry of the table, as \<open>map_of\<close> does.\<close>

definition iso7816_check_sw :: "u32 \<Rightarrow> u32 \<Rightarrow> unit res" where
  "iso7816_check_sw sw1 sw2 =
    (if sw1 = 0x6C then Inl SC_ERROR_WRONG_LENGTH
     else if sw1 = 0x90 \<and> sw2 = 0 then Inr ()
     else if sw1 = 0x63 \<and> sw2 AND NOT 0x0f = 0xc0 then Inl SC_ERROR_PIN_CODE_INCORRECT
     else case map_of iso7816_errors (push_bit 8 sw1 OR sw2) of
         Some e \<Rightarrow> Inl e
       | None \<Rightarrow> Inl SC_ERROR_CARD_CMD_FAILED)"

section \<open>Exchange of one command\<close>

definition iso7816_fixup_transceive_length :: "('r, 'd) sc_card \<Rightarrow> sc_apdu \<Rightarrow> sc_apdu" where
  "iso7816_fixup_transceive_length c a =
    (let a = (if a_lc a > sc_get_max_send_size c
              then a\<lparr>a_flags := a_flags a OR SC_APDU_FLAGS_CHAINING\<rparr> else a)
     in if a_le a > sc_get_max_recv_size c then a\<lparr>a_le := sc_get_max_recv_size c\<rparr> else a)"

text \<open>The steps every operation shares: transmit a command and go on with the APDU that comes
  back, or also check its status word first.\<close>

definition exchange :: "('r, 'd) sc_ops \<Rightarrow> sc_apdu \<Rightarrow> (('r, 'd) sc_card, sc_apdu) prog" where
  "exchange ops a c =
    (case sc_transmit_apdu ops (a, c) of
       (Inl e, (a', c')) \<Rightarrow> (Inl e, c')
     | (Inr _, (a', c')) \<Rightarrow> (Inr a', c'))"

definition checked :: "('r, 'd) sc_ops \<Rightarrow> sc_apdu \<Rightarrow> sc_apdu res" where
  "checked ops a = ebind (sc_check_sw ops (a_sw1 a) (a_sw2 a)) (\<lambda>_. Inr a)"

definition command :: "('r, 'd) sc_ops \<Rightarrow> sc_apdu \<Rightarrow> (('r, 'd) sc_card, sc_apdu) prog" where
  "command ops a = sbind (exchange ops a) (\<lambda>a. lift_res (checked ops a))"

section \<open>Binary files\<close>

definition with_response :: "nat \<Rightarrow> bytes option \<Rightarrow> sc_apdu \<Rightarrow> sc_apdu" where
  "with_response n buf a = a\<lparr>a_le := n, a_resplen := n, a_resp := buf\<rparr>"

definition with_data :: "nat \<Rightarrow> bytes option \<Rightarrow> sc_apdu \<Rightarrow> sc_apdu" where
  "with_data n buf a = a\<lparr>a_lc := n, a_datalen := n, a_data := buf\<rparr>"

definition offset_p1 :: "u32 \<Rightarrow> u8" where
  "offset_p1 idx = ucast (drop_bit 8 idx AND 0x7F)"

definition offset_p2 :: "u32 \<Rightarrow> u8" where
  "offset_p2 idx = ucast (idx AND 0xFF)"

definition iso7816_read_binary ::
  "('r, 'd) sc_ops \<Rightarrow> u32 \<Rightarrow> bytes \<Rightarrow> nat \<Rightarrow> (('r, 'd) sc_card, nat \<times> bytes) prog" where
  "iso7816_read_binary ops idx buf count c =
    (if idx > 0x7FFF then (Inl SC_ERROR_OFFSET_TOO_LARGE, c)
     else
       let a = with_response count (Some buf)
                 (sc_format_apdu c SC_APDU_CASE_2 0xB0 (offset_p1 idx) (offset_p2 idx));
           a = iso7816_fixup_transceive_length c a
       in sbind (exchange ops a) (\<lambda>a c.
            let r = sc_check_sw ops (a_sw1 a) (a_sw2 a) in
            if r = Inl SC_ERROR_FILE_END_REACHED \<or> r = Inl SC_ERROR_INCORRECT_PARAMETERS
            then (Inr (a_resplen a, mem (a_resp a)), c)
            else (ebind r (\<lambda>_. Inr (a_resplen a, mem (a_resp a))), c)) c)"

text \<open>WRITE BINARY and UPDATE BINARY differ in the instruction byte.\<close>

definition send_binary ::
  "u8 \<Rightarrow> ('r, 'd) sc_ops \<Rightarrow> u32 \<Rightarrow> bytes \<Rightarrow> nat \<Rightarrow> (('r, 'd) sc_card, nat) prog" where
  "send_binary ins ops idx buf count c =
    (if idx > 0x7FFF then (Inl SC_ERROR_OFFSET_TOO_LARGE, c)
     else
       let a = with_data count (Some buf)
                 (sc_format_apdu c SC_APDU_CASE_3 ins (offset_p1 idx) (offset_p2 idx));
           a = iso7816_fixup_transceive_length c a
       in sbind (command ops a) (\<lambda>_. sret count) c)"

definition iso7816_write_binary ::
  "('r, 'd) sc_ops \<Rightarrow> u32 \<Rightarrow> bytes \<Rightarrow> nat \<Rightarrow> (('r, 'd) sc_card, nat) prog" where
  "iso7816_write_binary = send_binary 0xD0"

definition iso7816_update_binary ::
  "('r, 'd) sc_ops \<Rightarrow> u32 \<Rightarrow> bytes \<Rightarrow> nat \<Rightarrow> (('r, 'd) sc_card, nat) prog" where
  "iso7816_update_binary = send_binary 0xD6"

section \<open>Commands with a response\<close>

definition iso7816_get_challenge ::
  "('r, 'd) sc_ops \<Rightarrow> bytes \<Rightarrow> nat \<Rightarrow> (('r, 'd) sc_card, nat \<times> bytes) prog" where
  "iso7816_get_challenge ops rnd len c =
    (let a = with_response len (Some rnd) (sc_format_apdu c SC_APDU_CASE_2 0x84 0 0) in
     sbind (command ops a)
       (\<lambda>a. sret (if len < a_resplen a then len else a_resplen a, mem (a_resp a))) c)"

text \<open>
  The value is the return code, which is the number of bytes to ask for next, and the bytes
  received; the buffer is the one of 256 bytes the transfer provides.
\<close>

definition iso7816_get_response ::
  "('r, 'd) sc_ops \<Rightarrow> nat \<Rightarrow> (('r, 'd) sc_card, nat \<times> bytes) prog" where
  "iso7816_get_response ops count c =
    (let rlen = (if count > sc_get_max_recv_size c then sc_get_max_recv_size c else count);
         a = with_response rlen (Some (replicate 256 0)) (sc_format_apdu c SC_APDU_CASE_2 0xC0 0 0);
         a = a\<lparr>a_flags := a_flags a OR SC_APDU_FLAGS_NO_GET_RESP\<rparr>
     in sbind (exchange ops a) (\<lambda>a c.
          let check = sc_check_sw ops (a_sw1 a) (a_sw2 a) in
          if a_resplen a = 0 then (ebind check (\<lambda>_. Inr (0, resp_data a)), c)
          else if a_sw1 a = 0x90 \<and> a_sw2 a = 0 then (Inr (0, resp_data a), c)
          else if a_sw1 a = 0x61 then (Inr (if a_sw2 a = 0 then 256 else unat (a_sw2 a), resp_data a), c)
          else if a_sw1 a = 0x62 \<and> a_sw2 a = 0x82 then (Inr (0, resp_data a), c)
          else (ebind check (\<lambda>_. Inr (0, resp_data a)), c)) c)"

definition iso7816_get_data ::
  "('r, 'd) sc_ops \<Rightarrow> u32 \<Rightarrow> bytes option \<Rightarrow> nat \<Rightarrow> (('r, 'd) sc_card, nat \<times> bytes) prog" where
  "iso7816_get_data ops tag buf len c =
    (let cse = (if buf \<noteq> None \<and> len \<noteq> 0 then SC_APDU_CASE_2 else SC_APDU_CASE_1);
         a = with_response len buf
               (sc_format_apdu c cse 0xCA (ucast (drop_bit 8 tag AND 0xff)) (ucast (tag AND 0xff)))
     in sbind (command ops a) (\<lambda>a c.
          if a_resplen a > len then (Inl SC_ERROR_WRONG_LENGTH, c)
          else (Inr (a_resplen a, mem (a_resp a)), c)) c)"

text \<open>Selection by name; \<open>resplen\<close> is the room behind \<open>resp\<close>. The value also carries the
  length and the buffer that are written back on every path.\<close>

definition iso7816_select_aid ::
  "('r, 'd) sc_ops \<Rightarrow> bytes \<Rightarrow> nat \<Rightarrow> bytes option \<Rightarrow> nat \<Rightarrow> ('r, 'd) sc_card \<Rightarrow>
   (unit res \<times> nat \<times> bytes option) \<times> ('r, 'd) sc_card" where
  "iso7816_select_aid ops req reqlen resp resplen c =
    (let a = (sc_format_apdu c (if resp = None then SC_APDU_CASE_3_SHORT else SC_APDU_CASE_4_SHORT)
                0xA4 0x04 (if resp = None then 0x0C else 0x00))
             \<lparr>a_lc := reqlen, a_data := Some req, a_datalen := reqlen, a_resp := resp,
              a_resplen := (if resp = None then 0 else resplen),
              a_le := (if resp = None then 0 else 256)\<rparr>;
         (rv, (a, c)) = sc_transmit_apdu ops (a, c)
     in ((ebind rv (\<lambda>_. sc_check_sw ops (a_sw1 a) (a_sw2 a)), a_resplen a, a_resp a), c))"

section \<open>Files\<close>

definition iso7816_delete_file :: "('r, 'd) sc_ops \<Rightarrow> sc_path \<Rightarrow> (('r, 'd) sc_card, unit) prog" where
  "iso7816_delete_file ops path c =
    (if p_type path \<noteq> SC_PATH_TYPE_FILE_ID \<or> length (p_value path) \<noteq> 0 \<and> length (p_value path) \<noteq> 2
     then (Inl SC_ERROR_INVALID_ARGUMENTS, c)
     else
       let a = (if length (p_value path) = 2
                then with_data 2 (Some (p_value path)) (sc_format_apdu c SC_APDU_CASE_3_SHORT 0xE4 0 0)
                else sc_format_apdu c SC_APDU_CASE_1 0xE4 0 0)
       in sbind (command ops a) (\<lambda>_. sret ()) c)"

section \<open>Security environment\<close>

text \<open>\<open>se_key_ref\<close> is the array \<open>key_ref\<close>, \<open>se_key_ref_len\<close> the bytes in use.\<close>

record sc_security_env =
  se_flags :: u64
  se_operation :: int
  se_algorithm :: u64
  se_algorithm_flags :: u64
  se_algorithm_ref :: u64
  se_file_ref :: sc_path
  se_key_ref :: bytes
  se_key_ref_len :: nat

definition se_flag :: "sc_security_env \<Rightarrow> u64 \<Rightarrow> bool" where
  "se_flag env f \<longleftrightarrow> se_flags env AND f \<noteq> 0"

definition crt_template :: "int \<Rightarrow> u8 res" where
  "crt_template operation =
    (if operation = SC_SEC_OPERATION_AUTHENTICATE then Inr 0xA4
     else if operation = SC_SEC_OPERATION_DECIPHER \<or> operation = SC_SEC_OPERATION_DERIVE then Inr 0xB8
     else if operation = SC_SEC_OPERATION_SIGN then Inr 0xB6
     else Inl SC_ERROR_INVALID_ARGUMENTS)"

definition env_file_ref :: "sc_security_env \<Rightarrow> bytes \<Rightarrow> bytes res" where
  "env_file_ref env p =
    (if \<not> se_flag env SC_SEC_ENV_FILE_REF_PRESENT then Inr p
     else let len = length (p_value (se_file_ref env)) in
       if len > SC_MAX_PATH_SIZE then Inl SC_ERROR_INVALID_ARGUMENTS
       else if SC_MAX_APDU_BUFFER_SIZE - length p < len + 2 then Inl SC_ERROR_OFFSET_TOO_LARGE
       else Inr (p @ [0x81, of_nat len] @ p_value (se_file_ref env)))"

definition env_key_ref :: "sc_security_env \<Rightarrow> bytes \<Rightarrow> bytes res" where
  "env_key_ref env p =
    (if \<not> se_flag env SC_SEC_ENV_KEY_REF_PRESENT then Inr p
     else if SC_MAX_APDU_BUFFER_SIZE - length p < se_key_ref_len env + 2 then Inl SC_ERROR_OFFSET_TOO_LARGE
     else if se_key_ref_len env > SC_MAX_KEYREF_SIZE then Inl SC_ERROR_INVALID_ARGUMENTS
     else Inr (p @ [if se_flag env SC_SEC_ENV_KEY_REF_SYMMETRIC then 0x83 else 0x84, of_nat (se_key_ref_len env)]
                 @ take (se_key_ref_len env) (se_key_ref env)))"

definition env_data :: "sc_security_env \<Rightarrow> bytes res" where
  "env_data env =
    (let p = (if se_flag env SC_SEC_ENV_ALG_REF_PRESENT
              then [0x80, 0x01, ucast (se_algorithm_ref env AND 0xFF)] else [])
     in ebind (env_file_ref env p) (env_key_ref env))"

definition set_env_command ::
  "('r, 'd) sc_ops \<Rightarrow> u8 \<Rightarrow> bytes \<Rightarrow> (('r, 'd) sc_card, unit) prog" where
  "set_env_command ops p2 sbuf c =
    (let a = with_data (length sbuf) (Some sbuf) (sc_format_apdu c SC_APDU_CASE_3_SHORT 0x22 0x41 p2) in
     if length sbuf \<noteq> 0 then sbind (command ops a) (\<lambda>_. sret ()) c else (Inr (), c))"

definition store_env_command :: "('r, 'd) sc_ops \<Rightarrow> int \<Rightarrow> (('r, 'd) sc_card, unit) prog" where
  "store_env_command ops se_num c =
     sbind (command ops (sc_format_apdu c SC_APDU_CASE_3_SHORT 0x22 0xF2 (word_of_int se_num))) (\<lambda>_. sret ()) c"

definition iso7816_set_security_env ::
  "('r, 'd) sc_ops \<Rightarrow> sc_security_env \<Rightarrow> int \<Rightarrow> (('r, 'd) sc_card, unit) prog" where
  "iso7816_set_security_env ops env se_num =
     sbind (lift_res (crt_template (se_operation env))) (\<lambda>p2.
       sbind (lift_res (env_data env)) (\<lambda>sbuf.
         if se_num > 0 then
           bracket (sc_lock ops) (sc_unlock ops)
             (sbind (set_env_command ops p2 sbuf) (\<lambda>_. store_env_command ops se_num))
         else set_env_command ops p2 sbuf))"

definition iso7816_restore_security_env ::
  "('r, 'd) sc_ops \<Rightarrow> int \<Rightarrow> (('r, 'd) sc_card, unit) prog" where
  "iso7816_restore_security_env ops se_num c =
     sbind (command ops (sc_format_apdu c SC_APDU_CASE_1 0x22 0xF3 (word_of_int se_num))) (\<lambda>_. sret ()) c"

section \<open>Signature and decryption\<close>

text \<open>What both do with the answer: the data on \<open>9000\<close>, else the verdict on the status.\<close>

definition operation_result ::
  "('r, 'd) sc_ops \<Rightarrow> sc_apdu \<Rightarrow> (('r, 'd) sc_card, nat \<times> bytes) prog" where
  "operation_result ops a =
    (if a_sw1 a = 0x90 \<and> a_sw2 a = 0 then sret (a_resplen a, mem (a_resp a))
     else lift_res (ebind (sc_check_sw ops (a_sw1 a) (a_sw2 a)) (\<lambda>_. Inr (0, mem (a_resp a)))))"

definition iso7816_compute_signature ::
  "('r, 'd) sc_ops \<Rightarrow> bytes option \<Rightarrow> nat \<Rightarrow> bytes option \<Rightarrow> nat \<Rightarrow> (('r, 'd) sc_card, nat \<times> bytes) prog" where
  "iso7816_compute_signature ops data datalen out outlen c =
    (if data = None \<or> out = None then (Inl SC_ERROR_INVALID_ARGUMENTS, c)
     else
       let a = with_data datalen data (with_response outlen out (sc_format_apdu c SC_APDU_CASE_4 0x2A 0x9E 0x9A));
           a = iso7816_fixup_transceive_length c a
       in sbind (exchange ops a) (operation_result ops) c)"

definition iso7816_decipher ::
  "(nat \<Rightarrow> bytes option) \<Rightarrow> ('r, 'd) sc_ops \<Rightarrow> bytes option \<Rightarrow> nat \<Rightarrow> bytes option \<Rightarrow> nat \<Rightarrow>
   (('r, 'd) sc_card, nat \<times> bytes) prog" where
  "iso7816_decipher malloc ops crgram crgram_len out outlen c =
    (if crgram = None \<or> out = None then (Inl SC_ERROR_INVALID_ARGUMENTS, c)
     else case malloc (crgram_len + 1) of
         None \<Rightarrow> (Inl SC_ERROR_OUT_OF_MEMORY, c)
       | Some _ \<Rightarrow>
          let sbuf = 0 # take crgram_len (mem crgram);
              a = with_data (crgram_len + 1) (Some sbuf)
                    (with_response outlen out (sc_format_apdu c SC_APDU_CASE_4 0x2A 0x80 0x86));
              a = iso7816_fixup_transceive_length c a
          in sbind (exchange ops a) (operation_result ops) c)"

section \<open>What every operation keeps\<close>

text \<open>The card as an operation must leave it: the environment intact, the lock as it was. A program
  is safe when it keeps this for every lock count and never runs out of fuel.\<close>

definition card_inv :: "('r \<Rightarrow> bool) \<Rightarrow> nat \<Rightarrow> ('r, 'd) sc_card \<Rightarrow> bool" where
  "card_inv env_ok n c \<longleftrightarrow> env_ok (c_env c) \<and> c_lock_count c = n"

definition safe :: "('r \<Rightarrow> bool) \<Rightarrow> (('r, 'd) sc_card, 'a) prog \<Rightarrow> bool" where
  "safe env_ok f \<longleftrightarrow> (\<forall>n. keeps (card_inv env_ok n) f)"

text \<open>A program that fills a buffer stays inside it and reports at most the room it was given.\<close>

definition fills :: "('r \<Rightarrow> bool) \<Rightarrow> bytes \<Rightarrow> nat \<Rightarrow> (('r, 'd) sc_card, nat \<times> bytes) prog \<Rightarrow> bool" where
  "fills env_ok buf count f \<longleftrightarrow> (\<forall>c k b c'. env_ok (c_env c) \<longrightarrow> f c = (Inr (k, b), c') \<longrightarrow>
     k \<le> count \<and> length b = length buf)"

lemma safeI:
  "(\<And>c r c'. env_ok (c_env c) \<Longrightarrow> f c = (r, c') \<Longrightarrow>
     env_ok (c_env c') \<and> c_lock_count c' = c_lock_count c \<and> r \<noteq> Inl OUT_OF_FUEL) \<Longrightarrow> safe env_ok f"
  unfolding safe_def card_inv_def keeps_def by (metis prod.collapse)

lemma safeD:
  "safe env_ok f \<Longrightarrow> env_ok (c_env c) \<Longrightarrow> f c = (r, c') \<Longrightarrow>
     env_ok (c_env c') \<and> c_lock_count c' = c_lock_count c \<and> r \<noteq> Inl OUT_OF_FUEL"
  unfolding safe_def card_inv_def keeps_def by (metis fst_conv snd_conv)

lemma safe_sret [simp, intro]: "safe env_ok (sret x)"
  by (simp add: safe_def)

lemma safe_pure: "(\<And>c. snd (f c) = c \<and> fst (f c) \<noteq> Inl OUT_OF_FUEL) \<Longrightarrow> safe env_ok f"
  by (rule safeI) (metis fst_conv snd_conv)

lemma safe_lift_res: "r \<noteq> Inl OUT_OF_FUEL \<Longrightarrow> safe env_ok (lift_res r)"
  by (rule safe_pure) simp

lemma safe_sbind [intro]: "safe env_ok f \<Longrightarrow> (\<And>x. safe env_ok (g x)) \<Longrightarrow> safe env_ok (sbind f g)"
  unfolding safe_def by blast

text \<open>An operation computes its command from the card it starts from.\<close>

lemma safe_start: "(\<And>d. safe env_ok (f d)) \<Longrightarrow> safe env_ok (\<lambda>c. f c c)"
  unfolding safe_def keeps_def by blast

lemma safe_if: "safe env_ok f \<Longrightarrow> safe env_ok g \<Longrightarrow> safe env_ok (\<lambda>c. if P c then f c else g c)"
  unfolding safe_def keeps_def by auto

lemma safe_const: "r \<noteq> Inl OUT_OF_FUEL \<Longrightarrow> safe env_ok (\<lambda>c. (r, c))"
  by (rule safe_pure) simp

lemma ebind_no_fuel: "r \<noteq> Inl OUT_OF_FUEL \<Longrightarrow> (\<And>x. f x \<noteq> Inl OUT_OF_FUEL) \<Longrightarrow> ebind r f \<noteq> Inl OUT_OF_FUEL"
  by (cases r) simp_all

lemma fixup_fields [simp]:
  "a_resp (iso7816_fixup_transceive_length c a) = a_resp a"
  "a_resplen (iso7816_fixup_transceive_length c a) = a_resplen a"
  "a_data (iso7816_fixup_transceive_length c a) = a_data a"
  "a_datalen (iso7816_fixup_transceive_length c a) = a_datalen a"
  "a_lc (iso7816_fixup_transceive_length c a) = a_lc a"
  by (simp_all add: iso7816_fixup_transceive_length_def Let_def)

lemma with_fields [simp]:
  "a_resp (with_response n buf a) = buf" "a_resplen (with_response n buf a) = n"
  "a_le (with_response n buf a) = n" "a_data (with_response n buf a) = a_data a"
  "a_resp (with_data n d a) = a_resp a" "a_resplen (with_data n d a) = a_resplen a"
  "a_data (with_data n d a) = d" "a_datalen (with_data n d a) = n" "a_lc (with_data n d a) = n"
  by (simp_all add: with_response_def with_data_def)

lemma format_fields [simp]:
  "a_resp (sc_format_apdu c cse ins p1 p2) = None" "a_resplen (sc_format_apdu c cse ins p1 p2) = 0"
  by (simp_all add: sc_format_apdu_def zero_apdu_def)

lemma sw2_fields [simp]:
  "a_sw2 (sc_format_apdu c cse ins p1 p2) = 0"
  "a_sw2 (with_response n buf a) = a_sw2 a" "a_sw2 (with_data n buf a) = a_sw2 a"
  "a_sw2 (iso7816_fixup_transceive_length c a) = a_sw2 a"
  by (simp_all add: sc_format_apdu_def zero_apdu_def with_response_def with_data_def
      iso7816_fixup_transceive_length_def Let_def)

text \<open>An APDU ready to be sent: the response fits its buffer, and the status is a byte.\<close>

definition room_ok :: "sc_apdu \<Rightarrow> bool" where
  "room_ok a \<longleftrightarrow> a_resplen a \<le> length (mem (a_resp a)) \<and> a_sw2 a < 256"

lemma room_ok_none [simp]: "a_resplen a = 0 \<Longrightarrow> a_sw2 a = 0 \<Longrightarrow> room_ok a"
  by (simp add: room_ok_def)

context transfer
begin

lemma exchange_result:
  assumes "room_ok a" and "env_ok (c_env c)" and "exchange ops a c = (r, c')"
  shows "env_ok (c_env c') \<and> c_lock_count c' = c_lock_count c \<and> r \<noteq> Inl OUT_OF_FUEL"
    and "r = Inr a' \<Longrightarrow> length (mem (a_resp a')) = length (mem (a_resp a)) \<and> a_resplen a' \<le> a_resplen a \<and>
      a_sw2 a' < 256"
proof -
  obtain q b d where run: "sc_transmit_apdu ops (a, c) = (q, (b, d))" by (metis prod.exhaust)
  have "xfer_inv env_ok (length (mem (a_resp a))) (a_resplen a) (c_lock_count c) (a, c)"
    using assms(1,2) by (simp add: xfer_inv_def room_ok_def)
  from keepsD [OF transmit_apdu_keeps this run]
  have "env_ok (c_env d)" "c_lock_count d = c_lock_count c" "q \<noteq> Inl OUT_OF_FUEL"
    "length (mem (a_resp b)) = length (mem (a_resp a))" "a_resplen b \<le> a_resplen a" "a_sw2 b < 256"
    by (auto simp: xfer_inv_def)
  with run assms(3) show "env_ok (c_env c') \<and> c_lock_count c' = c_lock_count c \<and> r \<noteq> Inl OUT_OF_FUEL"
    and "r = Inr a' \<Longrightarrow> length (mem (a_resp a')) = length (mem (a_resp a)) \<and> a_resplen a' \<le> a_resplen a \<and>
      a_sw2 a' < 256"
    by (auto simp: exchange_def split: sum.splits)
qed

lemma safe_exchange: "room_ok a \<Longrightarrow> safe env_ok (exchange ops a)"
  by (rule safeI) (rule exchange_result(1))

lemma checked_no_fuel: "checked ops a \<noteq> Inl OUT_OF_FUEL"
  unfolding checked_def by (rule ebind_no_fuel [OF check_sw_no_fuel]) simp

lemma safe_command: "room_ok a \<Longrightarrow> safe env_ok (command ops a)"
  unfolding command_def by (intro safe_sbind safe_exchange safe_lift_res checked_no_fuel)

lemma command_result:
  assumes "room_ok a" and "env_ok (c_env c)" and "command ops a c = (Inr a', c')"
  shows "length (mem (a_resp a')) = length (mem (a_resp a)) \<and> a_resplen a' \<le> a_resplen a"
proof -
  from assms(3) obtain b d where e: "exchange ops a c = (Inr b, d)" and b: "checked ops b = Inr a'"
    unfolding command_def by (auto elim: sbind_InrE)
  from b have "b = a'" by (auto simp: checked_def ebind_Inr_iff)
  with exchange_result(2) [OF assms(1,2) e] show ?thesis by blast
qed

lemma safe_exchange_op:
  "(\<And>c. room_ok (cmd c)) \<Longrightarrow> (\<And>a. safe env_ok (after a)) \<Longrightarrow>
   safe env_ok (\<lambda>c. sbind (exchange ops (cmd c)) after c)"
  by (rule safe_start [of env_ok "\<lambda>c. sbind (exchange ops (cmd c)) after"]) (intro safe_sbind safe_exchange)

lemma safe_command_op:
  "(\<And>c. room_ok (cmd c)) \<Longrightarrow> (\<And>a. safe env_ok (after a)) \<Longrightarrow>
   safe env_ok (\<lambda>c. sbind (command ops (cmd c)) after c)"
  by (rule safe_start [of env_ok "\<lambda>c. sbind (command ops (cmd c)) after"]) (intro safe_sbind safe_command)

lemma safe_lock_bracket: "safe env_ok f \<Longrightarrow> safe env_ok (bracket (sc_lock ops) (sc_unlock ops) f)"
proof -
  assume f: "safe env_ok f"
  have rel: "lock_reliable ops" using platform by (simp add: platform_ok_def)
  have "keeps (\<lambda>c. env_ok (c_env c) \<and> c_lock_count c = n) (bracket (sc_lock ops) (sc_unlock ops) f)" for n
    by (rule card_lock.bracket_keeps [OF rel lock_keeps_env])
      (use f in \<open>auto simp: safe_def card_inv_def [abs_def]\<close>)
  then show ?thesis by (simp add: safe_def card_inv_def [abs_def])
qed

text \<open>The operations.\<close>

lemma read_binary_safe:
  assumes "count \<le> length buf"
  shows "safe env_ok (iso7816_read_binary ops idx buf count)"
    and "fills env_ok buf count (iso7816_read_binary ops idx buf count)"
proof -
  define cmd where "cmd c = iso7816_fixup_transceive_length c (with_response count (Some buf)
    (sc_format_apdu c SC_APDU_CASE_2 0xB0 (offset_p1 idx) (offset_p2 idx)))" for c :: "('r, 'd) sc_card"
  have room: "room_ok (cmd c)" for c using assms by (simp add: room_ok_def cmd_def)
  let ?after = "\<lambda>a c. let r = sc_check_sw ops (a_sw1 a) (a_sw2 a) in
            if r = Inl SC_ERROR_FILE_END_REACHED \<or> r = Inl SC_ERROR_INCORRECT_PARAMETERS
            then (Inr (a_resplen a, mem (a_resp a)), c)
            else (ebind r (\<lambda>_. Inr (a_resplen a, mem (a_resp a))), c :: ('r, 'd) sc_card)"
  have eq: "iso7816_read_binary ops idx buf count = (\<lambda>c. if idx > 0x7FFF then (Inl SC_ERROR_OFFSET_TOO_LARGE, c)
      else sbind (exchange ops (cmd c)) ?after c)"
    by (rule ext) (simp add: iso7816_read_binary_def cmd_def)
  have after: "safe env_ok (?after a)" for a
    by (rule safe_pure) (simp add: Let_def ebind_no_fuel check_sw_no_fuel)
  show "safe env_ok (iso7816_read_binary ops idx buf count)"
    unfolding eq by (intro safe_if safe_const safe_exchange_op room after) simp
  show "fills env_ok buf count (iso7816_read_binary ops idx buf count)"
    unfolding fills_def
  proof (intro allI impI)
    fix c :: "('r, 'd) sc_card" and k b c' assume env: "env_ok (c_env c)" and "iso7816_read_binary ops idx buf count c = (Inr (k, b), c')"
    then obtain a d where e: "exchange ops (cmd c) c = (Inr a, d)" and "?after a d = (Inr (k, b), c')"
      unfolding eq by (auto split: if_splits elim: sbind_InrE)
    then have "k = a_resplen a" "b = mem (a_resp a)"
      by (auto simp: Let_def ebind_Inr_iff split: if_splits)
    with exchange_result(2) [OF room env e] show "k \<le> count \<and> length b = length buf"
      by (simp add: cmd_def)
  qed
qed

lemma send_binary_safe: "safe env_ok (send_binary ins ops idx buf count)"
  unfolding send_binary_def [abs_def] Let_def
  by (intro safe_if safe_const safe_command_op) simp_all

lemma get_challenge_safe:
  assumes "len \<le> length rnd"
  shows "safe env_ok (iso7816_get_challenge ops rnd len)"
    and "fills env_ok rnd len (iso7816_get_challenge ops rnd len)"
proof -
  show "safe env_ok (iso7816_get_challenge ops rnd len)"
    unfolding iso7816_get_challenge_def [abs_def] Let_def
    by (intro safe_command_op) (simp_all add: room_ok_def assms)
  show "fills env_ok rnd len (iso7816_get_challenge ops rnd len)"
    unfolding fills_def
  proof (intro allI impI)
    fix c :: "('r, 'd) sc_card" and k b c'
    let ?cmd = "with_response len (Some rnd) (sc_format_apdu c SC_APDU_CASE_2 0x84 0 0)"
    assume env: "env_ok (c_env c)" and "iso7816_get_challenge ops rnd len c = (Inr (k, b), c')"
    then obtain a d where e: "command ops ?cmd c = (Inr a, d)"
      and "k = (if len < a_resplen a then len else a_resplen a)" "b = mem (a_resp a)"
      unfolding iso7816_get_challenge_def Let_def by (auto elim: sbind_InrE)
    moreover have "room_ok ?cmd" using assms by (simp add: room_ok_def)
    ultimately show "k \<le> len \<and> length b = length rnd"
      using command_result [OF _ env e] by auto
  qed
qed

lemma get_data_safe:
  assumes "len \<le> length (mem buf)"
  shows "safe env_ok (iso7816_get_data ops tag buf len)"
  unfolding iso7816_get_data_def [abs_def] Let_def
  by (intro safe_command_op safe_if safe_const) (simp_all add: room_ok_def assms)

lemma delete_file_safe: "safe env_ok (iso7816_delete_file ops path)"
  unfolding iso7816_delete_file_def [abs_def] Let_def
  by (intro safe_if safe_const safe_command_op) simp_all

lemma set_env_command_safe: "safe env_ok (set_env_command ops p2 sbuf)"
  unfolding set_env_command_def [abs_def] Let_def
  by (intro safe_if safe_const safe_command_op) simp_all

lemma store_env_command_safe: "safe env_ok (store_env_command ops se_num)"
  unfolding store_env_command_def [abs_def]
  by (intro safe_command_op) simp_all

lemma set_security_env_safe: "safe env_ok (iso7816_set_security_env ops env se_num)"
proof -
  have "crt_template q \<noteq> Inl OUT_OF_FUEL" for q by (simp add: crt_template_def)
  moreover have "env_data env \<noteq> Inl OUT_OF_FUEL"
    unfolding env_data_def Let_def
    by (rule ebind_no_fuel) (simp_all add: env_file_ref_def env_key_ref_def Let_def)
  ultimately show ?thesis
    unfolding iso7816_set_security_env_def
    by (cases "se_num > 0")
      (simp_all, (intro safe_sbind safe_lift_res safe_lock_bracket set_env_command_safe store_env_command_safe; assumption)+)
qed

lemma restore_security_env_safe: "safe env_ok (iso7816_restore_security_env ops se_num)"
  unfolding iso7816_restore_security_env_def [abs_def]
  by (intro safe_command_op) simp_all

lemma operation_result_safe: "safe env_ok (operation_result ops a)"
  unfolding operation_result_def
  by (simp add: safe_lift_res ebind_no_fuel check_sw_no_fuel)

lemma compute_signature_safe:
  assumes "outlen \<le> length (mem out)"
  shows "safe env_ok (iso7816_compute_signature ops data datalen out outlen)"
  unfolding iso7816_compute_signature_def [abs_def] Let_def
  by (intro safe_if safe_const safe_exchange_op operation_result_safe) (simp_all add: room_ok_def assms)

lemma decipher_safe:
  assumes "outlen \<le> length (mem out)"
  shows "safe env_ok (iso7816_decipher malloc ops crgram crgram_len out outlen)"
proof (cases "crgram = None \<or> out = None \<or> malloc (crgram_len + 1) = None")
  case True
  then show ?thesis by (intro safe_pure) (auto simp: iso7816_decipher_def)
next
  case False
  let ?cmd = "\<lambda>c. iso7816_fixup_transceive_length c (with_data (crgram_len + 1) (Some (0 # take crgram_len (mem crgram)))
    (with_response outlen out (sc_format_apdu c SC_APDU_CASE_4 0x2A 0x80 0x86)))"
  have "iso7816_decipher malloc ops crgram crgram_len out outlen =
      (\<lambda>c. sbind (exchange ops (?cmd c)) (operation_result ops) c)"
    using False by (intro ext) (auto simp: iso7816_decipher_def)
  then show ?thesis
    using safe_exchange_op [of ?cmd, OF _ operation_result_safe] by (simp add: room_ok_def assms)
qed

end

context transfer
begin

lemma get_response_safe:
  assumes "count \<le> 256"
  shows "safe env_ok (iso7816_get_response ops count)"
    and "env_ok (c_env c) \<Longrightarrow> iso7816_get_response ops count c = (Inr (rv, d), c') \<Longrightarrow>
      (\<And>s2. sc_check_sw ops 0x61 s2 \<noteq> Inr ()) \<Longrightarrow> rv \<le> 256 \<and> (rv \<noteq> 0 \<longrightarrow> d \<noteq> [])"
proof -
  define rlen where "rlen c = (if count > sc_get_max_recv_size c then sc_get_max_recv_size c else count)"
    for c :: "('r, 'd) sc_card"
  define cmd where "cmd c = (with_response (rlen c) (Some (replicate 256 0)) (sc_format_apdu c SC_APDU_CASE_2 0xC0 0 0))
    \<lparr>a_flags := a_flags (with_response (rlen c) (Some (replicate 256 0)) (sc_format_apdu c SC_APDU_CASE_2 0xC0 0 0))
       OR SC_APDU_FLAGS_NO_GET_RESP\<rparr>" for c :: "('r, 'd) sc_card"
  have room: "room_ok (cmd c)" for c using assms by (simp add: room_ok_def cmd_def rlen_def)
  let ?after = "\<lambda>a (c :: ('r, 'd) sc_card). let check = sc_check_sw ops (a_sw1 a) (a_sw2 a) in
          if a_resplen a = 0 then (ebind check (\<lambda>_. Inr (0 :: nat, resp_data a)), c)
          else if a_sw1 a = 0x90 \<and> a_sw2 a = 0 then (Inr (0, resp_data a), c)
          else if a_sw1 a = 0x61 then (Inr (if a_sw2 a = 0 then 256 else unat (a_sw2 a), resp_data a), c)
          else if a_sw1 a = 0x62 \<and> a_sw2 a = 0x82 then (Inr (0, resp_data a), c)
          else (ebind check (\<lambda>_. Inr (0, resp_data a)), c)"
  have eq: "iso7816_get_response ops count = (\<lambda>c. sbind (exchange ops (cmd c)) ?after c)"
    by (rule ext) (simp add: iso7816_get_response_def cmd_def rlen_def Let_def)
  have after: "safe env_ok (?after a)" for a
    by (rule safe_pure) (simp add: Let_def ebind_no_fuel check_sw_no_fuel)
  show "safe env_ok (iso7816_get_response ops count)"
    unfolding eq by (intro safe_exchange_op room after)
  assume env: "env_ok (c_env c)" and run: "iso7816_get_response ops count c = (Inr (rv, d), c')"
    and more: "\<And>s2. sc_check_sw ops 0x61 s2 \<noteq> Inr ()"
  from run obtain a c1 where e: "exchange ops (cmd c) c = (Inr a, c1)" and aft: "?after a c1 = (Inr (rv, d), c')"
    unfolding eq by (auto elim: sbind_InrE)
  from exchange_result(2) [OF room env e] have sw2: "unat (a_sw2 a) < 256"
    and len: "length (mem (a_resp a)) = 256" "a_resplen a \<le> rlen c"
    by (simp_all add: word_less_nat_alt cmd_def)
  have d: "rv \<noteq> 0 \<Longrightarrow> a_resplen a \<noteq> 0 \<and> d = resp_data a \<and> rv = (if a_sw2 a = 0 then 256 else unat (a_sw2 a))"
    using aft by (auto simp: Let_def ebind_Inr_iff split: if_splits)
  show "rv \<le> 256 \<and> (rv \<noteq> 0 \<longrightarrow> d \<noteq> [])"
  proof (cases "rv = 0")
    case False
    from d [OF this] sw2 len(1) show ?thesis by (auto simp: resp_data_def)
  qed simp
qed

end

section \<open>The tables of operations\<close>

text \<open>The ISO 7816 driver on a PC/SC reader, in an application that registers no mutex functions;
  \<open>n\<close> bounds the attempts to reconnect inside one transmission.\<close>

definition pcsc_table ::
  "nat \<Rightarrow> (nat \<Rightarrow> bytes option) \<Rightarrow> 's pcsc_api \<Rightarrow> force_conf \<Rightarrow> ('s pcsc_reader, 'd) sc_ops" where
  "pcsc_table n malloc api conf =
    (let tx = pcsc_transmit (Suc n) malloc api conf in
     \<lparr>o_transmit = Some tx, o_reader_lock = Some (pcsc_lock api conf tx), o_reader_unlock = Some (pcsc_unlock api),
      o_mutex_lock = None, o_mutex_unlock = None, o_check_sw = Some iso7816_check_sw,
      o_get_response = None, o_card_reader_lock_obtained = None\<rparr>)"

definition iso_table ::
  "nat \<Rightarrow> (nat \<Rightarrow> bytes option) \<Rightarrow> 's pcsc_api \<Rightarrow> force_conf \<Rightarrow> ('s pcsc_reader, 'd) sc_ops" where
  "iso_table n malloc api conf =
    (pcsc_table n malloc api conf)\<lparr>o_get_response := Some (iso7816_get_response (pcsc_table n malloc api conf))\<rparr>"

lemma pcsc_table_simps [simp]:
  "o_transmit (pcsc_table n malloc api conf) = Some (pcsc_transmit (Suc n) malloc api conf)"
  "o_reader_lock (pcsc_table n malloc api conf) = Some (pcsc_lock api conf (pcsc_transmit (Suc n) malloc api conf))"
  "o_reader_unlock (pcsc_table n malloc api conf) = Some (pcsc_unlock api)"
  "o_mutex_lock (pcsc_table n malloc api conf) = None" "o_mutex_unlock (pcsc_table n malloc api conf) = None"
  "o_check_sw (pcsc_table n malloc api conf) = Some iso7816_check_sw"
  "o_get_response (pcsc_table n malloc api conf) = None"
  "o_card_reader_lock_obtained (pcsc_table n malloc api conf) = None"
  by (simp_all add: pcsc_table_def Let_def)

lemma iso_table_simps [simp]:
  "o_transmit (iso_table n malloc api conf) = Some (pcsc_transmit (Suc n) malloc api conf)"
  "o_reader_lock (iso_table n malloc api conf) = Some (pcsc_lock api conf (pcsc_transmit (Suc n) malloc api conf))"
  "o_reader_unlock (iso_table n malloc api conf) = Some (pcsc_unlock api)"
  "o_mutex_lock (iso_table n malloc api conf) = None" "o_mutex_unlock (iso_table n malloc api conf) = None"
  "o_check_sw (iso_table n malloc api conf) = Some iso7816_check_sw"
  "o_get_response (iso_table n malloc api conf) = Some (iso7816_get_response (pcsc_table n malloc api conf))"
  "o_card_reader_lock_obtained (iso_table n malloc api conf) = None"
  by (simp_all add: iso_table_def)

section \<open>The verdict on a status word\<close>

lemma iso7816_errors_known: "list_all (\<lambda>(w, e). e \<in> set all_errors) iso7816_errors"
  by code_simp

lemma table_error_known: "map_of iso7816_errors w = Some e \<Longrightarrow> e \<in> set all_errors"
  using iso7816_errors_known by (auto simp: list_all_iff dest: map_of_SomeD)

lemma pin_status_not_in_table: "list_all (\<lambda>(w, e). e \<noteq> SC_ERROR_PIN_CODE_INCORRECT) iso7816_errors"
  by code_simp

lemma table_not_pin: "map_of iso7816_errors w \<noteq> Some SC_ERROR_PIN_CODE_INCORRECT"
  using pin_status_not_in_table by (auto simp: list_all_iff dest: map_of_SomeD)

lemma check_sw_no_fuel_iso [simp]: "iso7816_check_sw s1 s2 \<noteq> Inl OUT_OF_FUEL"
proof -
  have "OUT_OF_FUEL \<notin> set all_errors" using all_errors_negative by fastforce
  then show ?thesis
    using table_error_known [of "push_bit 8 s1 OR s2"] by (auto simp: iso7816_check_sw_def split: option.splits)
qed

lemma check_sw_more_data: "iso7816_check_sw 0x61 s2 \<noteq> Inr ()"
  by (simp add: iso7816_check_sw_def split: option.split)

section \<open>The interface of the transfer, discharged\<close>

lemma pcsc_platform: "platform_ok no_escape (pcsc_table n malloc api conf)"
  unfolding platform_ok_def lock_reliable_def
  by (simp add: keeps_pcsc_lock keeps_pcsc_unlock)

interpretation level0: transfer "pcsc_transmit (Suc n) malloc api conf" no_escape "pcsc_table n malloc api conf"
  for n and malloc :: "nat \<Rightarrow> bytes option" and api :: "'s pcsc_api" and conf :: force_conf
  by unfold_locales (simp_all add: pcsc_platform)

lemma iso_get_response_ok: "get_response_ok no_escape (iso7816_get_response (pcsc_table n malloc api conf))"
  unfolding get_response_ok_def
proof (intro conjI allI impI)
  fix le k assume le: "(le :: nat) \<le> 256"
  show "keeps (\<lambda>c. no_escape (c_env c) \<and> c_lock_count c = k) (iso7816_get_response (pcsc_table n malloc api conf) le)"
    by (rule level0.get_response_safe(1) [OF le, unfolded safe_def card_inv_def [abs_def], rule_format])
  fix c rv d c'
  assume "no_escape (c_env c)" "iso7816_get_response (pcsc_table n malloc api conf) le c = (Inr (rv, d), c')"
  from level0.get_response_safe(2) [OF le this]
  show "rv \<le> 256" "rv \<noteq> 0 \<Longrightarrow> d \<noteq> []"
    by (simp_all add: sc_check_sw_def check_sw_more_data)
qed

lemma iso_platform: "platform_ok no_escape (iso_table n malloc api conf)"
  using pcsc_platform [of n malloc api conf] iso_get_response_ok
  unfolding platform_ok_def lock_reliable_def by simp

interpretation iso: transfer "pcsc_transmit (Suc n) malloc api conf" no_escape "iso_table n malloc api conf"
  for n and malloc :: "nat \<Rightarrow> bytes option" and api :: "'s pcsc_api" and conf :: force_conf
  by unfold_locales (simp_all add: iso_platform)

section \<open>Properties\<close>

text \<open>C29: The verdict on a status word: only \<open>9000\<close> is success, only \<open>63Cx\<close> is a wrong PIN, and
  every other status, also one the table does not know, is one of the library's error codes.\<close>
theorem check_sw_verdict:
  "(iso7816_check_sw sw1 sw2 = Inr () \<longleftrightarrow> sw1 = 0x90 \<and> sw2 = 0) \<and>
   (iso7816_check_sw sw1 sw2 = Inl SC_ERROR_PIN_CODE_INCORRECT \<longleftrightarrow> sw1 = 0x63 \<and> sw2 AND NOT 0x0f = 0xc0) \<and>
   (case iso7816_check_sw sw1 sw2 of Inl e \<Rightarrow> e \<in> set all_errors | Inr _ \<Rightarrow> True)"
proof -
  have known: "SC_ERROR_WRONG_LENGTH \<in> set all_errors" "SC_ERROR_PIN_CODE_INCORRECT \<in> set all_errors"
    "SC_ERROR_CARD_CMD_FAILED \<in> set all_errors"
    by (simp_all add: all_errors_def)
  show ?thesis
    using known table_error_known [of "push_bit 8 sw1 OR sw2"] table_not_pin [of "push_bit 8 sw1 OR sw2"]
    by (auto simp del: insert_iff simp: iso7816_check_sw_def split: option.split if_splits)
qed

lemma pcsc_request_stable: "request_stable (pcsc_transmit (Suc n) malloc api conf)"
  unfolding request_stable_def
proof (intro allI impI)
  fix a e r a' e'
  assume "pcsc_transmit (Suc n) malloc api conf (a, e) = (r, (a', e'))"
  then have "a' = a \<or> (\<exists>buf. sc_apdu_set_resp a buf = Inr a')"
    by (auto simp: transmit_step_def Let_def split: option.splits sum.splits prod.splits)
  then show "same_request a' a" using set_resp_contract(1) by auto
qed

lemma lock_cong:
  assumes "o_reader_lock ops = o_reader_lock ops'" "o_reader_unlock ops = o_reader_unlock ops'"
    "o_mutex_lock ops = o_mutex_lock ops'" "o_mutex_unlock ops = o_mutex_unlock ops'"
    "o_card_reader_lock_obtained ops = o_card_reader_lock_obtained ops'"
  shows "sc_lock ops = sc_lock ops'" "sc_unlock ops = sc_unlock ops'"
proof -
  have m: "sc_mutex_lock ops = sc_mutex_lock ops'" "sc_mutex_unlock ops = sc_mutex_unlock ops'"
    by (simp_all add: sc_mutex_lock_def sc_mutex_unlock_def assms)
  have "acquire_reader ops = acquire_reader ops'"
    by (rule ext) (simp only: acquire_reader_def assms)
  with m show "sc_lock ops = sc_lock ops'" "sc_unlock ops = sc_unlock ops'"
    by (rule_tac [!] ext) (simp_all only: sc_lock_def sc_unlock_def assms)
qed

lemma transmit_apdu_no_get_response:
  assumes tx: "o_transmit ops = Some tx" and st: "request_stable tx"
    and fl: "has_flag a SC_APDU_FLAGS_NO_GET_RESP" and ch: "\<not> chaining a"
    and same: "ops' = ops\<lparr>o_get_response := g\<rparr>"
  shows "sc_transmit_apdu ops' (a, c) = sc_transmit_apdu ops (a, c)"
proof -
  define b where "b = sc_detect_apdu_cse (c_caps c) a"
  have b: "has_flag b SC_APDU_FLAGS_NO_GET_RESP" "\<not> chaining b"
    using fl ch by (simp_all add: b_def has_flag_def)
  have lock: "sc_lock ops' = sc_lock ops" "sc_unlock ops' = sc_unlock ops"
    by (rule lock_cong; simp add: same)+
  have o: "o_card_reader_lock_obtained ops' = o_card_reader_lock_obtained ops" "o_transmit ops' = o_transmit ops"
    by (simp_all add: same)
  have body: "transmit_body ops' (b, d) = transmit_body ops (b, d)" for d
    unfolding transmit_body_def o(1) prod.case transmit_no_get_response [OF tx st b(1) o(2)]
    using b(2) by simp
  obtain r d where l: "sc_lock ops c = (r, d)" by (cases "sc_lock ops c")
  have "bracket (on_card (sc_lock ops')) (on_card (sc_unlock ops')) (transmit_body ops') (b, c) =
      bracket (on_card (sc_lock ops)) (on_card (sc_unlock ops)) (transmit_body ops) (b, c)"
    by (simp add: bracket_def on_card_def lock l body split: sum.split)
  then show ?thesis
    unfolding sc_transmit_apdu_def prod.case Let_def b_def by (simp only:)
qed

lemma exchange_no_get_response:
  "a_flags a = SC_APDU_FLAGS_NO_GET_RESP \<Longrightarrow>
   exchange (iso_table n malloc api conf) a c = exchange (pcsc_table n malloc api conf) a c"
  unfolding exchange_def iso_table_def
  by (subst transmit_apdu_no_get_response [OF _ pcsc_request_stable _ _ refl])
    (simp_all add: has_flag_def chaining_def)

text \<open>The driver's GET RESPONSE is the one of its own table. The transfer calls it through the
  table, and it transmits through the same table; since its command forbids a nested GET
  RESPONSE, running it over the table without that entry makes no difference.\<close>
theorem get_response_is_table_entry:
  "o_get_response (iso_table n malloc api conf) = Some (iso7816_get_response (iso_table n malloc api conf))"
  by (simp add: fun_eq_iff iso7816_get_response_def sbind_def sc_check_sw_def with_response_def
      sc_format_apdu_def zero_apdu_def Let_def exchange_no_get_response)

text \<open>C5: A command sent through the whole stack, the transfer over the ISO 7816 driver's table on the
  PC/SC reader: whatever the card answers, nothing is written outside the response buffer, the
  reported length stays within the room the caller gave, the lock is as before, and the
  transfer ends: no loop runs out of its fuel.\<close>
theorem transfer_safe:
  assumes "no_escape (c_env c)" and "a_resplen a \<le> length (mem (a_resp a))" and "a_sw2 a < 256"
    and "sc_transmit_apdu (iso_table n malloc api conf) (a, c) = (r, (a', c'))"
  shows "length (mem (a_resp a')) = length (mem (a_resp a)) \<and> a_resplen a' \<le> a_resplen a \<and>
    c_lock_count c' = c_lock_count c \<and> r \<noteq> Inl OUT_OF_FUEL"
proof -
  have "xfer_inv no_escape (length (mem (a_resp a))) (a_resplen a) (c_lock_count c) (a, c)"
    using assms(1-3) by (simp add: xfer_inv_def)
  from keepsD [OF iso.transmit_apdu_keeps this assms(4)] show ?thesis by (auto simp: xfer_inv_def)
qed

definition demo_table :: "(nat pcsc_reader, unit) sc_ops" where
  "demo_table = iso_table 0 (\<lambda>n. Some (replicate n 0)) demo_api no_force"

definition demo_read :: sc_apdu where
  "demo_read = with_response 16 (Some (replicate 16 0)) (sc_format_apdu (plain_card demo_reader) SC_APDU_CASE_2 0xB0 0 0)"

theorem transfer_safe_witness:
  "case sc_transmit_apdu demo_table (demo_read, plain_card demo_reader) of
    (r, (a, c)) \<Rightarrow> length (mem (a_resp a)) = 16 \<and> a_resplen a \<le> 16 \<and> c_lock_count c = 0 \<and> r \<noteq> Inl OUT_OF_FUEL"
proof -
  obtain r a c where run: "sc_transmit_apdu demo_table (demo_read, plain_card demo_reader) = (r, (a, c))"
    by (metis prod.exhaust)
  have e: "no_escape (c_env (plain_card demo_reader))"
    by (simp add: no_escape_def demo_reader_def plain_card_def)
  have m: "a_resplen demo_read \<le> length (mem (a_resp demo_read))" "a_sw2 demo_read < 256"
    by (simp_all add: demo_read_def)
  have "length (mem (a_resp a)) = 16 \<and> a_resplen a \<le> 16 \<and> c_lock_count c = 0 \<and> r \<noteq> Inl OUT_OF_FUEL"
    using transfer_safe [OF e m run [unfolded demo_table_def]] by (simp add: demo_read_def plain_card_def)
  with run show ?thesis by simp
qed

end
