(* ===== verification/Sc_Fci.thy ===== *)
theory Sc_Fci
  imports Sc_Iso7816 Sc_File Sc_Tlv
begin

text \<open>
  The file control information a card returns when a file is selected, and the selection and
  creation of files (\<open>libopensc/iso7816.c\<close>).

  \<open>iso7816_process_fci\<close> reads a list of elements into a file object and follows nested
  templates; it is total because every element and every template is shorter than the data it
  is in. \<open>iso7816_construct_fci\<close> is its counterpart for the creation of a file.
  \<open>iso7816_select_file\<close> takes the table's \<open>process_fci\<close> as an argument, since a driver may
  replace it; \<open>alloc n\<close> says whether an allocation of \<open>n\<close> bytes succeeds.
\<close>

abbreviation (input) SC_FILE_TYPE_UNKNOWN :: u32 where "SC_FILE_TYPE_UNKNOWN \<equiv> 0x00"
abbreviation (input) SC_FILE_TYPE_DF :: u32 where "SC_FILE_TYPE_DF \<equiv> 0x04"
abbreviation (input) SC_FILE_TYPE_INTERNAL_EF :: u32 where "SC_FILE_TYPE_INTERNAL_EF \<equiv> 0x03"
abbreviation (input) SC_FILE_TYPE_WORKING_EF :: u32 where "SC_FILE_TYPE_WORKING_EF \<equiv> 0x01"
abbreviation (input) SC_FILE_STATUS_UNKNOWN :: u32 where "SC_FILE_STATUS_UNKNOWN \<equiv> 0xff"
abbreviation (input) SC_FILE_STATUS_PROPRIETARY :: u32 where "SC_FILE_STATUS_PROPRIETARY \<equiv> 0xf0"
abbreviation (input) MAX_FILE_SIZE :: nat where "MAX_FILE_SIZE \<equiv> 65535"

section \<open>The elements\<close>

text \<open>Tags \<open>80\<close> and \<open>81\<close>: a size that does not fit in a \<open>size_t\<close> counts as 0.\<close>

definition fci_size :: "bytes \<Rightarrow> nat" where
  "fci_size p = (if length p \<le> 8 then (if be_nat p > MAX_FILE_SIZE then MAX_FILE_SIZE else be_nat p) else 0)"

text \<open>Tag \<open>82\<close>, the file descriptor.\<close>

definition fci_type :: "u8 \<Rightarrow> u32" where
  "fci_type byte =
    (let k = drop_bit 3 byte AND 7 in
     if k = 0 then SC_FILE_TYPE_WORKING_EF
     else if k = 1 then SC_FILE_TYPE_INTERNAL_EF
     else if k = 7 then SC_FILE_TYPE_DF
     else SC_FILE_TYPE_UNKNOWN)"

definition fci_records :: "bytes \<Rightarrow> sc_file \<Rightarrow> sc_file" where
  "fci_records p file =
    (let byte = p ! 0;
         file = (if length p > 2 \<and> byte AND 0x06 \<noteq> 0
                 then file\<lparr>f_record_length :=
                        (if length p > 3 then unat (bebytes2ushort (drop 2 p)) else unat (p ! 2))\<rparr>
                 else file)
     in if length p > 4
        then file\<lparr>f_record_count := (if length p > 5 then unat (bebytes2ushort (drop 4 p)) else unat (p ! 4))\<rparr>
        else file)"

definition fci_descriptor :: "(nat \<Rightarrow> bool) \<Rightarrow> bytes \<Rightarrow> sc_file \<Rightarrow> sc_file" where
  "fci_descriptor alloc p file =
    (if p = [] then file
     else
       let byte = p ! 0;
           file = file\<lparr>f_shareable := (if byte AND 0x40 \<noteq> 0 then 1 else 0),
                       f_ef_structure := ucast (byte AND 0x07), f_type := fci_type byte\<rparr>;
           file = (if f_type file \<noteq> SC_FILE_TYPE_DF then fci_records p file else file)
       in snd (sc_file_set_type_attr alloc file (Some p)))"

text \<open>Tag \<open>8A\<close>, the life cycle status.\<close>

definition fci_status :: "u8 \<Rightarrow> u32" where
  "fci_status b =
    (if b = 0 then 0x04
     else if b = 1 then 0x02
     else if b = 3 then 0x03
     else if b = 4 \<or> b = 6 then 0x01
     else if b = 5 \<or> b = 7 then 0x00
     else if b = 12 \<or> b = 13 \<or> b = 14 \<or> b = 15 then 0x0c
     else if b = 2 then 0x07
     else if b = 8 then 0x08
     else if b = 9 then 0x09
     else if b = 10 then 0x0a
     else if b = 11 then 0x0b
     else SC_FILE_STATUS_PROPRIETARY)"

text \<open>One element other than a template.\<close>

definition fci_element :: "(nat \<Rightarrow> bool) \<Rightarrow> u32 \<Rightarrow> bytes \<Rightarrow> sc_file \<Rightarrow> sc_file" where
  "fci_element alloc tag p file =
    (if tag = 0x81 then (if f_size file \<noteq> 0 then file else file\<lparr>f_size := fci_size p\<rparr>)
     else if tag = 0x80 then file\<lparr>f_size := fci_size p\<rparr>
     else if tag = 0x82 then fci_descriptor alloc p file
     else if tag = 0x83 then
       (if length p = 2 then file\<lparr>f_id := int (unat (p ! 0) * 256 + unat (p ! 1))\<rparr> else file)
     else if tag = 0x84 then
       (if p \<noteq> [] \<and> length p \<le> 16
        then file\<lparr>f_name := p, f_type := (if f_type file = 0 then SC_FILE_TYPE_DF else f_type file)\<rparr>
        else file)
     else if tag = 0x85 \<or> tag = 0xA5 then snd (sc_file_set_prop_attr alloc file (Some p))
     else if tag = 0x86 then snd (sc_file_set_sec_attr alloc file (Some p))
     else if tag = 0x88 then (if length p = 1 then file\<lparr>f_sid := int (unat (p ! 0))\<rparr> else file)
     else if tag = 0x8A then (if length p = 1 then file\<lparr>f_status := fci_status (p ! 0)\<rparr> else file)
     else file)"

section \<open>The list of elements\<close>

definition template_tag :: "u32 \<Rightarrow> bool" where
  "template_tag t \<longleftrightarrow> t = 0x62 \<or> t = 0x64 \<or> t = 0x6F"

text \<open>\<open>fci_loop\<close> is the loop over the elements of one list; \<open>iso7816_process_fci\<close> first resets
  the status, also for a nested template.\<close>

function fci_loop :: "(nat \<Rightarrow> bool) \<Rightarrow> bytes \<Rightarrow> sc_file \<Rightarrow> sc_file" where
  "fci_loop alloc buf file =
    (case sc_asn1_read_tag buf of
       Tag_read cla tag len p \<Rightarrow>
         let v = take len p;
             file = (if template_tag (cla OR tag)
                     then fci_loop alloc v (file\<lparr>f_status := SC_FILE_STATUS_UNKNOWN\<rparr>)
                     else fci_element alloc (cla OR tag) v file)
         in fci_loop alloc (drop len p) file
     | _ \<Rightarrow> file)"
  by pat_completeness auto

termination
  by (relation "measure (\<lambda>(_, buf, _). length buf)") (auto dest: read_tag_shorter)

declare fci_loop.simps [simp del]

definition iso7816_process_fci :: "(nat \<Rightarrow> bool) \<Rightarrow> sc_file \<Rightarrow> bytes \<Rightarrow> sc_file" where
  "iso7816_process_fci alloc file buf = fci_loop alloc buf (file\<lparr>f_status := SC_FILE_STATUS_UNKNOWN\<rparr>)"

section \<open>Construction\<close>

text \<open>The bytes after \<open>out\<close> so far, with the next element: the source ignores the result of
  \<open>sc_asn1_put_tag\<close>, so an element that does not fit is left out.\<close>

definition put :: "u32 \<Rightarrow> bytes \<Rightarrow> nat \<Rightarrow> bytes \<Rightarrow> bytes" where
  "put tag v outlen p = p @ snd (sc_asn1_put_tag tag (Some v) (length v) (outlen - length p))"

definition put_attr :: "u32 \<Rightarrow> bytes option \<Rightarrow> nat \<Rightarrow> bytes \<Rightarrow> bytes res" where
  "put_attr tag v outlen p =
    (if mem v = [] then Inr p
     else if 64 < length (mem v) then Inl SC_ERROR_INTERNAL
     else Inr (put tag (mem v) outlen p))"

definition type_byte :: "sc_file \<Rightarrow> u8 res" where
  "type_byte file =
    (let b = (if f_shareable file \<noteq> 0 then 0x40 else 0); s = ucast (f_ef_structure file AND 7) in
     if f_type file = SC_FILE_TYPE_INTERNAL_EF then Inr (b OR 0x08 OR s)
     else if f_type file = SC_FILE_TYPE_WORKING_EF then Inr (b OR s)
     else if f_type file = SC_FILE_TYPE_DF then Inr (b OR 0x38)
     else Inl SC_ERROR_NOT_SUPPORTED)"

definition put_type :: "sc_file \<Rightarrow> nat \<Rightarrow> bytes \<Rightarrow> bytes res" where
  "put_type file outlen p =
    (if mem (f_type_attr file) \<noteq> [] then put_attr 0x82 (f_type_attr file) outlen p
     else ebind (type_byte file) (\<lambda>b. Inr (put 0x82 [b] outlen p)))"

definition iso7816_construct_fci :: "sc_file \<Rightarrow> nat \<Rightarrow> bytes res" where
  "iso7816_construct_fci file outlen =
    (if outlen < 2 then Inl SC_ERROR_BUFFER_TOO_SMALL
     else
       let p = put 0x81 [of_nat (f_size file div 256), of_nat (f_size file)] outlen [0x6F, 0] in
       ebind (put_type file outlen p) (\<lambda>p.
       let p = put 0x83 [word_of_int (f_id file div 256), word_of_int (f_id file)] outlen p in
       ebind (put_attr 0x85 (f_prop_attr file) outlen p) (\<lambda>p.
       ebind (put_attr 0x86 (f_sec_attr file) outlen p) (\<lambda>p.
       Inr (p[1 := of_nat (length p - 2)])))))"

section \<open>Creation and selection of files\<close>

text \<open>\<open>construct\<close> is the table's \<open>construct_fci\<close>.\<close>

definition iso7816_create_file ::
  "('r, 'd) sc_ops \<Rightarrow> (sc_file \<Rightarrow> nat \<Rightarrow> bytes res) option \<Rightarrow> sc_file \<Rightarrow> (('r, 'd) sc_card, unit) prog" where
  "iso7816_create_file ops construct file c =
    (case construct of
       None \<Rightarrow> (Inl SC_ERROR_NOT_SUPPORTED, c)
     | Some f \<Rightarrow>
        (case f file SC_MAX_APDU_BUFFER_SIZE of
           Inl e \<Rightarrow> (Inl e, c)
         | Inr sbuf \<Rightarrow>
            sbind (command ops (with_data (length sbuf) (Some sbuf) (sc_format_apdu c SC_APDU_CASE_3_SHORT 0xE0 0 0)))
              (\<lambda>_. sret ()) c))"

text \<open>The first step: a path that names an application and a file below it selects the
  application first. The value is the path that is left and its type.\<close>

definition select_application :: "('r, 'd) sc_ops \<Rightarrow> sc_path \<Rightarrow> (('r, 'd) sc_card, int \<times> bytes) prog" where
  "select_application ops in_path c =
    (if p_aid in_path = [] then (Inr (p_type in_path, p_value in_path), c)
     else if p_value in_path = [] then (Inr (SC_PATH_TYPE_DF_NAME, p_aid in_path), c)
     else
       sbind (command ops (with_data (length (p_aid in_path)) (Some (p_aid in_path))
                (sc_format_apdu c SC_APDU_CASE_3_SHORT 0xA4 4 0)))
         (\<lambda>_. sret (if p_type in_path = SC_PATH_TYPE_PATH \<or> p_type in_path = SC_PATH_TYPE_DF_NAME
                     then SC_PATH_TYPE_FROM_CURRENT else p_type in_path, p_value in_path)) c)"

text \<open>The parameters of the command: P1, the case, whether the master file is selected, the data.\<close>

definition select_params :: "int \<Rightarrow> bytes \<Rightarrow> (u8 \<times> u32 \<times> bool \<times> bytes) res" where
  "select_params pathtype path =
    (if pathtype = SC_PATH_TYPE_FILE_ID then
       (if length path \<noteq> 2 then Inl SC_ERROR_INVALID_ARGUMENTS else Inr (0, SC_APDU_CASE_4_SHORT, False, path))
     else if pathtype = SC_PATH_TYPE_DF_NAME then Inr (4, SC_APDU_CASE_4_SHORT, False, path)
     else if pathtype = SC_PATH_TYPE_PATH then
       (if length path \<ge> 2 \<and> take 2 path = [0x3F, 0x00] then
          (if length path = 2 then Inr (0, SC_APDU_CASE_4_SHORT, True, path)
           else Inr (8, SC_APDU_CASE_4_SHORT, False, drop 2 path))
        else Inr (8, SC_APDU_CASE_4_SHORT, False, path))
     else if pathtype = SC_PATH_TYPE_FROM_CURRENT then Inr (9, SC_APDU_CASE_4_SHORT, False, path)
     else if pathtype = SC_PATH_TYPE_PARENT then Inr (3, SC_APDU_CASE_2_SHORT, False, [])
     else Inl SC_ERROR_INVALID_ARGUMENTS)"

definition select_apdu :: "('r, 'd) sc_card \<Rightarrow> bool \<Rightarrow> u8 \<Rightarrow> u32 \<Rightarrow> bytes \<Rightarrow> sc_apdu" where
  "select_apdu c want p1 cse path =
    (let a = with_data (length path) (Some path) (sc_format_apdu c cse 0xA4 p1 0) in
     if want then
       a\<lparr>a_p2 := 0, a_resp := Some (replicate SC_MAX_APDU_BUFFER_SIZE 0), a_resplen := SC_MAX_APDU_BUFFER_SIZE,
         a_le := (if sc_get_max_recv_size c < 256 then sc_get_max_recv_size c else 256)\<rparr>
     else a\<lparr>a_p2 := 0x0C, a_cse := (if length path = 0 then SC_APDU_CASE_1 else SC_APDU_CASE_3_SHORT)\<rparr>)"

text \<open>Without a file object to fill: some cards only accept the request for the FCI.\<close>

definition select_quietly :: "('r, 'd) sc_ops \<Rightarrow> sc_apdu \<Rightarrow> (('r, 'd) sc_card, unit) prog" where
  "select_quietly ops a c =
    (case sc_transmit_apdu ops (a, c) of
       (Inl e, (a, c)) \<Rightarrow> (Inl e, c)
     | (Inr _, (a, c)) \<Rightarrow>
        let r = sc_check_sw ops (a_sw1 a) (a_sw2 a);
            (r, (a, c)) =
              (if a_sw1 a = 0x6A \<and> a_sw2 a = 0x86 then
                 let (q, (a, c)) = sc_transmit_apdu ops (a\<lparr>a_p2 := 0\<rparr>, c)
                 in ((if q = Inr () then sc_check_sw ops (a_sw1 a) (a_sw2 a) else r), (a, c))
               else (r, (a, c)))
        in if a_sw1 a = 0x61 then (Inr (), c) else (r, c))"

text \<open>With one: what the answer \<open>a\<close> is made into.\<close>

definition selected_file ::
  "(nat \<Rightarrow> bool) \<Rightarrow> (sc_file \<Rightarrow> bytes \<Rightarrow> sc_file) option \<Rightarrow> sc_path \<Rightarrow> bool \<Rightarrow> sc_apdu \<Rightarrow> sc_file res" where
  "selected_file alloc process in_path bare a =
    (let new = (\<lambda>k. case sc_file_new alloc of
                      None \<Rightarrow> Inl SC_ERROR_OUT_OF_MEMORY | Some f \<Rightarrow> k (f\<lparr>f_path := in_path\<rparr>));
         resp = resp_data a
     in if a_resplen a = 0 \<and> bare then new Inr
        else if a_resplen a < 2 then Inl SC_ERROR_UNKNOWN_DATA_RECEIVED
        else if resp ! 0 = 0x6F \<or> resp ! 0 = 0x62 then
          new (\<lambda>file. case process of
              None \<Rightarrow> Inl SC_ERROR_NOT_SUPPORTED
            | Some pf \<Rightarrow>
               (case sc_asn1_read_tag resp of
                  Tag_read cla tag len p \<Rightarrow> Inr (pf file (take len p))
                | _ \<Rightarrow> Inr file))
        else Inl SC_ERROR_UNKNOWN_DATA_RECEIVED)"

definition iso7816_select_file ::
  "(nat \<Rightarrow> bool) \<Rightarrow> ('r, 'd) sc_ops \<Rightarrow> (sc_file \<Rightarrow> bytes \<Rightarrow> sc_file) option \<Rightarrow> sc_path \<Rightarrow> bool \<Rightarrow>
   (('r, 'd) sc_card, sc_file option) prog" where
  "iso7816_select_file alloc ops process in_path want =
     sbind (select_application ops in_path) (\<lambda>(pathtype, path) c.
       case select_params pathtype path of
         Inl e \<Rightarrow> (Inl e, c)
       | Inr (p1, cse, select_mf, path) \<Rightarrow>
           let a = select_apdu c want p1 cse path in
           if want then
             sbind (command ops a) (\<lambda>a.
               lift_res (ebind (selected_file alloc process in_path
                                  (select_mf \<or> pathtype = SC_PATH_TYPE_DF_NAME) a) (\<lambda>f. Inr (Some f)))) c
           else sbind (select_quietly ops a) (\<lambda>_. sret None) c)"

section \<open>Reading a list of elements\<close>

text \<open>A tag of one byte, which is what the file control information uses.\<close>

definition byte_tag :: "u8 \<Rightarrow> bool" where
  "byte_tag b \<longleftrightarrow> b \<noteq> 0xFF \<and> b \<noteq> 0 \<and> b AND 0x1F \<noteq> 0x1F"

lemma byte_tag_chars:
  assumes "byte_tag b"
  shows "tag_chars (ucast b) = [b]"
proof -
  have rt: "ucast (ucast b :: u32) = b" by (rule bit_word_eqI) (simp add: bit_simps)
  have nz: "(ucast b :: u32) \<noteq> 0"
  proof
    assume "(ucast b :: u32) = 0"
    then have "ucast (ucast b :: u32) = (0 :: u8)" by simp
    with rt assms show False by (simp add: byte_tag_def)
  qed
  have "drop_bit 8 (ucast b :: u32) = 0"
    by (rule bit_word_eqI) (auto simp: bit_simps dest: bit_imp_le_length)
  with tag_chars_nz [OF nz] rt show ?thesis by simp
qed

lemma byte_tag_readable: "byte_tag b \<Longrightarrow> readable_tag (ucast b)"
  using byte_tag_chars [of b] tag_chars_eq_Nil [of "ucast b"]
  by (auto simp: readable_tag_def tag_chars_ok_def byte_tag_def)

lemma byte_tag_value:
  "byte_tag b \<Longrightarrow> tag_class (rev (tag_chars (ucast b))) OR tag_number (rev (tag_chars (ucast b))) = ucast b"
  using first_byte [of b] by (simp add: byte_tag_chars tag_class_def tag_number_def or.commute)

lemma fci_loop_Nil [simp]: "fci_loop alloc [] file = file"
  by (subst fci_loop.simps) (simp add: sc_asn1_read_tag_def)

lemma fci_loop_element:
  assumes "byte_tag b" and "length v < 2 ^ 32"
  shows "fci_loop alloc (element (ucast b) v @ rest) file =
    fci_loop alloc rest
      (if template_tag (ucast b) then fci_loop alloc v (file\<lparr>f_status := SC_FILE_STATUS_UNKNOWN\<rparr>)
       else fci_element alloc (ucast b) v file)"
  by (subst fci_loop.simps)
    (simp add: read_element [OF byte_tag_readable [OF assms(1)] assms(2)] byte_tag_value [OF assms(1)])

text \<open>What every element leaves alone.\<close>

lemma records_path [simp]: "f_path (fci_records p file) = f_path file"
  by (simp add: fci_records_def Let_def)

lemma set_attr_path [simp]:
  "f_path (snd (sc_file_set_type_attr alloc file v)) = f_path file"
  "f_path (snd (sc_file_set_prop_attr alloc file v)) = f_path file"
  "f_path (snd (sc_file_set_sec_attr alloc file v)) = f_path file"
  by (simp_all add: sc_file_set_type_attr_def sc_file_set_prop_attr_def sc_file_set_sec_attr_def split_beta Let_def)

lemma element_path [simp]: "f_path (fci_element alloc t p file) = f_path file"
  by (simp add: fci_element_def fci_descriptor_def Let_def)

lemma loop_path [simp]: "f_path (fci_loop alloc buf f) = f_path f"
proof (induction alloc buf f rule: fci_loop.induct)
  case (1 alloc buf f)
  show ?case
  proof (cases "sc_asn1_read_tag buf")
    case (Tag_read cla tag len p)
    then show ?thesis
      using "1.IH"(1) [OF Tag_read refl] "1.IH"(2) [OF Tag_read refl refl]
      by (subst fci_loop.simps) (simp add: Let_def)
  qed (subst fci_loop.simps, simp)+
qed

lemma process_path [simp]: "f_path (iso7816_process_fci alloc file buf) = f_path file"
  by (simp add: iso7816_process_fci_def)

section \<open>Construction\<close>

lemma put_element:
  assumes "byte_tag b" and "length p + length (element (ucast b) v) \<le> outlen"
  shows "put (ucast b) v outlen p = p @ element (ucast b) v"
  using put_tag_element [OF byte_tag_readable [OF assms(1)], of v "outlen - length p"] assms(2)
  by (simp add: put_def)

lemma short_element: "byte_tag b \<Longrightarrow> length v < 128 \<Longrightarrow> length (element (ucast b) v) = 2 + length v"
  by (simp add: element_def byte_tag_chars len_size_def)

lemma put_prefix: "\<exists>q. put tag v outlen p = p @ q"
  by (simp add: put_def)

lemma put_attr_prefix: "put_attr tag v outlen p = Inr q \<Longrightarrow> \<exists>r. q = p @ r"
  using put_prefix by (fastforce simp: put_attr_def split: if_splits)

lemma put_type_prefix: "put_type file outlen p = Inr q \<Longrightarrow> \<exists>r. q = p @ r"
  using put_prefix put_attr_prefix by (fastforce simp: put_type_def ebind_Inr_iff split: if_splits)

text \<open>The template's header: its length is always one byte.\<close>

lemma construct_header:
  assumes "iso7816_construct_fci file outlen = Inr bs"
  shows "\<exists>v. bs = 0x6F # of_nat (length v) # v"
proof -
  obtain q0 where q0: "put 0x81 [of_nat (f_size file div 256), of_nat (f_size file)] outlen [0x6F, 0] = [0x6F, 0] @ q0"
    using put_prefix by blast
  from assms q0 obtain p1 p2 p3 where
    p1: "put_type file outlen ([0x6F, 0] @ q0) = Inr p1" and
    p2: "put_attr 0x85 (f_prop_attr file) outlen
           (put 0x83 [word_of_int (f_id file div 256), word_of_int (f_id file)] outlen p1) = Inr p2" and
    p3: "put_attr 0x86 (f_sec_attr file) outlen p2 = Inr p3" and
    bs: "bs = p3[1 := of_nat (length p3 - 2)]"
    unfolding iso7816_construct_fci_def Let_def by (auto simp: ebind_Inr_iff split: if_splits)
  obtain v where "p3 = [0x6F, 0] @ v"
    using put_type_prefix [OF p1] put_attr_prefix [OF p2] put_attr_prefix [OF p3]
      put_prefix [of "0x83" "[word_of_int (f_id file div 256), word_of_int (f_id file)]" outlen p1] by auto
  with bs show ?thesis by simp
qed

section \<open>Construction and reading\<close>

definition opt_element :: "u8 \<Rightarrow> bytes option \<Rightarrow> bytes" where
  "opt_element b a = (if mem a = [] then [] else element (ucast b) (mem a))"

lemma opt_element_length: "byte_tag b \<Longrightarrow> length (mem a) \<le> 64 \<Longrightarrow> length (opt_element b a) \<le> 2 + length (mem a)"
  by (simp add: opt_element_def short_element)

lemma put_attr_opt:
  assumes "byte_tag b" and "length (mem a) \<le> 64" and "length p + 2 + length (mem a) \<le> outlen"
  shows "put_attr (ucast b) a outlen p = Inr (p @ opt_element b a)"
  using assms put_element [of b p "mem a" outlen]
  by (simp add: put_attr_def opt_element_def short_element)

lemma size_octets: "n \<le> 65535 \<Longrightarrow> be_nat [of_nat (n div 256), of_nat n] = n"
  by (simp add: be_nat_Cons unat_of_nat_u8)

lemma id_octets:
  assumes "0 \<le> i" "i < 65536"
  shows "int (unat (word_of_int (i div 256) :: u8) * 256 + unat (word_of_int i :: u8)) = i"
proof -
  have u: "uint (word_of_int j :: u8) = j mod 256" for j
    by (simp add: unsigned_of_int take_bit_eq_mod)
  have "i div 256 mod 256 = i div 256" using assms by simp
  then show ?thesis by (simp add: u)
qed

lemma small_cases: "(s :: u32) < 8 \<Longrightarrow> s \<in> {0, 1, 2, 3, 4, 5, 6, 7}"
proof -
  assume "s < 8"
  then have "unat s < 8" by (simp add: word_less_nat_alt)
  then have "unat s \<in> {0, 1, 2, 3, 4, 5, 6, 7}" by auto
  then have "s \<in> of_nat ` {0, 1, 2, 3, 4, 5, 6, 7}" by (intro image_eqI [where x = "unat s"]) simp_all
  then show ?thesis by simp
qed

text \<open>What the reader makes of the descriptor byte.\<close>

lemma type_byte_read:
  assumes "f_type f \<in> {SC_FILE_TYPE_WORKING_EF, SC_FILE_TYPE_INTERNAL_EF, SC_FILE_TYPE_DF}"
    and "f_shareable f \<in> {0, 1}" and "f_ef_structure f < 8"
    and "f_type f = SC_FILE_TYPE_DF \<Longrightarrow> f_ef_structure f = 0"
  shows "\<exists>b. type_byte f = Inr b \<and> fci_type b = f_type f \<and>
    (if b AND 0x40 \<noteq> 0 then 1 else 0) = f_shareable f \<and> ucast (b AND 7) = f_ef_structure f"
proof -
  have s: "f_ef_structure f \<in> {0, 1, 2, 3, 4, 5, 6, 7}" by (rule small_cases) (rule assms)
  consider "f_type f = SC_FILE_TYPE_WORKING_EF" | "f_type f = SC_FILE_TYPE_INTERNAL_EF"
    | "f_type f = SC_FILE_TYPE_DF" "f_ef_structure f = 0"
    using assms by auto
  then show ?thesis
    using assms(2) s by cases (auto simp: type_byte_def fci_type_def Let_def)
qed

lemma descriptor_byte: "(\<And>n. alloc n) \<Longrightarrow> fci_descriptor alloc [b] f =
    f\<lparr>f_shareable := (if b AND 0x40 \<noteq> 0 then 1 else 0), f_ef_structure := ucast (b AND 0x07),
      f_type := fci_type b, f_type_attr := Some [b]\<rparr>"
  by (simp add: fci_descriptor_def fci_records_def sc_file_set_type_attr_def new_attr_def Let_def)

lemma loop_opt_prop:
  assumes "\<And>n. alloc n" and "length (mem a) \<le> 64" and "a \<noteq> Some []" and "f_prop_attr f = None"
  shows "fci_loop alloc (opt_element 0x85 a @ rest) f = fci_loop alloc rest (f\<lparr>f_prop_attr := a\<rparr>)"
proof (cases a)
  case None
  with assms(4) have "f\<lparr>f_prop_attr := a\<rparr> = f" by (cases f) simp
  with None show ?thesis by (simp add: opt_element_def)
next
  case (Some v)
  have "byte_tag 0x85" by (simp add: byte_tag_def)
  from fci_loop_element [OF this, of v alloc rest f] Some assms show ?thesis
    by (simp add: opt_element_def template_tag_def fci_element_def sc_file_set_prop_attr_def new_attr_def)
qed

lemma loop_opt_sec:
  assumes "\<And>n. alloc n" and "length (mem a) \<le> 64" and "a \<noteq> Some []" and "f_sec_attr f = None"
  shows "fci_loop alloc (opt_element 0x86 a @ rest) f = fci_loop alloc rest (f\<lparr>f_sec_attr := a\<rparr>)"
proof (cases a)
  case None
  with assms(4) have "f\<lparr>f_sec_attr := a\<rparr> = f" by (cases f) simp
  with None show ?thesis by (simp add: opt_element_def)
next
  case (Some v)
  have "byte_tag 0x86" by (simp add: byte_tag_def)
  from fci_loop_element [OF this, of v alloc rest f] Some assms show ?thesis
    by (simp add: opt_element_def template_tag_def fci_element_def sc_file_set_sec_attr_def new_attr_def)
qed

text \<open>The bytes the constructor writes for a file with a descriptor byte \<open>b\<close>.\<close>

definition fci_bytes :: "sc_file \<Rightarrow> u8 \<Rightarrow> bytes" where
  "fci_bytes f b =
     element 0x81 [of_nat (f_size f div 256), of_nat (f_size f)] @ element 0x82 [b] @
     element 0x83 [word_of_int (f_id f div 256), word_of_int (f_id f)] @
     opt_element 0x85 (f_prop_attr f) @ opt_element 0x86 (f_sec_attr f)"

lemma fci_tags: "byte_tag 0x81" "byte_tag 0x82" "byte_tag 0x83" "byte_tag 0x85" "byte_tag 0x86" "byte_tag 0x6F"
  by (simp_all add: byte_tag_def)

lemma construct_bytes:
  assumes "type_byte f = Inr b" and "f_type_attr f = None"
    and "length (mem (f_prop_attr f)) \<le> 64" and "length (mem (f_sec_attr f)) \<le> 64"
  shows "iso7816_construct_fci f SC_MAX_APDU_BUFFER_SIZE =
    Inr (0x6F # of_nat (length (fci_bytes f b)) # fci_bytes f b)"
proof -
  let ?e1 = "element 0x81 [of_nat (f_size f div 256), of_nat (f_size f)]"
  let ?e2 = "element 0x82 [b]"
  let ?e3 = "element 0x83 [word_of_int (f_id f div 256), word_of_int (f_id f)]"
  let ?o1 = "opt_element 0x85 (f_prop_attr f)"
  have l: "length ?e1 = 4" "length ?e2 = 3" "length ?e3 = 4" "length ?o1 \<le> 66"
    using short_element [OF fci_tags(1), of "[x, y]" for x y] short_element [OF fci_tags(2), of "[b]"]
      short_element [OF fci_tags(3), of "[x, y]" for x y] opt_element_length [OF fci_tags(4) assms(3)] assms(3)
    by simp_all
  have 1: "put 0x81 [of_nat (f_size f div 256), of_nat (f_size f)] SC_MAX_APDU_BUFFER_SIZE [0x6F, 0] = [0x6F, 0] @ ?e1"
    using put_element [OF fci_tags(1), of "[0x6F, 0]"] l by simp
  have 2: "put_type f SC_MAX_APDU_BUFFER_SIZE ([0x6F, 0] @ ?e1) = Inr ([0x6F, 0] @ ?e1 @ ?e2)"
    using put_element [OF fci_tags(2), of "[0x6F, 0] @ ?e1" "[b]"] l by (simp add: put_type_def assms)
  have 3: "put 0x83 [word_of_int (f_id f div 256), word_of_int (f_id f)] SC_MAX_APDU_BUFFER_SIZE ([0x6F, 0] @ ?e1 @ ?e2) =
      [0x6F, 0] @ ?e1 @ ?e2 @ ?e3"
    using put_element [OF fci_tags(3), of "[0x6F, 0] @ ?e1 @ ?e2"] l by simp
  have 4: "put_attr 0x85 (f_prop_attr f) SC_MAX_APDU_BUFFER_SIZE ([0x6F, 0] @ ?e1 @ ?e2 @ ?e3) =
      Inr ([0x6F, 0] @ ?e1 @ ?e2 @ ?e3 @ ?o1)"
    using put_attr_opt [OF fci_tags(4) assms(3), of "[0x6F, 0] @ ?e1 @ ?e2 @ ?e3"] l assms(3) by simp
  have 5: "put_attr 0x86 (f_sec_attr f) SC_MAX_APDU_BUFFER_SIZE ([0x6F, 0] @ ?e1 @ ?e2 @ ?e3 @ ?o1) =
      Inr ([0x6F, 0] @ fci_bytes f b)"
    using put_attr_opt [OF fci_tags(5) assms(4), of "[0x6F, 0] @ ?e1 @ ?e2 @ ?e3 @ ?o1"] l assms(4)
    by (simp add: fci_bytes_def)
  show ?thesis
    using 5 by (simp only: iso7816_construct_fci_def Let_def 1 2 3 4 ebind_simps) simp
qed

section \<open>Properties\<close>

lemma fci_loop_elements:
  assumes "\<forall>(b, v) \<in> set tvs. byte_tag b \<and> \<not> template_tag (ucast b) \<and> length v < 2 ^ 32"
  shows "fci_loop alloc (elements (map (\<lambda>(b, v). (ucast b, v)) tvs)) f =
    foldl (\<lambda>f (b, v). fci_element alloc (ucast b) v f) f tvs"
  using assms
proof (induction tvs arbitrary: f)
  case Nil
  then show ?case by (simp add: elements_def)
next
  case (Cons p tvs)
  obtain b v where p: "p = (b, v)" by (cases p)
  let ?tail = "elements (map (\<lambda>(b, v). (ucast b, v)) tvs)"
  have "elements (map (\<lambda>(b, v). (ucast b, v)) (p # tvs)) = element (ucast b) v @ ?tail"
    by (simp add: elements_def p)
  moreover have "byte_tag b" "\<not> template_tag (ucast b)" "length v < 2 ^ 32" using Cons.prems p by auto
  ultimately show ?case
    using Cons.IH Cons.prems by (simp add: fci_loop_element p)
qed



text \<open>The template is read back when its length fits in one byte.\<close>

lemma template_read:
  assumes v: "length v < 128"
  shows "sc_asn1_read_tag (0x6F # of_nat (length v) # v) = Tag_read 0x60 0x0F (length v) v"
proof -
  note t = fci_tags
  have c: "tag_chars (0x6F :: u32) = [0x6F]" using byte_tag_chars [OF t(6)] by simp
  have "of_nat (length v) AND (0x7F :: u8) = of_nat (length v) AND mask 7" by (simp add: mask_eq_exp_minus_1)
  also have "\<dots> = take_bit 7 (of_nat (length v))" by (simp add: take_bit_eq_mask)
  also have "\<dots> = of_nat (length v)" using v by (simp add: take_bit_of_nat take_bit_nat_eq_self)
  finally have "0x6F # of_nat (length v) # v = element 0x6F v"
    using v by (simp add: element_def c len_octets_def len_size_def)
  with read_element [OF byte_tag_readable [OF t(6)], of v "[]"] v c show ?thesis
    by (simp add: tag_class_def tag_number_def)
qed


definition demo_file :: sc_file where
  "demo_file = zero_file\<lparr>f_type := SC_FILE_TYPE_WORKING_EF, f_size := 300, f_id := 0x5031, f_shareable := 1,
     f_sec_attr := Some [1, 2, 3]\<rparr>"


lemma byte_length:
  assumes "n < 128"
  shows "of_nat (128 + n) AND (0x7F :: u8) = of_nat n" and "of_nat (128 + n) AND (0x80 :: u8) \<noteq> 0"
proof -
  have "of_nat (128 + n) AND (0x7F :: u8) = of_nat (128 + n) AND mask 7" by (simp add: mask_eq_exp_minus_1)
  also have "\<dots> = take_bit 7 (of_nat (128 + n))" by (simp add: take_bit_eq_mask)
  also have "\<dots> = of_nat ((128 + n) mod 128)" by (simp only: take_bit_of_nat) (simp add: take_bit_nat_def)
  also have "(128 + n) mod 128 = n" using assms by simp
  finally show "of_nat (128 + n) AND (0x7F :: u8) = of_nat n" .
  have "(128 + n) div 128 = 1" using assms by simp
  then have "bit (128 + n) 7" by (simp add: bit_iff_odd)
  then have "bit (of_nat (128 + n) :: u8) 7"
    using bit_word_of_int_iff [of "int (128 + n)" 7, where ?'a = 8]
    by (simp only: bit_of_nat_iff_bit of_int_of_nat_eq) simp
  then show "of_nat (128 + n) AND (0x80 :: u8) \<noteq> 0" using and_0x80 [of "of_nat (128 + n) :: u8"] by simp
qed

text \<open>A template of more than 132 bytes that the constructor reports as success cannot be read: its
  length is written as one byte, which the reader takes for the number of length bytes.\<close>
theorem long_fci_unreadable:
  assumes "iso7816_construct_fci f outlen = Inr bs" and "132 < length bs - 2" and "length bs - 2 < 256"
  shows "sc_asn1_read_tag bs = Tag_invalid"
proof -
  obtain v where v: "bs = 0x6F # of_nat (length v) # v" using construct_header [OF assms(1)] by blast
  define k where "k = length v - 128"
  have k: "length v = 128 + k" "4 < k" "k < 128" using v assms(2,3) by (simp_all add: k_def)
  have "read_length (of_nat (length v) # v) = None"
    using byte_length [OF k(3)] k by (simp add: read_length_def unat_of_nat_u8)
  then show ?thesis by (simp add: v sc_asn1_read_tag_def)
qed

definition long_file :: sc_file where
  "long_file = zero_file\<lparr>f_type := SC_FILE_TYPE_DF, f_prop_attr := Some (replicate 60 1), f_sec_attr := Some (replicate 60 2)\<rparr>"

theorem long_fci_unreadable_witness:
  "\<exists>bs. iso7816_construct_fci long_file SC_MAX_APDU_BUFFER_SIZE = Inr bs \<and> sc_asn1_read_tag bs = Tag_invalid"
proof -
  have "type_byte long_file = Inr 0x38" by (simp add: type_byte_def long_file_def zero_file_def)
  from construct_bytes [OF this] have c: "iso7816_construct_fci long_file SC_MAX_APDU_BUFFER_SIZE =
      Inr (0x6F # of_nat (length (fci_bytes long_file 0x38)) # fci_bytes long_file 0x38)"
    by (simp add: long_file_def zero_file_def)
  have "length (fci_bytes long_file 0x38) = 135"
    using short_element [OF fci_tags(1), of "[x, y]" for x y] short_element [OF fci_tags(2), of "[x]" for x]
      short_element [OF fci_tags(3), of "[x, y]" for x y] short_element [OF fci_tags(4), of "replicate 60 1"]
      short_element [OF fci_tags(5), of "replicate 60 2"]
    by (simp add: fci_bytes_def opt_element_def long_file_def)
  with long_fci_unreadable [OF c] c show ?thesis by auto
qed

context transfer
begin

lemma transmit_result:
  assumes "room_ok a" and "env_ok (c_env c)" and "sc_transmit_apdu ops (a, c) = (q, (b, d))"
  shows "env_ok (c_env d) \<and> c_lock_count d = c_lock_count c \<and> q \<noteq> Inl OUT_OF_FUEL \<and> room_ok b"
proof -
  have "xfer_inv env_ok (length (mem (a_resp a))) (a_resplen a) (c_lock_count c) (a, c)"
    using assms(1,2) by (simp add: xfer_inv_def room_ok_def)
  from keepsD [OF transmit_apdu_keeps this assms(3)] show ?thesis
    using assms(1) by (auto simp: xfer_inv_def room_ok_def)
qed

lemma select_quietly_safe:
  assumes "room_ok a"
  shows "safe env_ok (select_quietly ops a)"
proof (rule safeI)
  fix c :: "('r, 'd) sc_card" and r c' assume env: "env_ok (c_env c)" and run: "select_quietly ops a c = (r, c')"
  obtain q b d where 1: "sc_transmit_apdu ops (a, c) = (q, (b, d))" by (metis prod.exhaust)
  obtain q2 b2 d2 where 2: "sc_transmit_apdu ops (b\<lparr>a_p2 := 0\<rparr>, d) = (q2, (b2, d2))" by (metis prod.exhaust)
  note r1 = transmit_result [OF assms env 1]
  then have "room_ok (b\<lparr>a_p2 := 0\<rparr>)" by (simp add: room_ok_def)
  from transmit_result [OF this _ 2] r1
  have r2: "env_ok (c_env d2)" "c_lock_count d2 = c_lock_count c" by auto
  show "env_ok (c_env c') \<and> c_lock_count c' = c_lock_count c \<and> r \<noteq> Inl OUT_OF_FUEL"
    using run 1 2 r1 r2 check_sw_no_fuel
    by (cases q) (auto simp: select_quietly_def Let_def split: if_splits)
qed

lemma select_application_safe: "safe env_ok (select_application ops in_path)"
  unfolding select_application_def [abs_def]
  by (intro safe_if safe_const safe_command_op) simp_all

lemma selected_file_no_fuel: "selected_file alloc process in_path bare a \<noteq> Inl OUT_OF_FUEL"
  by (simp add: selected_file_def Let_def split: option.split read_tag.split)

lemma select_file_safe: "safe env_ok (iso7816_select_file alloc ops process in_path want)"
  unfolding iso7816_select_file_def
proof (rule safe_sbind [OF select_application_safe])
  fix x :: "int \<times> bytes"
  obtain pathtype path where x: "x = (pathtype, path)" by (cases x)
  show "safe env_ok (case x of (pathtype, path) \<Rightarrow> \<lambda>c.
       case select_params pathtype path of
         Inl e \<Rightarrow> (Inl e, c)
       | Inr (p1, cse, select_mf, path) \<Rightarrow>
           let a = select_apdu c want p1 cse path in
           if want then
             sbind (command ops a) (\<lambda>a.
               lift_res (ebind (selected_file alloc process in_path
                                  (select_mf \<or> pathtype = SC_PATH_TYPE_DF_NAME) a) (\<lambda>f. Inr (Some f)))) c
           else sbind (select_quietly ops a) (\<lambda>_. sret None) c)"
  proof (cases "select_params pathtype path")
    case (Inl e)
    moreover have "select_params pathtype path \<noteq> Inl OUT_OF_FUEL" by (simp add: select_params_def)
    ultimately show ?thesis by (simp add: x safe_const)
  next
    case (Inr y)
    obtain p1 cse mf path' where y: "y = (p1, cse, mf, path')" by (cases y)
    have room: "room_ok (select_apdu c want p1 cse path')" for c :: "('r, 'd) sc_card"
      by (simp add: select_apdu_def room_ok_def Let_def)
    show ?thesis
    proof (cases want)
      case True
      show ?thesis
        unfolding x Inr y prod.case sum.case Let_def if_P [OF True]
        by (rule safe_command_op [OF room [unfolded if_P [OF True]]])
          (intro safe_lift_res ebind_no_fuel selected_file_no_fuel, simp)
    next
      case False
      have "safe env_ok (\<lambda>c. sbind (select_quietly ops (select_apdu c want p1 cse path')) (\<lambda>_. sret (None :: sc_file option)) c)"
        by (rule safe_start [of env_ok "\<lambda>c. sbind (select_quietly ops (select_apdu c want p1 cse path')) (\<lambda>_. sret None)"])
          (intro safe_sbind select_quietly_safe room safe_sret)
      then show ?thesis by (simp add: x Inr y False Let_def)
    qed
  qed
qed

end

lemma selected_path:
  assumes "selected_file alloc (Some (iso7816_process_fci alloc)) in_path bare a = Inr f"
  shows "f_path f = in_path"
  using assms by (auto simp: selected_file_def Let_def split: if_splits option.splits read_tag.splits)

text \<open>C28: A selection that returns a file object: over the PC/SC reader and the ISO 7816 table it leaves
  the lock as it was and ends, and the object carries the path that was asked for.\<close>
theorem select_file_ok:
  assumes "no_escape (c_env c)"
    and "iso7816_select_file alloc (iso_table n malloc api conf) (Some (iso7816_process_fci alloc)) in_path want c = (r, c')"
  shows "c_lock_count c' = c_lock_count c \<and> r \<noteq> Inl OUT_OF_FUEL \<and>
    (\<forall>f. r = Inr (Some f) \<longrightarrow> want \<and> f_path f = in_path)"
proof -
  have "want \<and> f_path f = in_path" if "r = Inr (Some f)" for f
  proof -
    let ?g = "\<lambda>x. case x of (pathtype, path) \<Rightarrow> \<lambda>c.
       case select_params pathtype path of
         Inl e \<Rightarrow> (Inl e, c)
       | Inr (p1, cse, select_mf, path) \<Rightarrow>
           let a = select_apdu c want p1 cse path in
           if want then
             sbind (command (iso_table n malloc api conf) a) (\<lambda>a.
               lift_res (ebind (selected_file alloc (Some (iso7816_process_fci alloc)) in_path
                                  (select_mf \<or> pathtype = SC_PATH_TYPE_DF_NAME) a) (\<lambda>f. Inr (Some f)))) c
           else sbind (select_quietly (iso_table n malloc api conf) a) (\<lambda>_. sret None) c"
    have "sbind (select_application (iso_table n malloc api conf) in_path) ?g c = (Inr (Some f), c')"
      using assms(2) that by (simp only: iso7816_select_file_def)
    then obtain x d where "?g x d = (Inr (Some f), c')" by (rule sbind_InrE)
    then show ?thesis
      by (auto simp: Let_def ebind_Inr_iff split: prod.splits sum.splits if_splits elim!: sbind_InrE dest: selected_path)
  qed
  with safeD [OF iso.select_file_safe assms] show ?thesis by blast
qed

definition mf_path :: sc_path where
  "mf_path = zero_path\<lparr>p_value := [0x3F, 0x00], p_type := SC_PATH_TYPE_PATH\<rparr>"

theorem select_file_ok_witness:
  "case iso7816_select_file (\<lambda>_. True) demo_table (Some (iso7816_process_fci (\<lambda>_. True))) mf_path True (plain_card demo_reader)
   of (r, c) \<Rightarrow> c_lock_count c = 0 \<and> (\<forall>f. r = Inr (Some f) \<longrightarrow> f_path f = mf_path)"
proof -
  obtain r c where run: "iso7816_select_file (\<lambda>_. True) demo_table (Some (iso7816_process_fci (\<lambda>_. True))) mf_path True
      (plain_card demo_reader) = (r, c)" by (metis prod.exhaust)
  have e: "no_escape (c_env (plain_card demo_reader))"
    by (simp add: no_escape_def demo_reader_def plain_card_def)
  from select_file_ok [OF e run [unfolded demo_table_def]] run show ?thesis
    by (simp add: plain_card_def)
qed

end
