(* ===== verification/Sc_CardIO.thy ===== *)
theory Sc_CardIO
  imports Sc_Fci
begin

text \<open>
  The operations of the card object that the upper layers call (\<open>libopensc/card.c\<close>): files,
  binary data, records, data objects, challenges. Each checks its arguments, looks for the entry
  of the driver's table, and calls it; those that move data split it into chunks the card can
  take, under the lock.

  The driver's entry is an argument, \<open>None\<close> when the table has none. A reading entry fills the
  rest of the caller's buffer and returns how many bytes it read; \<open>read_loop\<close> is the loop that
  calls it, \<open>write_loop\<close> the one of the writing operations. The loop of the record operations
  is the same code with the record number passed on.
\<close>

abbreviation (input) SIZE_MAX :: nat where "SIZE_MAX \<equiv> 18446744073709551615"

type_synonym ('r, 'd) reader_op = "u32 \<Rightarrow> bytes \<Rightarrow> nat \<Rightarrow> (('r, 'd) sc_card, nat \<times> bytes) prog"
type_synonym ('r, 'd) writer_op = "u32 \<Rightarrow> bytes \<Rightarrow> nat \<Rightarrow> (('r, 'd) sc_card, nat) prog"

section \<open>The loops\<close>

text \<open>\<open>todo\<close> bytes are left of \<open>count\<close>; the next one goes to position \<open>count - todo\<close> of \<open>buf\<close>. A
  failure after the first chunk ends the loop with what was read.\<close>

function read_loop :: "('r, 'd) reader_op \<Rightarrow> nat \<Rightarrow> nat \<Rightarrow> u32 \<Rightarrow> bytes \<Rightarrow> nat \<Rightarrow>
    (('r, 'd) sc_card, nat \<times> bytes) prog" where
  "read_loop rd max_le count idx buf todo c =
    (if todo = 0 then (Inr (count - todo, buf), c)
     else case rd idx (drop (count - todo) buf) (min todo max_le) c of
         (Inl e, c') \<Rightarrow>
           if e = SC_ERROR_FILE_END_REACHED \<or> todo \<noteq> count then (Inr (count - todo, buf), c') else (Inl e, c')
       | (Inr (r, b), c') \<Rightarrow>
           let buf = take (count - todo) buf @ b in
           if r = 0 then (Inr (count - todo, buf), c')
           else if unat idx > SIZE_MAX - r \<or> r > todo then (Inl SC_ERROR_OFFSET_TOO_LARGE, c')
           else read_loop rd max_le count (idx + of_nat r) buf (todo - r) c')"
  by pat_completeness auto

termination
  by (relation "measure (\<lambda>(_, _, _, _, _, todo, _). todo)") auto

declare read_loop.simps [simp del]

function write_loop :: "('r, 'd) writer_op \<Rightarrow> nat \<Rightarrow> nat \<Rightarrow> u32 \<Rightarrow> bytes \<Rightarrow> nat \<Rightarrow>
    (('r, 'd) sc_card, nat) prog" where
  "write_loop wr max_lc count idx buf todo c =
    (if todo = 0 then (Inr (count - todo), c)
     else case wr idx buf (min todo max_lc) c of
         (Inl e, c') \<Rightarrow> if e = SC_ERROR_FILE_END_REACHED then (Inr (count - todo), c') else (Inl e, c')
       | (Inr r, c') \<Rightarrow>
           if r = 0 then (Inr (count - todo), c')
           else if unat idx > SIZE_MAX - r \<or> r > todo then (Inl SC_ERROR_OFFSET_TOO_LARGE, c')
           else write_loop wr max_lc count (idx + of_nat r) (drop r buf) (todo - r) c')"
  by pat_completeness auto

termination
  by (relation "measure (\<lambda>(_, _, _, _, _, todo, _). todo)") auto

declare write_loop.simps [simp del]

function erase_loop :: "(u32 \<Rightarrow> nat \<Rightarrow> (('r, 'd) sc_card, nat) prog) \<Rightarrow> nat \<Rightarrow> u32 \<Rightarrow> nat \<Rightarrow>
    (('r, 'd) sc_card, nat) prog" where
  "erase_loop er count idx todo c =
    (if todo = 0 then (Inr (count - todo), c)
     else case er idx todo c of
         (Inl e, c') \<Rightarrow> if e = SC_ERROR_FILE_END_REACHED then (Inr (count - todo), c') else (Inl e, c')
       | (Inr r, c') \<Rightarrow>
           if r = 0 then (Inr (count - todo), c')
           else if unat idx > SIZE_MAX - r \<or> r > todo then (Inl SC_ERROR_OFFSET_TOO_LARGE, c')
           else erase_loop er count (idx + of_nat r) (todo - r) c')"
  by pat_completeness auto

termination
  by (relation "measure (\<lambda>(_, _, _, todo, _). todo)") auto

declare erase_loop.simps [simp del]

text \<open>The loop of \<open>sc_get_challenge\<close> trusts the driver not to return more than it was asked for:
  the subtraction is on a 64-bit number. It runs on fuel, one unit per round.\<close>

fun challenge_loop :: "nat \<Rightarrow> (bytes \<Rightarrow> nat \<Rightarrow> (('r, 'd) sc_card, nat \<times> bytes) prog) \<Rightarrow> bytes \<Rightarrow> bytes \<Rightarrow> nat \<Rightarrow>
    (('r, 'd) sc_card, bytes) prog" where
  "challenge_loop 0 gc front rnd len c = ((if len = 0 then Inr (front @ rnd) else Inl OUT_OF_FUEL), c)"
| "challenge_loop (Suc fuel) gc front rnd len c =
    (if len = 0 then (Inr (front @ rnd), c)
     else case gc rnd len c of
         (Inl e, c') \<Rightarrow> (Inl e, c')
       | (Inr (r, b), c') \<Rightarrow>
           if r = 0 then (Inl SC_ERROR_INVALID_DATA, c')
           else challenge_loop fuel gc (front @ take r b) (drop r b) ((len + 2 ^ 64 - r) mod 2 ^ 64) c')"

section \<open>Binary files\<close>

definition locked :: "('r, 'd) sc_ops \<Rightarrow> (('r, 'd) sc_card, 'a) prog \<Rightarrow> (('r, 'd) sc_card, 'a) prog" where
  "locked ops f = bracket (sc_lock ops) (sc_unlock ops) f"

definition sc_read_binary ::
  "('r, 'd) sc_ops \<Rightarrow> ('r, 'd) reader_op option \<Rightarrow> u32 \<Rightarrow> bytes option \<Rightarrow> nat \<Rightarrow>
   (('r, 'd) sc_card, nat \<times> bytes) prog" where
  "sc_read_binary ops rd idx buf count c =
    (let max_le = sc_get_max_recv_size c in
     case buf of
       None \<Rightarrow> (Inl SC_ERROR_INVALID_ARGUMENTS, c)
     | Some buf \<Rightarrow>
        if count = 0 then (Inr (0, buf), c)
        else (case rd of
            None \<Rightarrow> (Inl SC_ERROR_NOT_SUPPORTED, c)
          | Some rd \<Rightarrow> locked ops (read_loop rd max_le count idx buf count) c))"

definition write_chunks ::
  "('r, 'd) sc_ops \<Rightarrow> ('r, 'd) writer_op option \<Rightarrow> u32 \<Rightarrow> bytes option \<Rightarrow> nat \<Rightarrow> (('r, 'd) sc_card, nat) prog" where
  "write_chunks ops wr idx buf count c =
    (let max_lc = sc_get_max_send_size c in
     case buf of
       None \<Rightarrow> (Inl SC_ERROR_INVALID_ARGUMENTS, c)
     | Some buf \<Rightarrow>
        if count = 0 then (Inr 0, c)
        else (case wr of
            None \<Rightarrow> (Inl SC_ERROR_NOT_SUPPORTED, c)
          | Some wr \<Rightarrow> locked ops (write_loop wr max_lc count idx buf count) c))"

definition sc_write_binary ::
  "('r, 'd) sc_ops \<Rightarrow> ('r, 'd) writer_op option \<Rightarrow> u32 \<Rightarrow> bytes option \<Rightarrow> nat \<Rightarrow> (('r, 'd) sc_card, nat) prog" where
  "sc_write_binary = write_chunks"

definition sc_update_binary ::
  "('r, 'd) sc_ops \<Rightarrow> ('r, 'd) writer_op option \<Rightarrow> u32 \<Rightarrow> bytes option \<Rightarrow> nat \<Rightarrow> (('r, 'd) sc_card, nat) prog" where
  "sc_update_binary = write_chunks"

definition sc_erase_binary ::
  "('r, 'd) sc_ops \<Rightarrow> (u32 \<Rightarrow> nat \<Rightarrow> (('r, 'd) sc_card, nat) prog) option \<Rightarrow> u32 \<Rightarrow> nat \<Rightarrow>
   (('r, 'd) sc_card, nat) prog" where
  "sc_erase_binary ops er idx count c =
    (if count = 0 then (Inr 0, c)
     else case er of
         None \<Rightarrow> (Inl SC_ERROR_NOT_SUPPORTED, c)
       | Some er \<Rightarrow> locked ops (erase_loop er count idx count) c)"

section \<open>Records\<close>

definition sc_read_record ::
  "('r, 'd) sc_ops \<Rightarrow> (u32 \<Rightarrow> ('r, 'd) reader_op) option \<Rightarrow> u32 \<Rightarrow> u32 \<Rightarrow> bytes option \<Rightarrow> nat \<Rightarrow>
   (('r, 'd) sc_card, nat \<times> bytes) prog" where
  "sc_read_record ops rd rec_nr = sc_read_binary ops (map_option (\<lambda>rd. rd rec_nr) rd)"

definition sc_update_record ::
  "('r, 'd) sc_ops \<Rightarrow> (u32 \<Rightarrow> ('r, 'd) writer_op) option \<Rightarrow> u32 \<Rightarrow> u32 \<Rightarrow> bytes option \<Rightarrow> nat \<Rightarrow>
   (('r, 'd) sc_card, nat) prog" where
  "sc_update_record ops wr rec_nr = write_chunks ops (map_option (\<lambda>wr. wr rec_nr) wr)"

text \<open>One call: the driver's result 0 stands for all the bytes.\<close>

definition whole_record :: "(('r, 'd) sc_card, nat) prog option \<Rightarrow> nat \<Rightarrow> (('r, 'd) sc_card, nat) prog" where
  "whole_record f count c =
    (case f of
       None \<Rightarrow> (Inl SC_ERROR_NOT_SUPPORTED, c)
     | Some f \<Rightarrow> sbind f (\<lambda>r. sret (if r = 0 then count else r)) c)"

definition sc_write_record ::
  "(u32 \<Rightarrow> bytes \<Rightarrow> nat \<Rightarrow> (('r, 'd) sc_card, nat) prog) option \<Rightarrow> u32 \<Rightarrow> bytes \<Rightarrow> nat \<Rightarrow>
   (('r, 'd) sc_card, nat) prog" where
  "sc_write_record wr rec_nr buf count = whole_record (map_option (\<lambda>f. f rec_nr buf count) wr) count"

definition sc_append_record ::
  "(bytes \<Rightarrow> nat \<Rightarrow> (('r, 'd) sc_card, nat) prog) option \<Rightarrow> bytes \<Rightarrow> nat \<Rightarrow> (('r, 'd) sc_card, nat) prog" where
  "sc_append_record wr buf count = whole_record (map_option (\<lambda>f. f buf count) wr) count"

section \<open>One call of the driver\<close>

definition entry :: "('a \<Rightarrow> (('r, 'd) sc_card, 'b) prog) option \<Rightarrow> 'a \<Rightarrow> (('r, 'd) sc_card, 'b) prog" where
  "entry f x c = (case f of None \<Rightarrow> (Inl SC_ERROR_NOT_SUPPORTED, c) | Some f \<Rightarrow> f x c)"

definition sc_delete_record :: "(u32 \<Rightarrow> (('r, 'd) sc_card, unit) prog) option \<Rightarrow> u32 \<Rightarrow> (('r, 'd) sc_card, unit) prog" where
  "sc_delete_record = entry"

definition sc_get_data ::
  "(u32 \<times> bytes option \<times> nat \<Rightarrow> (('r, 'd) sc_card, nat \<times> bytes) prog) option \<Rightarrow> u32 \<Rightarrow> bytes option \<Rightarrow> nat \<Rightarrow>
   (('r, 'd) sc_card, nat \<times> bytes) prog" where
  "sc_get_data f tag buf len = entry f (tag, buf, len)"

definition sc_put_data ::
  "(u32 \<times> bytes \<times> nat \<Rightarrow> (('r, 'd) sc_card, nat) prog) option \<Rightarrow> u32 \<Rightarrow> bytes \<Rightarrow> nat \<Rightarrow>
   (('r, 'd) sc_card, nat) prog" where
  "sc_put_data f tag buf len = entry f (tag, buf, len)"

definition sc_create_file :: "(sc_file \<Rightarrow> (('r, 'd) sc_card, unit) prog) option \<Rightarrow> sc_file \<Rightarrow> (('r, 'd) sc_card, unit) prog" where
  "sc_create_file f file c = (if f_size file > 0xFFFF then (Inl SC_ERROR_INVALID_ARGUMENTS, c) else entry f file c)"

definition sc_delete_file :: "(sc_path \<Rightarrow> (('r, 'd) sc_card, unit) prog) option \<Rightarrow> sc_path \<Rightarrow> (('r, 'd) sc_card, unit) prog" where
  "sc_delete_file = entry"

definition sc_get_challenge ::
  "('r, 'd) sc_ops \<Rightarrow> (bytes \<Rightarrow> nat \<Rightarrow> (('r, 'd) sc_card, nat \<times> bytes) prog) option \<Rightarrow> bytes option \<Rightarrow> nat \<Rightarrow>
   (('r, 'd) sc_card, bytes option) prog" where
  "sc_get_challenge ops gc rnd len c =
    (if len = 0 then (Inr rnd, c)
     else case rnd of
         None \<Rightarrow> (Inl SC_ERROR_INVALID_ARGUMENTS, c)
       | Some rnd \<Rightarrow>
          (case gc of
             None \<Rightarrow> (Inl SC_ERROR_NOT_SUPPORTED, c)
           | Some gc \<Rightarrow> sbind (locked ops (challenge_loop len gc [] rnd len)) (\<lambda>b. sret (Some b)) c))"

section \<open>Selection\<close>

text \<open>The sanity check of an absolute path: whole identifiers, the master file only in front.\<close>

definition path_sane :: "bytes \<Rightarrow> bool" where
  "path_sane v \<longleftrightarrow> even (length v) \<and>
     (\<forall>i \<in> {0..<length v div 2}. v ! (2 * i) = 0x3F \<and> v ! (2 * i + 1) = 0x00 \<longrightarrow> i = 0)"

definition sc_select_file ::
  "(sc_path \<Rightarrow> bool \<Rightarrow> (('r, 'd) sc_card, sc_file option) prog) option \<Rightarrow> sc_path \<Rightarrow> bool \<Rightarrow>
   (('r, 'd) sc_card, sc_file option) prog" where
  "sc_select_file sel in_path want c =
    (if length (p_value in_path) > SC_MAX_PATH_SIZE then (Inl SC_ERROR_INVALID_ARGUMENTS, c)
     else if p_type in_path = SC_PATH_TYPE_PATH \<and> \<not> path_sane (p_value in_path)
     then (Inl SC_ERROR_INVALID_ARGUMENTS, c)
     else case sel of
         None \<Rightarrow> (Inl SC_ERROR_NOT_SUPPORTED, c)
       | Some sel \<Rightarrow>
          sbind (sel in_path want) (\<lambda>file.
            if want then
              (case file of
                 Some f \<Rightarrow> sret (Some (f\<lparr>f_path := in_path\<rparr>))
               | None \<Rightarrow> sfail SC_ERROR_INVALID_DATA)
            else sret None) c)"

section \<open>One round of a loop\<close>

lemma read_loop_0 [simp]: "read_loop rd max_le count idx buf 0 c = (Inr (count, buf), c)"
  by (subst read_loop.simps) simp

lemma read_loop_Inl:
  assumes "todo \<noteq> 0" and "rd idx (drop (count - todo) buf) (min todo max_le) c = (Inl e, d)"
  shows "read_loop rd max_le count idx buf todo c =
    (if e = SC_ERROR_FILE_END_REACHED \<or> todo \<noteq> count then (Inr (count - todo, buf), d) else (Inl e, d))"
  using assms by (subst read_loop.simps) simp

lemma read_loop_Inr:
  assumes "todo \<noteq> 0" and "rd idx (drop (count - todo) buf) (min todo max_le) c = (Inr (k, b), d)"
    and "buf' = take (count - todo) buf @ b"
  shows "read_loop rd max_le count idx buf todo c =
    (if k = 0 then (Inr (count - todo, buf'), d)
     else if unat idx > SIZE_MAX - k \<or> k > todo then (Inl SC_ERROR_OFFSET_TOO_LARGE, d)
     else read_loop rd max_le count (idx + of_nat k) buf' (todo - k) d)"
  using assms by (subst read_loop.simps) simp

lemma write_loop_0 [simp]: "write_loop wr max_lc count idx buf 0 c = (Inr count, c)"
  by (subst write_loop.simps) simp

lemma write_loop_Inl:
  assumes "todo \<noteq> 0" and "wr idx buf (min todo max_lc) c = (Inl e, d)"
  shows "write_loop wr max_lc count idx buf todo c =
    (if e = SC_ERROR_FILE_END_REACHED then (Inr (count - todo), d) else (Inl e, d))"
  using assms by (subst write_loop.simps) simp

lemma write_loop_Inr:
  assumes "todo \<noteq> 0" and "wr idx buf (min todo max_lc) c = (Inr k, d)"
  shows "write_loop wr max_lc count idx buf todo c =
    (if k = 0 then (Inr (count - todo), d)
     else if unat idx > SIZE_MAX - k \<or> k > todo then (Inl SC_ERROR_OFFSET_TOO_LARGE, d)
     else write_loop wr max_lc count (idx + of_nat k) (drop k buf) (todo - k) d)"
  using assms by (subst write_loop.simps) simp

lemma nested_if_cases: "(if A then x else if B then y else z) = p \<Longrightarrow> A \<or> B \<Longrightarrow> p = x \<or> p = y"
  and nested_if_rest: "(if A then x else if B then y else z) = p \<Longrightarrow> \<not> (A \<or> B) \<Longrightarrow> z = p"
  and if_cases: "(if A then x else y) = p \<Longrightarrow> p = x \<or> p = y"
  by (auto split: if_splits)

lemma no_stop: "\<not> (A \<or> B \<or> C) \<Longrightarrow> \<not> A" "\<not> (A \<or> B \<or> C) \<Longrightarrow> \<not> C"
  by blast+

section \<open>A driver's entries for binary files as an interface\<close>

text \<open>
  What the loops need of the driver's entries: they leave lock and environment as they were,
  and a reading entry stays within the buffer and the length it is given.
\<close>

locale binary_driver = transfer tx env_ok ops
  for tx :: "(sc_apdu \<times> 'r, unit) prog" and env_ok :: "'r \<Rightarrow> bool" and ops :: "('r, 'd) sc_ops" +
  fixes rd :: "('r, 'd) reader_op" and wr :: "('r, 'd) writer_op"
  assumes rd_safe: "n \<le> length buf \<Longrightarrow> safe env_ok (rd idx buf n)"
    and rd_fills: "n \<le> length buf \<Longrightarrow> fills env_ok buf n (rd idx buf n)"
    and wr_safe: "n \<le> length buf \<Longrightarrow> safe env_ok (wr idx buf n)"
begin

lemma read_loop_result:
  "env_ok (c_env c) \<Longrightarrow> todo \<le> count \<Longrightarrow> count \<le> length buf \<Longrightarrow>
   read_loop rd max_le count idx buf todo c = (r, c') \<Longrightarrow>
   env_ok (c_env c') \<and> c_lock_count c' = c_lock_count c \<and> r \<noteq> Inl OUT_OF_FUEL \<and>
   (\<forall>k b. r = Inr (k, b) \<longrightarrow> k \<le> count \<and> length b = length buf)"
proof (induction todo arbitrary: idx buf c rule: less_induct)
  case (less todo)
  show ?case
  proof (cases "todo = 0")
    case True
    with less.prems show ?thesis by auto
  next
    case False
    let ?off = "count - todo"
    obtain q d where q: "rd idx (drop ?off buf) (min todo max_le) c = (q, d)"
      by (cases "rd idx (drop ?off buf) (min todo max_le) c")
    have n: "min todo max_le \<le> length (drop ?off buf)" using less.prems(2,3) by simp
    from safeD [OF rd_safe [OF n] less.prems(1) q]
    have d: "env_ok (c_env d)" "c_lock_count d = c_lock_count c" "q \<noteq> Inl OUT_OF_FUEL" by auto
    show ?thesis
    proof (cases q)
      case (Inl e)
      have "(r, c') = (Inr (?off, buf), d) \<or> (r, c') = (Inl e, d)"
        by (rule if_cases [OF trans [OF read_loop_Inl [where rd = rd, OF False q [unfolded Inl], symmetric] less.prems(4)]])
      with d Inl show ?thesis by auto
    next
      case (Inr p)
      obtain k b where p: "p = (k, b)" by (cases p)
      from rd_fills [OF n] less.prems(1) q Inr p have b: "length b = length (drop ?off buf)"
        unfolding fills_def by blast
      let ?buf = "take ?off buf @ b"
      have len: "length ?buf = length buf" using b less.prems(2,3) by simp
      show ?thesis
      proof (cases "k = 0 \<or> unat idx > SIZE_MAX - k \<or> k > todo")
        case True
        have "(r, c') = (Inr (?off, ?buf), d) \<or> (r, c') = (Inl SC_ERROR_OFFSET_TOO_LARGE, d)"
          by (rule nested_if_cases [OF trans [OF read_loop_Inr [where rd = rd, OF False q [unfolded Inr p] refl, symmetric]
                less.prems(4)] True])
        then show ?thesis
        proof (elim disjE)
          assume "(r, c') = (Inr (?off, ?buf), d)"
          with d len show ?thesis by simp
        next
          assume "(r, c') = (Inl SC_ERROR_OFFSET_TOO_LARGE, d)"
          with d show ?thesis by simp
        qed
      next
        case more: False
        have pos: "k \<noteq> 0" "\<not> k > todo" by (rule no_stop [OF more])+
        have m: "todo - k < todo" "todo - k \<le> count" "count \<le> length ?buf"
          using pos False less.prems(2,3) len by simp_all
        from less.IH [OF m(1) d(1) m(2,3) nested_if_rest [OF trans [OF
                read_loop_Inr [where rd = rd, OF False q [unfolded Inr p] refl, symmetric] less.prems(4)] more]]
        show ?thesis unfolding d(2) len .
      qed
    qed
  qed
qed

lemma write_loop_safe: "todo \<le> length buf \<Longrightarrow> safe env_ok (write_loop wr max_lc count idx buf todo)"
proof (induction todo arbitrary: idx buf rule: less_induct)
  case (less todo)
  show ?case
  proof (rule safeI)
    fix c :: "('r, 'd) sc_card" and r c'
    assume env: "env_ok (c_env c)" and run: "write_loop wr max_lc count idx buf todo c = (r, c')"
    obtain q d where q: "wr idx buf (min todo max_lc) c = (q, d)" by (cases "wr idx buf (min todo max_lc) c")
    have n: "min todo max_lc \<le> length buf" using less.prems by simp
    from safeD [OF wr_safe [OF n] env q]
    have d: "env_ok (c_env d)" "c_lock_count d = c_lock_count c" "q \<noteq> Inl OUT_OF_FUEL" by auto
    show "env_ok (c_env c') \<and> c_lock_count c' = c_lock_count c \<and> r \<noteq> Inl OUT_OF_FUEL"
    proof (cases "todo = 0")
      case True
      with run env show ?thesis by auto
    next
      case nz: False
      show ?thesis
      proof (cases q)
        case (Inl e)
        have "(r, c') = (Inr (count - todo), d) \<or> (r, c') = (Inl e, d)"
          by (rule if_cases [OF trans [OF write_loop_Inl [where wr = wr, OF nz q [unfolded Inl], symmetric] run]])
        with d Inl show ?thesis by auto
      next
        case (Inr k)
        note step = trans [OF write_loop_Inr [where wr = wr, OF nz q [unfolded Inr], symmetric] run]
        show ?thesis
        proof (cases "k = 0 \<or> unat idx > SIZE_MAX - k \<or> k > todo")
          case True
          from nested_if_cases [OF step True] show ?thesis
          proof (elim disjE)
            assume "(r, c') = (Inr (count - todo), d)"
            with d show ?thesis by simp
          next
            assume "(r, c') = (Inl SC_ERROR_OFFSET_TOO_LARGE, d)"
            with d show ?thesis by simp
          qed
        next
          case False
          have "k \<noteq> 0" "\<not> k > todo" by (rule no_stop [OF False])+
          then have "todo - k < todo" "todo - k \<le> length (drop k buf)" using less.prems nz by simp_all
          from safeD [OF less.IH [OF this] d(1) nested_if_rest [OF step False]] d(2) show ?thesis by simp
        qed
      qed
    qed
  qed
qed

lemma read_binary_result:
  assumes "env_ok (c_env c)" and "count \<le> length buf"
    and "sc_read_binary ops (Some rd) idx (Some buf) count c = (r, c')"
  shows "c_lock_count c' = c_lock_count c \<and> r \<noteq> Inl OUT_OF_FUEL \<and>
    (\<forall>k b. r = Inr (k, b) \<longrightarrow> k \<le> count \<and> length b = length buf)"
proof (cases "count = 0")
  case True
  with assms show ?thesis by (auto simp: sc_read_binary_def)
next
  case False
  let ?loop = "read_loop rd (sc_get_max_recv_size c) count idx buf count"
  from False assms(3) have run: "bracket (sc_lock ops) (sc_unlock ops) ?loop c = (r, c')"
    by (simp add: sc_read_binary_def locked_def)
  have "safe env_ok ?loop"
    by (rule safeI) (use read_loop_result [OF _ le_refl assms(2)] in blast)
  from safeD [OF safe_lock_bracket [OF this] assms(1) run]
  have s: "c_lock_count c' = c_lock_count c \<and> r \<noteq> Inl OUT_OF_FUEL" by blast
  obtain q d where l: "sc_lock ops c = (q, d)" by (cases "sc_lock ops c")
  have env: "env_ok (c_env d)" using keepsD [OF lock_keeps_env(1) assms(1) l] by blast
  have "k \<le> count \<and> length b = length buf" if "r = Inr (k, b)" for k b
  proof -
    obtain x d2 where x: "?loop d = (x, d2)" by (cases "?loop d")
    with run l that have "x = Inr (k, b)"
      by (auto simp: bracket_def Let_def split: sum.splits)
    with read_loop_result [OF env le_refl assms(2) x] show ?thesis by blast
  qed
  with s show ?thesis by blast
qed

lemma write_chunks_safe:
  assumes "count \<le> length buf"
  shows "safe env_ok (write_chunks ops (Some wr) idx (Some buf) count)"
proof -
  have "safe env_ok (\<lambda>c. locked ops (write_loop wr (sc_get_max_send_size c) count idx buf count) c)"
    by (rule safe_start [of env_ok "\<lambda>c. locked ops (write_loop wr (sc_get_max_send_size c) count idx buf count)"])
      (simp add: locked_def safe_lock_bracket write_loop_safe assms)
  then show ?thesis
    by (cases "count = 0") (simp_all add: write_chunks_def [abs_def] safe_const)
qed

end

text \<open>The ISO 7816 driver on the PC/SC reader provides it.\<close>

interpretation iso_binary: binary_driver "pcsc_transmit (Suc n) malloc api conf" no_escape "iso_table n malloc api conf"
    "iso7816_read_binary (iso_table n malloc api conf)" "iso7816_update_binary (iso_table n malloc api conf)"
  for n and malloc :: "nat \<Rightarrow> bytes option" and api :: "'s pcsc_api" and conf :: force_conf
  by unfold_locales
    (simp_all add: iso.read_binary_safe iso.send_binary_safe iso7816_update_binary_def)

section \<open>Properties\<close>

text \<open>C24: Reading a file through the whole stack, the loop over the ISO 7816 driver over the transfer on
  the PC/SC reader: whatever the card answers, nothing is written outside the caller's buffer,
  the number returned is at most the number asked for, the lock is as before and the call ends.\<close>
theorem read_binary_stack_safe:
  assumes "no_escape (c_env c)" and "count \<le> length buf" and "ops = iso_table n malloc api conf"
    and "sc_read_binary ops (Some (iso7816_read_binary ops)) idx (Some buf) count c = (r, c')"
  shows "c_lock_count c' = c_lock_count c \<and> r \<noteq> Inl OUT_OF_FUEL \<and>
    (\<forall>k b. r = Inr (k, b) \<longrightarrow> k \<le> count \<and> length b = length buf)"
  using iso_binary.read_binary_result [OF assms(1,2)] assms(3,4) by simp

theorem read_binary_stack_safe_witness:
  "case sc_read_binary demo_table (Some (iso7816_read_binary demo_table)) 0 (Some (replicate 300 0)) 300
     (plain_card demo_reader) of
   (r, c) \<Rightarrow> c_lock_count c = 0 \<and> (\<forall>k b. r = Inr (k, b) \<longrightarrow> k \<le> 300 \<and> length b = 300)"
proof -
  obtain r c where run: "sc_read_binary demo_table (Some (iso7816_read_binary demo_table)) 0
     (Some (replicate 300 0)) 300 (plain_card demo_reader) = (r, c)" by (metis prod.exhaust)
  have e: "no_escape (c_env (plain_card demo_reader))"
    by (simp add: no_escape_def demo_reader_def plain_card_def)
  from read_binary_stack_safe [OF e _ demo_table_def run] run show ?thesis
    by (simp add: plain_card_def)
qed

section \<open>The card as a file\<close>

text \<open>
  What the loops promise, over an abstract view \<open>content\<close> of the state outside the library: the
  bytes of the selected file. A reading entry returns bytes of the file at the offset, a writing
  entry replaces them, possibly fewer than asked for; a failed one changes nothing. These are
  the effects ISO 7816-4 gives READ BINARY and UPDATE BINARY on a transparent file.
\<close>

definition reads_file :: "('r \<Rightarrow> bytes) \<Rightarrow> ('r, 'd) reader_op \<Rightarrow> bool" where
  "reads_file content rd \<longleftrightarrow> (\<forall>idx buf n c q c'. n \<le> length buf \<longrightarrow> rd idx buf n c = (q, c') \<longrightarrow>
     content (c_env c') = content (c_env c) \<and>
     (\<forall>r b. q = Inr (r, b) \<longrightarrow> r \<le> n \<and> length b = length buf \<and>
        (r \<noteq> 0 \<longrightarrow> unat idx + r \<le> length (content (c_env c)) \<and>
           take r b = take r (drop (unat idx) (content (c_env c))))))"

definition writes_file :: "('r \<Rightarrow> bytes) \<Rightarrow> ('r, 'd) writer_op \<Rightarrow> bool" where
  "writes_file content wr \<longleftrightarrow> (\<forall>idx buf n c q c'. n \<le> length buf \<longrightarrow> wr idx buf n c = (q, c') \<longrightarrow>
     (\<forall>e. q = Inl e \<longrightarrow> content (c_env c') = content (c_env c)) \<and>
     (\<forall>r. q = Inr r \<longrightarrow> r \<le> n \<and> (if r = 0 then content (c_env c') = content (c_env c)
        else unat idx + r \<le> length (content (c_env c)) \<and>
          content (c_env c') = memcpy_at (content (c_env c)) (unat idx) (take r buf))))"

text \<open>Inside the file a reading entry makes progress.\<close>

definition serves_file :: "('r \<Rightarrow> bytes) \<Rightarrow> ('r, 'd) reader_op \<Rightarrow> bool" where
  "serves_file content rd \<longleftrightarrow> reads_file content rd \<and> (\<forall>idx buf n c. 0 < n \<longrightarrow> n \<le> length buf \<longrightarrow>
     unat idx < length (content (c_env c)) \<longrightarrow> (\<exists>r b c'. rd idx buf n c = (Inr (r, b), c') \<and> 0 < r))"

definition lock_keeps_content :: "('r \<Rightarrow> bytes) \<Rightarrow> ('r, 'd) sc_ops \<Rightarrow> bool" where
  "lock_keeps_content content ops \<longleftrightarrow>
     (\<forall>c. content (c_env (snd (sc_lock ops c))) = content (c_env c)) \<and>
     (\<forall>c. content (c_env (snd (sc_unlock ops c))) = content (c_env c))"

lemma take_more: "take a xs = take a ys \<Longrightarrow> take r (drop a xs) = take r (drop a ys) \<Longrightarrow> take (a + r) xs = take (a + r) ys"
  by (simp add: take_add)

lemma unat_add_small: "unat (idx :: u32) + r < 2 ^ 32 \<Longrightarrow> unat (idx + of_nat r) = unat idx + r"
  by (simp add: unat_word_ariths unat_of_nat)

text \<open>The invariant of the reading loop: what is in front of the position is a slice of the file.\<close>

lemma read_loop_slice:
  assumes rd: "reads_file content rd" and small: "length F < 2 ^ 32"
  shows "todo \<le> count \<Longrightarrow> count \<le> length buf \<Longrightarrow> content (c_env c) = F \<Longrightarrow>
    unat idx = start + (count - todo) \<Longrightarrow> take (count - todo) buf = take (count - todo) (drop start F) \<Longrightarrow>
    read_loop rd max_le count idx buf todo c = (r, c') \<Longrightarrow>
    content (c_env c') = F \<and> (\<forall>k b. r = Inr (k, b) \<longrightarrow>
      k \<le> count \<and> length b = length buf \<and> take k b = take k (drop start F))"
proof (induction todo arbitrary: idx buf c rule: less_induct)
  case (less todo)
  let ?off = "count - todo"
  show ?case
  proof (cases "todo = 0")
    case True
    with less.prems show ?thesis by auto
  next
    case nz: False
    obtain q d where q: "rd idx (drop ?off buf) (min todo max_le) c = (q, d)"
      by (cases "rd idx (drop ?off buf) (min todo max_le) c")
    have n: "min todo max_le \<le> length (drop ?off buf)" using less.prems(1,2) by simp
    note spec = rd [unfolded reads_file_def, rule_format, OF n q]
    have d: "content (c_env d) = F" using spec less.prems(3) by simp
    show ?thesis
    proof (cases q)
      case (Inl e)
      have "(r, c') = (Inr (?off, buf), d) \<or> (r, c') = (Inl e, d)"
        by (rule if_cases [OF trans [OF read_loop_Inl [where rd = rd, OF nz q [unfolded Inl], symmetric] less.prems(6)]])
      with d less.prems(5) show ?thesis by auto
    next
      case (Inr p)
      obtain k b where p: "p = (k, b)" by (cases p)
      define B where "B = take ?off buf @ b"
      have kb: "length b = length (drop ?off buf)"
        and kf: "k \<noteq> 0 \<Longrightarrow> unat idx + k \<le> length F \<and> take k b = take k (drop (unat idx) F)"
        using spec Inr p less.prems(3) by auto
      have len: "length B = length buf" using kb less.prems(1,2) by (simp add: B_def)
      have "take ?off B = take ?off buf" using less.prems(1,2) by (simp add: B_def)
      then have front: "take ?off B = take ?off (drop start F)" unfolding less.prems(5) .
      note step = trans [OF read_loop_Inr [where rd = rd, OF nz q [unfolded Inr p] B_def, symmetric] less.prems(6)]
      show ?thesis
      proof (cases "k = 0 \<or> unat idx > SIZE_MAX - k \<or> k > todo")
        case True
        from nested_if_cases [OF step True] show ?thesis
        proof (elim disjE)
          assume "(r, c') = (Inr (?off, B), d)"
          with d len front less.prems(1,2) show ?thesis by simp
        next
          assume "(r, c') = (Inl SC_ERROR_OFFSET_TOO_LARGE, d)"
          with d show ?thesis by simp
        qed
      next
        case False
        have k: "k \<noteq> 0" "\<not> k > todo" by (rule no_stop [OF False])+
        have m: "todo - k < todo" "todo - k \<le> count" "count \<le> length B" "count - (todo - k) = ?off + k"
          using k nz less.prems(1,2) len by simp_all
        have ix: "unat (idx + of_nat k) = start + (count - (todo - k))"
          using unat_add_small [of idx k] kf [OF k(1)] small less.prems(4) m(4) by simp
        have "drop ?off B = b" using less.prems(1,2) by (simp add: B_def)
        then have "take (?off + k) B = take (?off + k) (drop start F)"
          using kf [OF k(1)] less.prems(4) by (intro take_more front) (simp add: add.commute)
        then have fr: "take (count - (todo - k)) B = take (count - (todo - k)) (drop start F)"
          unfolding m(4) .
        from less.IH [OF m(1,2,3) d ix fr nested_if_rest [OF step False]]
        show ?thesis unfolding len .
      qed
    qed
  qed
qed

text \<open>With progress the loop comes to the end of the range.\<close>

lemma read_loop_complete:
  assumes rd: "serves_file content rd" and small: "length F < 2 ^ 32" and mx: "0 < max_le"
  shows "todo \<le> count \<Longrightarrow> count \<le> length buf \<Longrightarrow> content (c_env c) = F \<Longrightarrow>
    unat idx + todo \<le> length F \<Longrightarrow> \<exists>b c'. read_loop rd max_le count idx buf todo c = (Inr (count, b), c')"
proof (induction todo arbitrary: idx buf c rule: less_induct)
  case (less todo)
  let ?off = "count - todo"
  show ?case
  proof (cases "todo = 0")
    case True
    then show ?thesis by simp
  next
    case nz: False
    let ?n = "min todo max_le"
    have n: "0 < ?n" "?n \<le> length (drop ?off buf)" "unat idx < length (content (c_env c))"
      using nz mx less.prems by simp_all
    with rd obtain k b d where q: "rd idx (drop ?off buf) ?n c = (Inr (k, b), d)" and k: "0 < k"
      unfolding serves_file_def by blast
    have "reads_file content rd" using rd by (simp add: serves_file_def)
    note spec = this [unfolded reads_file_def, rule_format, OF n(2) q]
    then have d: "content (c_env d) = F" and b: "k \<le> ?n" "length b = length (drop ?off buf)"
      and fit: "unat idx + k \<le> length F"
      using k less.prems(3) by auto
    have kt: "k \<le> todo" using b(1) by simp
    let ?buf = "take ?off buf @ b"
    have "unat idx + k \<le> SIZE_MAX" using fit small by simp
    then have "\<not> unat idx > SIZE_MAX - k" unfolding not_less by (rule add_le_imp_le_diff)
    then have go: "read_loop rd max_le count idx buf todo c = read_loop rd max_le count (idx + of_nat k) ?buf (todo - k) d"
      using k kt by (intro nested_if_rest [OF read_loop_Inr [where rd = rd, OF nz q refl, symmetric], symmetric])
        (simp only: de_Morgan_disj not_less neq0_conv simp_thms)
    have m: "todo - k < todo" "todo - k \<le> count" "count \<le> length ?buf"
      using k nz less.prems(1,2) b(2) by simp_all
    have "unat (idx + of_nat k) + (todo - k) \<le> length F"
      using unat_add_small [of idx k] fit small less.prems(4) kt by simp
    from less.IH [OF m d this] go show ?thesis by simp
  qed
qed

lemma memcpy_twice:
  assumes "start + length xs + length ys \<le> length F"
  shows "memcpy_at (memcpy_at F start xs) (start + length xs) ys = memcpy_at F start (xs @ ys)"
proof -
  have "take (start + length xs) (memcpy_at F start xs) = take start F @ xs" using assms by simp
  moreover have "drop (start + length xs + length ys) (memcpy_at F start xs) = drop (start + length xs + length ys) F"
    using assms by (simp add: memcpy_at_def min_absorb2 add.commute [of "length ys"])
  ultimately show ?thesis by (simp add: memcpy_at_def [of "memcpy_at F start xs"]) (simp add: memcpy_at_def ac_simps)
qed

lemma memcpy_more:
  assumes "start + (a + r) \<le> length F" and "a + r \<le> length xs"
  shows "memcpy_at (memcpy_at F start (take a xs)) (start + a) (take r (drop a xs)) = memcpy_at F start (take (a + r) xs)"
  using memcpy_twice [of start "take a xs" "take r (drop a xs)" F] assms by (simp add: take_add min_absorb2)

lemma write_loop_effect:
  assumes wr: "writes_file content wr" and small: "length F < 2 ^ 32"
  shows "todo \<le> count \<Longrightarrow> count \<le> length buf0 \<Longrightarrow> buf = drop (count - todo) buf0 \<Longrightarrow>
    unat idx = start + (count - todo) \<Longrightarrow> start + (count - todo) \<le> length F \<or> count = todo \<Longrightarrow>
    content (c_env c) = memcpy_at F start (take (count - todo) buf0) \<Longrightarrow>
    write_loop wr max_lc count idx buf todo c = (Inr k, c') \<Longrightarrow>
    k \<le> count \<and> content (c_env c') = memcpy_at F start (take k buf0) \<and> (start + k \<le> length F \<or> k = 0)"
proof (induction todo arbitrary: idx buf c rule: less_induct)
  case (less todo)
  let ?off = "count - todo"
  let ?C = "content (c_env c)"
  show ?case
  proof (cases "todo = 0")
    case True
    with less.prems show ?thesis by auto
  next
    case nz: False
    obtain q d where q: "wr idx buf (min todo max_lc) c = (q, d)"
      by (cases "wr idx buf (min todo max_lc) c")
    have n: "min todo max_lc \<le> length buf" using less.prems(1-3) by simp
    note spec = wr [unfolded writes_file_def, rule_format, OF n q]
    have stop: "k \<le> count \<and> content (c_env c') = memcpy_at F start (take k buf0) \<and> (start + k \<le> length F \<or> k = 0)"
      if "k = ?off" "c' = d" "content (c_env d) = ?C"
      using that less.prems(1,5,6) by auto
    show ?thesis
    proof (cases q)
      case (Inl e)
      from if_cases [OF trans [OF write_loop_Inl [where wr = wr, OF nz q [unfolded Inl], symmetric] less.prems(7)]]
      have "k = ?off \<and> c' = d" by simp
      with spec Inl stop show ?thesis by simp
    next
      case (Inr j)
      note step = trans [OF write_loop_Inr [where wr = wr, OF nz q [unfolded Inr], symmetric] less.prems(7)]
      have j: "j = 0 \<Longrightarrow> content (c_env d) = ?C"
        "j \<noteq> 0 \<Longrightarrow> unat idx + j \<le> length ?C \<and> content (c_env d) = memcpy_at ?C (unat idx) (take j buf)"
        using spec Inr by (auto split: if_splits)
      show ?thesis
      proof (cases "j = 0")
        case True
        from nested_if_cases [OF step disjI1 [OF True]] have "k = ?off \<and> c' = d" by simp
        with j(1) [OF True] stop show ?thesis by simp
      next
        case jz: False
        note step' = step [unfolded if_not_P [OF jz]]
        show ?thesis
        proof (cases "unat idx > SIZE_MAX - j \<or> j > todo")
          case True
          from step' [unfolded if_P [OF True]] show ?thesis by simp
        next
          case False
          then have jt: "j \<le> todo" by (simp only: de_Morgan_disj not_less)
          have lenF: "length ?C = length F" if "start + ?off \<le> length F"
            using that less.prems(1,2,6) by simp
          have fit: "start + (?off + j) \<le> length F"
          proof (cases "start + ?off \<le> length F")
            case True
            with j(2) [OF jz] lenF less.prems(4) show ?thesis by simp
          next
            case False
            with less.prems(5) have "?off = 0" by simp
            with j(2) [OF jz] less.prems(4,6) show ?thesis by simp
          qed
          have m: "todo - j < todo" "todo - j \<le> count" "count - (todo - j) = ?off + j"
            using jz jt nz less.prems(1) by simp_all
          have bf: "drop j buf = drop (count - (todo - j)) buf0" unfolding m(3) less.prems(3) by (simp add: add.commute [of j])
          have ix: "unat (idx + of_nat j) = start + (count - (todo - j))"
            using unat_add_small [of idx j] fit small less.prems(4) m(3) by simp
          have fits: "start + (count - (todo - j)) \<le> length F \<or> count = todo - j" using fit m(3) by simp
          have cd: "content (c_env d) = memcpy_at F start (take (count - (todo - j)) buf0)"
            using j(2) [OF jz] memcpy_more [OF fit] less.prems(1-4,6) jt unfolding m(3) by simp
          from less.IH [OF m(1,2) less.prems(2) bf ix fits cd step' [unfolded if_not_P [OF False]]]
          show ?thesis .
        qed
      qed
    qed
  qed
qed

lemma locked_content:
  assumes "lock_keeps_content content ops" and "locked ops f c = (Inr x, c')"
  obtains d d' where "content (c_env d) = content (c_env c)" "f d = (Inr x, d')" "content (c_env c') = content (c_env d')"
proof -
  obtain q d where l: "sc_lock ops c = (q, d)" by (cases "sc_lock ops c")
  obtain y d' where f: "f d = (y, d')" by (cases "f d")
  from assms(2) l f have "\<exists>u. q = Inr u" "y = Inr x" "c' = snd (sc_unlock ops d')"
    by (auto simp: locked_def bracket_def split: sum.splits)
  with l f assms(1) show ?thesis
    by (intro that [of d d']) (auto simp: lock_keeps_content_def dest: spec [of _ c])
qed

text \<open>C23: Reading a file in chunks: over a driver that serves a file, a read that returns \<open>k\<close> bytes has
  put the \<open>k\<close> bytes of the file at the offset into the buffer, in order, and has not changed the
  file; and if the range lies within the file and the lock is free to take, all of it is read.\<close>
theorem read_binary_slice:
  assumes "serves_file content rd" and "lock_keeps_content content ops" and "content (c_env c) = F"
    and "length F < 2 ^ 32" and "count \<le> length buf"
    and "sc_read_binary ops (Some rd) idx (Some buf) count c = (r, c')"
  shows "(\<forall>k b. r = Inr (k, b) \<longrightarrow>
      k \<le> count \<and> length b = length buf \<and> take k b = take k (drop (unat idx) F) \<and> content (c_env c') = F) \<and>
    (unat idx + count \<le> length F \<longrightarrow> fst (sc_lock ops c) = Inr () \<longrightarrow> (\<exists>b. r = Inr (count, b)))"
proof (cases "count = 0")
  case True
  with assms(3,6) show ?thesis by (auto simp: sc_read_binary_def)
next
  case nz: False
  let ?loop = "read_loop rd (sc_get_max_recv_size c) count idx buf count"
  from nz assms(6) have run: "locked ops ?loop c = (r, c')" by (simp add: sc_read_binary_def)
  have rd: "reads_file content rd" using assms(1) by (simp add: serves_file_def)
  have 1: "k \<le> count \<and> length b = length buf \<and> take k b = take k (drop (unat idx) F) \<and> content (c_env c') = F"
    if r: "r = Inr (k, b)" for k b
  proof -
    from locked_content [OF assms(2) run [unfolded r]] obtain d d'
      where d: "content (c_env d) = F" "?loop d = (Inr (k, b), d')" "content (c_env c') = content (c_env d')"
      using assms(3) by metis
    from read_loop_slice [OF rd assms(4) le_refl assms(5) d(1) _ _ d(2), of "unat idx"] d(3) show ?thesis by simp
  qed
  have 2: "\<exists>b. r = Inr (count, b)" if fit: "unat idx + count \<le> length F" and lk: "fst (sc_lock ops c) = Inr ()"
  proof -
    obtain d where d: "sc_lock ops c = (Inr (), d)" using lk by (metis prod.collapse)
    have "content (c_env d) = F" using assms(2,3) d unfolding lock_keeps_content_def by (metis snd_conv)
    from read_loop_complete [OF assms(1,4) max_recv_size_pos le_refl assms(5) this fit]
    obtain b d' where "?loop d = (Inr (count, b), d')" by blast
    with run d show ?thesis by (auto simp: locked_def bracket_def)
  qed
  from 1 2 show ?thesis by blast
qed

text \<open>C22: Writing a file in chunks and reading it back: an update that reports all its bytes written has
  put them at the offset and changed nothing else of the file, so that reading the same range
  returns them.\<close>
theorem update_read_roundtrip:
  assumes "serves_file content rd" and "writes_file content wr" and "lock_keeps_content content ops"
    and "content (c_env c) = F" and "length F < 2 ^ 32" and "length data \<le> length buf"
    and "sc_update_binary ops (Some wr) idx (Some data) (length data) c = (Inr (length data), c1)"
    and "sc_read_binary ops (Some rd) idx (Some buf) (length data) c1 = (Inr (k, b), c2)"
  shows "(data \<noteq> [] \<longrightarrow> content (c_env c1) = memcpy_at F (unat idx) data \<and> unat idx + length data \<le> length F) \<and>
    take k b = take k data \<and> (fst (sc_lock ops c1) = Inr () \<longrightarrow> k = length data)"
proof (cases "data = []")
  case True
  with assms(8) show ?thesis by (auto simp: sc_read_binary_def)
next
  case nz: False
  let ?loop = "write_loop wr (sc_get_max_send_size c) (length data) idx data (length data)"
  have "locked ops ?loop c = (Inr (length data), c1)"
    using nz assms(7) by (simp add: sc_update_binary_def write_chunks_def)
  from locked_content [OF assms(3) this] obtain d d'
    where d: "content (c_env d) = F" "?loop d = (Inr (length data), d')" "content (c_env c1) = content (c_env d')"
    using assms(4) by metis
  have w: "content (c_env c1) = memcpy_at F (unat idx) data" "unat idx + length data \<le> length F"
    using write_loop_effect [OF assms(2,5) le_refl le_refl _ _ _ _ d(2), of "unat idx"] d(1,3) nz
    by (simp_all add: memcpy_at_def)
  let ?F = "memcpy_at F (unat idx) data"
  have len: "length ?F = length F" using w(2) by simp
  have "take k (drop (unat idx) ?F) = take k data" if "k \<le> length data"
    using w(2) that by (simp add: memcpy_at_def)
  with read_binary_slice [OF assms(1,3) w(1) _ assms(6,8)] assms(5) len w nz show ?thesis by auto
qed

text \<open>A driver that keeps the file in memory and moves at most two bytes at a time.\<close>

definition memory_read :: "(bytes, unit) reader_op" where
  "memory_read idx buf n c =
    (let F = c_env c; r = min (min 2 n) (length F - unat idx)
     in (Inr (r, take r (drop (unat idx) F) @ drop r buf), c))"

definition memory_write :: "(bytes, unit) writer_op" where
  "memory_write idx buf n c =
    (let F = c_env c; r = min (min 2 n) (length F - unat idx)
     in (Inr r, c\<lparr>c_env := (if r = 0 then F else memcpy_at F (unat idx) (take r buf))\<rparr>))"

lemma memory_serves: "serves_file (\<lambda>F. F) memory_read"
  by (auto simp: serves_file_def reads_file_def memory_read_def Let_def min_def)

lemma memory_writes: "writes_file (\<lambda>F. F) memory_write"
  by (auto simp: writes_file_def memory_write_def Let_def min_def)

lemma null_lock: "sc_lock null_ops c = (Inr (), c\<lparr>c_lock_count := Suc (c_lock_count c)\<rparr>)"
  by (cases c) (simp add: sc_lock_def null_ops_def sc_mutex_lock_def sc_mutex_unlock_def acquire_reader_def Let_def)

lemma null_unlock_env: "c_env (snd (sc_unlock null_ops c)) = c_env c"
  by (simp add: sc_unlock_def null_ops_def sc_mutex_lock_def sc_mutex_unlock_def Let_def)

lemma null_keeps: "lock_keeps_content (\<lambda>F. F) null_ops"
  by (simp add: lock_keeps_content_def null_lock null_unlock_env)

definition memory_card :: "(bytes, unit) sc_card" where
  "memory_card = plain_card [0, 0, 0, 0, 0, 0]"

theorem read_binary_slice_witness:
  "case sc_read_binary null_ops (Some memory_read) 1 (Some [0, 0, 0]) 3 (plain_card [9, 8, 7, 6, 5]) of
   (r, c) \<Rightarrow> (\<exists>b. r = Inr (3, b) \<and> take 3 b = [8, 7, 6])"
proof -
  let ?c = "plain_card [9, 8, 7, 6, 5] :: (bytes, unit) sc_card"
  obtain r c where run: "sc_read_binary null_ops (Some memory_read) 1 (Some [0, 0, 0]) 3 ?c = (r, c)"
    by (metis prod.exhaust)
  have e: "c_env ?c = [9, 8, 7, 6, 5]" "fst (sc_lock null_ops ?c) = Inr ()"
    by (simp_all add: plain_card_def null_lock)
  from read_binary_slice [OF memory_serves null_keeps e(1) _ _ run] e(2) run show ?thesis by auto
qed

lemma memory_update:
  "\<exists>c1. sc_update_binary null_ops (Some memory_write) 1 (Some [7, 8, 9]) 3 memory_card = (Inr 3, c1) \<and>
    c_env c1 = [0, 7, 8, 9, 0, 0]"
proof -
  define d where "d = memory_card\<lparr>c_lock_count := Suc 0\<rparr>"
  have l: "sc_lock null_ops memory_card = (Inr (), d)" by (simp add: null_lock d_def memory_card_def plain_card_def)
  have w1: "memory_write 1 [7, 8, 9] (min 3 255) d = (Inr 2, d\<lparr>c_env := [0, 7, 8, 0, 0, 0]\<rparr>)"
    by (simp add: memory_write_def d_def memory_card_def plain_card_def memcpy_at_def)
  have w2: "memory_write (1 + of_nat 2) (drop 2 [7, 8, 9]) (min (3 - 2) 255) (d\<lparr>c_env := [0, 7, 8, 0, 0, 0]\<rparr>) =
      (Inr 1, d\<lparr>c_env := [0, 7, 8, 9, 0, 0]\<rparr>)"
    by (simp add: memory_write_def d_def memory_card_def plain_card_def memcpy_at_def)
  have "write_loop memory_write 255 3 1 [7, 8, 9] 3 d = (Inr 3, d\<lparr>c_env := [0, 7, 8, 9, 0, 0]\<rparr>)"
    using write_loop_Inr [where wr = memory_write, OF _ w1] write_loop_Inr [where wr = memory_write, OF _ w2] by simp
  moreover have "sc_get_max_send_size memory_card = 255"
    by (simp add: sc_get_max_send_size_def memory_card_def plain_card_def)
  ultimately show ?thesis
    using l null_unlock_env [of "d\<lparr>c_env := [0, 7, 8, 9, 0, 0]\<rparr>"]
    by (simp add: sc_update_binary_def write_chunks_def locked_def bracket_def)
qed

theorem update_read_roundtrip_witness:
  "\<exists>c1 c2 b. sc_update_binary null_ops (Some memory_write) 1 (Some [7, 8, 9]) 3 memory_card = (Inr 3, c1) \<and>
    sc_read_binary null_ops (Some memory_read) 1 (Some [0, 0, 0]) 3 c1 = (Inr (3, b), c2) \<and> take 3 b = [7, 8, 9]"
proof -
  obtain c1 where u: "sc_update_binary null_ops (Some memory_write) 1 (Some [7, 8, 9]) 3 memory_card = (Inr 3, c1)"
    and c1: "c_env c1 = [0, 7, 8, 9, 0, 0]" using memory_update by blast
  obtain r c2 where run: "sc_read_binary null_ops (Some memory_read) 1 (Some [0, 0, 0]) 3 c1 = (r, c2)"
    by (metis prod.exhaust)
  have "\<exists>b. r = Inr (3, b)"
  proof -
    define d where "d = c1\<lparr>c_lock_count := Suc (c_lock_count c1)\<rparr>"
    have len6: "length ([0, 7, 8, 9, 0, 0] :: bytes) = 6" by simp
    have "\<exists>b c'. read_loop memory_read (sc_get_max_recv_size c1) 3 1 [0, 0, 0] 3 d = (Inr (3, b), c')"
      by (rule read_loop_complete [where F = "[0, 7, 8, 9, 0, 0]", OF memory_serves _ max_recv_size_pos]) (simp_all add: d_def c1 len6)
    with run show ?thesis
      by (auto simp: sc_read_binary_def locked_def bracket_def null_lock d_def)
  qed
  then obtain b where b: "r = Inr (3, b)" by blast
  have e: "c_env memory_card = [0, 0, 0, 0, 0, 0]" by (simp add: memory_card_def plain_card_def)
  have l3: "length ([7, 8, 9] :: bytes) = 3" by simp
  have u': "sc_update_binary null_ops (Some memory_write) 1 (Some [7, 8, 9]) (length ([7, 8, 9] :: bytes)) memory_card =
      (Inr (length ([7, 8, 9] :: bytes)), c1)" using u unfolding l3 .
  have run': "sc_read_binary null_ops (Some memory_read) 1 (Some [0, 0, 0]) (length ([7, 8, 9] :: bytes)) c1 = (Inr (3, b), c2)"
    using run unfolding l3 b .
  have "take 3 b = take 3 [7, 8, 9]"
    using update_read_roundtrip [OF memory_serves memory_writes null_keeps e, where data = "[7, 8, 9]" and buf = "[0, 0, 0]",
        OF _ _ u' run'] by simp
  with u run b show ?thesis by auto
qed

section \<open>Challenges\<close>

lemma wrap_sub: "(len + M - k) mod M = len - k" if "k \<le> len" "len < M" for len k M :: nat
proof -
  have "len + M - k = (len - k) + M" using that by simp
  then have "(len + M - k) mod M = ((len - k) + M) mod M" by (rule arg_cong)
  also have "\<dots> = (len - k) mod M" by (rule mod_add_self2)
  also have "\<dots> = len - k" by (rule mod_less) (use that in simp)
  finally show ?thesis .
qed

lemma challenge_loop_result:
  assumes safe: "\<And>rnd len. len \<le> length rnd \<Longrightarrow> safe env_ok (gc rnd len)"
    and fills: "\<And>rnd len. len \<le> length rnd \<Longrightarrow> fills env_ok rnd len (gc rnd len)"
  shows "len \<le> fuel \<Longrightarrow> len \<le> length rnd \<Longrightarrow> len < 2 ^ 64 \<Longrightarrow> env_ok (c_env c) \<Longrightarrow>
    challenge_loop fuel gc front rnd len c = (r, c') \<Longrightarrow>
    env_ok (c_env c') \<and> c_lock_count c' = c_lock_count c \<and> r \<noteq> Inl OUT_OF_FUEL \<and>
    (\<forall>b. r = Inr b \<longrightarrow> length b = length front + length rnd)"
proof (induction fuel arbitrary: front rnd len c)
  case 0
  then show ?case by auto
next
  case (Suc fuel)
  show ?case
  proof (cases "len = 0")
    case True
    with Suc.prems show ?thesis by auto
  next
    case nz: False
    obtain q d where q: "gc rnd len c = (q, d)" by (cases "gc rnd len c")
    from safeD [OF safe [OF Suc.prems(2)] Suc.prems(4) q]
    have d: "env_ok (c_env d)" "c_lock_count d = c_lock_count c" "q \<noteq> Inl OUT_OF_FUEL" by auto
    show ?thesis
    proof (cases q)
      case (Inl e)
      with Suc.prems(5) nz q d show ?thesis by auto
    next
      case (Inr p)
      obtain k b where p: "p = (k, b)" by (cases p)
      from fills [OF Suc.prems(2)] Suc.prems(4) q Inr p
      have kb: "k \<le> len" "length b = length rnd" unfolding fills_def by blast+
      show ?thesis
      proof (cases "k = 0")
        case True
        have "(Inl SC_ERROR_INVALID_DATA, d) = (r, c')"
          using Suc.prems(5)
          unfolding challenge_loop.simps if_not_P [OF nz] q Inr p prod.case sum.case if_P [OF True] .
        then have "r = Inl SC_ERROR_INVALID_DATA" and c': "c' = d" by simp_all
        then have "r \<noteq> Inl OUT_OF_FUEL \<and> (\<forall>b. r = Inr b \<longrightarrow> length b = length front + length rnd)" by simp
        with d(1,2) c' show ?thesis by blast
      next
        case kz: False
        note w = wrap_sub [OF kb(1) Suc.prems(3)]
        have run: "challenge_loop fuel gc (front @ take k b) (drop k b) (len - k) d = (r, c')"
          using Suc.prems(5)
          unfolding challenge_loop.simps if_not_P [OF nz] q Inr p prod.case sum.case if_not_P [OF kz] w .
        have m: "len - k \<le> fuel" "len - k \<le> length (drop k b)"
          using Suc.prems(1,2) kz nz kb by simp_all
        have l: "len - k < 2 ^ 64" by (rule le_less_trans [OF diff_le_self Suc.prems(3)])
        have "length (front @ take k b) + length (drop k b) = length front + length rnd" using kb by simp
        with Suc.IH [OF m l d(1) run] d(2) show ?thesis by simp
      qed
    qed
  qed
qed

text \<open>C25: Asking the card for random bytes ends: over the ISO 7816 driver on the PC/SC reader the loop
  returns after at most one round per byte, whatever the card answers, with the lock as before;
  when it succeeds, the buffer has kept its size.\<close>
theorem get_challenge_terminates:
  assumes "no_escape (c_env c)" and "len \<le> length rnd" and "len < 2 ^ 64" and "ops = iso_table n malloc api conf"
    and "sc_get_challenge ops (Some (iso7816_get_challenge ops)) (Some rnd) len c = (r, c')"
  shows "r \<noteq> Inl OUT_OF_FUEL \<and> c_lock_count c' = c_lock_count c \<and> (\<forall>b. r = Inr b \<longrightarrow> length (mem b) = length rnd)"
proof (cases "len = 0")
  case True
  with assms(5) show ?thesis by (auto simp: sc_get_challenge_def)
next
  case nz: False
  let ?gc = "iso7816_get_challenge (iso_table n malloc api conf)"
  let ?loop = "challenge_loop len ?gc [] rnd len"
  have loop: "no_escape (c_env x) \<Longrightarrow> ?loop x = (y, x') \<Longrightarrow>
      no_escape (c_env x') \<and> c_lock_count x' = c_lock_count x \<and> y \<noteq> Inl OUT_OF_FUEL \<and>
      (\<forall>b. y = Inr b \<longrightarrow> length b = length ([] :: bytes) + length rnd)" for x y x'
    by (rule challenge_loop_result [OF _ _ le_refl assms(2,3)])
      (erule iso.get_challenge_safe(1) iso.get_challenge_safe(2) | assumption)+
  obtain q d where q: "locked ops ?loop c = (q, d)" by (cases "locked ops ?loop c")
  from nz assms(4,5) q have r: "c' = d" "r = map_sum id Some q"
    by (cases q; auto simp: sc_get_challenge_def sbind_def)+
  have "safe no_escape ?loop"
    by (rule safeI) (drule (1) loop, simp)
  from safeD [OF iso.safe_lock_bracket [OF this] assms(1)] q assms(4)
  have s: "c_lock_count d = c_lock_count c" "q \<noteq> Inl OUT_OF_FUEL" by (auto simp: locked_def)
  have "length b = length rnd" if "q = Inr b" for b
  proof -
    obtain p e where l: "sc_lock ops c = (p, e)" by (cases "sc_lock ops c")
    have env: "no_escape (c_env e)" using keepsD [OF iso.lock_keeps_env(1) assms(1)] l assms(4) by blast
    obtain x f where x: "?loop e = (x, f)" by (cases "?loop e")
    with q l that have "x = Inr b" by (auto simp: locked_def bracket_def split: sum.splits)
    with loop [OF env x] show ?thesis by simp
  qed
  with r s show ?thesis by (cases q) auto
qed

theorem get_challenge_terminates_witness:
  "case sc_get_challenge demo_table (Some (iso7816_get_challenge demo_table)) (Some (replicate 8 0)) 8 (plain_card demo_reader)
   of (r, c) \<Rightarrow> r \<noteq> Inl OUT_OF_FUEL \<and> c_lock_count c = 0"
proof -
  obtain r c where run: "sc_get_challenge demo_table (Some (iso7816_get_challenge demo_table)) (Some (replicate 8 0)) 8
      (plain_card demo_reader) = (r, c)" by (metis prod.exhaust)
  have e: "no_escape (c_env (plain_card demo_reader))"
    by (simp add: no_escape_def demo_reader_def plain_card_def)
  from get_challenge_terminates [OF e _ _ demo_table_def run] run show ?thesis by (simp add: plain_card_def)
qed

end
