(* ===== verification/Sc_Frame.thy ===== *)
theory Sc_Frame
  imports Sc_CardIO
begin

text \<open>
  What a transfer leaves alone. Sending a command changes the card's environment and, while it
  runs, the lock count; the class byte, the limits, the algorithms and the driver's own data are
  those of before. A card driver that keeps state between its commands relies on this.
\<close>

definition same_card :: "('r, 'd) sc_card \<Rightarrow> ('r, 'd) sc_card \<Rightarrow> bool" where
  "same_card c d \<longleftrightarrow> d = c\<lparr>c_env := c_env d, c_lock_count := c_lock_count d\<rparr>"

lemma same_card_iff:
  "same_card c d \<longleftrightarrow> c_cla d = c_cla c \<and> c_type d = c_type c \<and> c_caps d = c_caps c \<and>
     c_max_send_size d = c_max_send_size c \<and> c_max_recv_size d = c_max_recv_size c \<and>
     c_algorithms d = c_algorithms c \<and> c_disable_hw_pkcs1_padding d = c_disable_hw_pkcs1_padding c \<and>
     c_reader_protocol d = c_reader_protocol c \<and> c_reader_max_send_size d = c_reader_max_send_size c \<and>
     c_reader_max_recv_size d = c_reader_max_recv_size c \<and> c_drv_data d = c_drv_data c"
  unfolding same_card_def by (cases c; cases d) auto

lemma same_card_refl [simp, intro]: "same_card c c"
  and same_card_trans [trans]: "same_card c d \<Longrightarrow> same_card d e \<Longrightarrow> same_card c e"
  by (auto simp: same_card_iff)

lemma same_card_env [simp]: "same_card c (c\<lparr>c_env := e\<rparr>)"
  and same_card_lock [simp]: "same_card c (c\<lparr>c_lock_count := n\<rparr>)"
  by (simp_all add: same_card_iff)

lemma same_card_drv: "same_card c d \<Longrightarrow> c_drv_data d = c_drv_data c"
  by (simp add: same_card_iff)

text \<open>A program on a card, and one on an APDU and a card.\<close>

definition framed :: "(('r, 'd) sc_card, 'a) prog \<Rightarrow> bool" where
  "framed f \<longleftrightarrow> (\<forall>c. same_card c (snd (f c)))"

definition xframed :: "(('r, 'd) xfer, 'a) prog \<Rightarrow> bool" where
  "xframed f \<longleftrightarrow> (\<forall>a c. same_card c (snd (snd (f (a, c)))))"

lemma framedD: "framed f \<Longrightarrow> f c = (r, d) \<Longrightarrow> same_card c d"
  unfolding framed_def by (metis snd_conv)

lemma xframedD: "xframed f \<Longrightarrow> f (a, c) = (r, (b, d)) \<Longrightarrow> same_card c d"
  unfolding xframed_def by (metis snd_conv)

lemma framedI: "(\<And>c r d. f c = (r, d) \<Longrightarrow> same_card c d) \<Longrightarrow> framed f"
  unfolding framed_def by (metis prod.collapse)

lemma xframedI: "(\<And>a c r b d. f (a, c) = (r, (b, d)) \<Longrightarrow> same_card c d) \<Longrightarrow> xframed f"
  unfolding xframed_def by (metis prod.collapse)

lemma framed_sret [simp, intro]: "framed (sret x)"
  and framed_lift_res [simp, intro]: "framed (lift_res r)"
  by (simp_all add: framed_def)

lemma framed_on_env [simp]: "framed (on_env f)"
  by (simp add: framed_def on_env_def split_beta Let_def)

lemma framed_sbind [intro]: "framed f \<Longrightarrow> (\<And>x. framed (g x)) \<Longrightarrow> framed (sbind f g)"
  by (rule framedI) (auto simp: sbind_def split: prod.splits sum.splits dest!: framedD intro: same_card_trans)

lemma xframed_sbind [intro]: "xframed f \<Longrightarrow> (\<And>x. xframed (g x)) \<Longrightarrow> xframed (sbind f g)"
  by (rule xframedI) (auto simp: sbind_def split: prod.splits sum.splits dest!: xframedD intro: same_card_trans)

lemma xframed_on_card [intro]: "framed f \<Longrightarrow> xframed (on_card f)"
  by (simp add: framed_def xframed_def on_card_def split_beta Let_def)

lemma xframed_bracket:
  assumes "xframed lk" "xframed ul" "xframed body"
  shows "xframed (bracket lk ul body)"
proof (rule xframedI)
  fix a c r b d assume run: "bracket lk ul body (a, c) = (r, (b, d))"
  obtain q a1 c1 where l: "lk (a, c) = (q, (a1, c1))" by (metis prod.exhaust)
  obtain x a2 c2 where x: "body (a1, c1) = (x, (a2, c2))" by (metis prod.exhaust)
  obtain y a3 c3 where y: "ul (a2, c2) = (y, (a3, c3))" by (metis prod.exhaust)
  note s = xframedD [OF assms(1) l] xframedD [OF assms(3) x] xframedD [OF assms(2) y]
  from run l x y have "d = c1 \<or> d = c3" by (auto simp: bracket_def split: sum.splits)
  with s show "same_card c d" by (auto intro: same_card_trans)
qed

section \<open>The lock\<close>

definition ops_framed :: "('r, 'd) sc_ops \<Rightarrow> bool" where
  "ops_framed ops \<longleftrightarrow> (\<forall>g \<in> set_option (o_card_reader_lock_obtained ops). \<forall>w. framed (g w)) \<and>
     (\<forall>gr \<in> set_option (o_get_response ops). \<forall>n. framed (gr n))"

lemma mutex_framed: "framed (sc_mutex_lock ops)" "framed (sc_mutex_unlock ops)"
  by (simp_all add: sc_mutex_lock_def sc_mutex_unlock_def split: option.split)

lemma acquire_framed: "acquire_reader ops c = (r, w, b, d) \<Longrightarrow> same_card c d"
  by (auto simp: acquire_reader_def Let_def split: if_splits option.splits prod.splits)

lemma lock_framed:
  assumes "ops_framed ops"
  shows "framed (sc_lock ops)"
proof (rule framedI)
  fix c r d assume run: "sc_lock ops c = (r, d)"
  obtain q c1 where m: "sc_mutex_lock ops c = (q, c1)" by (cases "sc_mutex_lock ops c")
  note s1 = framedD [OF mutex_framed(1) m]
  show "same_card c d"
  proof (cases q)
    case (Inl e)
    with run m s1 show ?thesis by (auto simp: sc_lock_def)
  next
    case (Inr u)
    obtain p w b c2 where a: "acquire_reader ops c1 = (p, w, b, c2)" by (metis prod.exhaust)
    define c3 where "c3 = (if p = Inr () then c2\<lparr>c_lock_count := c_lock_count c2 + 1\<rparr> else c2)"
    have s3: "same_card c2 c3" by (simp add: c3_def)
    obtain r2 c4 where u: "sc_mutex_unlock ops c3 = (r2, c4)" by (cases "sc_mutex_unlock ops c3")
    have s4: "same_card c c4"
      using s1 acquire_framed [OF a] s3 framedD [OF mutex_framed(2) u] by (blast intro: same_card_trans)
    have "same_card c4 (snd (g w c4))" if "o_card_reader_lock_obtained ops = Some g" for g
      using assms that by (simp add: ops_framed_def framed_def)
    moreover from run m Inr a u
    have "d = c4 \<or> (\<exists>g. o_card_reader_lock_obtained ops = Some g \<and> d = snd (g w c4))"
      by (auto simp: sc_lock_def c3_def [symmetric] Let_def split: option.splits if_splits)
    ultimately show ?thesis using s4 by (auto intro: same_card_trans)
  qed
qed

lemma unlock_framed: "framed (sc_unlock ops)"
proof (rule framedI)
  fix c r d assume run: "sc_unlock ops c = (r, d)"
  obtain q c1 where m: "sc_mutex_lock ops c = (q, c1)" by (cases "sc_mutex_lock ops c")
  note s1 = framedD [OF mutex_framed(1) m]
  show "same_card c d"
  proof (cases "q = Inr () \<and> \<not> c_lock_count c1 < 1")
    case False
    with run m s1 show ?thesis by (cases q) (auto simp: sc_unlock_def)
  next
    case True
    define c2 where "c2 = c1\<lparr>c_lock_count := c_lock_count c1 - 1\<rparr>"
    obtain p c3 where u: "(if c_lock_count c2 = 0 then
        (case o_reader_unlock ops of None \<Rightarrow> (Inr (), c2) | Some f \<Rightarrow> on_env f c2) else (Inr (), c2)) = (p, c3)"
      by (metis prod.exhaust)
    have s3: "same_card c2 c3"
      using u framedD [OF framed_on_env] by (auto split: if_splits option.splits)
    obtain r2 c4 where v: "sc_mutex_unlock ops c3 = (r2, c4)" by (cases "sc_mutex_unlock ops c3")
    from True have t: "q = Inr ()" "\<not> c_lock_count c1 < 1" by simp_all
    have "(if r2 \<noteq> Inr () then if p = Inr () then r2 else p else p, c4) = (r, d)"
      using run unfolding sc_unlock_def m t(1) prod.case sum.case if_not_P [OF t(2)] Let_def
        c2_def [symmetric] u v .
    then have "d = c4" by simp
    moreover have "same_card c1 c2" by (simp add: c2_def)
    ultimately show ?thesis
      using s1 s3 framedD [OF mutex_framed(2) v] by (blast intro: same_card_trans)
  qed
qed

section \<open>The transfer\<close>

lemma single_framed: "xframed (sc_single_transmit ops)"
  by (rule xframedI) (auto simp: sc_single_transmit_def split: option.splits prod.splits)

lemma retry_framed: "xframed (retry_wl ops olen)"
proof (rule xframedI)
  fix a c r b d assume "retry_wl ops olen (a, c) = (r, (b, d))"
  then show "same_card c d"
    unfolding retry_wl_def sc_set_le_and_transmit_def
    by (auto simp: Let_def split: if_splits dest: xframedD [OF single_framed])
qed

lemma get_response_loop_framed:
  assumes "\<And>n. framed (gr n)"
  shows "get_response_loop fuel gr off buflen le resp c = (r, off', resp', d) \<Longrightarrow> same_card c d"
proof (induction fuel arbitrary: off buflen le resp c)
  case 0
  then show ?case by simp
next
  case (Suc fuel)
  obtain q c1 where q: "gr le c = (q, c1)" by (cases "gr le c")
  note s = framedD [OF assms q]
  show ?case
  proof (cases "buflen = 0 \<or> isl q")
    case True
    with Suc.prems q s show ?thesis by (cases q) (auto split: if_splits)
  next
    case False
    then obtain rv x where "q = Inr (rv, x)" by (cases q) auto
    with Suc.prems q False s Suc.IH show ?thesis
      by (auto simp: Let_def split: if_splits intro: same_card_trans)
  qed
qed

lemma get_response_framed:
  assumes "ops_framed ops"
  shows "xframed (sc_get_response ops olen)"
proof (rule xframedI)
  fix a c r b d assume run: "sc_get_response ops olen (a, c) = (r, (b, d))"
  show "same_card c d"
  proof (cases "a_le a = 0 \<or> o_get_response ops = None")
    case True
    with run show ?thesis by (auto simp: sc_get_response_def split: if_splits)
  next
    case False
    then obtain gr where gr: "o_get_response ops = Some gr" by auto
    obtain q off resp e where l: "get_response_loop (Suc (olen - a_resplen a)) gr (a_resplen a) (olen - a_resplen a)
        (sw2_length (a_sw2 a)) (mem (a_resp a)) c = (q, off, resp, e)" by (metis prod.exhaust)
    have "d = e"
      using run False gr l by (auto simp: sc_get_response_def Let_def simp del: get_response_loop.simps split: sum.splits)
    with get_response_loop_framed [OF _ l] assms gr show ?thesis by (simp add: ops_framed_def)
  qed
qed

lemma transmit_framed: "ops_framed ops \<Longrightarrow> xframed (sc_transmit ops)"
proof -
  assume o: "ops_framed ops"
  have "xframed (fetch_rest ops olen)" for olen
    using xframedD [OF get_response_framed [OF o]]
    by (auto simp: fetch_rest_def intro!: xframedI split: if_splits)
  then have "xframed (sbind (sc_single_transmit ops) (\<lambda>_. sbind (retry_wl ops olen) (\<lambda>_. fetch_rest ops olen)))" for olen
    by (intro xframed_sbind single_framed retry_framed)
  then show ?thesis by (simp add: xframed_def sc_transmit_def Let_def)
qed

lemma chain_framed:
  assumes "ops_framed ops"
  shows "chain_loop fuel ops mx buf len (a, c) = (r, (b, d)) \<Longrightarrow> same_card c d"
proof (induction fuel arbitrary: buf len a c)
  case 0
  then show ?case by simp
next
  case (Suc fuel)
  let ?t = "chain_apdu a mx buf len"
  obtain q t c1 where t: "sc_transmit ops (?t, c) = (q, (t, c1))" by (metis prod.exhaust)
  note s = xframedD [OF transmit_framed [OF assms] t]
  show ?case
  proof (cases "len = 0 \<or> isl (sc_check_apdu (c_caps c) ?t)")
    case True
    with Suc.prems show ?thesis by (cases "sc_check_apdu (c_caps c) ?t") (auto simp: Let_def split: if_splits)
  next
    case False
    then obtain u where k: "sc_check_apdu (c_caps c) ?t = Inr u" "len \<noteq> 0"
      by (cases "sc_check_apdu (c_caps c) ?t") auto
    from Suc.prems have "(case q of
        Inl e \<Rightarrow> (Inl e, (if \<not> len > mx then a\<lparr>a_resp := a_resp t\<rparr> else a), c1)
      | Inr _ \<Rightarrow>
          if \<not> len > mx then
            chain_loop fuel ops mx (drop (if len > mx then mx else len) buf) (len - (if len > mx then mx else len))
              (a\<lparr>a_sw1 := a_sw1 t, a_sw2 := a_sw2 t, a_resplen := a_resplen t, a_resp := a_resp t\<rparr>, c1)
          else (case sc_check_sw ops (a_sw1 t) (a_sw2 t) of
              Inl e \<Rightarrow> (Inl e, (a, c1))
            | Inr _ \<Rightarrow> chain_loop fuel ops mx (drop (if len > mx then mx else len) buf)
                         (len - (if len > mx then mx else len)) (a, c1))) = (r, (b, d))"
      unfolding chain_loop.simps if_not_P [OF k(2)] Let_def k(1) t prod.case sum.case .
    then show ?thesis
      using s Suc.IH by (cases q) (auto split: if_splits sum.splits intro: same_card_trans)
  qed
qed

lemma body_framed:
  assumes "ops_framed ops"
  shows "xframed (transmit_body ops)"
proof (rule xframedI)
  fix a c r b d assume run: "transmit_body ops (a, c) = (r, (b, d))"
  obtain q a' c' where q: "(if chaining a
      then chain_loop (a_datalen a) ops (sc_get_max_send_size c) (mem (a_data a)) (a_datalen a) (a, c)
      else sc_transmit ops (a, c)) = (q, (a', c'))" by (metis prod.exhaust)
  have s: "same_card c c'"
    using q chain_framed [OF assms] xframedD [OF transmit_framed [OF assms]] by (auto split: if_splits)
  have g: "same_card c' (snd (g 1 c'))" if "o_card_reader_lock_obtained ops = Some g" for g
    using assms that by (simp add: ops_framed_def framed_def)
  from run have "d = c' \<or> (\<exists>g. o_card_reader_lock_obtained ops = Some g \<and> d = snd (g 1 c'))"
    unfolding transmit_body_def prod.case q Let_def by (auto split: if_splits option.splits)
  with s g show "same_card c d" by (auto intro: same_card_trans)
qed

lemma transmit_apdu_framed:
  assumes "ops_framed ops"
  shows "xframed (sc_transmit_apdu ops)"
proof (rule xframedI)
  fix a c r b d assume run: "sc_transmit_apdu ops (a, c) = (r, (b, d))"
  have br: "xframed (bracket (on_card (sc_lock ops)) (on_card (sc_unlock ops)) (transmit_body ops))"
    by (intro xframed_bracket xframed_on_card lock_framed unlock_framed body_framed assms)
  show "same_card c d"
    using run xframedD [OF br] unfolding sc_transmit_apdu_def
    by (auto simp: Let_def split: sum.splits)
qed

lemma exchange_framed: "ops_framed ops \<Longrightarrow> framed (exchange ops a)"
  by (rule framedI) (auto simp: exchange_def split: prod.splits sum.splits dest!: xframedD [OF transmit_apdu_framed])

lemma command_framed: "ops_framed ops \<Longrightarrow> framed (command ops a)"
  unfolding command_def by (intro framed_sbind exchange_framed framed_lift_res)

section \<open>The driver table\<close>

lemma pcsc_framed: "ops_framed (pcsc_table n malloc api conf)"
  by (simp add: ops_framed_def)

lemma framed_pure: "(\<And>c. snd (f c) = c) \<Longrightarrow> framed f"
  by (simp add: framed_def)

lemma get_response_op_framed:
  assumes "ops_framed ops"
  shows "framed (iso7816_get_response ops n)"
proof (rule framedI)
  fix c r d assume run: "iso7816_get_response ops n c = (r, d)"
  show "same_card c d"
    using run unfolding iso7816_get_response_def Let_def
    by (auto simp: sbind_def split: prod.splits sum.splits if_splits dest: framedD [OF exchange_framed [OF assms]])
qed

lemma iso_framed [simp]: "ops_framed (iso_table n malloc api conf)"
  by (simp add: ops_framed_def get_response_op_framed pcsc_framed)


end
