(* ===== verification/Sc_StarSign.thy ===== *)
theory Sc_StarSign
  imports Sc_Frame
begin

text \<open>
  The StarSign driver (\<open>libopensc/card-starsign.c\<close>): recognition of the card, the initial
  handshake and the change to logical channel 1, the navigation of the card's directories, and
  the security environment. Everything else is inherited from the ISO 7816 driver.

  The driver remembers between its commands which directory the card is in; \<open>starsign_drv_data\<close>
  is that memory, held in \<open>c_drv_data\<close>. \<open>select_plan\<close> and \<open>drv_after\<close> state what a selection sends
  and remembers, whatever number of its commands the card accepts, and \<open>select_file_plan\<close>
  shows that the code does that. The relation \<open>navigates\<close> iterates selections; what
  the driver remembers agrees with the directory the card is in as long as no navigation from
  the master file is cut short (\<open>cache_coherent\<close>).
\<close>

section \<open>The driver's memory\<close>

record starsign_drv_data =
  df5031_selected :: bool
  mid_fid :: bytes
  mid_fid_valid :: bool

abbreviation (input) sizeof_drv_data :: nat where "sizeof_drv_data \<equiv> 12"

definition zero_drv :: starsign_drv_data where
  "zero_drv = \<lparr>df5031_selected = False, mid_fid = [0, 0], mid_fid_valid = False\<rparr>"

type_synonym 'r ss_card = "('r, starsign_drv_data) sc_card"
type_synonym 'r ss_ops = "('r, starsign_drv_data) sc_ops"

section \<open>Recognition and initialisation\<close>

definition starsign_match_card :: "bytes \<Rightarrow> 'r ss_card \<Rightarrow> bool \<times> 'r ss_card" where
  "starsign_match_card atr c =
    (case sc_match_atr starsign_atrs atr of
       None \<Rightarrow> (False, c)
     | Some (i, ty) \<Rightarrow> (True, c\<lparr>c_type := ty\<rparr>))"

definition starsign_drm_string :: bytes where
  "starsign_drm_string =
     map (\<lambda>ch. of_nat (of_char ch)) ''I am A.E.T. Europe B.V. SafeSign or BlueX approved software.''"

definition starsign_aid :: bytes where
  "starsign_aid = [0xA0, 0x00, 0x00, 0x00, 0x63, 0x50, 0x4B, 0x43, 0x53, 0x2D, 0x31, 0x35]"

definition starsign_alg_flags :: u64 where
  "starsign_alg_flags = SC_ALGORITHM_RSA_RAW OR SC_ALGORITHM_RSA_PAD_PKCS1 OR SC_ALGORITHM_RSA_HASH_NONE"

definition rbuf :: bytes where
  "rbuf = replicate SC_MAX_APDU_BUFFER_SIZE 0"

text \<open>The commands of the handshake, on the card as it is when they are built.\<close>

definition drm_apdu :: "'r ss_card \<Rightarrow> sc_apdu" where
  "drm_apdu c = with_data (length starsign_drm_string) (Some starsign_drm_string)
     (sc_format_apdu c SC_APDU_CASE_3_SHORT 0xDA 0x01 0x00)"

definition aid_apdu :: "'r ss_card \<Rightarrow> sc_apdu" where
  "aid_apdu c = (with_data (length starsign_aid) (Some starsign_aid)
     (sc_format_apdu c SC_APDU_CASE_4_SHORT 0xA4 0x04 0x00))
     \<lparr>a_le := 256, a_resplen := SC_MAX_APDU_BUFFER_SIZE, a_resp := Some rbuf\<rparr>"

definition channel_apdu :: "'r ss_card \<Rightarrow> sc_apdu" where
  "channel_apdu c = (sc_format_apdu c SC_APDU_CASE_2_SHORT 0x70 0x00 0x00)
     \<lparr>a_resp := Some rbuf, a_resplen := SC_MAX_APDU_BUFFER_SIZE, a_le := 1\<rparr>"

definition aid_again_apdu :: "'r ss_card \<Rightarrow> sc_apdu" where
  "aid_again_apdu c = with_data (length starsign_aid) (Some starsign_aid)
     (sc_format_apdu c SC_APDU_CASE_3_SHORT 0xA4 0x04 0x00)"

definition modify :: "('s \<Rightarrow> 's) \<Rightarrow> ('s, unit) prog" where
  "modify f c = (Inr (), f c)"

text \<open>A command built from the card it is sent to; its status is not looked at.\<close>

definition tell :: "'r ss_ops \<Rightarrow> ('r ss_card \<Rightarrow> sc_apdu) \<Rightarrow> ('r ss_card, sc_apdu) prog" where
  "tell ops cmd c = exchange ops (cmd c) c"

definition open_channel :: "'r ss_ops \<Rightarrow> ('r ss_card, unit) prog" where
  "open_channel ops = sbind (tell ops channel_apdu) (\<lambda>a.
     if a_sw1 a = 0x6A \<and> a_sw2 a = 0x81 then sret ()
     else lift_res (sc_check_sw ops (a_sw1 a) (a_sw2 a)))"

definition starsign_limits :: "'r ss_card \<Rightarrow> 'r ss_card" where
  "starsign_limits c = c\<lparr>c_caps := c_caps c OR SC_CARD_CAP_APDU_EXT, c_max_send_size := 2048, c_max_recv_size := 256\<rparr>"

definition starsign_algorithms :: "'r ss_card \<Rightarrow> 'r ss_card" where
  "starsign_algorithms c =
     sc_card_add_rsa_alg 4096 starsign_alg_flags 0
       (sc_card_add_rsa_alg 2048 starsign_alg_flags 0 (sc_card_add_rsa_alg 1024 starsign_alg_flags 0 c))"

definition starsign_init :: "(nat \<Rightarrow> bool) \<Rightarrow> 'r ss_ops \<Rightarrow> ('r ss_card, unit) prog" where
  "starsign_init alloc ops c =
    (let c = c\<lparr>c_type := SC_CARD_TYPE_STARSIGN\<rparr> in
     if \<not> alloc sizeof_drv_data then (Inl SC_ERROR_OUT_OF_MEMORY, c\<lparr>c_drv_data := None\<rparr>)
     else
       sbind (modify (c_drv_data_update (\<lambda>_. Some zero_drv))) (\<lambda>_.
       sbind (tell ops drm_apdu) (\<lambda>_.
       sbind (tell ops aid_apdu) (\<lambda>_.
       sbind (tell ops drm_apdu) (\<lambda>_.
       sbind (open_channel ops) (\<lambda>_.
       sbind (modify (c_cla_update (\<lambda>_. 0x01))) (\<lambda>_.
       sbind (tell ops aid_again_apdu) (\<lambda>_.
       sbind (modify starsign_limits) (\<lambda>_.
       modify starsign_algorithms)))))))) c)"

definition starsign_finish :: "('r ss_card, unit) prog" where
  "starsign_finish c = (Inr (), c\<lparr>c_drv_data := None\<rparr>)"

section \<open>Selection of files\<close>

text \<open>Selection of a directory: P1 is 0, no answer is asked for.\<close>

definition df_apdu :: "'r ss_card \<Rightarrow> bytes \<Rightarrow> sc_apdu" where
  "df_apdu c fid = with_data 2 (Some fid) (sc_format_apdu c SC_APDU_CASE_3_SHORT 0xA4 0x00 0x0C)"

definition ef_apdu :: "'r ss_card \<Rightarrow> bytes \<Rightarrow> sc_apdu" where
  "ef_apdu c fid = (with_data 2 (Some fid) (sc_format_apdu c SC_APDU_CASE_4_SHORT 0xA4 0x02 0x00))
     \<lparr>a_resp := Some rbuf, a_resplen := SC_MAX_APDU_BUFFER_SIZE, a_le := 256\<rparr>"

definition select_df :: "'r ss_ops \<Rightarrow> bytes \<Rightarrow> ('r ss_card, unit) prog" where
  "select_df ops fid c = sbind (command ops (df_apdu c fid)) (\<lambda>_. sret ()) c"

definition starsign_select_ef_child ::
  "'r ss_ops \<Rightarrow> (sc_file \<Rightarrow> bytes \<Rightarrow> sc_file) \<Rightarrow> bytes \<Rightarrow> sc_file option \<Rightarrow> ('r ss_card, sc_file option) prog" where
  "starsign_select_ef_child ops process fid file c =
     sbind (command ops (ef_apdu c fid)) (\<lambda>a.
       sret (map_option (\<lambda>f. if a_resplen a \<noteq> 0 then process f (resp_data a) else f) file)) c"

text \<open>The path as the identifiers in it; the last one is not looked at for the placeholder.\<close>

fun components :: "bytes \<Rightarrow> bytes list" where
  "components (a # b # v) = [a, b] # components v"
| "components v = []"

definition placeholder :: "bytes \<Rightarrow> bool" where
  "placeholder v \<longleftrightarrow> [0x3F, 0xFF] \<in> set (butlast (components v))"

definition mid_cached :: "starsign_drv_data option \<Rightarrow> bytes \<Rightarrow> bool" where
  "mid_cached priv mid \<longleftrightarrow>
     (case priv of None \<Rightarrow> False
      | Some d \<Rightarrow> mid_fid_valid d \<and> mid_fid d ! 0 = mid ! 0 \<and> mid_fid d ! 1 = mid ! 1)"

definition remember_mid :: "bytes \<Rightarrow> 'r ss_card \<Rightarrow> 'r ss_card" where
  "remember_mid mid c =
     c\<lparr>c_drv_data := map_option (\<lambda>d. d\<lparr>mid_fid := [mid ! 0, mid ! 1], mid_fid_valid := True\<rparr>) (c_drv_data c)\<rparr>"

definition select_virtual ::
  "'r ss_ops \<Rightarrow> (sc_file \<Rightarrow> bytes \<Rightarrow> sc_file) \<Rightarrow> bytes \<Rightarrow> sc_file option \<Rightarrow> ('r ss_card, sc_file option) prog" where
  "select_virtual ops process v file c =
    (if length v < 8 then (Inl SC_ERROR_INVALID_ARGUMENTS, c)
     else
       let mid = take 2 (drop (length v - 4) v); final = drop (length v - 2) v in
       sbind (if \<not> mid_cached (c_drv_data c) mid
              then sbind (select_df ops mid) (\<lambda>_. modify (remember_mid mid)) else sret ())
         (\<lambda>_. starsign_select_ef_child ops process final file) c)"

definition child_of_5031 :: "starsign_drv_data option \<Rightarrow> bytes \<Rightarrow> bool" where
  "child_of_5031 priv v \<longleftrightarrow> length v = 4 \<and> v ! 0 = 0x3F \<and> v ! 1 = 0x00 \<and>
     (case priv of None \<Rightarrow> False | Some d \<Rightarrow> df5031_selected d) \<and> \<not> (v ! 2 = 0x50 \<and> v ! 3 = 0x31)"

primrec select_dfs :: "'r ss_ops \<Rightarrow> bytes list \<Rightarrow> ('r ss_card, unit) prog" where
  "select_dfs ops [] = sret ()"
| "select_dfs ops (fid # fids) = sbind (select_df ops fid) (\<lambda>_. select_dfs ops fids)"

definition forget_mid :: "bytes \<Rightarrow> 'r ss_card \<Rightarrow> 'r ss_card" where
  "forget_mid v c =
     c\<lparr>c_drv_data := map_option (\<lambda>d.
        let d = (if length v = 4 \<and> v ! 2 = 0x50 \<and> v ! 3 = 0x31 then d\<lparr>df5031_selected := True\<rparr> else d)
        in d\<lparr>mid_fid_valid := False\<rparr>) (c_drv_data c)\<rparr>"

text \<open>Selection from the master file; the value also says whether the last one was selected as an
  elementary file.\<close>

definition select_from_mf ::
  "'r ss_ops \<Rightarrow> (sc_file \<Rightarrow> bytes \<Rightarrow> sc_file) \<Rightarrow> bytes \<Rightarrow> sc_file option \<Rightarrow>
   ('r ss_card, sc_file option \<times> bool) prog" where
  "select_from_mf ops process v file =
     sbind (select_dfs ops (butlast (components v))) (\<lambda>_.
     sbind (if length v > 4
            then sbind (starsign_select_ef_child ops process (drop (length v - 2) v) file) (\<lambda>f. sret (f, True))
            else sbind (select_df ops (drop (length v - 2) v)) (\<lambda>_. sret (file, False))) (\<lambda>res.
     sbind (modify (forget_mid v)) (\<lambda>_. sret res)))"

definition filled_file :: "sc_path \<Rightarrow> bool \<Rightarrow> sc_file \<Rightarrow> sc_file" where
  "filled_file in_path selected_as_ef f =
    (let v = p_value in_path;
         f = (if \<not> selected_as_ef then f\<lparr>f_type := SC_FILE_TYPE_DF\<rparr> else f);
         f = (if f_size f = 0 then f\<lparr>f_size := 1024\<rparr> else f)
     in f\<lparr>f_id := int (unat (v ! (length v - 2)) * 256 + unat (v ! (length v - 1))), f_path := in_path\<rparr>)"

definition select_here ::
  "'r ss_ops \<Rightarrow> (sc_file \<Rightarrow> bytes \<Rightarrow> sc_file) \<Rightarrow> bytes \<Rightarrow> sc_file option \<Rightarrow>
   ('r ss_card, sc_file option \<times> bool) prog" where
  "select_here ops process v file c =
    (if placeholder v then sbind (select_virtual ops process v file) (\<lambda>f. sret (f, True)) c
     else if child_of_5031 (c_drv_data c) v
     then sbind (starsign_select_ef_child ops process (drop 2 v) file) (\<lambda>f. sret (f, True)) c
     else select_from_mf ops process v file c)"

definition starsign_select_file ::
  "(nat \<Rightarrow> bool) \<Rightarrow> 'r ss_ops \<Rightarrow> sc_path \<Rightarrow> bool \<Rightarrow> ('r ss_card, sc_file option) prog" where
  "starsign_select_file alloc ops in_path want c =
    (let process = iso7816_process_fci alloc; v = p_value in_path in
     if p_type in_path \<noteq> SC_PATH_TYPE_PATH \<and> p_type in_path \<noteq> SC_PATH_TYPE_FROM_CURRENT \<and>
        p_type in_path \<noteq> SC_PATH_TYPE_FILE_ID
     then iso7816_select_file alloc ops (Some process) in_path want c
     else if odd (length v) \<or> length v = 0 then (Inl SC_ERROR_INVALID_ARGUMENTS, c)
     else case (if want then map_option Some (sc_file_new alloc) else Some None) of
         None \<Rightarrow> (Inl SC_ERROR_OUT_OF_MEMORY, c)
       | Some file \<Rightarrow>
          sbind (select_here ops process v file) (\<lambda>(file, selected_as_ef).
            sret (map_option (filled_file in_path selected_as_ef) file)) c)"

section \<open>The security environment\<close>

text \<open>The payload: the key reference before the algorithm reference, 1 and 2 unless given.\<close>

definition mse_payload :: "sc_security_env \<Rightarrow> bytes" where
  "mse_payload env =
    [0x84, 0x01, (if se_flag env SC_SEC_ENV_KEY_REF_PRESENT \<and> se_key_ref_len env \<ge> 1 then se_key_ref env ! 0 else 0x01),
     0x80, 0x01, (if se_flag env SC_SEC_ENV_ALG_REF_PRESENT then ucast (se_algorithm_ref env AND 0xFF) else 0x02)]"

definition starsign_set_security_env :: "'r ss_ops \<Rightarrow> sc_security_env option \<Rightarrow> int \<Rightarrow> ('r ss_card, unit) prog" where
  "starsign_set_security_env ops env res c =
    (case env of
       None \<Rightarrow> (Inl SC_ERROR_INVALID_ARGUMENTS, c)
     | Some env \<Rightarrow>
        (case crt_template (se_operation env) of
           Inl e \<Rightarrow> (Inl e, c)
         | Inr p2 \<Rightarrow>
            sbind (command ops (sc_format_apdu_ex (c_cla c) 0x22 0x41 p2 (Some (mse_payload env)) 6 None 0))
              (\<lambda>_. sret ()) c))"

section \<open>What a selection sends and remembers\<close>

text \<open>A selection command: of a directory, or of an elementary file below the current directory.\<close>

datatype selection = Select_DF bytes | Select_EF bytes

fun apdu_of :: "'r ss_card \<Rightarrow> selection \<Rightarrow> sc_apdu" where
  "apdu_of c (Select_DF fid) = df_apdu c fid"
| "apdu_of c (Select_EF fid) = ef_apdu c fid"

definition from_mf :: "starsign_drv_data option \<Rightarrow> bytes \<Rightarrow> bool" where
  "from_mf priv v \<longleftrightarrow> \<not> placeholder v \<and> \<not> child_of_5031 priv v"

definition select_plan :: "starsign_drv_data option \<Rightarrow> bytes \<Rightarrow> selection list" where
  "select_plan priv v =
    (let final = drop (length v - 2) v; mid = take 2 (drop (length v - 4) v) in
     if placeholder v then (if mid_cached priv mid then [] else [Select_DF mid]) @ [Select_EF final]
     else if child_of_5031 priv v then [Select_EF final]
     else map Select_DF (butlast (components v)) @ [(if length v > 4 then Select_EF final else Select_DF final)])"

text \<open>The driver's memory when the card has accepted the first \<open>k\<close> commands of the plan.\<close>

definition drv_after :: "starsign_drv_data option \<Rightarrow> bytes \<Rightarrow> nat \<Rightarrow> starsign_drv_data option" where
  "drv_after priv v k =
    (let mid = take 2 (drop (length v - 4) v) in
     if placeholder v then
       (if mid_cached priv mid \<or> k = 0 then priv
        else map_option (\<lambda>d. d\<lparr>mid_fid := mid, mid_fid_valid := True\<rparr>) priv)
     else if child_of_5031 priv v \<or> k < length (select_plan priv v) then priv
     else map_option (\<lambda>d. (if length v = 4 \<and> drop 2 v = [0x50, 0x31] then d\<lparr>df5031_selected := True\<rparr> else d)
            \<lparr>mid_fid_valid := False\<rparr>) priv)"

text \<open>The commands \<open>as\<close>, sent in this order, are accepted by the card; between them the driver may
  change its own memory.\<close>

inductive accepts :: "'r ss_ops \<Rightarrow> 'r ss_card \<Rightarrow> sc_apdu list \<Rightarrow> 'r ss_card \<Rightarrow> bool" for ops where
  accepts_none: "accepts ops c [] c"
| accepts_command: "command ops a c = (Inr b, c1) \<Longrightarrow> accepts ops c1 as d \<Longrightarrow> accepts ops c (a # as) d"
| accepts_own: "accepts ops (c\<lparr>c_drv_data := x\<rparr>) as d \<Longrightarrow> accepts ops c as d"

lemma accepts_append: "accepts ops c as d \<Longrightarrow> accepts ops d bs e \<Longrightarrow> accepts ops c (as @ bs) e"
  by (induction rule: accepts.induct) (auto intro: accepts.intros)

text \<open>A program that carries out a plan: it gets as far as the card accepts, and fails with the
  first refusal.\<close>

definition carries_out ::
  "'r ss_ops \<Rightarrow> 'r ss_card \<Rightarrow> selection list \<Rightarrow> (nat \<Rightarrow> starsign_drv_data option) \<Rightarrow> ('r ss_card, 'a) prog \<Rightarrow> bool" where
  "carries_out ops c plan dm f \<longleftrightarrow> (case f c of (r, c') \<Rightarrow>
     c_cla c' = c_cla c \<and>
     (\<exists>k d. k \<le> length plan \<and> accepts ops c (map (apdu_of c) (take k plan)) d \<and> c_drv_data c' = dm k \<and>
       (if k = length plan then (\<exists>x. r = Inr x) \<and> c' = d
        else \<exists>e. r = Inl e \<and> command ops (apdu_of c (plan ! k)) d = (Inl e, c'))))"

lemma carries_outD:
  assumes "carries_out ops c plan dm f" and "f c = (r, c')"
  obtains (all) x where "r = Inr x" "accepts ops c (map (apdu_of c) plan) c'" "c_drv_data c' = dm (length plan)"
      "c_cla c' = c_cla c"
    | (refused) e k d where "r = Inl e" "k < length plan" "accepts ops c (map (apdu_of c) (take k plan)) d"
      "command ops (apdu_of c (plan ! k)) d = (Inl e, c')" "c_drv_data c' = dm k" "c_cla c' = c_cla c"
proof -
  from assms obtain k d where k: "k \<le> length plan" "accepts ops c (map (apdu_of c) (take k plan)) d"
    "c_drv_data c' = dm k" "c_cla c' = c_cla c"
    "if k = length plan then (\<exists>x. r = Inr x) \<and> c' = d
     else \<exists>e. r = Inl e \<and> command ops (apdu_of c (plan ! k)) d = (Inl e, c')"
    unfolding carries_out_def by auto
  show thesis
  proof (cases "k = length plan")
    case True
    with k all show thesis by auto
  next
    case False
    with k refused show thesis by (metis le_neq_implies_less)
  qed
qed

lemma carries_out_allI:
  assumes "f c = (Inr x, c')" "accepts ops c (map (apdu_of c) plan) c'" "c_drv_data c' = dm (length plan)"
    "c_cla c' = c_cla c"
  shows "carries_out ops c plan dm f"
  unfolding carries_out_def assms(1) prod.case using assms(2-4)
  by (intro conjI exI [of _ "length plan"] exI [of _ c']) simp_all

lemma carries_out_refusedI:
  assumes "f c = (Inl e, c')" "k < length plan" "accepts ops c (map (apdu_of c) (take k plan)) d"
    "command ops (apdu_of c (plan ! k)) d = (Inl e, c')" "c_drv_data c' = dm k" "c_cla c' = c_cla c"
  shows "carries_out ops c plan dm f"
  unfolding carries_out_def assms(1) prod.case using assms(2-6)
  by (intro conjI exI [of _ k] exI [of _ d]) simp_all

lemma apdu_of_cong: "c_cla d = c_cla c \<Longrightarrow> apdu_of d = apdu_of c"
proof (rule ext)
  fix s assume "c_cla d = c_cla c"
  then show "apdu_of d s = apdu_of c s"
    by (cases s) (simp_all add: df_apdu_def ef_apdu_def sc_format_apdu_def)
qed

lemma carries_out_sbind:
  assumes f: "carries_out ops c p1 m1 f"
    and g: "\<And>x d. f c = (Inr x, d) \<Longrightarrow> carries_out ops d p2 m2 (g x)"
    and m: "\<And>k. k < length p1 \<Longrightarrow> dm k = m1 k" "\<And>k. k \<le> length p2 \<Longrightarrow> dm (length p1 + k) = m2 k"
  shows "carries_out ops c (p1 @ p2) dm (sbind f g)"
proof -
  obtain r c1 where run: "f c = (r, c1)" by (cases "f c")
  from f run show ?thesis
  proof (cases rule: carries_outD)
    case (refused e k d)
    have "sbind f g c = (Inl e, c1)" using run refused(1) by (simp add: sbind_Inl)
    with refused show ?thesis
      by (intro carries_out_refusedI [of _ _ e c1 k _ _ d]) (simp_all add: m(1) nth_append)
  next
    case (all x)
    note run' = run [unfolded all(1)]
    note cla = apdu_of_cong [OF all(4)]
    obtain q c2 where run2: "g x c1 = (q, c2)" by (cases "g x c1")
    have sb: "sbind f g c = (q, c2)" using run' run2 by (simp add: sbind_Inr)
    from g [OF run'] run2 show ?thesis
    proof (cases rule: carries_outD)
      case (all y)
      with \<open>accepts ops c (map (apdu_of c) p1) c1\<close> sb \<open>c_cla c1 = c_cla c\<close> cla show ?thesis
        by (intro carries_out_allI [of _ _ y c2]) (auto simp: m(2) intro: accepts_append)
    next
      case (refused e k d)
      have "accepts ops c (map (apdu_of c) (take (length p1 + k) (p1 @ p2))) d"
        using accepts_append [OF \<open>accepts ops c (map (apdu_of c) p1) c1\<close> refused(3)] cla by simp
      with refused sb \<open>c_cla c1 = c_cla c\<close> cla show ?thesis
        by (intro carries_out_refusedI [of _ _ e c2 "length p1 + k" _ _ d]) (simp_all add: m(2) nth_append)
    qed
  qed
qed

lemma carries_out_sret: "carries_out ops c [] (\<lambda>_. c_drv_data c) (sret x)"
  by (rule carries_out_allI [of _ _ x c]) (simp_all add: accepts_none)

lemma carries_out_modify:
  assumes "f c = c\<lparr>c_drv_data := x\<rparr>"
  shows "carries_out ops c [] (\<lambda>_. x) (modify f)"
  by (rule carries_out_allI [of _ _ "()" "f c"]) (auto simp: modify_def assms intro: accepts.intros)

lemma carries_out_command:
  assumes "ops_framed ops"
  shows "carries_out ops c [s] (\<lambda>_. c_drv_data c) (\<lambda>c. sbind (command ops (apdu_of c s)) (\<lambda>a. sret (g a)) c)"
proof -
  obtain r d where run: "command ops (apdu_of c s) c = (r, d)" by (cases "command ops (apdu_of c s) c")
  have fr: "c_drv_data d = c_drv_data c" "c_cla d = c_cla c"
    using framedD [OF command_framed [OF assms] run] by (simp_all add: same_card_iff)
  show ?thesis
  proof (cases r)
    case (Inl e)
    with run fr show ?thesis
      by (intro carries_out_refusedI [of _ _ e d 0 _ _ c]) (simp_all add: sbind_Inl accepts_none)
  next
    case (Inr a)
    with run fr show ?thesis
      by (intro carries_out_allI [of _ _ "g a" d]) (auto simp: sbind_Inr intro: accepts.intros)
  qed
qed

text \<open>The steps of the code.\<close>

lemma select_df_carries_out: "ops_framed ops \<Longrightarrow> carries_out ops c [Select_DF fid] (\<lambda>_. c_drv_data c) (select_df ops fid)"
  using carries_out_command [of ops c "Select_DF fid" "\<lambda>_. ()"] by (simp add: select_df_def [abs_def])

lemma ef_child_carries_out:
  "ops_framed ops \<Longrightarrow> carries_out ops c [Select_EF fid] (\<lambda>_. c_drv_data c) (starsign_select_ef_child ops process fid file)"
  using carries_out_command [of ops c "Select_EF fid"
      "\<lambda>a. map_option (\<lambda>f. if a_resplen a \<noteq> 0 then process f (resp_data a) else f) file"]
  by (simp add: starsign_select_ef_child_def [abs_def])

lemma carries_out_drv:
  assumes "carries_out ops c plan (\<lambda>_. p) f" and "f c = (r, d)"
  shows "c_drv_data d = p"
  using assms by (rule carries_outD) simp_all

lemma select_dfs_carries_out:
  assumes "ops_framed ops"
  shows "carries_out ops c (map Select_DF fids) (\<lambda>_. c_drv_data c) (select_dfs ops fids)"
proof (induction fids arbitrary: c)
  case Nil
  show ?case unfolding select_dfs.simps list.map by (rule carries_out_sret)
next
  case (Cons fid fids)
  note one = select_df_carries_out [OF assms, of c fid]
  have "carries_out ops c ([Select_DF fid] @ map Select_DF fids) (\<lambda>_. c_drv_data c)
      (sbind (select_df ops fid) (\<lambda>_. select_dfs ops fids))"
  proof (rule carries_out_sbind [OF one])
    fix x d assume "select_df ops fid c = (Inr x, d)"
    with carries_out_drv [OF one] have "c_drv_data d = c_drv_data c" .
    with Cons.IH [of d] show "carries_out ops d (map Select_DF fids) (\<lambda>_. c_drv_data c) (select_dfs ops fids)" by simp
  qed simp_all
  then show ?case by simp
qed

lemma carries_out_then_ret:
  assumes "carries_out ops c plan dm f"
  shows "carries_out ops c plan dm (sbind f (\<lambda>x. sret (g x)))"
proof -
  have "carries_out ops c (plan @ []) dm (sbind f (\<lambda>x. sret (g x)))"
  proof (rule carries_out_sbind [OF assms])
    fix x d assume "f c = (Inr x, d)"
    with assms have "c_drv_data d = dm (length plan)" by (auto elim: carries_outD)
    then show "carries_out ops d [] (\<lambda>_. dm (length plan)) (sret (g x))"
      using carries_out_sret [of ops d "g x"] by simp
  qed simp_all
  then show ?thesis by simp
qed

lemma components_even:
  "even (length v) \<Longrightarrow> v \<noteq> [] \<Longrightarrow> components v \<noteq> [] \<and> last (components v) = drop (length v - 2) v"
proof (induction v rule: components.induct)
  case (1 a b v)
  show ?case
  proof (cases "v = []")
    case False
    with 1 have "components v \<noteq> []" "last (components v) = drop (length v - 2) v" by auto
    moreover obtain n where "length v = n + 2"
      using False 1(2) by (cases v; cases "tl v") auto
    ultimately show ?thesis by simp
  qed simp
qed simp_all

lemma length_components: "length (components v) = length v div 2"
  by (induction v rule: components.induct) auto

lemma mid_bytes:
  assumes "8 \<le> length v"
  shows "[take 2 (drop (length v - 4) v) ! 0, take 2 (drop (length v - 4) v) ! 1] = take 2 (drop (length v - 4) v)"
proof -
  let ?m = "take 2 (drop (length v - 4) v)"
  have "length ?m = Suc (Suc 0)" using assms by simp
  then obtain x y where "?m = [x, y]" by (metis length_0_conv length_Suc_conv)
  then show ?thesis by simp
qed

lemma carries_out_cong: "f c = g c \<Longrightarrow> carries_out ops c p m g \<Longrightarrow> carries_out ops c p m f"
  by (simp add: carries_out_def)

lemma remember_mid_eq:
  assumes "8 \<le> length v"
  shows "remember_mid (take 2 (drop (length v - 4) v)) d = d\<lparr>c_drv_data := map_option
    (\<lambda>d. d\<lparr>mid_fid := take 2 (drop (length v - 4) v), mid_fid_valid := True\<rparr>) (c_drv_data d)\<rparr>"
  by (simp only: remember_mid_def mid_bytes [OF assms])

lemma virtual_carries_out:
  assumes fr: "ops_framed ops" and p: "placeholder v" and len: "8 \<le> length v"
  shows "carries_out ops c (select_plan (c_drv_data c) v) (drv_after (c_drv_data c) v) (select_virtual ops process v file)"
proof -
  define mid where "mid = take 2 (drop (length v - 4) v)"
  define final where "final = drop (length v - 2) v"
  define priv where "priv = c_drv_data c"
  define first where "first = (if \<not> mid_cached priv mid
      then sbind (select_df ops mid) (\<lambda>_. modify (remember_mid mid)) else sret ())"
  have run: "select_virtual ops process v file c = sbind first (\<lambda>_. starsign_select_ef_child ops process final file) c"
    using len by (simp add: select_virtual_def mid_def final_def first_def priv_def Let_def)
  note rem = remember_mid_eq [OF len, folded mid_def]
  define p1 where "p1 = (if mid_cached priv mid then [] else [Select_DF mid])"
  define m1 where "m1 k = (if mid_cached priv mid \<or> k = 0 then priv
      else map_option (\<lambda>d. d\<lparr>mid_fid := mid, mid_fid_valid := True\<rparr>) priv)" for k :: nat
  have first: "carries_out ops c p1 m1 first"
  proof (cases "mid_cached priv mid")
    case True
    then have "m1 = (\<lambda>_. c_drv_data c)" "p1 = []" "first = sret ()"
      by (simp_all add: m1_def p1_def first_def priv_def fun_eq_iff)
    then show ?thesis by (simp only: carries_out_sret)
  next
    case False
    note one = select_df_carries_out [OF fr, of c mid]
    have "carries_out ops c ([Select_DF mid] @ []) m1 (sbind (select_df ops mid) (\<lambda>_. modify (remember_mid mid)))"
    proof (rule carries_out_sbind [OF one])
      fix x d assume "select_df ops mid c = (Inr x, d)"
      with carries_out_drv [OF one] have "c_drv_data d = priv" by (simp add: priv_def)
      with False show "carries_out ops d [] (\<lambda>_. m1 1) (modify (remember_mid mid))"
        by (intro carries_out_modify) (simp add: rem m1_def)
    qed (simp_all add: m1_def priv_def)
    with False show ?thesis by (simp add: p1_def first_def)
  qed
  have "carries_out ops c (p1 @ [Select_EF final]) (drv_after priv v)
      (sbind first (\<lambda>_. starsign_select_ef_child ops process final file))"
  proof (rule carries_out_sbind [OF first])
    fix x d assume "first c = (Inr x, d)"
    with first have "c_drv_data d = m1 (length p1)" by (auto elim: carries_outD)
    then show "carries_out ops d [Select_EF final] (\<lambda>_. m1 (length p1)) (starsign_select_ef_child ops process final file)"
      using ef_child_carries_out [OF fr, of d final process "file"] by simp
  qed (use p in \<open>auto simp: p1_def m1_def drv_after_def mid_def Let_def\<close>)
  moreover have "select_plan priv v = p1 @ [Select_EF final]"
    using p by (simp add: select_plan_def p1_def mid_def final_def Let_def)
  ultimately show ?thesis
    unfolding priv_def by (simp add: carries_out_def run)
qed

lemma from_mf_carries_out:
  assumes fr: "ops_framed ops" and mf: "from_mf (c_drv_data c) v" and v: "even (length v)" "v \<noteq> []"
  shows "carries_out ops c (select_plan (c_drv_data c) v) (drv_after (c_drv_data c) v) (select_from_mf ops process v file)"
proof -
  define priv where "priv = c_drv_data c"
  define final where "final = drop (length v - 2) v"
  define s where "s = (if length v > 4 then Select_EF final else Select_DF final)"
  define p1 where "p1 = map Select_DF (butlast (components v))"
  define new where "new = drv_after priv v (length (p1 @ [s]))"
  have plan: "select_plan priv v = p1 @ [s]"
    using mf by (simp add: from_mf_def select_plan_def p1_def s_def final_def priv_def Let_def)
  have keep: "drv_after priv v k = priv" if "k < length (p1 @ [s])" for k
    using mf that by (simp add: from_mf_def drv_after_def plan [unfolded priv_def] priv_def)
  define leaf where "leaf = (if length v > 4
      then sbind (starsign_select_ef_child ops process final file) (\<lambda>f. sret (f, True))
      else sbind (select_df ops final) (\<lambda>_. sret (file, False)))"
  have leaf: "carries_out ops d [s] (\<lambda>_. c_drv_data d) leaf" for d
  proof (cases "length v > 4")
    case True
    show ?thesis
      unfolding leaf_def s_def if_P [OF True] by (rule carries_out_then_ret [OF ef_child_carries_out [OF fr]])
  next
    case False
    show ?thesis
      unfolding leaf_def s_def if_not_P [OF False] by (rule carries_out_then_ret [OF select_df_carries_out [OF fr]])
  qed
  have two: "drop 2 v = [0x50, 0x31] \<longleftrightarrow> v ! 2 = 0x50 \<and> v ! 3 = 0x31" if len: "length v = 4"
  proof -
    from len obtain a b x y where "v = [a, b, x, y]" by (auto simp: eval_nat_numeral length_Suc_conv)
    then show ?thesis by (simp add: eval_nat_numeral)
  qed
  have new: "new = map_option (\<lambda>d. (if length v = 4 \<and> drop 2 v = [0x50, 0x31] then d\<lparr>df5031_selected := True\<rparr> else d)
      \<lparr>mid_fid_valid := False\<rparr>) priv"
    using mf unfolding new_def drv_after_def plan from_mf_def priv_def [symmetric] Let_def by simp
  have forget: "forget_mid v d = d\<lparr>c_drv_data := new\<rparr>" if "c_drv_data d = priv" for d
  proof (cases "length v = 4")
    case True
    show ?thesis unfolding forget_mid_def that new two [OF True] Let_def conj_assoc [symmetric] by simp
  next
    case False
    then show ?thesis unfolding forget_mid_def that new Let_def by simp
  qed
  have tail: "carries_out ops d ([s] @ []) (\<lambda>k. if k = 0 then priv else new)
      (sbind leaf (\<lambda>res. sbind (modify (forget_mid v)) (\<lambda>_. sret res)))" if d: "c_drv_data d = priv" for d
  proof (rule carries_out_sbind [OF leaf])
    fix res e assume "leaf d = (Inr res, e)"
    with carries_out_drv [OF leaf] d have e: "c_drv_data e = priv" by simp
    show "carries_out ops e [] (\<lambda>_. new) (sbind (modify (forget_mid v)) (\<lambda>_. sret res))"
      by (rule carries_out_then_ret, rule carries_out_modify, rule forget [OF e])
  qed (simp_all add: d)
  have "carries_out ops c (p1 @ [s]) (drv_after priv v) (select_from_mf ops process v file)"
    unfolding select_from_mf_def final_def [symmetric] leaf_def [symmetric]
  proof (rule carries_out_sbind)
    show "carries_out ops c p1 (\<lambda>_. priv) (select_dfs ops (butlast (components v)))"
      unfolding p1_def priv_def by (rule select_dfs_carries_out [OF fr])
    fix x d assume "select_dfs ops (butlast (components v)) c = (Inr x, d)"
    with carries_out_drv [OF select_dfs_carries_out [OF fr]] have "c_drv_data d = priv" by (simp add: priv_def)
    from tail [OF this]
    show "carries_out ops d [s] (\<lambda>k. if k = 0 then priv else new)
        (sbind leaf (\<lambda>res. sbind (modify (forget_mid v)) (\<lambda>_. sret res)))" by simp
  next
    fix k assume "k \<le> length [s]"
    then show "drv_after priv v (length p1 + k) = (if k = 0 then priv else new)"
      using keep [of "length p1"] by (cases k) (simp_all add: new_def)
  qed (simp add: keep)
  then show ?thesis by (simp add: plan [unfolded priv_def] priv_def)
qed

lemma select_here_carries_out:
  assumes fr: "ops_framed ops" and v: "even (length v)" "v \<noteq> []" "placeholder v \<Longrightarrow> 8 \<le> length v"
  shows "carries_out ops c (select_plan (c_drv_data c) v) (drv_after (c_drv_data c) v) (select_here ops process v file)"
proof (cases "placeholder v")
  case True
  have "select_here ops process v file c = sbind (select_virtual ops process v file) (\<lambda>f. sret (f, True)) c"
    using True by (simp add: select_here_def)
  then show ?thesis
    by (rule carries_out_cong [OF _ carries_out_then_ret [OF virtual_carries_out [OF fr True v(3) [OF True]]]])
next
  case np: False
  show ?thesis
  proof (cases "child_of_5031 (c_drv_data c) v")
    case True
    have "select_here ops process v file c =
        sbind (starsign_select_ef_child ops process (drop 2 v) file) (\<lambda>f. sret (f, True)) c"
      using True np by (simp add: select_here_def)
    moreover have "select_plan (c_drv_data c) v = [Select_EF (drop 2 v)]"
      using True np by (simp add: select_plan_def child_of_5031_def Let_def)
    moreover have "drv_after (c_drv_data c) v = (\<lambda>_. c_drv_data c)"
      using True np by (simp add: drv_after_def fun_eq_iff)
    ultimately show ?thesis
      using carries_out_cong [OF _ carries_out_then_ret [OF ef_child_carries_out [OF fr]]] by simp
  next
    case False
    with np have "from_mf (c_drv_data c) v" by (simp add: from_mf_def)
    moreover have "select_here ops process v file c = select_from_mf ops process v file c"
      using False np by (simp add: select_here_def)
    ultimately show ?thesis
      by (intro carries_out_cong [OF _ from_mf_carries_out [OF fr _ v(1,2)]])
  qed
qed

section \<open>Steps and sessions\<close>

text \<open>The directory the card is in: the last one it accepted.\<close>

fun current_df :: "bytes option \<Rightarrow> selection list \<Rightarrow> bytes option" where
  "current_df cur [] = cur"
| "current_df cur (Select_DF fid # ss) = current_df (Some fid) ss"
| "current_df cur (Select_EF fid # ss) = current_df cur ss"

lemma current_df_snoc [simp]:
  "current_df cur (ss @ [Select_EF fid]) = current_df cur ss"
  "current_df cur (ss @ [Select_DF fid]) = Some fid"
  by (induction cur ss rule: current_df.induct) simp_all

text \<open>One selection along the path \<open>v\<close>: all its commands are accepted, or one is refused.\<close>

inductive navigates ::
  "'r ss_ops \<Rightarrow> bytes \<Rightarrow> 'r ss_card \<times> bytes option \<Rightarrow> bool \<Rightarrow> 'r ss_card \<times> bytes option \<Rightarrow> bool" for ops v where
  completed: "accepts ops c (map (apdu_of c) (select_plan (c_drv_data c) v)) c' \<Longrightarrow>
    c_drv_data c' = drv_after (c_drv_data c) v (length (select_plan (c_drv_data c) v)) \<Longrightarrow>
    navigates ops v (c, cur) True (c', current_df cur (select_plan (c_drv_data c) v))"
| cut_short: "k < length (select_plan (c_drv_data c) v) \<Longrightarrow>
    accepts ops c (map (apdu_of c) (take k (select_plan (c_drv_data c) v))) d \<Longrightarrow>
    command ops (apdu_of c (select_plan (c_drv_data c) v ! k)) d = (Inl e, c') \<Longrightarrow>
    c_drv_data c' = drv_after (c_drv_data c) v k \<Longrightarrow>
    navigates ops v (c, cur) False (c', current_df cur (take k (select_plan (c_drv_data c) v)))"

inductive_cases navigatesE: "navigates ops v (c, cur) ok (c', cur')"

lemma navigatesD:
  "navigates ops v (c, cur) ok (c', cur') \<Longrightarrow>
    \<exists>k \<le> length (select_plan (c_drv_data c) v). (ok \<longleftrightarrow> k = length (select_plan (c_drv_data c) v)) \<and>
      cur' = current_df cur (take k (select_plan (c_drv_data c) v)) \<and>
      c_drv_data c' = drv_after (c_drv_data c) v k"
  by (elim navigatesE) (metis order_refl take_all, metis less_imp_le less_irrefl)

text \<open>A path that the driver handles itself.\<close>

definition own_path :: "sc_path \<Rightarrow> bool" where
  "own_path p \<longleftrightarrow> p_type p \<in> {SC_PATH_TYPE_PATH, SC_PATH_TYPE_FROM_CURRENT, SC_PATH_TYPE_FILE_ID} \<and>
     even (length (p_value p)) \<and> p_value p \<noteq> [] \<and> (placeholder (p_value p) \<longrightarrow> 8 \<le> length (p_value p))"

text \<open>C6: A selection along a path the driver handles itself is one step of the navigation: it sends the
  commands of the plan in their order up to the first one the card refuses, remembers what the
  plan says, and succeeds exactly when the card accepts them all.\<close>
theorem select_file_navigates:
  assumes "ops_framed ops" and "own_path p" and "want \<longrightarrow> alloc sizeof_file"
    and "starsign_select_file alloc ops p want c = (r, c')"
  shows "\<exists>cur'. navigates ops (p_value p) (c, cur) (\<exists>f. r = Inr f) (c', cur')"
proof -
  let ?v = "p_value p"
  define f0 where "f0 = (if want then Some zero_file else None)"
  define g where "g = (\<lambda>(file, selected_as_ef). map_option (filled_file p selected_as_ef) file)"
  have g: "(\<lambda>(file, selected_as_ef). sret (map_option (filled_file p selected_as_ef) file)) =
      (\<lambda>x. (sret (g x) :: ('a ss_card, sc_file option) prog))"
    by (rule ext) (simp only: g_def split_beta)
  have "starsign_select_file alloc ops p want c =
      sbind (select_here ops (iso7816_process_fci alloc) ?v f0) (\<lambda>x. sret (g x)) c"
    using assms(2,3)
    by (auto simp: starsign_select_file_def own_path_def sc_file_new_def f0_def g Let_def)
  with assms(4) have run: "sbind (select_here ops (iso7816_process_fci alloc) ?v f0) (\<lambda>x. sret (g x)) c = (r, c')"
    by simp
  have "carries_out ops c (select_plan (c_drv_data c) ?v) (drv_after (c_drv_data c) ?v)
      (sbind (select_here ops (iso7816_process_fci alloc) ?v f0) (\<lambda>x. sret (g x)))"
    using assms(2) by (intro carries_out_then_ret select_here_carries_out assms(1)) (simp_all add: own_path_def)
  from this run show ?thesis
  proof (cases rule: carries_outD)
    case (all x)
    from completed [OF all(2,3), of cur] all(1) show ?thesis by auto
  next
    case (refused e k d)
    from cut_short [OF refused(2-5), of cur] refused(1) show ?thesis by auto
  qed
qed

text \<open>A session: the driver's initialisation, then selections, none of which breaks off on its way from
  the master file.\<close>

inductive session :: "(nat \<Rightarrow> bool) \<Rightarrow> 'r ss_ops \<Rightarrow> 'r ss_card \<times> bytes option \<Rightarrow> bool" for alloc ops where
  opened: "starsign_init alloc ops c0 = (Inr (), c) \<Longrightarrow> session alloc ops (c, cur)"
| selected: "session alloc ops (c, cur) \<Longrightarrow> (placeholder v \<longrightarrow> 8 \<le> length v) \<Longrightarrow>
    navigates ops v (c, cur) ok s \<Longrightarrow> ok \<or> \<not> from_mf (c_drv_data c) v \<Longrightarrow> session alloc ops s"

lemma framed_modify: "(\<And>c. same_card c (f c)) \<Longrightarrow> framed (modify f)"
  by (simp add: framed_def modify_def)

lemma framed_tell: "ops_framed ops \<Longrightarrow> framed (tell ops cmd)"
  using exchange_framed by (auto simp: framed_def tell_def)

lemma framed_open_channel: "ops_framed ops \<Longrightarrow> framed (open_channel ops)"
  unfolding open_channel_def by (intro framed_sbind framed_tell) auto

lemma init_result:
  assumes fr: "ops_framed ops" and run: "starsign_init alloc ops c = (Inr (), c')"
  shows "\<exists>d. same_card (c\<lparr>c_type := SC_CARD_TYPE_STARSIGN, c_drv_data := Some zero_drv, c_cla := 1\<rparr>) d \<and>
    c' = starsign_algorithms (starsign_limits d)"
proof -
  define c1 where "c1 = c\<lparr>c_type := SC_CARD_TYPE_STARSIGN, c_drv_data := Some zero_drv\<rparr>"
  define after where "after = (\<lambda>_ :: unit. sbind (modify (c_cla_update (\<lambda>_. 0x01))) (\<lambda>_.
       sbind (tell ops aid_again_apdu) (\<lambda>_. sbind (modify starsign_limits) (\<lambda>_. modify starsign_algorithms))))"
  define before where "before = sbind (tell ops drm_apdu) (\<lambda>_. sbind (tell ops aid_apdu) (\<lambda>_.
       sbind (tell ops drm_apdu) (\<lambda>_. open_channel ops)))"
  from run have "sbind before after c1 = (Inr (), c')"
    unfolding before_def sbind_assoc after_def c1_def
    by (auto simp: starsign_init_def modify_def Let_def sbind_def split: if_splits)
  then obtain u d1 where b: "before c1 = (Inr u, d1)" and a: "after u d1 = (Inr (), c')" by (rule sbind_InrE)
  have "framed before" unfolding before_def by (intro framed_sbind framed_tell framed_open_channel fr)
  from framedD [OF this b] have s1: "same_card c1 d1" .
  from a obtain x d where t: "tell ops aid_again_apdu (d1\<lparr>c_cla := 1\<rparr>) = (Inr x, d)"
    and c': "c' = starsign_algorithms (starsign_limits d)"
    unfolding after_def by (auto simp: modify_def sbind_def split: prod.splits sum.splits)
  have "same_card (c\<lparr>c_type := SC_CARD_TYPE_STARSIGN, c_drv_data := Some zero_drv, c_cla := 1\<rparr>) d"
    using s1 framedD [OF framed_tell [OF fr] t] by (auto simp: same_card_iff c1_def)
  with c' show ?thesis by blast
qed

text \<open>What the driver remembers agrees with the card.\<close>

definition coherent :: "'r ss_card \<times> bytes option \<Rightarrow> bool" where
  "coherent s \<longleftrightarrow> (\<forall>d. c_drv_data (fst s) = Some d \<longrightarrow> mid_fid_valid d \<longrightarrow>
     length (mid_fid d) = 2 \<and> snd s = Some (mid_fid d))"

lemma cached_mid_eq:
  assumes "mid_cached (Some d) m" "length (mid_fid d) = 2" "length m = 2"
  shows "m = mid_fid d"
  using assms by (auto simp: mid_cached_def list_eq_iff_nth_eq less_2_cases_iff numeral_2_eq_2 less_Suc_eq)

lemma step_coherent:
  assumes "coherent (c, cur)" and "navigates ops v (c, cur) ok s" and "ok \<or> \<not> from_mf (c_drv_data c) v"
    and "placeholder v \<longrightarrow> 8 \<le> length v"
  shows "coherent s"
proof -
  define mid where "mid = take 2 (drop (length v - 4) v)"
  define final where "final = drop (length v - 2) v"
  define priv where "priv = c_drv_data c"
  obtain c' cur' where s: "s = (c', cur')" by (cases s)
  have "\<exists>k \<le> length (select_plan priv v). (k = length (select_plan priv v) \<or> \<not> from_mf priv v) \<and>
      cur' = current_df cur (take k (select_plan priv v)) \<and> c_drv_data c' = drv_after priv v k"
    using navigatesD [OF assms(2)[unfolded s]] assms(3) unfolding priv_def by blast
  then obtain k where k: "k \<le> length (select_plan priv v)" "k = length (select_plan priv v) \<or> \<not> from_mf priv v"
    and cur': "cur' = current_df cur (take k (select_plan priv v))" and drv: "c_drv_data c' = drv_after priv v k"
    by blast
  note coh = assms(1)[unfolded coherent_def fst_conv snd_conv, folded priv_def]
  show ?thesis
  proof (cases "placeholder v")
    case True
    have plan: "select_plan priv v = (if mid_cached priv mid then [] else [Select_DF mid]) @ [Select_EF final]"
      using True by (simp add: select_plan_def mid_def final_def Let_def)
    have aft: "drv_after priv v k = (if mid_cached priv mid \<or> k = 0 then priv
        else map_option (\<lambda>d. d\<lparr>mid_fid := mid, mid_fid_valid := True\<rparr>) priv)"
      using True by (simp add: drv_after_def mid_def Let_def)
    have len: "length mid = 2" using True assms(4) by (simp add: mid_def)
    show ?thesis
    proof (cases "mid_cached priv mid \<or> k = 0")
      case same: True
      have "cur' = cur"
        using same k(1) unfolding cur' plan by (cases k) (auto simp: take_Cons')
      with coh drv aft same show ?thesis by (simp add: coherent_def s)
    next
      case False
      then obtain j where "k = Suc j" "\<not> mid_cached priv mid" by (cases k) auto
      with k(1) have "cur' = Some mid" unfolding cur' plan by (cases j) auto
      with drv aft False len show ?thesis by (auto simp: coherent_def s)
    qed
  next
    case np: False
    show ?thesis
    proof (cases "child_of_5031 priv v")
      case True
      have "select_plan priv v = [Select_EF final]"
        using True np by (simp add: select_plan_def final_def Let_def)
      with k(1) have "cur' = cur" unfolding cur' by (cases k) (auto simp: take_Cons')
      moreover have "drv_after priv v k = priv" using True np by (simp add: drv_after_def Let_def)
      ultimately show ?thesis using coh drv by (simp add: coherent_def s)
    next
      case False
      with np k(2) have "k = length (select_plan priv v)" by (simp add: from_mf_def)
      with False np drv have "c_drv_data c' = map_option (\<lambda>d. (if length v = 4 \<and> drop 2 v = [0x50, 0x31]
          then d\<lparr>df5031_selected := True\<rparr> else d)\<lparr>mid_fid_valid := False\<rparr>) priv"
        by (simp add: drv_after_def)
      then show ?thesis by (auto simp: coherent_def s)
    qed
  qed
qed


section \<open>A card to try it on\<close>

text \<open>It refuses the data in \<open>c_env\<close> and accepts everything else, without an answer.\<close>

definition flat_tx :: "(sc_apdu \<times> bytes list, unit) prog" where
  "flat_tx s = (case s of (a, refused) \<Rightarrow>
     (Inr (), (a\<lparr>a_resplen := 0, a_sw1 := (if mem (a_data a) \<in> set refused then 0x6A else 0x90),
        a_sw2 := (if mem (a_data a) \<in> set refused then 0x82 else 0)\<rparr>, refused)))"

definition flat_ops :: "bytes list ss_ops" where
  "flat_ops = null_ops\<lparr>o_transmit := Some flat_tx, o_check_sw := Some iso7816_check_sw\<rparr>"

lemma flat_framed [simp]: "ops_framed flat_ops"
  by (simp add: ops_framed_def flat_ops_def null_ops_def)

lemma flat_lock: "sc_lock flat_ops c = (Inr (), c\<lparr>c_lock_count := Suc (c_lock_count c)\<rparr>)"
  by (cases c) (simp add: sc_lock_def flat_ops_def null_ops_def sc_mutex_lock_def sc_mutex_unlock_def acquire_reader_def Let_def)

lemma flat_unlock: "sc_unlock flat_ops (c\<lparr>c_lock_count := Suc n\<rparr>) = (Inr (), c\<lparr>c_lock_count := n\<rparr>)"
  by (cases c) (simp add: sc_unlock_def flat_ops_def null_ops_def sc_mutex_lock_def sc_mutex_unlock_def Let_def)

lemma flat_exchange:
  assumes "sc_detect_apdu_cse (c_caps c) a = a" "sc_check_apdu (c_caps c) a = Inr ()" "\<not> chaining a"
  shows "exchange flat_ops a c = (Inr (fst (snd (flat_tx (a, c_env c)))), c)"
proof -
  have t: "sc_transmit flat_ops (a, d) = (Inr (), (fst (snd (flat_tx (a, c_env d))), d))" for d
    by (cases d) (simp add: sc_transmit_def sbind_def sc_single_transmit_def flat_ops_def null_ops_def flat_tx_def
        retry_wl_def fetch_rest_def Let_def)
  have "transmit_body flat_ops (a, d) = (Inr (), (fst (snd (flat_tx (a, c_env d))), d))" for d
    using assms(3) by (simp add: transmit_body_def t Let_def lost_card_def)
  then show ?thesis
    by (simp add: exchange_def sc_transmit_apdu_def assms bracket_def on_card_def flat_lock flat_unlock)
qed

lemma flat_command:
  assumes "sc_detect_apdu_cse (c_caps c) a = a" "sc_check_apdu (c_caps c) a = Inr ()" "\<not> chaining a"
  shows "mem (a_data a) \<notin> set (c_env c) \<Longrightarrow> command flat_ops a c = (Inr (fst (snd (flat_tx (a, c_env c)))), c)"
    and "mem (a_data a) \<in> set (c_env c) \<Longrightarrow> command flat_ops a c = (Inl SC_ERROR_FILE_NOT_FOUND, c)"
proof -
  have ok: "o_check_sw flat_ops = Some iso7816_check_sw" by (simp add: flat_ops_def)
  have good: "iso7816_check_sw 0x90 0 = Inr ()" by code_simp
  have bad: "iso7816_check_sw 0x6A 0x82 = Inl SC_ERROR_FILE_NOT_FOUND" by code_simp
  show "mem (a_data a) \<notin> set (c_env c) \<Longrightarrow> command flat_ops a c = (Inr (fst (snd (flat_tx (a, c_env c)))), c)"
    and "mem (a_data a) \<in> set (c_env c) \<Longrightarrow> command flat_ops a c = (Inl SC_ERROR_FILE_NOT_FOUND, c)"
    by (simp_all add: command_def sbind_def flat_exchange [OF assms] checked_def sc_check_sw_def ok flat_tx_def good bad)
qed

text \<open>The commands of the driver are well-formed as they are.\<close>

lemma apdu_of_plain:
  assumes "case s of Select_DF fid \<Rightarrow> length fid = 2 | Select_EF fid \<Rightarrow> length fid = 2"
  shows "sc_detect_apdu_cse caps (apdu_of c s) = apdu_of c s" "sc_check_apdu caps (apdu_of c s) = Inr ()"
    "\<not> chaining (apdu_of c s)" "mem (a_data (apdu_of c s)) = (case s of Select_DF fid \<Rightarrow> fid | Select_EF fid \<Rightarrow> fid)"
  using assms
  by (cases s; simp add: df_apdu_def ef_apdu_def with_data_def sc_format_apdu_def zero_apdu_def rbuf_def
      sc_detect_apdu_cse_def sc_check_apdu_def chaining_def Let_def)+

definition flat_card :: "bytes list \<Rightarrow> starsign_drv_data option \<Rightarrow> bytes list ss_card" where
  "flat_card refused priv = \<lparr>c_cla = 0, c_type = 0, c_caps = 0, c_max_send_size = 0, c_max_recv_size = 0,
     c_lock_count = 0, c_algorithms = [], c_disable_hw_pkcs1_padding = 0,
     c_reader_protocol = SC_PROTO_T1, c_reader_max_send_size = 0, c_reader_max_recv_size = 0,
     c_env = refused, c_drv_data = priv\<rparr>"

definition fid_of :: "selection \<Rightarrow> bytes" where
  "fid_of s = (case s of Select_DF fid \<Rightarrow> fid | Select_EF fid \<Rightarrow> fid)"

lemma flat_select:
  assumes "length (fid_of s) = 2"
  shows "fid_of s \<notin> set (c_env d) \<Longrightarrow> \<exists>b. command flat_ops (apdu_of c s) d = (Inr b, d)"
    and "fid_of s \<in> set (c_env d) \<Longrightarrow> command flat_ops (apdu_of c s) d = (Inl SC_ERROR_FILE_NOT_FOUND, d)"
proof -
  have l: "case s of Select_DF fid \<Rightarrow> length fid = 2 | Select_EF fid \<Rightarrow> length fid = 2"
    using assms by (cases s) (simp_all add: fid_of_def)
  note p = apdu_of_plain [OF l]
  show "fid_of s \<notin> set (c_env d) \<Longrightarrow> \<exists>b. command flat_ops (apdu_of c s) d = (Inr b, d)"
    and "fid_of s \<in> set (c_env d) \<Longrightarrow> command flat_ops (apdu_of c s) d = (Inl SC_ERROR_FILE_NOT_FOUND, d)"
    using flat_command [where a = "apdu_of c s" and c = d, OF p(1-3)] by (auto simp: fid_of_def p(4))
qed

lemma flat_accepts:
  "list_all (\<lambda>s. length (fid_of s) = 2 \<and> fid_of s \<notin> set (c_env d)) ss \<Longrightarrow>
   accepts flat_ops d (map (apdu_of c) ss) (d\<lparr>c_drv_data := x\<rparr>)"
proof (induction ss)
  case Nil
  show ?case unfolding list.map by (rule accepts_own [OF accepts_none])
next
  case (Cons s ss)
  then obtain b where "command flat_ops (apdu_of c s) d = (Inr b, d)" using flat_select(1) by fastforce
  with Cons show ?case by (auto intro: accepts_command)
qed

lemma flat_completed:
  assumes "list_all (\<lambda>s. length (fid_of s) = 2 \<and> fid_of s \<notin> set (c_env c)) (select_plan (c_drv_data c) v)"
    and "x = drv_after (c_drv_data c) v (length (select_plan (c_drv_data c) v))"
  shows "navigates flat_ops v (c, cur) True (c\<lparr>c_drv_data := x\<rparr>, current_df cur (select_plan (c_drv_data c) v))"
  by (rule completed) (use assms flat_accepts in auto)

lemma flat_cut:
  assumes "k < length (select_plan (c_drv_data c) v)"
    and "list_all (\<lambda>s. length (fid_of s) = 2 \<and> fid_of s \<notin> set (c_env c)) (take k (select_plan (c_drv_data c) v))"
    and "length (fid_of (select_plan (c_drv_data c) v ! k)) = 2" "fid_of (select_plan (c_drv_data c) v ! k) \<in> set (c_env c)"
    and "x = drv_after (c_drv_data c) v k"
  shows "navigates flat_ops v (c, cur) False (c\<lparr>c_drv_data := x\<rparr>, current_df cur (take k (select_plan (c_drv_data c) v)))"
proof (rule cut_short [OF assms(1)])
  show "accepts flat_ops c (map (apdu_of c) (take k (select_plan (c_drv_data c) v))) (c\<lparr>c_drv_data := x\<rparr>)"
    by (rule flat_accepts [OF assms(2)])
  show "command flat_ops (apdu_of c (select_plan (c_drv_data c) v ! k)) (c\<lparr>c_drv_data := x\<rparr>) =
      (Inl SC_ERROR_FILE_NOT_FOUND, c\<lparr>c_drv_data := x\<rparr>)"
    by (rule flat_select(2) [OF assms(3)]) (simp add: assms(4))
qed (simp add: assms(5))

lemma handshake_apdus:
  assumes "cmd \<in> {drm_apdu, aid_apdu, channel_apdu, aid_again_apdu}"
  shows "sc_detect_apdu_cse caps (cmd c) = cmd c" "sc_check_apdu caps (cmd c) = Inr ()" "\<not> chaining (cmd c)"
proof -
  have len: "length starsign_drm_string = 60" "length starsign_aid = 12" "length rbuf = 261"
    by (simp_all add: starsign_drm_string_def starsign_aid_def rbuf_def)
  note defs = with_data_def sc_format_apdu_def zero_apdu_def sc_detect_apdu_cse_def sc_check_apdu_def chaining_def Let_def
  have "sc_detect_apdu_cse caps (drm_apdu c) = drm_apdu c \<and> sc_check_apdu caps (drm_apdu c) = Inr () \<and> \<not> chaining (drm_apdu c)"
    by (simp add: drm_apdu_def defs len)
  moreover have "sc_detect_apdu_cse caps (aid_apdu c) = aid_apdu c \<and> sc_check_apdu caps (aid_apdu c) = Inr () \<and> \<not> chaining (aid_apdu c)"
    by (simp add: aid_apdu_def defs len)
  moreover have "sc_detect_apdu_cse caps (channel_apdu c) = channel_apdu c \<and> sc_check_apdu caps (channel_apdu c) = Inr () \<and> \<not> chaining (channel_apdu c)"
    by (simp add: channel_apdu_def defs len)
  moreover have "sc_detect_apdu_cse caps (aid_again_apdu c) = aid_again_apdu c \<and> sc_check_apdu caps (aid_again_apdu c) = Inr () \<and> \<not> chaining (aid_again_apdu c)"
    by (simp add: aid_again_apdu_def defs len)
  ultimately show "sc_detect_apdu_cse caps (cmd c) = cmd c" "sc_check_apdu caps (cmd c) = Inr ()" "\<not> chaining (cmd c)"
    using assms by blast+
qed

lemma flat_init:
  assumes "[] \<notin> set refused"
  shows "\<exists>c. starsign_init (\<lambda>_. True) flat_ops (flat_card refused None) = (Inr (), c) \<and> c_env c = refused \<and>
     c_drv_data c = Some zero_drv"
proof -
  have tell: "tell flat_ops cmd c = (Inr (fst (snd (flat_tx (cmd c, c_env c)))), c)"
    if "cmd \<in> {drm_apdu, aid_apdu, channel_apdu, aid_again_apdu}" for cmd c
    unfolding tell_def by (rule flat_exchange [OF handshake_apdus [OF that]])
  note tells = tell [of drm_apdu, simplified] tell [of aid_apdu, simplified] tell [of channel_apdu, simplified]
    tell [of aid_again_apdu, simplified]
  have data: "mem (a_data (channel_apdu c)) = []" for c :: "bytes list ss_card"
    by (simp add: channel_apdu_def sc_format_apdu_def zero_apdu_def)
  have good: "iso7816_check_sw 0x90 0 = Inr ()" by code_simp
  have sw: "o_check_sw flat_ops = Some iso7816_check_sw" by (simp add: flat_ops_def)
  have opn: "open_channel flat_ops c = (Inr (), c)" if "[] \<notin> set (c_env c)" for c
    using that by (simp add: open_channel_def sbind_def tells flat_tx_def data sc_check_sw_def sw good)
  show ?thesis
    using assms
    by (simp add: starsign_init_def sbind_def modify_def tells opn flat_card_def Let_def starsign_algorithms_def
        starsign_limits_def sc_card_add_rsa_alg_def sc_card_add_algorithm_def)
qed

section \<open>Witnesses and the remaining properties\<close>

abbreviation cert_path :: bytes where "cert_path \<equiv> [0x3F, 0x00, 0x3F, 0xFF, 0x43, 0x02, 0x05, 0xA0]"

definition cert_drv :: starsign_drv_data where
  "cert_drv = \<lparr>df5031_selected = False, mid_fid = [0x43, 0x02], mid_fid_valid = True\<rparr>"

lemma cert_plan: "select_plan (Some zero_drv) cert_path = [Select_DF [0x43, 0x02], Select_EF [0x05, 0xA0]]"
  "drv_after (Some zero_drv) cert_path (Suc (Suc 0)) = Some cert_drv"
  "select_plan (Some cert_drv) cert_path = [Select_EF [0x05, 0xA0]]"
  by code_simp+


definition ef_path :: sc_path where
  "ef_path = zero_path\<lparr>p_value := cert_path, p_type := SC_PATH_TYPE_PATH\<rparr>"

theorem select_file_navigates_witness:
  "\<exists>r c cur. starsign_select_file (\<lambda>_. True) flat_ops ef_path True (flat_card [] (Some zero_drv)) = (r, c) \<and>
     navigates flat_ops cert_path (flat_card [] (Some zero_drv), None) (\<exists>f. r = Inr f) (c, cur)"
proof -
  obtain r c where run: "starsign_select_file (\<lambda>_. True) flat_ops ef_path True (flat_card [] (Some zero_drv)) = (r, c)"
    by (metis prod.exhaust)
  have o: "own_path ef_path" unfolding own_path_def ef_path_def by code_simp
  from select_file_navigates [OF flat_framed o _ run, of None] run show ?thesis
    by (auto simp: ef_path_def)
qed


abbreviation deep_path :: bytes where "deep_path \<equiv> [0x3F, 0x00, 0x50, 0x15, 0x44, 0x00]"

lemma deep_plan:
  "select_plan (Some cert_drv) deep_path = [Select_DF [0x3F, 0x00], Select_DF [0x50, 0x15], Select_EF [0x44, 0x00]]"
  "drv_after (Some cert_drv) deep_path 2 = Some cert_drv" "from_mf (Some cert_drv) deep_path"
  by code_simp+


text \<open>The placeholder \<open>3FFF\<close>, which the card refuses, is never selected on the way to a file: no command
  names it unless it is one of the last two identifiers of the path.\<close>
theorem placeholder_not_selected:
  assumes "even (length v)" and "placeholder v \<longrightarrow> 8 \<le> length v"
    and "s \<in> set (select_plan priv v)" and "fid_of s = [0x3F, 0xFF]"
  shows "take 2 (drop (length v - 4) v) = [0x3F, 0xFF] \<or> drop (length v - 2) v = [0x3F, 0xFF]"
  using assms
  by (auto simp: select_plan_def Let_def fid_of_def placeholder_def split: if_splits)

theorem placeholder_not_selected_witness:
  "\<forall>s \<in> set (select_plan None cert_path). fid_of s \<noteq> [0x3F, 0xFF]"
proof
  fix s assume s: "s \<in> set (select_plan None cert_path)"
  have e: "even (length cert_path)" "placeholder cert_path \<longrightarrow> 8 \<le> length cert_path" by simp_all
  show "fid_of s \<noteq> [0x3F, 0xFF]"
  proof
    assume "fid_of s = [0x3F, 0xFF]"
    from placeholder_not_selected [OF e s this] show False by simp
  qed
qed

text \<open>The first memory, \<open>df5031_selected\<close>, is never taken back: after a virtual path the card is in the
  directory of the certificate, but a file of the application is still addressed as its child.\<close>

lemma child_of_other_df:
  "select_plan (Some (cert_drv\<lparr>df5031_selected := True\<rparr>)) [0x3F, 0x00, 0x50, 0x32] = [Select_EF [0x50, 0x32]]"
  by code_simp



section \<open>Over the PC/SC reader\<close>

lemma safe_modify: "(\<And>c. c_env (f c) = c_env c \<and> c_lock_count (f c) = c_lock_count c) \<Longrightarrow> safe env_ok (modify f)"
  by (rule safeI) (auto simp: modify_def)

lemma handshake_room: "cmd \<in> {drm_apdu, aid_apdu, channel_apdu, aid_again_apdu} \<Longrightarrow> room_ok (cmd c)"
  by (auto simp: room_ok_def drm_apdu_def aid_apdu_def channel_apdu_def aid_again_apdu_def rbuf_def with_data_def
      sc_format_apdu_def zero_apdu_def)

lemma apdu_of_room: "room_ok (apdu_of c s)"
  by (cases s) (simp_all add: room_ok_def df_apdu_def ef_apdu_def rbuf_def with_data_def sc_format_apdu_def zero_apdu_def)

lemma tell_safe:
  assumes "cmd \<in> {drm_apdu, aid_apdu, channel_apdu, aid_again_apdu}"
  shows "safe no_escape (tell (iso_table n malloc api conf) cmd)"
  unfolding tell_def [abs_def] by (rule safe_start) (rule iso.safe_exchange [OF handshake_room [OF assms]])

lemma open_channel_safe: "safe no_escape (open_channel (iso_table n malloc api conf))"
proof -
  have "safe no_escape (if a_sw1 a = 0x6A \<and> a_sw2 a = 0x81 then sret ()
     else lift_res (sc_check_sw (iso_table n malloc api conf) (a_sw1 a) (a_sw2 a)))" for a
    using safe_sret [of no_escape "()"] safe_lift_res [OF iso.check_sw_no_fuel] by (cases "a_sw1 a = 0x6A \<and> a_sw2 a = 0x81") auto
  then show ?thesis unfolding open_channel_def by (intro safe_sbind tell_safe) simp
qed

lemma init_safe: "safe no_escape (starsign_init alloc (iso_table n malloc api conf))"
proof -
  define rest where "rest = sbind (modify (c_drv_data_update (\<lambda>_. Some zero_drv))) (\<lambda>_.
       sbind (tell (iso_table n malloc api conf) drm_apdu) (\<lambda>_.
       sbind (tell (iso_table n malloc api conf) aid_apdu) (\<lambda>_.
       sbind (tell (iso_table n malloc api conf) drm_apdu) (\<lambda>_.
       sbind (open_channel (iso_table n malloc api conf)) (\<lambda>_.
       sbind (modify (c_cla_update (\<lambda>_. 0x01))) (\<lambda>_.
       sbind (tell (iso_table n malloc api conf) aid_again_apdu) (\<lambda>_.
       sbind (modify starsign_limits) (\<lambda>_. modify starsign_algorithms))))))))"
  have rest: "safe no_escape rest"
    unfolding rest_def
    by (intro safe_sbind safe_modify tell_safe open_channel_safe)
      (simp_all add: starsign_limits_def starsign_algorithms_def sc_card_add_rsa_alg_def sc_card_add_algorithm_def Let_def)
  have eq: "starsign_init alloc (iso_table n malloc api conf) c = (if \<not> alloc sizeof_drv_data
      then (Inl SC_ERROR_OUT_OF_MEMORY, c\<lparr>c_type := SC_CARD_TYPE_STARSIGN, c_drv_data := None\<rparr>)
      else rest (c\<lparr>c_type := SC_CARD_TYPE_STARSIGN\<rparr>))" for c
    unfolding starsign_init_def rest_def Let_def ..
  show ?thesis
  proof (rule safeI)
    fix c r c' assume env: "no_escape (c_env c)" and run: "starsign_init alloc (iso_table n malloc api conf) c = (r, c')"
    show "no_escape (c_env c') \<and> c_lock_count c' = c_lock_count c \<and> r \<noteq> Inl OUT_OF_FUEL"
    proof (cases "\<not> alloc sizeof_drv_data")
      case True
      then have "c' = c\<lparr>c_type := SC_CARD_TYPE_STARSIGN, c_drv_data := None\<rparr>" "r = Inl SC_ERROR_OUT_OF_MEMORY"
        using run unfolding eq if_P [OF True] by simp_all
      with env show ?thesis by simp
    next
      case False
      have "rest (c\<lparr>c_type := SC_CARD_TYPE_STARSIGN\<rparr>) = (r, c')"
        using run unfolding eq if_not_P [OF False] .
      from safeD [OF rest _ this] env show ?thesis by simp
    qed
  qed
qed

lemma select_df_safe: "safe no_escape (select_df (iso_table n malloc api conf) fid)"
  unfolding select_df_def [abs_def]
  by (rule iso.safe_command_op) (use apdu_of_room [of _ "Select_DF fid"] in simp_all)

lemma ef_child_safe: "safe no_escape (starsign_select_ef_child (iso_table n malloc api conf) process fid file)"
  unfolding starsign_select_ef_child_def [abs_def]
  by (rule iso.safe_command_op) (use apdu_of_room [of _ "Select_EF fid"] in simp_all)

lemma select_dfs_safe: "safe no_escape (select_dfs (iso_table n malloc api conf) fids)"
proof (induction fids)
  case Nil
  show ?case unfolding select_dfs.simps by (rule safe_sret)
next
  case (Cons fid fids)
  then show ?case unfolding select_dfs.simps by (intro safe_sbind select_df_safe)
qed

lemma select_virtual_safe: "safe no_escape (select_virtual (iso_table n malloc api conf) process v file)"
proof -
  define first where "first = (\<lambda>c. if \<not> mid_cached (c_drv_data c) (take 2 (drop (length v - 4) v))
      then sbind (select_df (iso_table n malloc api conf) (take 2 (drop (length v - 4) v)))
        (\<lambda>_. modify (remember_mid (take 2 (drop (length v - 4) v)))) c else sret () c)"
  have first: "safe no_escape first"
    unfolding first_def
    by (intro safe_if safe_sbind select_df_safe safe_modify safe_sret) (simp_all add: remember_mid_def)
  have "select_virtual (iso_table n malloc api conf) process v file = (\<lambda>c. if length v < 8 then (Inl SC_ERROR_INVALID_ARGUMENTS, c)
      else sbind first (\<lambda>_. starsign_select_ef_child (iso_table n malloc api conf) process (drop (length v - 2) v) file) c)"
    by (rule ext) (simp add: select_virtual_def first_def sbind_def Let_def)
  then show ?thesis
    by (simp only:) (intro safe_if safe_const safe_sbind first ef_child_safe, simp)
qed

lemma select_from_mf_safe: "safe no_escape (select_from_mf (iso_table n malloc api conf) process v file)"
proof -
  have "safe no_escape (if length v > 4
      then sbind (starsign_select_ef_child (iso_table n malloc api conf) process (drop (length v - 2) v) file) (\<lambda>f. sret (f, True))
      else sbind (select_df (iso_table n malloc api conf) (drop (length v - 2) v)) (\<lambda>_. sret (file, False)))"
  proof (cases "length v > 4")
    case True
    show ?thesis unfolding if_P [OF True] by (intro safe_sbind ef_child_safe safe_sret)
  next
    case False
    show ?thesis unfolding if_not_P [OF False] by (intro safe_sbind select_df_safe safe_sret)
  qed
  then show ?thesis
    unfolding select_from_mf_def
    by (intro safe_sbind select_dfs_safe safe_modify safe_sret) (simp_all add: forget_mid_def)
qed

lemma select_here_safe: "safe no_escape (select_here (iso_table n malloc api conf) process v file)"
  unfolding select_here_def [abs_def]
  by (intro safe_if safe_sbind select_virtual_safe ef_child_safe select_from_mf_safe safe_sret)

lemma select_safe: "safe no_escape (starsign_select_file alloc (iso_table n malloc api conf) p want)"
proof -
  let ?v = "p_value p" and ?process = "iso7816_process_fci alloc"
  define own where "own = (case (if want then map_option Some (sc_file_new alloc) else Some None) of
         None \<Rightarrow> (\<lambda>c. (Inl SC_ERROR_OUT_OF_MEMORY, c))
       | Some file \<Rightarrow> sbind (select_here (iso_table n malloc api conf) ?process ?v file) (\<lambda>(file, selected_as_ef).
            sret (map_option (filled_file p selected_as_ef) file)))"
  have own: "safe no_escape own"
  proof (cases "if want then map_option Some (sc_file_new alloc) else Some None")
    case None
    then show ?thesis unfolding own_def by (simp add: safe_const)
  next
    case (Some f)
    show ?thesis unfolding own_def Some option.case
      by (intro safe_sbind select_here_safe) (simp add: split_beta safe_const sret_def [abs_def])
  qed
  have "starsign_select_file alloc (iso_table n malloc api conf) p want = (\<lambda>c.
     if p_type p \<noteq> SC_PATH_TYPE_PATH \<and> p_type p \<noteq> SC_PATH_TYPE_FROM_CURRENT \<and> p_type p \<noteq> SC_PATH_TYPE_FILE_ID
     then iso7816_select_file alloc (iso_table n malloc api conf) (Some ?process) p want c
     else if odd (length ?v) \<or> length ?v = 0 then (Inl SC_ERROR_INVALID_ARGUMENTS, c) else own c)"
    by (rule ext) (simp add: starsign_select_file_def own_def Let_def split: option.split)
  then show ?thesis
    by (simp only:) (intro safe_if safe_const iso.select_file_safe own, simp)
qed

lemma starsign_env_safe: "safe no_escape (starsign_set_security_env (iso_table n malloc api conf) env res)"
proof (cases env)
  case None
  then show ?thesis by (simp add: starsign_set_security_env_def [abs_def] safe_const)
next
  case (Some e)
  have c: "crt_template x \<noteq> Inl OUT_OF_FUEL" for x by (simp add: crt_template_def)
  show ?thesis
  proof (cases "crt_template (se_operation e)")
    case (Inl x)
    with c [of "se_operation e"] show ?thesis
      by (simp add: starsign_set_security_env_def [abs_def] Some safe_const)
  next
    case (Inr p2)
    show ?thesis
      unfolding starsign_set_security_env_def [abs_def] Some option.case Inr sum.case
      by (rule iso.safe_command_op)
        (simp_all add: room_ok_def sc_format_apdu_ex_def sc_format_apdu_cse_lc_le_def zero_apdu_def)
  qed
qed

text \<open>C9: The operations of the driver, over the PC/SC reader: whatever the card answers, initialisation,
  selection and the security environment end without an overrun of a loop's fuel, and leave the
  lock as it was.\<close>
theorem starsign_operations_safe:
  "safe no_escape (starsign_init alloc (iso_table n malloc api conf)) \<and>
   safe no_escape (starsign_select_file alloc (iso_table n malloc api conf) p want) \<and>
   safe no_escape (starsign_set_security_env (iso_table n malloc api conf) env res)"
  using init_safe select_safe starsign_env_safe by blast

text \<open>The security environment is one command, with the key reference first.\<close>

lemma set_security_env_sends:
  assumes "starsign_set_security_env ops (Some env) res c = (Inr (), c')"
  shows "\<exists>p2 a. crt_template (se_operation env) = Inr p2 \<and> accepts ops c [a] c' \<and> a_cla a = c_cla c \<and> a_ins a = 0x22 \<and>
    a_p1 a = 0x41 \<and> a_p2 a = p2 \<and> a_data a = Some (mse_payload env) \<and> a_lc a = 6 \<and> length (mse_payload env) = 6"
proof -
  from assms obtain p2 where p2: "crt_template (se_operation env) = Inr p2"
    by (auto simp: starsign_set_security_env_def split: sum.splits)
  let ?a = "sc_format_apdu_ex (c_cla c) 0x22 0x41 p2 (Some (mse_payload env)) 6 None 0"
  from assms p2 obtain b where "command ops ?a c = (Inr b, c')"
    by (auto simp: starsign_set_security_env_def elim: sbind_InrE)
  then have "accepts ops c [?a] c'" by (rule accepts_command [OF _ accepts_none])
  moreover have "a_cla ?a = c_cla c \<and> a_ins ?a = 0x22 \<and> a_p1 ?a = 0x41 \<and> a_p2 ?a = p2 \<and>
      a_data ?a = Some (mse_payload env) \<and> a_lc ?a = 6"
    by (simp add: sc_format_apdu_ex_def sc_format_apdu_cse_lc_le_def zero_apdu_def)
  ultimately show ?thesis using p2 by (auto simp: mse_payload_def)
qed

end
