(* ===== verification/Sc_Pin.thy ===== *)
theory Sc_Pin
  imports Sc_StarSign
begin

text \<open>
  PIN commands: the copy, conversion and padding of a PIN (\<open>sc_build_pin\<close> of
  \<open>libopensc/sec.c\<close>), the command that carries one or two PINs and what is made of the card's
  answer (\<open>iso7816_build_pin_apdu\<close>, \<open>iso7816_pin_cmd\<close> and \<open>iso7816_logout\<close> of
  \<open>libopensc/iso7816.c\<close>), and the calls of the upper layers
  (\<open>sc_pin_cmd\<close>, \<open>sc_verify\<close>, \<open>sc_change_reference_data\<close>, \<open>sc_reset_retry_counter\<close>).

  A PIN is given by its bytes \<open>pn_data\<close>, of which the first \<open>pn_len\<close> count. The buffer of a
  command is a list of the buffer's size; writing is \<open>list_update\<close> and \<open>memcpy_at\<close>, and
  \<open>build_pin_is_block\<close> shows that it stays inside. The reader's PIN pad, \<open>perform_verify\<close>, is an
  argument: it fills the status of the APDU it is given.
\<close>

section \<open>Data\<close>

abbreviation (input) SC_AC_CHV :: u32 where "SC_AC_CHV \<equiv> 1"
abbreviation (input) SC_AC_SESSION :: u32 where "SC_AC_SESSION \<equiv> 0x100"
abbreviation (input) SC_AC_CONTEXT_SPECIFIC :: u32 where "SC_AC_CONTEXT_SPECIFIC \<equiv> 0x200"

abbreviation (input) SC_PIN_CMD_VERIFY :: u32 where "SC_PIN_CMD_VERIFY \<equiv> 0"
abbreviation (input) SC_PIN_CMD_CHANGE :: u32 where "SC_PIN_CMD_CHANGE \<equiv> 1"
abbreviation (input) SC_PIN_CMD_UNBLOCK :: u32 where "SC_PIN_CMD_UNBLOCK \<equiv> 2"
abbreviation (input) SC_PIN_CMD_GET_INFO :: u32 where "SC_PIN_CMD_GET_INFO \<equiv> 3"

abbreviation (input) SC_PIN_CMD_USE_PINPAD :: u32 where "SC_PIN_CMD_USE_PINPAD \<equiv> 1"
abbreviation (input) SC_PIN_CMD_NEED_PADDING :: u32 where "SC_PIN_CMD_NEED_PADDING \<equiv> 2"
abbreviation (input) SC_PIN_CMD_IMPLICIT_CHANGE :: u32 where "SC_PIN_CMD_IMPLICIT_CHANGE \<equiv> 4"

abbreviation (input) SC_PIN_ENCODING_ASCII :: u32 where "SC_PIN_ENCODING_ASCII \<equiv> 0"
abbreviation (input) SC_PIN_ENCODING_BCD :: u32 where "SC_PIN_ENCODING_BCD \<equiv> 1"
abbreviation (input) SC_PIN_ENCODING_GLP :: u32 where "SC_PIN_ENCODING_GLP \<equiv> 2"

abbreviation (input) SC_PIN_STATE_LOGGED_OUT :: int where "SC_PIN_STATE_LOGGED_OUT \<equiv> 1"
abbreviation (input) SC_PIN_STATE_LOGGED_IN :: int where "SC_PIN_STATE_LOGGED_IN \<equiv> 2"

abbreviation (input) SC_CARD_CAP_ISO7816_PIN_INFO :: u64 where "SC_CARD_CAP_ISO7816_PIN_INFO \<equiv> 8"

record sc_pin_cmd_pin =
  pn_data :: bytes
  pn_len :: nat
  pn_min_length :: nat
  pn_max_length :: nat
  pn_encoding :: u32
  pn_pad_length :: nat
  pn_pad_char :: u8
  pn_offset :: nat
  pn_max_tries :: int
  pn_tries_left :: int
  pn_logged_in :: int

record sc_pin_cmd_data =
  pc_cmd :: u32
  pc_flags :: u32
  pc_pin_type :: u32
  pc_pin_reference :: int
  pc_puk_reference :: int
  pc_pin1 :: sc_pin_cmd_pin
  pc_pin2 :: sc_pin_cmd_pin
  pc_apdu :: "sc_apdu option"

definition zero_pin :: sc_pin_cmd_pin where
  "zero_pin = \<lparr>pn_data = [], pn_len = 0, pn_min_length = 0, pn_max_length = 0, pn_encoding = 0, pn_pad_length = 0,
     pn_pad_char = 0, pn_offset = 0, pn_max_tries = 0, pn_tries_left = 0, pn_logged_in = 0\<rparr>"

definition zero_pin_data :: sc_pin_cmd_data where
  "zero_pin_data = \<lparr>pc_cmd = 0, pc_flags = 0, pc_pin_type = 0, pc_pin_reference = 0, pc_puk_reference = 0,
     pc_pin1 = zero_pin, pc_pin2 = zero_pin, pc_apdu = None\<rparr>"

section \<open>Building a PIN\<close>

primrec strip_ff :: "bytes \<Rightarrow> nat \<Rightarrow> nat" where
  "strip_ff d 0 = 0"
| "strip_ff d (Suc n) = (if d ! n = 0xFF then strip_ff d n else Suc n)"

definition digit_byte :: "u8 \<Rightarrow> bool" where
  "digit_byte b \<longleftrightarrow> 0x30 \<le> b \<and> b \<le> 0x39"

text \<open>A \<open>size_t\<close> decremented.\<close>

definition size_dec :: "nat \<Rightarrow> nat" where
  "size_dec n = (if n = 0 then SIZE_MAX else n - 1)"

text \<open>The loop over the digits: \<open>j\<close> of them are written, the next one goes into \<open>buf[i]\<close>.\<close>

fun bcd_loop :: "bytes \<Rightarrow> nat \<Rightarrow> nat \<Rightarrow> bytes \<Rightarrow> (nat \<times> nat \<times> bytes) res" where
  "bcd_loop [] j i buf = Inr (i, j, buf)"
| "bcd_loop (d # ds) j i buf =
    (if \<not> digit_byte d then Inl SC_ERROR_INVALID_DATA
     else bcd_loop ds (Suc j) (if odd j then Suc i else i) (buf[i := push_bit 4 (buf ! i) OR (d AND 0xf)]))"

definition encode_pin :: "bytes \<Rightarrow> nat \<Rightarrow> sc_pin_cmd_pin \<Rightarrow> nat \<Rightarrow> (nat \<times> bytes) res" where
  "encode_pin buf buflen pin pin_len =
    (if pn_encoding pin = SC_PIN_ENCODING_ASCII then
       (if pin_len > buflen then Inl SC_ERROR_BUFFER_TOO_SMALL
        else Inr (pin_len, memcpy_at buf 0 (take pin_len (pn_data pin))))
     else if pn_encoding pin = SC_PIN_ENCODING_BCD \<or> pn_encoding pin = SC_PIN_ENCODING_GLP then
       (if pin_len > 2 * buflen then Inl SC_ERROR_BUFFER_TOO_SMALL
        else ebind (bcd_loop (take pin_len (pn_data pin)) 0 0 buf) (\<lambda>(i, j, buf).
               Inr (if odd j then (Suc i, buf[i := push_bit 4 (buf ! i) OR (pn_pad_char pin AND 0xf)]) else (i, buf))))
     else Inr (0, buf))"

definition pad_pin :: "nat \<Rightarrow> sc_pin_cmd_pin \<Rightarrow> bool \<Rightarrow> nat \<times> bytes \<Rightarrow> (nat \<times> bytes) res" where
  "pad_pin buflen pin pad = (\<lambda>(i, buf).
    if pad \<or> pn_encoding pin = SC_PIN_ENCODING_GLP then
      let pad_char = (if pn_encoding pin = SC_PIN_ENCODING_GLP then 0xFF else pn_pad_char pin);
          pad_length = (if pn_encoding pin = SC_PIN_ENCODING_BCD then pn_pad_length pin div 2 else pn_pad_length pin);
          pad_length = (if pn_encoding pin = SC_PIN_ENCODING_GLP then 8 else pad_length)
      in if pad_length > buflen then Inl SC_ERROR_BUFFER_TOO_SMALL
         else if pad_length \<noteq> 0 \<and> i < pad_length
         then Inr (pad_length, memcpy_at buf i (replicate (pad_length - i) pad_char))
         else Inr (i, buf)
    else Inr (i, buf))"

text \<open>The value is the number of bytes and the buffer.\<close>

definition sc_build_pin :: "bytes \<Rightarrow> sc_pin_cmd_pin \<Rightarrow> bool \<Rightarrow> (nat \<times> bytes) res" where
  "sc_build_pin buf pin pad =
    (if pn_max_length pin \<noteq> 0 \<and> pn_len pin > pn_max_length pin then Inl SC_ERROR_INVALID_ARGUMENTS
     else if pn_encoding pin = SC_PIN_ENCODING_GLP then
       (let pin_len = strip_ff (pn_data pin) (pn_len pin) in
        if pin_len > 12 then Inl SC_ERROR_INVALID_ARGUMENTS
        else if \<not> list_all digit_byte (take pin_len (pn_data pin)) then Inl SC_ERROR_INVALID_ARGUMENTS
        else
          let header = 0x20 OR of_nat pin_len; buflen = size_dec (length buf) in
          ebind (encode_pin (drop 1 buf) buflen pin pin_len) (\<lambda>s.
          ebind (pad_pin buflen pin pad s) (\<lambda>(i, rest). Inr (i, header # rest))))
     else ebind (encode_pin buf (length buf) pin (pn_len pin)) (pad_pin (length buf) pin pad))"

section \<open>The command\<close>

definition pc_flag :: "sc_pin_cmd_data \<Rightarrow> u32 \<Rightarrow> bool" where
  "pc_flag d f \<longleftrightarrow> pc_flags d AND f \<noteq> 0"

text \<open>The parts: case, instruction, P1, length and buffer.\<close>

definition build_verify :: "sc_pin_cmd_data \<Rightarrow> bytes \<Rightarrow> (u32 \<times> u8 \<times> u8 \<times> nat \<times> bytes) res" where
  "build_verify d buf =
    (if pn_len (pc_pin1 d) = 0 \<and> \<not> pc_flag d SC_PIN_CMD_USE_PINPAD then Inl SC_ERROR_INVALID_PIN_LENGTH
     else ebind (sc_build_pin buf (pc_pin1 d) (pc_flag d SC_PIN_CMD_NEED_PADDING))
            (\<lambda>(n, b). Inr (SC_APDU_CASE_3_SHORT, 0x20, 0, n, b)))"

text \<open>The first PIN of a change or an unblocking, unless it is left out.\<close>

definition build_first :: "sc_pin_cmd_data \<Rightarrow> bytes \<Rightarrow> (nat \<times> bytes) option res" where
  "build_first d buf =
    (if pn_len (pc_pin1 d) \<noteq> 0 \<or> pc_flag d SC_PIN_CMD_USE_PINPAD \<and> \<not> pc_flag d SC_PIN_CMD_IMPLICIT_CHANGE
     then ebind (sc_build_pin buf (pc_pin1 d) (pc_flag d SC_PIN_CMD_NEED_PADDING)) (\<lambda>s. Inr (Some s))
     else Inr None)"

definition build_second :: "sc_pin_cmd_data \<Rightarrow> nat \<Rightarrow> bytes \<Rightarrow> (nat \<times> bytes) res" where
  "build_second d len buf =
     ebind (sc_build_pin (drop len buf) (pc_pin2 d) (pc_flag d SC_PIN_CMD_NEED_PADDING))
       (\<lambda>(n, b). Inr (len + n, take len buf @ b))"

definition set_offset2 :: "nat \<Rightarrow> sc_pin_cmd_data \<Rightarrow> sc_pin_cmd_data" where
  "set_offset2 len d = d\<lparr>pc_pin2 := (pc_pin2 d)\<lparr>pn_offset := pn_offset (pc_pin1 d) + len\<rparr>\<rparr>"

definition iso7816_build_pin_apdu ::
  "('r, 'd) sc_card \<Rightarrow> bytes \<Rightarrow> (sc_pin_cmd_data, sc_apdu) prog" where
  "iso7816_build_pin_apdu c buf d =
    (let finish = (\<lambda>(cse, ins, p1, len, b) d.
           (Inr ((sc_format_apdu c cse ins p1 (word_of_int (pc_pin_reference d)))
                  \<lparr>a_lc := len, a_datalen := len, a_data := Some b, a_resplen := 0\<rparr>), d));
         fail = (\<lambda>e d. (Inl e, d))
     in if pc_pin_type d \<notin> {SC_AC_CHV, SC_AC_SESSION, SC_AC_CONTEXT_SPECIFIC} then (Inl SC_ERROR_INVALID_ARGUMENTS, d)
        else
          let d = d\<lparr>pc_pin1 := (pc_pin1 d)\<lparr>pn_offset := 5\<rparr>\<rparr> in
          if pc_cmd d = SC_PIN_CMD_VERIFY then
            (case build_verify d buf of Inl e \<Rightarrow> fail e d | Inr x \<Rightarrow> finish x d)
          else if pc_cmd d = SC_PIN_CMD_CHANGE then
            (case build_first d buf of
               Inl e \<Rightarrow> fail e d
             | Inr first \<Rightarrow>
                let (p1, len, b) = (case first of None \<Rightarrow> (1, 0, buf) | Some (n, b) \<Rightarrow> (0, n, b));
                    d = set_offset2 len d
                in case build_second d len b of
                     Inl e \<Rightarrow> fail e d
                   | Inr (n, b) \<Rightarrow>
                      let d = (if pn_len (pc_pin1 d) \<noteq> 0 \<and> pn_len (pc_pin2 d) = 0
                               then d\<lparr>pc_flags := pc_flags d OR SC_PIN_CMD_IMPLICIT_CHANGE\<rparr> else d)
                      in finish (SC_APDU_CASE_3_SHORT, 0x24, p1, n, b) d)
          else if pc_cmd d = SC_PIN_CMD_UNBLOCK then
            (case build_first d buf of
               Inl e \<Rightarrow> fail e d
             | Inr first \<Rightarrow>
                let (p1, len, b) = (case first of None \<Rightarrow> (2, 0, buf) | Some (n, b) \<Rightarrow> (0, n, b))
                in if pn_len (pc_pin2 d) \<noteq> 0 \<or> pc_flag d SC_PIN_CMD_USE_PINPAD then
                     let d = set_offset2 len d in
                     case build_second d len b of
                       Inl e \<Rightarrow> fail e d
                     | Inr (n, b) \<Rightarrow> finish (SC_APDU_CASE_3_SHORT, 0x2C, p1, n, b) d
                   else
                     let p1 = p1 OR 1 in
                     finish ((if p1 = 3 then SC_APDU_CASE_1 else SC_APDU_CASE_3_SHORT), 0x2C, p1, len, b) d)
          else if pc_cmd d = SC_PIN_CMD_GET_INFO then finish (SC_APDU_CASE_1, 0x20, 0, 0, buf) d
          else (Inl SC_ERROR_NOT_SUPPORTED, d))"

text \<open>What the answer means.\<close>

definition pin_verdict :: "unit res \<Rightarrow> u32 \<Rightarrow> (sc_pin_cmd_data, unit) prog" where
  "pin_verdict r sw2 d =
    (let info = (pc_cmd d = SC_PIN_CMD_GET_INFO);
         out = (\<lambda>n. d\<lparr>pc_pin1 := (pc_pin1 d)\<lparr>pn_tries_left := n, pn_logged_in := SC_PIN_STATE_LOGGED_OUT\<rparr>\<rparr>)
     in if r = Inr () then (r, d\<lparr>pc_pin1 := (pc_pin1 d)\<lparr>pn_logged_in := SC_PIN_STATE_LOGGED_IN\<rparr>\<rparr>)
        else if r = Inl SC_ERROR_PIN_CODE_INCORRECT then
          ((if info then Inr () else r), out (int (unat (sw2 AND 0xF))))
        else if r = Inl SC_ERROR_AUTH_METHOD_BLOCKED then ((if info then Inr () else r), out 0)
        else (r, d))"

text \<open>\<open>pv\<close> is the reader's PIN pad. An APDU the caller prepared stays in \<open>pc_apdu\<close>, one built here does not.\<close>

definition send_pin_apdu ::
  "('r, 'd) sc_ops \<Rightarrow> (sc_pin_cmd_data \<times> ('r, 'd) sc_card, unit) prog option \<Rightarrow> sc_apdu \<Rightarrow>
   (sc_pin_cmd_data \<times> ('r, 'd) sc_card, sc_apdu) prog" where
  "send_pin_apdu ops pv a = (\<lambda>(d, c).
    if \<not> pc_flag d SC_PIN_CMD_USE_PINPAD \<or> pc_cmd d = SC_PIN_CMD_GET_INFO then
      (case sc_transmit_apdu ops (a, c) of
         (Inl e, (a', c')) \<Rightarrow> (Inl e, (d\<lparr>pc_apdu := Some a'\<rparr>, c'))
       | (Inr _, (a', c')) \<Rightarrow> (Inr a', (d\<lparr>pc_apdu := Some a'\<rparr>, c')))
    else case pv of
        None \<Rightarrow> (Inl SC_ERROR_NOT_SUPPORTED, (d, c))
      | Some f \<Rightarrow>
         (case f (d\<lparr>pc_apdu := Some a\<rparr>, c) of
            (Inl e, (d', c')) \<Rightarrow> (Inl e, (d', c'))
          | (Inr _, (d', c')) \<Rightarrow> (Inr (case pc_apdu d' of Some a' \<Rightarrow> a' | None \<Rightarrow> a), (d', c'))))"

definition iso7816_pin_cmd ::
  "('r, 'd) sc_ops \<Rightarrow> (sc_pin_cmd_data \<times> ('r, 'd) sc_card, unit) prog option \<Rightarrow>
   (sc_pin_cmd_data \<times> ('r, 'd) sc_card, unit) prog" where
  "iso7816_pin_cmd ops pv = (\<lambda>(d, c).
    let d = d\<lparr>pc_pin1 := (pc_pin1 d)\<lparr>pn_tries_left := - 1\<rparr>\<rparr> in
    if pc_cmd d = SC_PIN_CMD_GET_INFO \<and> c_caps c AND SC_CARD_CAP_ISO7816_PIN_INFO = 0
    then (Inl SC_ERROR_NOT_SUPPORTED, (d, c))
    else
      let (built, d) =
        (case pc_apdu d of
           Some a \<Rightarrow> (Inr a, d)
         | None \<Rightarrow> iso7816_build_pin_apdu c (replicate SC_MAX_APDU_BUFFER_SIZE 0) d);
          own = (pc_apdu d = None)
      in case built of
           Inl e \<Rightarrow> (Inl e, (d, c))
         | Inr a \<Rightarrow>
            if (pc_flag d SC_PIN_CMD_USE_PINPAD \<and> pc_cmd d \<noteq> SC_PIN_CMD_GET_INFO) \<and> pn_offset (pc_pin1 d) = 0
            then (Inl SC_ERROR_INVALID_ARGUMENTS, (d, c))
            else
              let (r, (d, c)) = send_pin_apdu ops pv a (d, c);
                  d = (if own then d\<lparr>pc_apdu := None\<rparr> else d)
              in case r of
                   Inl e \<Rightarrow> (Inl e, (d, c))
                 | Inr a \<Rightarrow> (let (r, d) = pin_verdict (sc_check_sw ops (a_sw1 a) (a_sw2 a)) (a_sw2 a) d in (r, (d, c))))"

definition iso7816_logout :: "('r, 'd) sc_ops \<Rightarrow> u8 \<Rightarrow> (('r, 'd) sc_card, unit) prog" where
  "iso7816_logout ops pin_reference c =
     sbind (command ops (sc_format_apdu c SC_APDU_CASE_1 0x20 0xFF pin_reference)) (\<lambda>_. sret ()) c"

section \<open>The calls of the upper layers\<close>

text \<open>The entries of the driver's table for PINs. The older ones take and return the number of tries left.\<close>

record ('r, 'd) pin_table =
  pt_pin_cmd :: "(sc_pin_cmd_data \<times> ('r, 'd) sc_card, unit) prog option"
  pt_verify :: "(u32 \<Rightarrow> int \<Rightarrow> bytes \<Rightarrow> nat \<Rightarrow> (int \<times> ('r, 'd) sc_card, unit) prog) option"
  pt_change_reference_data :: "(u32 \<Rightarrow> int \<Rightarrow> bytes \<Rightarrow> nat \<Rightarrow> bytes \<Rightarrow> nat \<Rightarrow> (int \<times> ('r, 'd) sc_card, unit) prog) option"
  pt_reset_retry_counter :: "(u32 \<Rightarrow> int \<Rightarrow> bytes \<Rightarrow> nat \<Rightarrow> bytes \<Rightarrow> nat \<Rightarrow> (('r, 'd) sc_card, unit) prog) option"

text \<open>Run one of them on the tries of the first PIN.\<close>

definition on_tries :: "(int \<times> 'c, unit) prog \<Rightarrow> (sc_pin_cmd_data \<times> 'c, unit) prog" where
  "on_tries f = (\<lambda>(d, c). case f (pn_tries_left (pc_pin1 d), c) of
     (r, (t, c')) \<Rightarrow> (r, (d\<lparr>pc_pin1 := (pc_pin1 d)\<lparr>pn_tries_left := t\<rparr>\<rparr>, c')))"

definition old_pin_cmd :: "('r, 'd) pin_table \<Rightarrow> (sc_pin_cmd_data \<times> ('r, 'd) sc_card, unit) prog" where
  "old_pin_cmd pt = (\<lambda>(d, c).
    let p1 = pc_pin1 d; p2 = pc_pin2 d; none = (Inl SC_ERROR_NOT_SUPPORTED, (d, c)) in
    if pc_cmd d = SC_PIN_CMD_VERIFY then
      (case pt_verify pt of None \<Rightarrow> none
       | Some f \<Rightarrow> on_tries (f (pc_pin_type d) (pc_pin_reference d) (pn_data p1) (pn_len p1)) (d, c))
    else if pc_cmd d = SC_PIN_CMD_CHANGE then
      (case pt_change_reference_data pt of None \<Rightarrow> none
       | Some f \<Rightarrow> on_tries (f (pc_pin_type d) (pc_pin_reference d) (pn_data p1) (pn_len p1) (pn_data p2) (pn_len p2)) (d, c))
    else if pc_cmd d = SC_PIN_CMD_UNBLOCK then
      (case pt_reset_retry_counter pt of None \<Rightarrow> none
       | Some f \<Rightarrow>
          (case f (pc_pin_type d) (pc_pin_reference d) (pn_data p1) (pn_len p1) (pn_data p2) (pn_len p2) c of
             (r, c') \<Rightarrow> (r, (d, c'))))
    else none)"

definition sc_pin_cmd :: "('r, 'd) pin_table \<Rightarrow> (sc_pin_cmd_data \<times> ('r, 'd) sc_card, unit) prog" where
  "sc_pin_cmd pt = (\<lambda>(d, c).
    case pt_pin_cmd pt of
      Some f \<Rightarrow> f (d, c)
    | None \<Rightarrow>
        if \<not> pc_flag d SC_PIN_CMD_USE_PINPAD then old_pin_cmd pt (d, c) else (Inl SC_ERROR_NOT_SUPPORTED, (d, c)))"

text \<open>The table of the ISO 7816 driver; \<open>pv\<close> is the reader's PIN pad.\<close>

definition iso_pins ::
  "('r, 'd) sc_ops \<Rightarrow> (sc_pin_cmd_data \<times> ('r, 'd) sc_card, unit) prog option \<Rightarrow> ('r, 'd) pin_table" where
  "iso_pins ops pv = \<lparr>pt_pin_cmd = Some (iso7816_pin_cmd ops pv), pt_verify = None, pt_change_reference_data = None,
     pt_reset_retry_counter = None\<rparr>"

definition one_pin :: "bytes \<Rightarrow> sc_pin_cmd_pin" where
  "one_pin pin = zero_pin\<lparr>pn_data := pin, pn_len := length pin\<rparr>"

text \<open>The value also carries the number of tries left.\<close>

definition sc_verify ::
  "('r, 'd) pin_table \<Rightarrow> u32 \<Rightarrow> int \<Rightarrow> bytes \<Rightarrow> ('r, 'd) sc_card \<Rightarrow> (unit res \<times> int) \<times> ('r, 'd) sc_card" where
  "sc_verify pt type ref pin c =
    (let d = zero_pin_data\<lparr>pc_cmd := SC_PIN_CMD_VERIFY, pc_pin_type := type, pc_pin_reference := ref,
               pc_pin1 := one_pin pin\<rparr>;
         (r, (d, c)) = sc_pin_cmd pt (d, c)
     in ((r, pn_tries_left (pc_pin1 d)), c))"

definition sc_change_reference_data ::
  "('r, 'd) pin_table \<Rightarrow> u32 \<Rightarrow> int \<Rightarrow> bytes \<Rightarrow> bytes \<Rightarrow> ('r, 'd) sc_card \<Rightarrow> (unit res \<times> int) \<times> ('r, 'd) sc_card" where
  "sc_change_reference_data pt type ref old newref c =
    (let d = zero_pin_data\<lparr>pc_cmd := SC_PIN_CMD_CHANGE, pc_pin_type := type, pc_pin_reference := ref,
               pc_pin1 := one_pin old, pc_pin2 := one_pin newref\<rparr>;
         (r, (d, c)) = sc_pin_cmd pt (d, c)
     in ((r, pn_tries_left (pc_pin1 d)), c))"

definition sc_reset_retry_counter ::
  "('r, 'd) pin_table \<Rightarrow> u32 \<Rightarrow> int \<Rightarrow> bytes \<Rightarrow> bytes \<Rightarrow> ('r, 'd) sc_card \<Rightarrow> unit res \<times> ('r, 'd) sc_card" where
  "sc_reset_retry_counter pt type ref puk newref c =
    (let d = zero_pin_data\<lparr>pc_cmd := SC_PIN_CMD_UNBLOCK, pc_pin_type := type, pc_pin_reference := ref,
               pc_pin1 := one_pin puk, pc_pin2 := one_pin newref\<rparr>;
         (r, (d, c)) = sc_pin_cmd pt (d, c)
     in (r, c))"

section \<open>The PIN block\<close>

text \<open>The reference: two digits in a byte, an odd one beside the padding nibble.\<close>

fun pack :: "u8 \<Rightarrow> bytes \<Rightarrow> bytes" where
  "pack p [] = []"
| "pack p [d] = [push_bit 4 d OR (p AND 0xf)]"
| "pack p (a # b # ds) = (push_bit 4 a OR (b AND 0xf)) # pack p ds"

lemma length_pack: "length (pack p ds) = (length ds + 1) div 2"
  by (induction p ds rule: pack.induct) simp_all

lemma bit_0xf: "bit (0xf :: u8) k \<longleftrightarrow> k < 4"
proof -
  have m: "(0xf :: u8) = mask 4" by (simp add: mask_eq_exp_minus_1)
  show ?thesis unfolding m bit_mask_iff by auto
qed

lemma nibble_in: "push_bit 4 (push_bit 4 (x :: u8) OR (a AND 0xf)) OR b = push_bit 4 a OR b"
proof (rule bit_word_eqI)
  fix n assume "n < LENGTH(8)"
  then show "bit (push_bit 4 (push_bit 4 x OR (a AND 0xf)) OR b) n = bit (push_bit 4 a OR b) n"
    by (simp only: bit_or_iff bit_and_iff bit_push_bit_iff bit_0xf) auto
qed

lemma high_nibble [simp]: "push_bit 4 (d :: u8) AND 240 = push_bit 4 d"
proof (rule bit_word_eqI)
  fix n assume "n < LENGTH(8)"
  moreover have "(240 :: u8) = push_bit 4 0xf" by simp
  ultimately show "bit (push_bit 4 d AND 240) n = bit (push_bit 4 d) n"
    by (simp only: bit_and_iff bit_push_bit_iff bit_0xf) auto
qed

lemma bcd_pairs:
  assumes "digit_byte a" "digit_byte b"
  shows "bcd_loop (a # b # ds) (2 * k) i buf =
    bcd_loop ds (2 * Suc k) (Suc i) (buf[i := push_bit 4 a OR (b AND 0xf)])"
proof (cases "i < length buf")
  case True
  have "bcd_loop (a # b # ds) (2 * k) i buf = bcd_loop ds (2 * Suc k) (Suc i)
      (buf[i := push_bit 4 (push_bit 4 (buf ! i) OR (a AND 0xf)) OR (b AND 0xf)])"
    using assms True by simp
  then show ?thesis unfolding nibble_in .
next
  case False
  with assms show ?thesis by (simp add: list_update_beyond)
qed

lemma bcd_loop_pack:
  "list_all digit_byte ds \<Longrightarrow> length pre = i \<Longrightarrow> length ds \<le> 2 * length rest \<Longrightarrow>
   \<exists>j b. bcd_loop ds (2 * k) i (pre @ rest) = Inr (i + length ds div 2, j, b) \<and> (odd j \<longleftrightarrow> odd (length ds)) \<and>
     (if odd (length ds)
      then b[i + length ds div 2 := push_bit 4 (b ! (i + length ds div 2)) OR (p AND 0xf)]
      else b) = pre @ pack p ds @ drop ((length ds + 1) div 2) rest"
proof (induction p ds arbitrary: k i pre rest rule: pack.induct)
  case (1 p)
  then show ?case by simp
next
  case (2 p d)
  then obtain x rest' where r: "rest = x # rest'" by (cases rest) auto
  with 2 show ?case
    by (auto simp: nth_append list_update_append nibble_in)
next
  case (3 p a b ds)
  then obtain x rest' where r: "rest = x # rest'" by (cases rest) auto
  let ?n = "push_bit 4 a OR (b AND 0xf)"
  have ab: "digit_byte a" "digit_byte b" "list_all digit_byte ds" using 3(2) by auto
  have step: "bcd_loop (a # b # ds) (2 * k) i (pre @ rest) = bcd_loop ds (2 * Suc k) (Suc i) ((pre @ [?n]) @ rest')"
    unfolding bcd_pairs [OF ab(1,2)] using 3(3) r by (simp add: list_update_append)
  have l: "length (pre @ [?n]) = Suc i" "length ds \<le> 2 * length rest'" using 3(3,4) r by simp_all
  have "odd (length (a # b # ds)) \<longleftrightarrow> odd (length ds)" "i + length (a # b # ds) div 2 = Suc i + length ds div 2"
    "pre @ pack p (a # b # ds) @ drop ((length (a # b # ds) + 1) div 2) rest =
      (pre @ [?n]) @ pack p ds @ drop ((length ds + 1) div 2) rest'"
    using r by simp_all
  with 3(1) [OF ab(3) l, of "Suc k"] show ?case unfolding step by (simp only:)
qed

lemma bcd_loop_invalid:
  "\<not> list_all digit_byte ds \<Longrightarrow> bcd_loop ds j i buf = Inl SC_ERROR_INVALID_DATA"
  by (induction ds j i buf rule: bcd_loop.induct) auto

lemma encode_bcd:
  assumes "pn_encoding pin \<in> {SC_PIN_ENCODING_BCD, SC_PIN_ENCODING_GLP}" and "n \<le> 2 * length buf" and "n \<le> length (pn_data pin)"
  shows "encode_pin buf (length buf) pin n =
    (let ds = take n (pn_data pin); b = pack (pn_pad_char pin) ds in
     if list_all digit_byte ds then Inr (length b, b @ drop (length b) buf) else Inl SC_ERROR_INVALID_DATA)"
proof -
  let ?ds = "take n (pn_data pin)"
  have len: "length ?ds = n" using assms(3) by simp
  have un: "encode_pin buf (length buf) pin n = ebind (bcd_loop ?ds 0 0 buf) (\<lambda>(i, j, buf).
               Inr (if odd j then (Suc i, buf[i := push_bit 4 (buf ! i) OR (pn_pad_char pin AND 0xf)]) else (i, buf)))"
    using assms(1,2) by (auto simp: encode_pin_def)
  show ?thesis
  proof (cases "list_all digit_byte ?ds")
    case False
    then show ?thesis unfolding un by (simp add: bcd_loop_invalid)
  next
    case True
    from bcd_loop_pack [OF True, of "[]" 0 buf 0 "pn_pad_char pin"] assms(2) len
    obtain j b where b: "bcd_loop ?ds 0 0 buf = Inr (n div 2, j, b)" "odd j \<longleftrightarrow> odd n"
      "(if odd n then b[n div 2 := push_bit 4 (b ! (n div 2)) OR (pn_pad_char pin AND 0xf)] else b) =
        pack (pn_pad_char pin) ?ds @ drop ((n + 1) div 2) buf"
      by auto
    have "(n + 1) div 2 = (if odd n then Suc (n div 2) else n div 2)" by (auto elim!: oddE evenE)
    with True b len show ?thesis
      unfolding un by (simp add: length_pack Let_def split: if_splits)
  qed
qed

text \<open>The PIN block, the length it is padded to, and the errors, in their order.\<close>

definition pin_body :: "sc_pin_cmd_pin \<Rightarrow> bytes" where
  "pin_body pin =
    (if pn_encoding pin = SC_PIN_ENCODING_ASCII then take (pn_len pin) (pn_data pin)
     else if pn_encoding pin = SC_PIN_ENCODING_BCD then pack (pn_pad_char pin) (take (pn_len pin) (pn_data pin))
     else [])"

definition padded_length :: "sc_pin_cmd_pin \<Rightarrow> bool \<Rightarrow> nat" where
  "padded_length pin pad =
    (if pad then (if pn_encoding pin = SC_PIN_ENCODING_BCD then pn_pad_length pin div 2 else pn_pad_length pin) else 0)"

definition pin_block :: "sc_pin_cmd_pin \<Rightarrow> bool \<Rightarrow> bytes" where
  "pin_block pin pad =
    pin_body pin @ replicate (padded_length pin pad - length (pin_body pin)) (pn_pad_char pin)"

definition pin_refusal :: "nat \<Rightarrow> sc_pin_cmd_pin \<Rightarrow> bool \<Rightarrow> sc_error option" where
  "pin_refusal room pin pad =
    (if pn_max_length pin \<noteq> 0 \<and> pn_len pin > pn_max_length pin then Some SC_ERROR_INVALID_ARGUMENTS
     else if length (pin_body pin) > room then Some SC_ERROR_BUFFER_TOO_SMALL
     else if pn_encoding pin = SC_PIN_ENCODING_BCD \<and> \<not> list_all digit_byte (take (pn_len pin) (pn_data pin))
     then Some SC_ERROR_INVALID_DATA
     else if padded_length pin pad > room then Some SC_ERROR_BUFFER_TOO_SMALL
     else None)"

lemma pad_pin_body:
  assumes "pn_encoding pin \<noteq> SC_PIN_ENCODING_GLP" and "length body \<le> length buf"
  shows "pad_pin (length buf) pin pad (length body, body @ drop (length body) buf) =
    (if padded_length pin pad > length buf then Inl SC_ERROR_BUFFER_TOO_SMALL
     else let b = body @ replicate (padded_length pin pad - length body) (pn_pad_char pin)
          in Inr (length b, b @ drop (length b) buf))"
  using assms by (auto simp: pad_pin_def padded_length_def Let_def memcpy_at_def)

text \<open>C13: A PIN that is not in the Global Platform format is written as its reference block, at the front of
  the buffer and inside it, and the number of bytes returned is the block's length; it is
  refused exactly when it is too long for the card's limit, not numeric, or the block or its
  padding does not fit in the room there is.\<close>
theorem build_pin_is_block:
  assumes "pn_encoding pin \<noteq> SC_PIN_ENCODING_GLP" and "pn_len pin \<le> length (pn_data pin)"
  shows "sc_build_pin buf pin pad =
    (case pin_refusal (length buf) pin pad of
       Some e \<Rightarrow> Inl e
     | None \<Rightarrow> Inr (length (pin_block pin pad), pin_block pin pad @ drop (length (pin_block pin pad)) buf))"
proof (cases "pn_max_length pin \<noteq> 0 \<and> pn_len pin > pn_max_length pin")
  case True
  then show ?thesis by (simp add: sc_build_pin_def pin_refusal_def)
next
  case False
  have run: "sc_build_pin buf pin pad = ebind (encode_pin buf (length buf) pin (pn_len pin)) (pad_pin (length buf) pin pad)"
    using False assms(1) by (auto simp: sc_build_pin_def)
  have ref: "pin_refusal (length buf) pin pad =
    (if length (pin_body pin) > length buf then Some SC_ERROR_BUFFER_TOO_SMALL
     else if pn_encoding pin = SC_PIN_ENCODING_BCD \<and> \<not> list_all digit_byte (take (pn_len pin) (pn_data pin))
     then Some SC_ERROR_INVALID_DATA
     else if padded_length pin pad > length buf then Some SC_ERROR_BUFFER_TOO_SMALL else None)"
    using False by (auto simp: pin_refusal_def)
  have enc: "encode_pin buf (length buf) pin (pn_len pin) =
    (if length (pin_body pin) > length buf then Inl SC_ERROR_BUFFER_TOO_SMALL
     else if pn_encoding pin = SC_PIN_ENCODING_BCD \<and> \<not> list_all digit_byte (take (pn_len pin) (pn_data pin))
     then Inl SC_ERROR_INVALID_DATA
     else Inr (length (pin_body pin), pin_body pin @ drop (length (pin_body pin)) buf))"
  proof (cases "pn_encoding pin = SC_PIN_ENCODING_BCD")
    case bcd: True
    then have body: "pin_body pin = pack (pn_pad_char pin) (take (pn_len pin) (pn_data pin))" by (simp add: pin_body_def)
    have fits: "length (pin_body pin) > length buf \<longleftrightarrow> pn_len pin > 2 * length buf"
      using assms(2) by (simp add: body length_pack) linarith
    show ?thesis
    proof (cases "pn_len pin > 2 * length buf")
      case True
      with bcd fits show ?thesis by (simp add: encode_pin_def)
    next
      case ok: False
      with bcd fits encode_bcd [of pin "pn_len pin" buf] assms(2) show ?thesis
        by (simp add: body Let_def)
    qed
  next
    case False
    with assms show ?thesis by (auto simp: encode_pin_def pin_body_def memcpy_at_def)
  qed
  show ?thesis
    unfolding run enc ref using pad_pin_body [OF assms(1), of "pin_body pin" buf pad]
    by (auto simp: pin_block_def Let_def)
qed

definition demo_pin :: sc_pin_cmd_pin where
  "demo_pin = zero_pin\<lparr>pn_data := [0x31, 0x32, 0x33], pn_len := 3, pn_encoding := 1, pn_pad_length := 12, pn_pad_char := 0xFF\<rparr>"

theorem build_pin_is_block_witness:
  "sc_build_pin [0, 0, 0, 0, 0, 0, 0, 0] demo_pin True = Inr (6, [0x12, 0x3F, 0xFF, 0xFF, 0xFF, 0xFF, 0, 0])"
proof -
  have h: "pn_encoding demo_pin \<noteq> SC_PIN_ENCODING_GLP" "pn_len demo_pin \<le> length (pn_data demo_pin)" by code_simp+
  have e: "pin_refusal (length [0 :: u8, 0, 0, 0, 0, 0, 0, 0]) demo_pin True = None"
    "pin_block demo_pin True = [0x12, 0x3F, 0xFF, 0xFF, 0xFF, 0xFF]" by code_simp+
  show ?thesis unfolding build_pin_is_block [OF h] e by simp
qed

section \<open>The Global Platform format\<close>

text \<open>Reading it back, by the format's description: the low half of the first byte is the number of
  digits, which follow.\<close>

primrec nibbles :: "bytes \<Rightarrow> bytes" where
  "nibbles [] = []"
| "nibbles (b # bs) = drop_bit 4 b # (b AND 0xf) # nibbles bs"

definition glp_digits :: "bytes \<Rightarrow> bytes" where
  "glp_digits bs = map (\<lambda>x. x OR 0x30) (take (unat (hd bs AND 0xf)) (nibbles (tl bs)))"

lemma nibbles_append: "nibbles (as @ bs) = nibbles as @ nibbles bs"
  by (induction as) simp_all

lemma unpack_byte:
  "drop_bit 4 (push_bit 4 (a :: u8) OR (b AND 0xf)) = a AND 0xf"
  "(push_bit 4 (a :: u8) OR (b AND 0xf)) AND 0xf = b AND 0xf"
proof -
  show "drop_bit 4 (push_bit 4 a OR (b AND 0xf)) = a AND 0xf"
  proof (rule bit_word_eqI)
    fix n assume "n < LENGTH(8)"
    then show "bit (drop_bit 4 (push_bit 4 a OR (b AND 0xf))) n = bit (a AND 0xf) n"
      by (simp only: bit_or_iff bit_and_iff bit_push_bit_iff bit_drop_bit_eq comp_apply bit_0xf)
        (auto dest: bit_imp_le_length)
  qed
  show "(push_bit 4 a OR (b AND 0xf)) AND 0xf = b AND 0xf"
  proof (rule bit_word_eqI)
    fix n assume "n < LENGTH(8)"
    then show "bit ((push_bit 4 a OR (b AND 0xf)) AND 0xf) n = bit (b AND 0xf) n"
      by (simp only: bit_or_iff bit_and_iff bit_push_bit_iff bit_0xf) auto
  qed
qed

lemma nibbles_pack: "nibbles (pack p ds) = map (\<lambda>d. d AND 0xf) ds @ (if odd (length ds) then [p AND 0xf] else [])"
  by (induction p ds rule: pack.induct) (simp_all only: pack.simps nibbles.simps unpack_byte list.map, simp_all)

lemma digit_nibble: "digit_byte d \<Longrightarrow> (d AND 0xf) OR 0x30 = d"
proof -
  have digits: "((of_nat n :: u8) AND 0xf) OR 0x30 = of_nat n" if "48 \<le> n" "n \<le> 57" for n
  proof -
    from that have "n = 48 \<or> n = 49 \<or> n = 50 \<or> n = 51 \<or> n = 52 \<or> n = 53 \<or> n = 54 \<or> n = 55 \<or> n = 56 \<or> n = 57"
      by presburger
    then show ?thesis by (elim disjE) simp_all
  qed
  assume "digit_byte d"
  then have "48 \<le> unat d" "unat d \<le> 57" by (simp_all add: digit_byte_def word_le_nat_alt)
  from digits [OF this] show ?thesis by simp
qed

lemma strip_ff_le: "strip_ff d n \<le> n"
  by (induction n) auto

lemma header_length: "n \<le> 12 \<Longrightarrow> unat ((0x20 OR of_nat n :: u8) AND 0xf) = n"
proof -
  assume "n \<le> 12"
  then have "n \<in> set [0..<13]" by simp
  then show ?thesis by (auto simp: upt_rec)
qed

text \<open>C14: A PIN in the Global Platform format is always a block of eight bytes from which the format's own
  rule reads the digits back, the trailing \<open>FF\<close> bytes of the application's PIN left out.\<close>
theorem glp_roundtrip:
  assumes "pn_encoding pin = SC_PIN_ENCODING_GLP" and "pn_len pin \<le> length (pn_data pin)" and "buf \<noteq> []"
    and "sc_build_pin buf pin pad = Inr (n, b)"
  shows "n = 8 \<and> length b = length buf \<and>
    glp_digits (take n b) = take (strip_ff (pn_data pin) (pn_len pin)) (pn_data pin)"
proof -
  define pl where "pl = strip_ff (pn_data pin) (pn_len pin)"
  define ds where "ds = take pl (pn_data pin)"
  define body where "body = pack (pn_pad_char pin) ds"
  obtain x rest where buf: "buf = x # rest" using assms(3) by (cases buf) auto
  have pl: "pl \<le> length (pn_data pin)" using strip_ff_le assms(2) le_trans unfolding pl_def by blast
  then have len: "length ds = pl" by (simp add: ds_def)
  have dec: "size_dec (Suc (length rest)) = length rest" by (simp add: size_dec_def)
  from assms(1,4) obtain s i r where ok: "pl \<le> 12" "list_all digit_byte ds"
    and s: "encode_pin rest (length rest) pin pl = Inr s" and p: "pad_pin (length rest) pin pad s = Inr (i, r)"
    and b: "n = i" "b = (0x20 OR of_nat pl) # r"
    by (auto simp: sc_build_pin_def Let_def dec pl_def [symmetric] ds_def [symmetric] ebind_Inr_iff buf split: if_splits)
  from s assms(1) have fits: "pl \<le> 2 * length rest" by (auto simp: encode_pin_def split: if_splits)
  with s assms(1) encode_bcd [of pin pl rest] pl ok(2) have s': "s = (length body, body @ drop (length body) rest)"
    by (simp add: ds_def [symmetric] body_def [symmetric] Let_def)
  have bl: "length body \<le> 6" using ok(1) len by (simp add: body_def length_pack)
  have "pad_pin (length rest) pin pad s = (if 8 > length rest then Inl SC_ERROR_BUFFER_TOO_SMALL
      else Inr (8, memcpy_at (body @ drop (length body) rest) (length body) (replicate (8 - length body) 0xFF)))"
    using assms(1) bl by (simp add: s' pad_pin_def Let_def)
  with p bl have room: "8 \<le> length rest" and i: "i = 8" and r: "r = body @ replicate (8 - length body) 0xFF @ drop 8 rest"
    by (auto simp: memcpy_at_def split: if_splits)
  have "take n b = (0x20 OR of_nat pl) # body @ replicate (7 - length body) 0xFF"
    using bl by (simp add: b i r eval_nat_numeral)
  then have "glp_digits (take n b) = map (\<lambda>x. x OR 0x30) (take pl (nibbles body @ nibbles (replicate (7 - length body) 0xFF)))"
    using header_length [OF ok(1)] by (simp add: glp_digits_def nibbles_append)
  also have "\<dots> = map (\<lambda>x. x OR 0x30) (map (\<lambda>d. d AND 0xf) ds)"
    using len by (simp add: body_def nibbles_pack)
  also have "\<dots> = ds"
    using ok(2) by (induction ds) (simp_all add: digit_nibble)
  finally show ?thesis
    using room bl by (simp add: b i r buf ds_def pl_def)
qed

definition glp_pin :: sc_pin_cmd_pin where
  "glp_pin = zero_pin\<lparr>pn_data := [0x31, 0x32, 0x33, 0x34, 0x35, 0xFF, 0xFF, 0xFF], pn_len := 8, pn_encoding := 2\<rparr>"

text \<open>The padding nibble of the format is \<open>F\<close>; the code takes it from the PIN's padding character.\<close>

lemma glp_built: "sc_build_pin (replicate 9 0) glp_pin False =
    Inr (8, [0x25, 0x12, 0x34, 0x50, 0xFF, 0xFF, 0xFF, 0xFF, 0xFF])"
  by code_simp

text \<open>The block has eight bytes, but one more is padded behind it, and a buffer of eight is refused.\<close>

lemma glp_needs_nine: "sc_build_pin (replicate 8 0) glp_pin False = Inl SC_ERROR_BUFFER_TOO_SMALL"
  by code_simp

theorem glp_roundtrip_witness:
  "glp_digits [0x25, 0x12, 0x34, 0x50, 0xFF, 0xFF, 0xFF, 0xFF] = [0x31, 0x32, 0x33, 0x34, 0x35]"
proof -
  have h: "pn_encoding glp_pin = SC_PIN_ENCODING_GLP" "pn_len glp_pin \<le> length (pn_data glp_pin)"
    "replicate 9 (0 :: u8) \<noteq> []" by code_simp+
  have s: "take (strip_ff (pn_data glp_pin) (pn_len glp_pin)) (pn_data glp_pin) = [0x31, 0x32, 0x33, 0x34, 0x35]"
    by code_simp
  from glp_roundtrip [OF h glp_built] show ?thesis by (simp add: s)
qed

section \<open>What reaches the card\<close>

text \<open>C16: An empty PIN never reaches the card, where it would be taken for a query of the counter: the call
  fails before any exchange, with no number of tries.\<close>
theorem empty_pin_not_sent:
  "sc_verify (iso_pins ops pv) type ref [] c =
    ((Inl (if type \<in> {SC_AC_CHV, SC_AC_SESSION, SC_AC_CONTEXT_SPECIFIC} then SC_ERROR_INVALID_PIN_LENGTH
           else SC_ERROR_INVALID_ARGUMENTS), - 1), c)"
  by (simp add: sc_verify_def sc_pin_cmd_def iso_pins_def iso7816_pin_cmd_def iso7816_build_pin_apdu_def
      build_verify_def one_pin_def zero_pin_def zero_pin_data_def pc_flag_def Let_def)

definition verify_apdu :: "('r, 'd) sc_card \<Rightarrow> int \<Rightarrow> bytes \<Rightarrow> sc_apdu" where
  "verify_apdu c ref pin = (sc_format_apdu c SC_APDU_CASE_3_SHORT 0x20 0 (word_of_int ref))
     \<lparr>a_lc := length pin, a_datalen := length pin, a_data := Some (pin @ replicate (SC_MAX_APDU_BUFFER_SIZE - length pin) 0),
      a_resplen := 0\<rparr>"

lemma plain_pin:
  assumes "length pin \<le> length buf"
  shows "sc_build_pin buf (one_pin pin) False = Inr (length pin, pin @ drop (length pin) buf)"
  using assms by (simp add: sc_build_pin_def one_pin_def zero_pin_def encode_pin_def pad_pin_def memcpy_at_def)

text \<open>The command that is built from the data of a verification; the offset is set on the way.\<close>

lemma verify_built:
  fixes type :: u32 and ref :: int and pin :: bytes
  defines "d \<equiv> zero_pin_data\<lparr>pc_cmd := SC_PIN_CMD_VERIFY, pc_pin_type := type, pc_pin_reference := ref,
      pc_pin1 := (one_pin pin)\<lparr>pn_tries_left := - 1\<rparr>\<rparr>"
  assumes "type \<in> {SC_AC_CHV, SC_AC_SESSION, SC_AC_CONTEXT_SPECIFIC}" and "pin \<noteq> []"
    and "length pin \<le> SC_MAX_APDU_BUFFER_SIZE"
  shows "iso7816_build_pin_apdu c (replicate SC_MAX_APDU_BUFFER_SIZE 0) d =
    (Inr (verify_apdu c ref pin), d\<lparr>pc_pin1 := (one_pin pin)\<lparr>pn_tries_left := - 1, pn_offset := 5\<rparr>\<rparr>)"
proof -
  define buf where "buf = replicate SC_MAX_APDU_BUFFER_SIZE (0 :: u8)"
  define d5 where "d5 = d\<lparr>pc_pin1 := (one_pin pin)\<lparr>pn_tries_left := - 1, pn_offset := 5\<rparr>\<rparr>"
  have one: "sc_build_pin buf ((one_pin pin)\<lparr>pn_tries_left := t, pn_offset := k\<rparr>) False =
      Inr (length pin, pin @ drop (length pin) buf)" for t k
    using assms(4)
    by (simp add: sc_build_pin_def one_pin_def zero_pin_def encode_pin_def pad_pin_def memcpy_at_def buf_def)
  have v: "build_verify d5 buf = Inr (SC_APDU_CASE_3_SHORT, 0x20, 0, length pin, pin @ drop (length pin) buf)"
    using assms(3) one
    by (simp add: build_verify_def d5_def d_def one_pin_def zero_pin_data_def pc_flag_def)
  have up: "d\<lparr>pc_pin1 := (pc_pin1 d)\<lparr>pn_offset := 5\<rparr>\<rparr> = d5" by (simp add: d5_def d_def)
  have b: "iso7816_build_pin_apdu c buf d = (Inr (verify_apdu c ref pin), d5)"
    unfolding iso7816_build_pin_apdu_def Let_def up v
    using assms(2) by (simp add: d_def d5_def zero_pin_data_def verify_apdu_def buf_def)
  then show ?thesis unfolding buf_def d5_def .
qed

text \<open>C12: Checking a PIN is one command that carries the PIN as it is; the card's verdict becomes the result,
  and the number of tries is the last digit of \<open>63Cx\<close>, 0 for a blocked PIN and unknown (\<open>-1\<close>) otherwise.\<close>
theorem verify_exchange:
  assumes "type \<in> {SC_AC_CHV, SC_AC_SESSION, SC_AC_CONTEXT_SPECIFIC}" and "pin \<noteq> []"
    and "length pin \<le> SC_MAX_APDU_BUFFER_SIZE"
  shows "sc_verify (iso_pins ops pv) type ref pin c =
    (case exchange ops (verify_apdu c ref pin) c of
       (Inl e, c') \<Rightarrow> ((Inl e, - 1), c')
     | (Inr b, c') \<Rightarrow>
         let v = sc_check_sw ops (a_sw1 b) (a_sw2 b)
         in ((v, if v = Inl SC_ERROR_PIN_CODE_INCORRECT then int (unat (a_sw2 b AND 0xF))
                 else if v = Inl SC_ERROR_AUTH_METHOD_BLOCKED then 0 else - 1), c'))"
proof -
  define d where "d = zero_pin_data\<lparr>pc_cmd := SC_PIN_CMD_VERIFY, pc_pin_type := type, pc_pin_reference := ref,
    pc_pin1 := (one_pin pin)\<lparr>pn_tries_left := - 1\<rparr>\<rparr>"
  define d5 where "d5 = d\<lparr>pc_pin1 := (one_pin pin)\<lparr>pn_tries_left := - 1, pn_offset := 5\<rparr>\<rparr>"
  note b = verify_built [where ref = ref, OF assms, of c, folded d_def, folded d5_def]
  have fields: "pc_cmd d = SC_PIN_CMD_VERIFY" "pc_apdu d = None" "pc_flag d5 f = False" "pc_cmd d5 = SC_PIN_CMD_VERIFY"
    "pc_apdu d5 = None" "pn_tries_left (pc_pin1 d5) = - 1" for f
    by (simp_all add: d_def d5_def zero_pin_data_def pc_flag_def)
  have verdict: "fst (pin_verdict w s (d5\<lparr>pc_apdu := None\<rparr>)) = w"
    "pn_tries_left (pc_pin1 (snd (pin_verdict w s (d5\<lparr>pc_apdu := None\<rparr>)))) =
      (if w = Inl SC_ERROR_PIN_CODE_INCORRECT then int (unat (s AND 0xF))
       else if w = Inl SC_ERROR_AUTH_METHOD_BLOCKED then 0 else - 1)" for w s
    using fields(4,6) by (simp_all add: pin_verdict_def Let_def)
  have start: "sc_verify (iso_pins ops pv) type ref pin c =
      (let (r, (d, c)) = iso7816_pin_cmd ops pv (d\<lparr>pc_pin1 := one_pin pin\<rparr>, c) in ((r, pn_tries_left (pc_pin1 d)), c))"
    by (simp add: sc_verify_def sc_pin_cmd_def iso_pins_def d_def)
  have d0: "(d\<lparr>pc_pin1 := one_pin pin\<rparr>)\<lparr>pc_pin1 := (pc_pin1 (d\<lparr>pc_pin1 := one_pin pin\<rparr>))\<lparr>pn_tries_left := - 1\<rparr>\<rparr> = d"
    by (simp add: d_def)
  obtain q a' c' where t: "sc_transmit_apdu ops (verify_apdu c ref pin, c) = (q, (a', c'))" by (metis prod.exhaust)
  have send: "send_pin_apdu ops pv (verify_apdu c ref pin) (d5, c) =
      (case q of Inl e \<Rightarrow> (Inl e, (d5\<lparr>pc_apdu := Some a'\<rparr>, c')) | Inr _ \<Rightarrow> (Inr a', (d5\<lparr>pc_apdu := Some a'\<rparr>, c')))"
    by (simp add: send_pin_apdu_def fields t split: sum.split)
  show ?thesis
  proof (cases q)
    case (Inl e)
    then have "iso7816_pin_cmd ops pv (d\<lparr>pc_pin1 := one_pin pin\<rparr>, c) = (Inl e, (d5\<lparr>pc_apdu := None\<rparr>, c'))"
      unfolding iso7816_pin_cmd_def prod.case Let_def d0
      by (simp add: fields b send)
    with Inl show ?thesis unfolding start by (simp add: exchange_def t fields)
  next
    case (Inr u)
    define w where "w = sc_check_sw ops (a_sw1 a') (a_sw2 a')"
    have "iso7816_pin_cmd ops pv (d\<lparr>pc_pin1 := one_pin pin\<rparr>, c) =
        (let (r, d) = pin_verdict w (a_sw2 a') (d5\<lparr>pc_apdu := None\<rparr>) in (r, (d, c')))"
      unfolding iso7816_pin_cmd_def prod.case Let_def d0
      by (simp add: fields b send Inr w_def)
    with Inr verdict [of w "a_sw2 a'"] show ?thesis
      unfolding start by (simp add: exchange_def t w_def [symmetric] split_beta Let_def)
  qed
qed

lemma verify_plain:
  assumes "pin \<noteq> []" "length pin \<le> 255"
  shows "sc_detect_apdu_cse caps (verify_apdu c ref pin) = verify_apdu c ref pin"
    "sc_check_apdu caps (verify_apdu c ref pin) = Inr ()" "\<not> chaining (verify_apdu c ref pin)"
  using assms
  by (simp_all add: verify_apdu_def sc_format_apdu_def zero_apdu_def sc_detect_apdu_cse_def sc_check_apdu_def
      chaining_def Let_def)

text \<open>A card that knows the PIN \<open>1234\<close>: it answers \<open>63C2\<close> to another one.\<close>

definition pin_tx :: "(sc_apdu \<times> bytes list, unit) prog" where
  "pin_tx s = (case s of (a, e) \<Rightarrow>
     (Inr (), (if take (a_lc a) (mem (a_data a)) = [0x31, 0x32, 0x33, 0x34]
               then a\<lparr>a_sw1 := 0x90, a_sw2 := 0\<rparr> else a\<lparr>a_sw1 := 0x63, a_sw2 := 0xC2\<rparr>, e)))"

lemma pin_card_exchange:
  assumes "pin \<noteq> []" "length pin \<le> 255"
  shows "exchange (flat_ops\<lparr>o_transmit := Some pin_tx\<rparr>) (verify_apdu c ref pin) c =
    (Inr (fst (snd (pin_tx (verify_apdu c ref pin, c_env c)))), c)"
proof -
  let ?ops = "flat_ops\<lparr>o_transmit := Some pin_tx\<rparr>"
  note p = verify_plain [OF assms]
  have t: "sc_transmit ?ops (verify_apdu c ref pin, d) = (Inr (), (fst (snd (pin_tx (verify_apdu c ref pin, c_env d))), d))" for d
    by (cases d) (simp add: sc_transmit_def sbind_def sc_single_transmit_def pin_tx_def retry_wl_def fetch_rest_def Let_def)
  have "transmit_body ?ops (verify_apdu c ref pin, d) = (Inr (), (fst (snd (pin_tx (verify_apdu c ref pin, c_env d))), d))" for d
    by (simp add: transmit_body_def t Let_def lost_card_def p(3))
  moreover have "sc_lock ?ops = sc_lock flat_ops" "sc_unlock ?ops = sc_unlock flat_ops"
    by (rule lock_cong; simp)+
  ultimately show ?thesis
    by (simp add: exchange_def sc_transmit_apdu_def p bracket_def on_card_def flat_lock flat_unlock)
qed

theorem verify_exchange_witness:
  "fst (sc_verify (iso_pins (flat_ops\<lparr>o_transmit := Some pin_tx\<rparr>) None) SC_AC_CHV 1 [0x31, 0x32] (flat_card [] None)) =
     (Inl SC_ERROR_PIN_CODE_INCORRECT, 2)"
proof -
  have w: "iso7816_check_sw 0x63 0xC2 = Inl SC_ERROR_PIN_CODE_INCORRECT" by code_simp
  have o: "o_check_sw (flat_ops\<lparr>o_transmit := Some pin_tx\<rparr>) = Some iso7816_check_sw" by (simp add: flat_ops_def)
  have h: "SC_AC_CHV \<in> {SC_AC_CHV, SC_AC_SESSION, SC_AC_CONTEXT_SPECIFIC}" "[0x31, 0x32 :: u8] \<noteq> []"
    "length [0x31, 0x32 :: u8] \<le> SC_MAX_APDU_BUFFER_SIZE" "length [0x31, 0x32 :: u8] \<le> 255" by simp_all
  have d: "take (a_lc (verify_apdu c 1 [0x31, 0x32])) (mem (a_data (verify_apdu c 1 [0x31, 0x32]))) = [0x31, 0x32]"
    for c :: "bytes list ss_card" by (simp add: verify_apdu_def)
  show ?thesis
    unfolding verify_exchange [OF h(1-3)] pin_card_exchange [OF h(2,4)]
    by (simp add: pin_tx_def d sc_check_sw_def o w)
qed

section \<open>What holds of every PIN command\<close>

lemma ebind_Inl_iff: "ebind r f = Inl e \<longleftrightarrow> r = Inl e \<or> (\<exists>x. r = Inr x \<and> f x = Inl e)"
  by (cases r) simp_all

lemma build_pin_no_fuel: "sc_build_pin buf pin pad \<noteq> Inl OUT_OF_FUEL"
proof -
  have l: "bcd_loop ds j i b \<noteq> Inl OUT_OF_FUEL" for ds j i b
    by (induction ds j i b rule: bcd_loop.induct) auto
  have e: "encode_pin b n pin m \<noteq> Inl OUT_OF_FUEL" for b n m
    by (auto simp: encode_pin_def ebind_Inl_iff l)
  have p: "pad_pin n pin pad s \<noteq> Inl OUT_OF_FUEL" for n s
    by (cases s) (simp add: pad_pin_def Let_def)
  show ?thesis
    by (auto simp: sc_build_pin_def Let_def ebind_Inl_iff e p)
qed

lemma parts_no_fuel:
  "build_verify d buf \<noteq> Inl OUT_OF_FUEL" "build_first d buf \<noteq> Inl OUT_OF_FUEL" "build_second d n buf \<noteq> Inl OUT_OF_FUEL"
  by (auto simp: build_verify_def build_first_def build_second_def ebind_Inl_iff build_pin_no_fuel)

lemma implicit_keeps_pad: "(x OR 4) AND 1 = x AND (1 :: u32)"
  by (simp add: bit.conj_disj_distrib2)

lemma build_keeps:
  assumes "iso7816_build_pin_apdu c buf d = (r, d')"
  shows "pc_cmd d' = pc_cmd d \<and> pc_apdu d' = pc_apdu d \<and> pn_tries_left (pc_pin1 d') = pn_tries_left (pc_pin1 d) \<and>
    pn_logged_in (pc_pin1 d') = pn_logged_in (pc_pin1 d) \<and>
    (pc_flags d' = pc_flags d \<or> pc_flags d' = pc_flags d OR SC_PIN_CMD_IMPLICIT_CHANGE) \<and>
    r \<noteq> Inl OUT_OF_FUEL \<and> (\<forall>a. r = Inr a \<longrightarrow> a_resp a = None \<and> a_resplen a = 0 \<and> a_sw2 a = 0)"
proof -
  define e where "e = d\<lparr>pc_pin1 := (pc_pin1 d)\<lparr>pn_offset := 5\<rparr>\<rparr>"
  have fmt: "a_resp (sc_format_apdu c x y z w) = None" "a_sw2 (sc_format_apdu c x y z w) = 0" for x y z w
    by (simp_all add: sc_format_apdu_def zero_apdu_def)
  have e: "pc_cmd e = pc_cmd d" "pc_apdu e = pc_apdu d" "pc_flags e = pc_flags d"
    "pn_tries_left (pc_pin1 e) = pn_tries_left (pc_pin1 d)" "pn_logged_in (pc_pin1 e) = pn_logged_in (pc_pin1 d)"
    "pc_pin_type e = pc_pin_type d"
    by (simp_all add: e_def)
  have o: "pc_cmd (set_offset2 k x) = pc_cmd x" "pc_apdu (set_offset2 k x) = pc_apdu x"
    "pc_flags (set_offset2 k x) = pc_flags x" "pc_pin1 (set_offset2 k x) = pc_pin1 x" for k x
    by (simp_all add: set_offset2_def)
  note run = assms [unfolded iso7816_build_pin_apdu_def Let_def, folded e_def]
  show ?thesis
  proof (cases "pc_pin_type d \<notin> {SC_AC_CHV, SC_AC_SESSION, SC_AC_CONTEXT_SPECIFIC}")
    case True
    with run show ?thesis by auto
  next
    case False
    note run = run [unfolded if_not_P [OF False]]
    consider (verify) "pc_cmd d = SC_PIN_CMD_VERIFY" | (change) "pc_cmd d = SC_PIN_CMD_CHANGE"
      | (unblock) "pc_cmd d = SC_PIN_CMD_UNBLOCK" | (other) "pc_cmd d \<notin> {SC_PIN_CMD_VERIFY, SC_PIN_CMD_CHANGE, SC_PIN_CMD_UNBLOCK}"
      by blast
    then show ?thesis
    proof cases
      case verify
      with run e show ?thesis
        by (cases "build_verify e buf") (auto simp: fmt parts_no_fuel)
    next
      case change
      show ?thesis
      proof (cases "build_first e buf")
        case (Inl x)
        with run change e show ?thesis by (auto simp: parts_no_fuel)
      next
        case (Inr first)
        obtain p1 len b where f: "(case first of None \<Rightarrow> (1 :: u8, 0, buf) | Some (n, b) \<Rightarrow> (0, n, b)) = (p1, len, b)"
          by (metis prod.exhaust)
        with run change Inr e show ?thesis
          by (cases "build_second (set_offset2 len e) len b") (auto simp: o fmt parts_no_fuel split: if_splits)
      qed
    next
      case unblock
      show ?thesis
      proof (cases "build_first e buf")
        case (Inl x)
        with run unblock e show ?thesis by (auto simp: parts_no_fuel)
      next
        case (Inr first)
        obtain p1 len b where f: "(case first of None \<Rightarrow> (2 :: u8, 0, buf) | Some (n, b) \<Rightarrow> (0, n, b)) = (p1, len, b)"
          by (metis prod.exhaust)
        with run unblock Inr e show ?thesis
          by (cases "build_second (set_offset2 len e) len b") (auto simp: o fmt parts_no_fuel split: if_splits)
      qed
    next
      case other
      with run e show ?thesis by (auto simp: fmt split: if_splits)
    qed
  qed
qed

lemma verdict_cases:
  assumes "pin_verdict v sw2 d = (r, d')"
  shows "pc_apdu d' = pc_apdu d \<and>
    (case r of
       Inr _ \<Rightarrow> pn_logged_in (pc_pin1 d') = SC_PIN_STATE_LOGGED_IN \<and> pn_tries_left (pc_pin1 d') = pn_tries_left (pc_pin1 d) \<or>
         pc_cmd d = SC_PIN_CMD_GET_INFO \<and> pn_logged_in (pc_pin1 d') = SC_PIN_STATE_LOGGED_OUT \<and>
         pn_tries_left (pc_pin1 d') \<in> {0..15}
     | Inl e \<Rightarrow>
         if e = SC_ERROR_PIN_CODE_INCORRECT \<or> e = SC_ERROR_AUTH_METHOD_BLOCKED
         then pn_logged_in (pc_pin1 d') = SC_PIN_STATE_LOGGED_OUT \<and> pn_tries_left (pc_pin1 d') \<in> {0..15}
         else d' = d)"
proof -
  have "unat (sw2 AND 0xF) \<le> 15"
    using and_mask_less' [of 4 sw2] by (simp add: mask_eq_exp_minus_1 word_less_nat_alt)
  then have "int (unat (sw2 AND 0xF)) \<le> 15" by linarith
  with assms show ?thesis
    by (auto simp: pin_verdict_def Let_def split: if_splits sum.splits)
qed

lemma send_no_pad:
  assumes "\<not> pc_flag d SC_PIN_CMD_USE_PINPAD" and "send_pin_apdu ops pv a (d, c) = (r, (d', c'))"
  shows "\<exists>q a'. sc_transmit_apdu ops (a, c) = (q, (a', c')) \<and> d' = d\<lparr>pc_apdu := Some a'\<rparr> \<and>
    (case q of Inl e \<Rightarrow> r = Inl e | Inr _ \<Rightarrow> r = Inr a')"
  using assms by (auto simp: send_pin_apdu_def split: sum.splits prod.splits)

text \<open>The ways such a command can go: it ends before anything is sent, or after one exchange.\<close>

lemma pin_cmd_cases:
  assumes "\<not> pc_flag d SC_PIN_CMD_USE_PINPAD" and "pc_apdu d = None"
    and "iso7816_pin_cmd ops pv (d, c) = (r, (d', c'))"
  obtains (early) e where "r = Inl e" "e \<noteq> OUT_OF_FUEL" "c' = c" "pc_apdu d' = None"
      "pn_logged_in (pc_pin1 d') = pn_logged_in (pc_pin1 d)" "pn_tries_left (pc_pin1 d') = - 1"
    | (sent) a q a' d1 where "sc_transmit_apdu ops (a, c) = (q, (a', c'))" "a_resp a = None" "a_resplen a = 0" "a_sw2 a = 0"
      "pc_cmd d1 = pc_cmd d" "pc_apdu d1 = None" "pn_logged_in (pc_pin1 d1) = pn_logged_in (pc_pin1 d)"
      "pn_tries_left (pc_pin1 d1) = - 1"
      "(case q of Inl e \<Rightarrow> r = Inl e \<and> d' = d1
        | Inr _ \<Rightarrow> pin_verdict (sc_check_sw ops (a_sw1 a') (a_sw2 a')) (a_sw2 a') d1 = (r, d'))"
proof -
  define buf where "buf = replicate SC_MAX_APDU_BUFFER_SIZE (0 :: u8)"
  define d0 where "d0 = d\<lparr>pc_pin1 := (pc_pin1 d)\<lparr>pn_tries_left := - 1\<rparr>\<rparr>"
  have f0: "pc_cmd d0 = pc_cmd d" "pc_apdu d0 = None" "pn_logged_in (pc_pin1 d0) = pn_logged_in (pc_pin1 d)"
    "pn_tries_left (pc_pin1 d0) = - 1" "pc_flags d0 = pc_flags d"
    using assms(2) by (simp_all add: d0_def)
  obtain q d1 where b: "iso7816_build_pin_apdu c buf d0 = (q, d1)" by (cases "iso7816_build_pin_apdu c buf d0")
  note f1 = build_keeps [OF b, unfolded f0]
  show thesis
  proof (cases "pc_cmd d = SC_PIN_CMD_GET_INFO \<and> c_caps c AND SC_CARD_CAP_ISO7816_PIN_INFO = 0")
    case True
    with assms(3) have "r = Inl SC_ERROR_NOT_SUPPORTED" "d' = d0" "c' = c"
      by (auto simp: iso7816_pin_cmd_def Let_def d0_def)
    with f0 show thesis by (intro early [of SC_ERROR_NOT_SUPPORTED]) simp_all
  next
    case go: False
    have d1: "pc_apdu d1 = None" "pc_cmd d1 = pc_cmd d" "pn_tries_left (pc_pin1 d1) = - 1"
      "pn_logged_in (pc_pin1 d1) = pn_logged_in (pc_pin1 d)"
      using f1 by blast+
    have "pc_flags d1 = pc_flags d \<or> pc_flags d1 = pc_flags d OR SC_PIN_CMD_IMPLICIT_CHANGE" using f1 by blast
    then have pad: "\<not> pc_flag d1 SC_PIN_CMD_USE_PINPAD"
      using assms(1) by (elim disjE) (simp_all only: pc_flag_def implicit_keeps_pad not_False_eq_True)
    then have off: "\<not> ((pc_flag d1 SC_PIN_CMD_USE_PINPAD \<and> pc_cmd d1 \<noteq> SC_PIN_CMD_GET_INFO) \<and> pn_offset (pc_pin1 d1) = 0)"
      by blast
    note run = assms(3) [unfolded iso7816_pin_cmd_def prod.case Let_def, folded d0_def, unfolded f0(1) if_not_P [OF go]
        f0(2) option.case, folded buf_def, unfolded b prod.case if_P [OF d1(1)]]
    show thesis
    proof (cases q)
      case (Inl e)
      with run have "r = Inl e" "d' = d1" "c' = c" by simp_all
      moreover have "e \<noteq> OUT_OF_FUEL" using f1 Inl by blast
      ultimately show thesis using d1 by (intro early [of e]) simp_all
    next
      case (Inr a)
      obtain x d2 c2 where s: "send_pin_apdu ops pv a (d1, c) = (x, (d2, c2))" by (metis prod.exhaust)
      from send_no_pad [OF pad s] obtain y a' where t: "sc_transmit_apdu ops (a, c) = (y, (a', c2))"
        and d2: "d2 = d1\<lparr>pc_apdu := Some a'\<rparr>" and x: "case y of Inl e \<Rightarrow> x = Inl e | Inr _ \<Rightarrow> x = Inr a'" by blast
      define d3 where "d3 = d1\<lparr>pc_apdu := None\<rparr>"
      have d23: "d2\<lparr>pc_apdu := None\<rparr> = d3" by (simp add: d2 d3_def)
      note run = run [unfolded Inr sum.case if_not_P [OF off] s prod.case d23]
      have a: "a_resp a = None" "a_resplen a = 0" "a_sw2 a = 0" using f1 Inr by blast+
      have d3: "pc_cmd d3 = pc_cmd d" "pc_apdu d3 = None" "pn_logged_in (pc_pin1 d3) = pn_logged_in (pc_pin1 d)"
        "pn_tries_left (pc_pin1 d3) = - 1" using d1 by (simp_all add: d3_def)
      show thesis
      proof (cases y)
        case (Inl e)
        with x run have r: "r = Inl e" "d' = d3" "c' = c2" by simp_all
        show thesis by (rule sent [OF _ a d3, of y a']) (use t Inl r in simp_all)
      next
        case (Inr u)
        with x have x': "x = Inr a'" by simp
        obtain p d4 where p: "pin_verdict (sc_check_sw ops (a_sw1 a') (a_sw2 a')) (a_sw2 a') d3 = (p, d4)"
          by (metis prod.exhaust)
        from run [unfolded x' sum.case p prod.case] have r: "r = p" "d' = d4" "c' = c2" by simp_all
        show thesis by (rule sent [OF _ a d3, of y a']) (use t Inr r p in simp_all)
      qed
    qed
  qed
qed


definition demo_verify :: sc_pin_cmd_data where
  "demo_verify = zero_pin_data\<lparr>pc_cmd := SC_PIN_CMD_GET_INFO, pc_pin_type := SC_AC_CHV, pc_pin_reference := 1\<rparr>"


section \<open>Over the PC/SC reader\<close>

text \<open>A PIN command over the PC/SC reader, without a PIN pad and with an APDU of the library's own: it ends,
  and leaves the lock as it was, whatever the card answers.\<close>
theorem pin_cmd_stack_safe:
  assumes "no_escape (c_env c)" and "\<not> pc_flag d SC_PIN_CMD_USE_PINPAD" and "pc_apdu d = None"
    and "iso7816_pin_cmd (iso_table n malloc api conf) pv (d, c) = (r, (d', c'))"
  shows "no_escape (c_env c') \<and> c_lock_count c' = c_lock_count c \<and> r \<noteq> Inl OUT_OF_FUEL"
  using assms(2-4)
proof (cases rule: pin_cmd_cases)
  case (early e)
  with assms(1) show ?thesis by simp
next
  case (sent a q a' d1)
  have "xfer_inv no_escape (length (mem (a_resp a))) (a_resplen a) (c_lock_count c) (a, c)"
    using assms(1) sent(2-4) by (simp add: xfer_inv_def)
  from keepsD [OF iso.transmit_apdu_keeps this sent(1)]
  have k: "no_escape (c_env c')" "c_lock_count c' = c_lock_count c" "q \<noteq> Inl OUT_OF_FUEL" by (auto simp: xfer_inv_def)
  have "r \<noteq> Inl OUT_OF_FUEL"
  proof (cases q)
    case (Inl e)
    with sent(9) k(3) show ?thesis by simp
  next
    case (Inr u)
    show ?thesis
      using sent(9) [unfolded Inr sum.case] by (auto simp: iso.check_sw_no_fuel pin_verdict_def Let_def split: if_splits)
  qed
  with k show ?thesis by blast
qed

theorem pin_cmd_stack_safe_witness:
  "case iso7816_pin_cmd demo_table None (demo_verify, plain_card demo_reader) of (r, (d, c)) \<Rightarrow> c_lock_count c = 0"
proof -
  obtain r d c where run: "iso7816_pin_cmd demo_table None (demo_verify, plain_card demo_reader) = (r, (d, c))"
    by (metis prod.exhaust)
  have e: "no_escape (c_env (plain_card demo_reader))"
    by (simp add: no_escape_def demo_reader_def plain_card_def)
  have h: "\<not> pc_flag demo_verify SC_PIN_CMD_USE_PINPAD" "pc_apdu demo_verify = None"
    by (simp_all add: demo_verify_def zero_pin_data_def pc_flag_def)
  from pin_cmd_stack_safe [OF e h run [unfolded demo_table_def]] run show ?thesis by (simp add: plain_card_def)
qed

lemma logout_safe: "safe no_escape (iso7816_logout (iso_table n malloc api conf) ref)"
  unfolding iso7816_logout_def [abs_def] by (rule iso.safe_command_op) simp_all

end
