(* ===== verification/Sc_Padding.thy ===== *)
theory Sc_Padding
  imports Sc_Errors
begin

unbundle bit_operations_syntax

text \<open>
  PKCS#1 padding of version 1.5 (\<open>padding.c\<close>) and the branch-free comparisons it rests on
  (\<open>common/constant-time.h\<close>).
\<close>

section \<open>Comparisons without branches\<close>

definition constant_time_msb :: "u32 \<Rightarrow> u32" where
  "constant_time_msb a = 0 - drop_bit 31 a"

definition constant_time_select :: "u32 \<Rightarrow> u32 \<Rightarrow> u32 \<Rightarrow> u32" where
  "constant_time_select m a b = (m AND a) OR (NOT m AND b)"

definition constant_time_select_8 :: "u8 \<Rightarrow> u8 \<Rightarrow> u8 \<Rightarrow> u8" where
  "constant_time_select_8 m a b = ucast (constant_time_select (ucast m) (ucast a) (ucast b))"

definition constant_time_is_zero :: "u32 \<Rightarrow> u32" where
  "constant_time_is_zero a = constant_time_msb (NOT a AND (a - 1))"

definition constant_time_lt :: "u32 \<Rightarrow> u32 \<Rightarrow> u32" where
  "constant_time_lt a b = constant_time_msb (a XOR ((a XOR b) OR ((a - b) XOR b)))"

definition constant_time_ge :: "u32 \<Rightarrow> u32 \<Rightarrow> u32" where
  "constant_time_ge a b = NOT (constant_time_lt a b)"

definition constant_time_eq :: "u32 \<Rightarrow> u32 \<Rightarrow> u32" where
  "constant_time_eq a b = constant_time_is_zero (a XOR b)"

text \<open>What they compute: a condition as a mask of ones or zeros.\<close>

definition mask_of :: "bool \<Rightarrow> 'a::len word" where
  "mask_of c = (if c then - 1 else 0)"

lemma mask_of_ops [simp]:
  "NOT (mask_of c) = mask_of (\<not> c)"
  "mask_of c AND mask_of d = mask_of (c \<and> d)"
  "mask_of c OR mask_of d = mask_of (c \<or> d)"
  by (auto simp: mask_of_def)

lemma ucast_mask_of [simp]: "ucast (mask_of c :: u32) = (mask_of c :: u8)"
proof -
  have "(ucast (- 1 :: u32) :: u8) = - 1" by (rule bit_word_eqI) (simp add: bit_simps)
  then show ?thesis by (simp add: mask_of_def)
qed

lemma mask_of_and [simp]: "mask_of c AND x = (if c then x else 0)" "x AND mask_of c = (if c then x else 0)"
  by (auto simp: mask_of_def)

lemma top_bit: "bit (w :: u32) 31 \<longleftrightarrow> 2 ^ 31 \<le> uint w"
proof -
  have "uint w < 2 ^ 32" using uint_lt2p [of w] by simp
  then have div: "uint w div 2 ^ 31 = (if 2 ^ 31 \<le> uint w then 1 else 0)" by auto
  have "bit w 31 = bit (uint w) 31" by (simp add: bit_uint_iff)
  also have "\<dots> = odd (uint w div 2 ^ 31)" by (rule bit_iff_odd)
  also have "\<dots> = (2 ^ 31 \<le> uint w)" unfolding div by simp
  finally show ?thesis .
qed

lemma msb_mask: "constant_time_msb a = mask_of (bit a 31)"
proof -
  have "drop_bit 31 a = (if bit a 31 then 1 else 0)"
  proof (rule bit_word_eqI)
    fix n assume "n < LENGTH(32)"
    show "bit (drop_bit 31 a) n = bit (if bit a 31 then 1 else (0 :: u32)) n"
      by (cases n) (auto simp: bit_drop_bit_eq bit_1_iff dest: bit_imp_le_length)
  qed
  then show ?thesis by (simp add: constant_time_msb_def mask_of_def)
qed

lemma is_zero_mask [simp]: "constant_time_is_zero a = mask_of (a = 0)"
proof (cases "a = 0")
  case False
  then have "1 \<le> uint a" using uint_0_iff [of a] uint_nonnegative [of a] by linarith
  then have "uint (a - 1) = uint a - 1" by (simp add: uint_sub_if')
  then have "\<not> (\<not> bit a 31 \<and> bit (a - 1) 31)" unfolding top_bit by linarith
  with False show ?thesis
    by (simp add: constant_time_is_zero_def msb_mask bit_and_iff bit_not_iff mask_of_def)
qed (simp add: constant_time_is_zero_def msb_mask mask_of_def)

lemma lt_mask [simp]: "constant_time_lt a b = mask_of (a < b)"
proof -
  obtain x y where xy: "uint a = x" "uint b = y" by blast
  have r: "0 \<le> x" "x < 2 ^ 32" "0 \<le> y" "y < 2 ^ 32"
    using uint_lt2p [of a] uint_lt2p [of b] xy by auto
  have d: "uint (a - b) = (if y \<le> x then x - y else x - y + 2 ^ 32)"
    using xy by (simp add: uint_sub_if')
  have "bit (a XOR ((a XOR b) OR ((a - b) XOR b))) 31 \<longleftrightarrow> a < b"
    unfolding bit_xor_iff bit_or_iff unfolding top_bit d word_less_def xy using r by (auto split: if_splits)
  then show ?thesis by (simp add: constant_time_lt_def msb_mask)
qed

lemma ge_mask [simp]: "constant_time_ge a b = mask_of (b \<le> a)"
  by (simp add: constant_time_ge_def not_less)

lemma eq_mask [simp]: "constant_time_eq a b = mask_of (a = b)"
proof -
  have "a XOR b = 0 \<longleftrightarrow> a = b" by (metis xor.left_neutral xor.assoc xor_self_eq)
  then show ?thesis by (simp add: constant_time_eq_def)
qed

lemma select_mask [simp]: "constant_time_select (mask_of c) a b = (if c then a else b)"
  by (simp add: constant_time_select_def)

lemma select_8_mask [simp]: "constant_time_select_8 (mask_of c) a b = (if c then a else b)"
proof (cases c)
  case True
  have "(ucast (ucast (- 1 :: u8) AND (ucast a :: u32) OR (NOT (ucast (- 1 :: u8)) AND ucast b)) :: u8) = a"
    by (rule bit_word_eqI) (auto simp: bit_simps dest: bit_imp_le_length)
  with True show ?thesis by (simp add: constant_time_select_8_def constant_time_select_def mask_of_def)
next
  case False
  have "(ucast (ucast b :: u32) :: u8) = b" by (rule bit_word_eqI) (simp add: bit_simps)
  with False show ?thesis by (simp add: constant_time_select_8_def constant_time_select_def mask_of_def)
qed

section \<open>Padding of type 1\<close>

text \<open>The buffer is filled up to the length of the modulus: \<open>00 01 FF \<dots> FF 00\<close> and the data. Both
  buffers have at least the announced number of bytes; \<open>out_len\<close> comes back.\<close>

definition sc_pkcs1_add_01_padding :: "bytes \<Rightarrow> bytes \<Rightarrow> nat \<Rightarrow> nat \<Rightarrow> nat res \<times> bytes" where
  "sc_pkcs1_add_01_padding inp out out_len mod_length =
    (let in_len = length inp in
     if out_len < mod_length then (Inl SC_ERROR_BUFFER_TOO_SMALL, out)
     else if in_len + 11 > mod_length then (Inl SC_ERROR_INVALID_ARGUMENTS, out)
     else
       let i = mod_length - in_len;
           out = memcpy_at out i inp;
           out = out[0 := 0x00];
           out = out[1 := 0x01];
           out = memcpy_at out 2 (replicate (i - 3) 0xFF);
           out = out[2 + (i - 3) := 0x00]
       in (Inr mod_length, out))"

text \<open>The loop over the \<open>FF\<close> bytes reads the byte after the data when they reach the end; the test of the
  length that follows makes that byte irrelevant.\<close>

fun skip_ff :: "bytes \<Rightarrow> bytes" where
  "skip_ff [] = []"
| "skip_ff (b # bs) = (if b = 0xFF then skip_ff bs else b # bs)"

definition sc_pkcs1_strip_01_padding :: "bytes option \<Rightarrow> bytes option \<Rightarrow> nat \<Rightarrow> (nat option \<times> bytes option) res" where
  "sc_pkcs1_strip_01_padding in_dat out out_len =
    (case in_dat of None \<Rightarrow> Inl SC_ERROR_INTERNAL
     | Some dat \<Rightarrow>
        if length dat < 10 then Inl SC_ERROR_INTERNAL
        else
          let tmp = (if hd dat = 0 then tl dat else dat);
              in_len = length tmp
          in if hd tmp \<noteq> 0x01 then Inl SC_ERROR_WRONG_PADDING
             else
               let tmp = skip_ff (tl tmp); len = length tmp
               in if len = 0 \<or> in_len - len < 9 \<or> hd tmp \<noteq> 0x00 then Inl SC_ERROR_WRONG_PADDING
                  else
                    let tmp = tl tmp; len = len - 1
                    in case out of
                         None \<Rightarrow> Inr (None, None)
                       | Some o1 \<Rightarrow>
                          if out_len < len then Inl SC_ERROR_INTERNAL
                          else Inr (Some len, Some (memcpy_at o1 0 tmp)))"

section \<open>Padding of type 2, removed in constant time\<close>

text \<open>The data is copied to the end of a block of \<open>n\<close> bytes, zeros before it; \<open>len\<close> bytes are left, the next
  one at \<open>pos\<close>.\<close>

fun align_right :: "nat \<Rightarrow> u32 \<Rightarrow> nat \<Rightarrow> bytes \<Rightarrow> bytes \<Rightarrow> bytes" where
  "align_right 0 len pos data msg = msg"
| "align_right (Suc k) len pos data msg =
    (let m = NOT (constant_time_is_zero len);
         len = len - (1 AND m);
         pos = pos - unat (1 AND m)
     in align_right k len pos data (ucast (ucast (data ! pos) AND m) # msg))"

text \<open>The first zero byte: \<open>found\<close> is a mask.\<close>

fun find_zero :: "bytes \<Rightarrow> u32 \<Rightarrow> u32 \<Rightarrow> u32 \<Rightarrow> u32" where
  "find_zero [] i found zero_index = zero_index"
| "find_zero (b # bs) i found zero_index =
    (let equals0 = constant_time_is_zero (ucast b);
         zero_index = constant_time_select (NOT found AND equals0) i zero_index
     in find_zero bs (i + 1) (found OR equals0) zero_index)"

text \<open>One pass of the left shift, from byte 11 on, by \<open>k\<close> bytes.\<close>

definition shift_pass :: "nat \<Rightarrow> nat \<Rightarrow> u32 \<Rightarrow> bytes \<Rightarrow> bytes" where
  "shift_pass n k m msg =
    foldl (\<lambda>b i. b[i := constant_time_select_8 (ucast m) (b ! (i + k)) (b ! i)]) msg [11..<n - k]"

text \<open>The passes double their distance. \<open>None\<close>: the distance has wrapped to zero, and the loop of the
  source does not end.\<close>

fun shift_left :: "nat \<Rightarrow> u32 \<Rightarrow> u32 \<Rightarrow> u32 \<Rightarrow> bytes \<Rightarrow> bytes option" where
  "shift_left 0 n mlen msg_index msg = None"
| "shift_left (Suc f) n mlen msg_index msg =
    (if msg_index < n - 11 then
       let m = NOT (constant_time_eq (msg_index AND (n - 11 - mlen)) 0)
       in shift_left f n mlen (push_bit 1 msg_index) (shift_pass (unat n) (unat msg_index) m msg)
     else Some msg)"

definition move_out :: "u32 \<Rightarrow> u32 \<Rightarrow> nat \<Rightarrow> bytes \<Rightarrow> bytes \<Rightarrow> bytes" where
  "move_out good mlen count msg out =
    foldl (\<lambda>o1 i.
      let m = good AND constant_time_lt (of_nat i) mlen;
          msg_index = constant_time_select m (of_nat i + 11) 0
      in o1[i := constant_time_select_8 (ucast m) (msg ! unat msg_index) (o1 ! i)]) out [0..<count]"

definition sc_pkcs1_strip_02_padding_constant_time ::
  "(nat \<Rightarrow> bytes option) \<Rightarrow> u32 \<Rightarrow> bytes option \<Rightarrow> u32 \<Rightarrow> bytes \<Rightarrow> u32 option \<Rightarrow> (int \<times> bytes \<times> u32 option) option" where
  "sc_pkcs1_strip_02_padding_constant_time calloc n data data_len out out_len =
    (case (data, out_len) of
       (Some dat, Some olen) \<Rightarrow>
         if data_len = 0 \<or> data_len > n \<or> n < 11 then Some (SC_ERROR_INTERNAL, out, out_len)
         else
           (case calloc (unat n) of
              None \<Rightarrow> Some (SC_ERROR_INTERNAL, out, out_len)
            | Some _ \<Rightarrow>
               let msg = align_right (unat n) data_len (unat data_len) dat [];
                   good = constant_time_is_zero (ucast (msg ! 0));
                   good = good AND constant_time_eq (ucast (msg ! 1)) 2;
                   zero_index = find_zero (drop 2 msg) 2 0 0;
                   good = good AND constant_time_ge zero_index (2 + 8);
                   msg_index = zero_index + 1;
                   mlen = data_len - msg_index;
                   good = good AND constant_time_ge olen mlen;
                   tmp_outlen = constant_time_select (constant_time_lt (n - 11) olen) (n - 11) olen
               in case shift_left 33 n mlen 1 msg of
                    None \<Rightarrow> None
                  | Some msg \<Rightarrow>
                     let out = move_out good mlen (unat tmp_outlen) msg out
                     in Some (sint (constant_time_select good mlen (word_of_int SC_ERROR_WRONG_PADDING)), out,
                              Some (constant_time_select good mlen olen)))
     | _ \<Rightarrow> Some (SC_ERROR_INTERNAL, out, out_len))"

section \<open>The DigestInfo prefix\<close>

abbreviation (input) SC_ALGORITHM_RSA_HASH_NONE :: "'a::len word" where "SC_ALGORITHM_RSA_HASH_NONE \<equiv> 0x00000100"
abbreviation (input) SC_ALGORITHM_RSA_HASH_SHA1 :: "'a::len word" where "SC_ALGORITHM_RSA_HASH_SHA1 \<equiv> 0x00000200"
abbreviation (input) SC_ALGORITHM_RSA_HASH_MD5 :: "'a::len word" where "SC_ALGORITHM_RSA_HASH_MD5 \<equiv> 0x00000400"
abbreviation (input) SC_ALGORITHM_RSA_HASH_MD5_SHA1 :: "'a::len word" where "SC_ALGORITHM_RSA_HASH_MD5_SHA1 \<equiv> 0x00000800"
abbreviation (input) SC_ALGORITHM_RSA_HASH_RIPEMD160 :: "'a::len word" where "SC_ALGORITHM_RSA_HASH_RIPEMD160 \<equiv> 0x00001000"
abbreviation (input) SC_ALGORITHM_RSA_HASH_SHA256 :: "'a::len word" where "SC_ALGORITHM_RSA_HASH_SHA256 \<equiv> 0x00002000"
abbreviation (input) SC_ALGORITHM_RSA_HASH_SHA384 :: "'a::len word" where "SC_ALGORITHM_RSA_HASH_SHA384 \<equiv> 0x00004000"
abbreviation (input) SC_ALGORITHM_RSA_HASH_SHA512 :: "'a::len word" where "SC_ALGORITHM_RSA_HASH_SHA512 \<equiv> 0x00008000"
abbreviation (input) SC_ALGORITHM_RSA_HASH_SHA224 :: "'a::len word" where "SC_ALGORITHM_RSA_HASH_SHA224 \<equiv> 0x00010000"
abbreviation (input) SC_ALGORITHM_RSA_HASHES :: "'a::len word" where "SC_ALGORITHM_RSA_HASHES \<equiv> 0x0001FF00"

text \<open>The DER headers: the identifiers of the digests of one family differ in their last byte.\<close>

abbreviation (input) nist_digest :: "u8 \<Rightarrow> bytes" where
  "nist_digest x \<equiv> [0x30, 0x0d, 0x06, 0x09] @ [0x60, 0x86, 0x48, 0x01, 0x65, 0x03, 0x04, 0x02, x]"

definition hdr_md5 :: bytes where
  "hdr_md5 = [0x30, 0x20] @ [0x30, 0x0c, 0x06, 0x08] @ [0x2a, 0x86, 0x48, 0x86, 0xf7, 0x0d, 0x02, 0x05] @
     [0x05, 0x00, 0x04, 0x10]"
definition hdr_sha1 :: bytes where
  "hdr_sha1 = [0x30, 0x21] @ [0x30, 0x09, 0x06, 0x05] @ [0x2b, 0x0e, 0x03, 0x02, 0x1a] @ [0x05, 0x00, 0x04, 0x14]"
definition hdr_sha256 :: bytes where
  "hdr_sha256 = [0x30, 0x31] @ nist_digest 0x01 @ [0x05, 0x00, 0x04, 0x20]"
definition hdr_sha384 :: bytes where
  "hdr_sha384 = [0x30, 0x41] @ nist_digest 0x02 @ [0x05, 0x00, 0x04, 0x30]"
definition hdr_sha512 :: bytes where
  "hdr_sha512 = [0x30, 0x51] @ nist_digest 0x03 @ [0x05, 0x00, 0x04, 0x40]"
definition hdr_sha224 :: bytes where
  "hdr_sha224 = [0x30, 0x2d] @ nist_digest 0x04 @ [0x05, 0x00, 0x04, 0x1c]"
definition hdr_ripemd160 :: bytes where
  "hdr_ripemd160 = [0x30, 0x21] @ [0x30, 0x09, 0x06, 0x05] @ [0x2b, 0x24, 0x03, 0x02, 0x01] @ [0x05, 0x00, 0x04, 0x14]"

definition digest_info_prefix :: "(u32 \<times> bytes \<times> nat) list" where
  "digest_info_prefix =
    [(SC_ALGORITHM_RSA_HASH_NONE, [], 0),
     (SC_ALGORITHM_RSA_HASH_MD5, hdr_md5, 16),
     (SC_ALGORITHM_RSA_HASH_SHA1, hdr_sha1, 20),
     (SC_ALGORITHM_RSA_HASH_SHA256, hdr_sha256, 32),
     (SC_ALGORITHM_RSA_HASH_SHA384, hdr_sha384, 48),
     (SC_ALGORITHM_RSA_HASH_SHA512, hdr_sha512, 64),
     (SC_ALGORITHM_RSA_HASH_SHA224, hdr_sha224, 28),
     (SC_ALGORITHM_RSA_HASH_RIPEMD160, hdr_ripemd160, 20),
     (SC_ALGORITHM_RSA_HASH_MD5_SHA1, [], 36)]"

fun add_prefix :: "(u32 \<times> bytes \<times> nat) list \<Rightarrow> u32 \<Rightarrow> bytes \<Rightarrow> bytes \<Rightarrow> nat \<Rightarrow> (nat \<times> bytes) res" where
  "add_prefix [] algorithm inp out out_len = Inl SC_ERROR_INTERNAL"
| "add_prefix ((alg, hdr, hash_len) # t) algorithm inp out out_len =
    (if algorithm = alg then
       (if length inp \<noteq> hash_len \<or> out_len < length hdr + hash_len then Inl SC_ERROR_INTERNAL
        else Inr (length hdr + hash_len, memcpy_at (memcpy_at out (length hdr) inp) 0 hdr))
     else add_prefix t algorithm inp out out_len)"

definition sc_pkcs1_add_digest_info_prefix :: "u32 \<Rightarrow> bytes \<Rightarrow> bytes \<Rightarrow> nat \<Rightarrow> (nat \<times> bytes) res" where
  "sc_pkcs1_add_digest_info_prefix = add_prefix digest_info_prefix"

text \<open>The result: the algorithm, and the hash with its length when a buffer is given.\<close>

fun strip_prefix :: "(u32 \<times> bytes \<times> nat) list \<Rightarrow> bytes \<Rightarrow> bytes option \<Rightarrow> nat \<Rightarrow>
    u32 option \<times> (nat \<times> bytes) option res" where
  "strip_prefix [] in_dat out_dat out_len = (None, Inl SC_ERROR_INTERNAL)"
| "strip_prefix ((alg, hdr, hash_len) # t) in_dat out_dat out_len =
    (if length in_dat = length hdr + hash_len \<and> take (length hdr) in_dat = hdr then
       (Some alg,
        case out_dat of
          None \<Rightarrow> Inr None
        | Some out \<Rightarrow>
           if out_len < hash_len then Inl SC_ERROR_INTERNAL
           else Inr (Some (hash_len, memcpy_at out 0 (take hash_len (drop (length hdr) in_dat)))))
     else strip_prefix t in_dat out_dat out_len)"

definition sc_pkcs1_strip_digest_info_prefix ::
  "bytes \<Rightarrow> bytes option \<Rightarrow> nat \<Rightarrow> u32 option \<times> (nat \<times> bytes) option res" where
  "sc_pkcs1_strip_digest_info_prefix = strip_prefix digest_info_prefix"

section \<open>The constant-time code removes the padding\<close>

lemma ucast_8_32_8 [simp]: "(ucast (ucast (b :: u8) :: u32) :: u8) = b"
  by (rule bit_word_eqI) (simp add: bit_simps)

lemma ucast_zero_iff [simp]: "(ucast (b :: u8) :: u32) = 0 \<longleftrightarrow> b = 0"
  by (metis ucast_8_32_8 unsigned_0)

lemma select_0 [simp]: "constant_time_select 0 a b = b" "constant_time_select_8 0 c d = d"
  using select_mask [of False a b] select_8_mask [of False] by (simp_all add: mask_of_def)

lemma align_right_eq:
  "l < 2 ^ 32 \<Longrightarrow> l \<le> length data \<Longrightarrow> data \<noteq> [] \<Longrightarrow>
   align_right k (of_nat l) l data msg = replicate (k - l) 0 @ drop (l - k) (take l data) @ msg"
proof (induction k arbitrary: l msg)
  case (Suc k)
  show ?case
  proof (cases l)
    case 0
    then show ?thesis using Suc.IH [of 0 "0 # msg"] Suc.prems(3)
      by (simp add: Let_def replicate_app_Cons_same)
  next
    case (Suc l')
    have nz: "(of_nat l :: u32) \<noteq> 0" using Suc Suc.prems by (simp add: of_nat_eq_0_iff word_of_nat_eq_0_iff nat_dvd_not_less del: of_nat_Suc)
    have step: "(of_nat l :: u32) - 1 = of_nat l'" using Suc by simp
    have "align_right (Suc k) (of_nat l) l data msg = align_right k (of_nat l') l' data (data ! l' # msg)"
      using nz step Suc by (simp add: Let_def del: of_nat_Suc)
    also have "\<dots> = replicate (k - l') 0 @ drop (l' - k) (take l' data) @ data ! l' # msg"
      using Suc Suc.prems by (intro Suc.IH) auto
    also have "\<dots> = replicate (Suc k - l) 0 @ drop (l - Suc k) (take l data) @ msg"
      using Suc Suc.prems by (simp add: take_Suc_conv_app_nth)
    finally show ?thesis .
  qed
qed simp

lemma find_zero_found: "find_zero bs i (mask_of True) z = z"
  by (induction bs arbitrary: i) (simp_all add: Let_def)

lemma find_zero_first:
  "find_zero bs i (mask_of False) z =
    (if 0 \<in> set bs then i + of_nat (length (takeWhile (\<lambda>b. b \<noteq> 0) bs)) else z)"
  by (induction bs arbitrary: i z) (auto simp: Let_def find_zero_found add.assoc)

lemma shift_pass_off: "shift_pass n k (mask_of False) msg = msg"
proof -
  have "foldl (\<lambda>b i. b[i := constant_time_select_8 (mask_of False) (b ! (i + k)) (b ! i)]) m xs = m" for m :: bytes and xs
    by (induction xs) simp_all
  then show ?thesis by (simp add: shift_pass_def)
qed

lemma shift_pass_on:
  assumes "length msg = n" and "11 + k \<le> n" and "0 < k"
  shows "length (shift_pass n k (mask_of True) msg) = n"
    and "i < n \<Longrightarrow> shift_pass n k (mask_of True) msg ! i = (if 11 \<le> i \<and> i < n - k then msg ! (i + k) else msg ! i)"
proof -
  define f where "f = (\<lambda>b i. b[i := constant_time_select_8 (mask_of True) (b ! (i + k)) (b ! i)] :: bytes)"
  have run: "11 \<le> m \<Longrightarrow> m \<le> n - k \<Longrightarrow> length (foldl f msg [11..<m]) = n \<and>
    (\<forall>i < n. foldl f msg [11..<m] ! i = (if 11 \<le> i \<and> i < m then msg ! (i + k) else msg ! i))" for m
  proof (induction m rule: dec_induct)
    case (step m)
    then show ?case using assms by (auto simp: f_def nth_list_update)
  qed (auto simp: assms)
  have eq: "shift_pass n k (mask_of True) msg = foldl f msg [11..<n - k]" by (simp add: shift_pass_def f_def)
  show "length (shift_pass n k (mask_of True) msg) = n"
    and "i < n \<Longrightarrow> shift_pass n k (mask_of True) msg ! i = (if 11 \<le> i \<and> i < n - k then msg ! (i + k) else msg ! i)"
    unfolding eq using run [of "n - k"] assms by auto
qed

lemma and_power: "(2 ^ p AND (w :: u32)) = 0 \<longleftrightarrow> \<not> bit w p"
  by (metis bit_eq_iff bit_and_iff bit_exp_iff bit_0 and_exp_eq_0_iff_not_bit and.commute)

lemma mod_next: "(s :: nat) mod 2 ^ Suc p = s mod 2 ^ p + (if bit s p then 2 ^ p else 0)"
proof -
  have "s mod 2 ^ Suc p = 2 ^ p * (s div 2 ^ p mod 2) + s mod 2 ^ p"
    using mod_mult2_eq [of s "2 ^ p" 2] by (simp add: mult.commute)
  then show ?thesis by (simp add: bit_iff_odd odd_iff_mod_2_eq_one)
qed

lemma power_unat: "p \<le> 31 \<Longrightarrow> unat (2 ^ p :: u32) = 2 ^ p"
proof -
  assume "p \<le> 31"
  then have "(2 :: nat) ^ p < 2 ^ 32" by (intro power_strict_increasing) auto
  moreover have "(2 ^ p :: u32) = of_nat (2 ^ p)" by simp
  ultimately show ?thesis by (simp only: unat_of_nat) simp
qed

text \<open>The passes shift by the binary digits of the distance \<open>s\<close>.\<close>

lemma shift_left_moves:
  fixes n mlen :: u32
  defines "D \<equiv> unat n - 11" and "s \<equiv> unat (n - 11 - mlen)"
  assumes n: "11 \<le> unat n" "unat n \<le> 2 ^ 31"
  shows "length msg = unat n \<Longrightarrow> p + f = 33 \<Longrightarrow> p \<le> 31 \<Longrightarrow>
    (\<And>t. t + s mod 2 ^ p < D \<Longrightarrow> msg ! (11 + t) = orig ! (11 + t + s mod 2 ^ p)) \<Longrightarrow>
    \<exists>m. shift_left f n mlen (2 ^ p) msg = Some m \<and> length m = unat n \<and>
      (\<forall>t. t + s < D \<longrightarrow> m ! (11 + t) = orig ! (11 + t + s))"
proof (induction f arbitrary: p msg)
  case (Suc f)
  have D: "unat (n - 11) = D" using n by (simp add: D_def unat_sub_if' )
  have small: "2 ^ p < n - 11 \<longleftrightarrow> 2 ^ p < D"
    unfolding word_less_nat_alt D power_unat [OF Suc.prems(3)] ..
  show ?case
  proof (cases "2 ^ p < D")
    case False
    have "m + s < D \<Longrightarrow> s mod 2 ^ p = s" for m using False by simp
    then show ?thesis using False small Suc.prems by auto
  next
    case True
    have p: "p < 31"
    proof (rule ccontr)
      assume "\<not> p < 31"
      then have "p = 31" using Suc.prems by simp
      then show False using True n by (simp add: D_def)
    qed
    have dbl: "push_bit 1 (2 ^ p) = (2 ^ Suc p :: u32)" by (simp add: push_bit_eq_mult)
    have m: "NOT (constant_time_eq (2 ^ p AND (n - 11 - mlen)) 0) = mask_of (bit (n - 11 - mlen) p)"
      by (simp add: and_power)
    have sb: "bit (n - 11 - mlen) p = bit s p"
      by (auto simp: s_def bit_unsigned_iff dest: bit_imp_le_length)
    define q where "q = shift_pass (unat n) (2 ^ p) (mask_of (bit s p)) msg"
    have len: "length q = unat n"
      by (cases "bit s p") (use True n Suc.prems shift_pass_on [of msg "unat n" "2 ^ p"] in \<open>auto simp: q_def shift_pass_off D_def\<close>)
    have moved: "q ! (11 + t) = orig ! (11 + t + s mod 2 ^ Suc p)" if t: "t + s mod 2 ^ Suc p < D" for t
    proof (cases "bit s p")
      case b: True
      have r: "s mod 2 ^ Suc p = s mod 2 ^ p + 2 ^ p" unfolding mod_next using b by simp
      have t': "t + 2 ^ p + s mod 2 ^ p < D" using t unfolding r by simp
      then have "11 + t < unat n - 2 ^ p" unfolding D_def by linarith
      then have "q ! (11 + t) = msg ! (11 + (t + 2 ^ p))"
        using shift_pass_on(2) [of msg "unat n" "2 ^ p" "11 + t"] True n Suc.prems(1) b
        by (simp add: q_def D_def add.assoc)
      also have "\<dots> = orig ! (11 + (t + 2 ^ p) + s mod 2 ^ p)" by (rule Suc.prems(4) [OF t'])
      finally show ?thesis unfolding r by (simp only: ac_simps)
    next
      case b: False
      have r: "s mod 2 ^ Suc p = s mod 2 ^ p" unfolding mod_next using b by simp
      show ?thesis using Suc.prems(4) [of t] t b unfolding r by (simp add: q_def shift_pass_off)
    qed
    have "shift_left (Suc f) n mlen (2 ^ p) msg = shift_left f n mlen (2 ^ Suc p) q"
      using True small by (simp only: shift_left.simps if_True dbl m sb q_def power_unat [OF Suc.prems(3)] Let_def)
    then show ?thesis using Suc.IH [of q "Suc p"] len moved p Suc.prems(2) by auto
  qed
qed simp

lemma move_out_off: "move_out (mask_of False) mlen count msg out = out"
proof -
  have "foldl (\<lambda>o1 i. let m = mask_of False AND constant_time_lt (of_nat i) mlen;
          msg_index = constant_time_select m (of_nat i + 11) 0
      in o1[i := constant_time_select_8 (ucast m) (msg ! unat msg_index) (o1 ! i)]) out xs = out" for xs
    by (induction xs) (simp_all add: Let_def del: mask_of_and)
  then show ?thesis by (simp only: move_out_def)
qed

lemma move_out_on:
  assumes "count \<le> length out" and "unat mlen \<le> count" and "count + 11 \<le> 2 ^ 31" and "unat mlen + 11 \<le> length msg"
  shows "move_out (mask_of True) mlen count msg out = memcpy_at out 0 (take (unat mlen) (drop 11 msg))"
proof -
  define f where "f = (\<lambda>o1 i. let m = mask_of True AND constant_time_lt (of_nat i) mlen;
          msg_index = constant_time_select m (of_nat i + 11) 0
      in o1[i := constant_time_select_8 (ucast m) (msg ! unat msg_index) (o1 ! i)])"
  have one: "f b i = (if i < unat mlen then b[i := msg ! (i + 11)] else b)" if "i < count" for b i
  proof -
    have "unat (of_nat i :: u32) = i" "unat (of_nat i + 11 :: u32) = i + 11"
      using that assms(3) by (auto simp: unat_of_nat unat_word_ariths)
    then show ?thesis by (simp add: f_def Let_def word_less_nat_alt del: mask_of_and)
  qed
  define c where "c = take (unat mlen) (drop 11 msg)"
  have c: "length c = unat mlen" using assms(4) by (simp add: c_def)
  have run: "j \<le> count \<Longrightarrow> foldl f out [0..<j] = memcpy_at out 0 (take j c)" for j
  proof (induction j)
    case (Suc j)
    have "foldl f out [0..<Suc j] = f (memcpy_at out 0 (take j c)) j" using Suc by simp
    also have "\<dots> = (if j < length c then (memcpy_at out 0 (take j c))[j := c ! j] else memcpy_at out 0 (take j c))"
      using one [of j] Suc.prems c assms(4) by (simp add: c_def add.commute)
    also have "\<dots> = memcpy_at out 0 (take (Suc j) c)"
    proof (cases "j < length c")
      case True
      then have "drop j out = out ! j # drop (Suc j) out" using Suc.prems assms(1) by (simp add: Cons_nth_drop_Suc)
      with True show ?thesis by (simp add: memcpy_at_0 min_def list_update_append take_Suc_conv_app_nth)
    qed simp
    finally show ?case .
  qed simp
  have "move_out (mask_of True) mlen count msg out = foldl f out [0..<count]" by (simp only: move_out_def f_def)
  then show ?thesis using run [of count] assms(2) c by (simp add: c_def [symmetric])
qed

lemma ucast_two_iff: "(ucast (b :: u8) :: u32) = 2 \<longleftrightarrow> b = 2"
proof
  assume "(ucast b :: u32) = 2"
  then have "(ucast (ucast b :: u32) :: u8) = ucast (2 :: u32)" by simp
  then show "b = 2" by simp
qed simp

lemma sint_small: "unat (w :: u32) < 2 ^ 31 \<Longrightarrow> sint w = int (unat w)"
proof -
  assume "unat w < 2 ^ 31"
  then have w: "int (unat w) < 2 ^ 31" by (metis of_nat_less_iff of_nat_numeral of_nat_power)
  moreover have "- (2 ^ 31) \<le> int (unat w)" by (rule order_trans [of _ 0]) simp_all
  ultimately have "signed_take_bit 31 (int (unat w)) = int (unat w)" by (intro signed_take_bit_int_eq_self)
  then show ?thesis by (simp add: sint_uint)
qed

text \<open>The index the code takes for the separator, and the message behind it, counted from the end.\<close>

definition separator :: "bytes \<Rightarrow> nat" where
  "separator em = 2 + length (takeWhile (\<lambda>b. b \<noteq> 0) (drop 2 em))"

lemma takeWhile_proper: "y \<in> set ys \<and> \<not> P y \<Longrightarrow> length (takeWhile P ys) < length ys"
  by (induction ys) auto

lemma separator_le: "2 \<le> length em \<Longrightarrow> separator em \<le> length em"
  using length_takeWhile_le [of "\<lambda>b. b \<noteq> 0" "drop 2 em"] by (simp add: separator_def)

definition stripped_ok :: "bytes \<Rightarrow> nat \<Rightarrow> nat \<Rightarrow> bool" where
  "stripped_ok em dl olen \<longleftrightarrow> em ! 0 = 0 \<and> em ! 1 = 2 \<and> 0 \<in> set (drop 2 em) \<and> 10 \<le> separator em \<and>
    separator em + 1 \<le> dl \<and> dl - (separator em + 1) \<le> olen"

lemma message_length:
  fixes dl olen :: u32
  assumes "z + 1 \<le> 2 ^ 31" and "unat olen < 2 ^ 31"
  shows "dl - (of_nat z + 1) \<le> olen \<longleftrightarrow> z + 1 \<le> unat dl \<and> unat dl - (z + 1) \<le> unat olen"
    and "z + 1 \<le> unat dl \<Longrightarrow> unat (dl - (of_nat z + 1)) = unat dl - (z + 1)"
proof -
  have z: "unat (of_nat z + 1 :: u32) = z + 1" using assms(1) by (simp add: unat_word_ariths unat_of_nat)
  have lt: "unat dl < 2 ^ 32" using unsigned_less [of dl] by simp
  have sub: "unat (dl - (of_nat z + 1)) = (if z + 1 \<le> unat dl then unat dl - (z + 1) else unat dl + 2 ^ 32 - (z + 1))"
    by (simp add: unat_sub_if' z)
  then show "z + 1 \<le> unat dl \<Longrightarrow> unat (dl - (of_nat z + 1)) = unat dl - (z + 1)" by simp
  show "dl - (of_nat z + 1) \<le> olen \<longleftrightarrow> z + 1 \<le> unat dl \<and> unat dl - (z + 1) \<le> unat olen"
    unfolding word_le_nat_alt sub using assms lt by auto
qed

lemma strip_02_core:
  fixes n dl olen :: u32
  assumes dat: "length dat = unat dl" "dl \<noteq> 0" "dl \<le> n" and n: "11 \<le> unat n" "unat n \<le> 2 ^ 31"
    and mem: "calloc (unat n) \<noteq> None" and olen: "unat olen < 2 ^ 31" "unat olen \<le> length out"
  defines "em \<equiv> replicate (unat n - unat dl) 0 @ dat"
  defines "m \<equiv> drop (unat n - (unat dl - (separator em + 1))) em"
  shows "sc_pkcs1_strip_02_padding_constant_time calloc n (Some dat) dl out (Some olen) =
    Some (if stripped_ok em (unat dl) (unat olen)
          then (int (length m), memcpy_at out 0 m, Some (of_nat (length m)))
          else (SC_ERROR_WRONG_PADDING, out, Some olen))"
proof -
  define z where "z = separator em"
  have dln: "unat dl \<le> unat n" using dat(3) by (simp add: word_le_nat_alt)
  have em: "length em = unat n" using dat(1) dln by (simp add: em_def)
  have zn: "z \<le> unat n" using separator_le [of em] em n by (simp add: z_def)
  have copy: "align_right (unat n) dl (unat dl) dat [] = em"
  proof -
    have "dat \<noteq> []" using dat(1,2) unat_eq_zero [of dl] by (metis list.size(3))
    moreover have "unat dl < 2 ^ 32" using unsigned_less [of dl, where 'a = nat] by simp
    ultimately show ?thesis using align_right_eq [of "unat dl" dat "unat n" "[]"] dat(1) dln
      by (simp add: em_def)
  qed
  define found where "found \<longleftrightarrow> 0 \<in> set (drop 2 em)"
  have zi: "find_zero (drop 2 em) 2 0 0 = (if found then of_nat z else 0)"
    using find_zero_first [of "drop 2 em" 2 0] by (simp add: found_def z_def separator_def mask_of_def)
  have zlt: "found \<Longrightarrow> z + 1 \<le> unat n"
  proof -
    assume "found"
    then have "length (takeWhile (\<lambda>b. b \<noteq> 0) (drop 2 em)) < length (drop 2 em)"
      unfolding found_def by (intro takeWhile_proper [where y = 0]) auto
    then show ?thesis using em by (simp add: z_def separator_def)
  qed
  define mlen where "mlen = dl - ((if found then of_nat z else 0) + 1)"
  define G where "G = stripped_ok em (unat dl) (unat olen)"
  have "10 \<le> (of_nat z :: u32) \<longleftrightarrow> 10 \<le> z" using zn n by (simp add: word_le_nat_alt unat_of_nat)
  then have good: "(constant_time_is_zero (ucast (em ! 0)) AND constant_time_eq (ucast (em ! 1)) 2 AND
      constant_time_ge (if found then of_nat z else 0) (2 + 8) AND constant_time_ge olen mlen) = mask_of G"
    using message_length(1) [of z olen dl] zlt n olen
    by (auto simp: G_def stripped_ok_def z_def [symmetric] found_def [symmetric] ucast_two_iff mlen_def simp del: mask_of_and intro!: arg_cong [where f = mask_of])
  have fin: "G \<Longrightarrow> found \<and> unat mlen = unat dl - (z + 1) \<and> unat mlen \<le> unat olen \<and> unat mlen + 11 \<le> unat n"
    using message_length(2) [of z olen dl] zlt n olen dln
    by (auto simp: G_def stripped_ok_def z_def [symmetric] found_def [symmetric] mlen_def)
  obtain msg where shift: "shift_left 33 n mlen 1 em = Some msg" and len: "length msg = unat n"
    and moved: "\<And>t. t + unat (n - 11 - mlen) < unat n - 11 \<Longrightarrow> msg ! (11 + t) = em ! (11 + t + unat (n - 11 - mlen))"
    using shift_left_moves [OF n, where msg = em and p = 0 and f = 33 and orig = em and mlen = mlen] em by auto
  have count: "unat (constant_time_select (constant_time_lt (n - 11) olen) (n - 11) olen) = min (unat n - 11) (unat olen)"
    using n by (auto simp: word_less_nat_alt unat_sub_if' min_def)
  have out: "move_out (mask_of G) mlen (min (unat n - 11) (unat olen)) msg out = (if G then memcpy_at out 0 m else out)"
  proof (cases G)
    case True
    have d: "unat (n - 11) = unat n - 11" using n by (simp add: unat_sub_if')
    moreover have "unat mlen \<le> unat n - 11" using fin True by linarith
    ultimately have "mlen \<le> n - 11" unfolding word_le_nat_alt by simp
    then have s: "unat (n - 11 - mlen) = unat n - 11 - unat mlen" using d unat_sub [of mlen "n - 11"] by simp
    have fl: "unat dl - (z + 1) = unat mlen" and room: "unat mlen + 11 \<le> unat n" using fin [OF True] by auto
    have md: "m = drop (unat n - unat mlen) em" unfolding m_def z_def [symmetric] fl ..
    have "take (unat mlen) (drop 11 msg) = m"
    proof (rule nth_equalityI)
      show "length (take (unat mlen) (drop 11 msg)) = length m" using room len em by (simp add: md)
      fix t assume "t < length (take (unat mlen) (drop 11 msg))"
      then have t: "t < unat mlen" by simp
      then have "msg ! (11 + t) = em ! (11 + t + (unat n - 11 - unat mlen))" using moved [of t] room s by simp
      also have "11 + t + (unat n - 11 - unat mlen) = unat n - unat mlen + t" using room by simp
      finally show "take (unat mlen) (drop 11 msg) ! t = m ! t" using t room len em by (simp add: md)
    qed
    moreover have "unat mlen \<le> min (unat n - 11) (unat olen)" using fin [OF True] by (auto intro: add_le_imp_le_diff)
    moreover have "min (unat n - 11) (unat olen) \<le> length out" "min (unat n - 11) (unat olen) + 11 \<le> 2 ^ 31" using olen n by auto
    ultimately show ?thesis using True room len move_out_on [of "min (unat n - 11) (unat olen)" out mlen msg] by simp
  next
    case False
    then show ?thesis using move_out_off by simp
  qed
  have lm: "G \<Longrightarrow> length m = unat mlen" using fin em by (simp add: m_def z_def [symmetric])
  then have sint: "G \<Longrightarrow> sint mlen = int (length m)"
    using fin olen sint_small [of mlen] by simp
  have guards: "\<not> (dl = 0 \<or> dl > n \<or> n < 11)" using dat n by (simp add: not_less word_le_nat_alt)
  have "sc_pkcs1_strip_02_padding_constant_time calloc n (Some dat) dl out (Some olen) =
    Some (sint (constant_time_select (mask_of G) mlen (word_of_int SC_ERROR_WRONG_PADDING)),
      move_out (mask_of G) mlen (min (unat n - 11) (unat olen)) msg out,
      Some (constant_time_select (mask_of G) mlen olen))"
  proof -
    obtain block where "calloc (unat n) = Some block" using mem by blast
    then show ?thesis
      unfolding sc_pkcs1_strip_02_padding_constant_time_def prod.case option.case if_not_P [OF guards]
      by (simp only: option.case Let_def copy zi and.assoc mlen_def [symmetric] good shift count)
  qed
  then show ?thesis using out sint lm by (auto simp: G_def)
qed

text \<open>The rule of PKCS#1: \<open>00 02\<close>, at least eight bytes that are not zero, \<open>00\<close>, the message.\<close>

definition pkcs1_message :: "bytes \<Rightarrow> bytes option" where
  "pkcs1_message em =
    (case em of
       b0 # b1 # rest \<Rightarrow>
         let ps = takeWhile (\<lambda>b. b \<noteq> 0) rest in
         if b0 = 0 \<and> b1 = 2 \<and> 8 \<le> length ps \<and> length ps < length rest
         then Some (drop (length ps + 1) rest) else None
     | _ \<Rightarrow> None)"

lemma takeWhile_proper_iff: "length (takeWhile P xs) < length xs \<longleftrightarrow> (\<exists>x \<in> set xs. \<not> P x)"
  by (metis takeWhile_proper less_irrefl takeWhile_eq_all_conv)

lemma stripped_ok_message:
  assumes "2 \<le> length em"
  shows "stripped_ok em (length em) olen \<longleftrightarrow> (\<exists>m. pkcs1_message em = Some m \<and> length m \<le> olen)"
    and "stripped_ok em (length em) olen \<Longrightarrow> pkcs1_message em = Some (drop (separator em + 1) em)"
proof -
  obtain b0 b1 rest where em: "em = b0 # b1 # rest"
    using assms by (cases em; cases "tl em") auto
  have "0 \<in> set rest \<longleftrightarrow> length (takeWhile (\<lambda>b. b \<noteq> 0) rest) < length rest"
    unfolding takeWhile_proper_iff by auto
  then show "stripped_ok em (length em) olen \<longleftrightarrow> (\<exists>m. pkcs1_message em = Some m \<and> length m \<le> olen)"
    and "stripped_ok em (length em) olen \<Longrightarrow> pkcs1_message em = Some (drop (separator em + 1) em)"
    by (auto simp: stripped_ok_def separator_def pkcs1_message_def em Let_def)
qed

text \<open>C17: Given a block as long as the modulus, the constant-time routine, which computes with masks and
  shifts by powers of two, returns what the rule of PKCS#1 gives: the message at the start of the
  buffer and its length; or, when the block is not well-formed or the message does not fit, the error,
  with the buffer and the length as they were.\<close>
theorem strip_02_is_pkcs1:
  fixes n olen :: u32
  assumes "length dat = unat n" and "11 \<le> unat n" and "unat n \<le> 2 ^ 31" and "calloc (unat n) \<noteq> None"
    and "unat olen < 2 ^ 31" and "unat olen \<le> length out"
  shows "sc_pkcs1_strip_02_padding_constant_time calloc n (Some dat) n out (Some olen) =
    Some (case pkcs1_message dat of
            Some m \<Rightarrow> if length m \<le> unat olen
                      then (int (length m), memcpy_at out 0 m, Some (of_nat (length m)))
                      else (SC_ERROR_WRONG_PADDING, out, Some olen)
          | None \<Rightarrow> (SC_ERROR_WRONG_PADDING, out, Some olen))"
proof -
  have nz: "n \<noteq> 0" using assms(2) by auto
  have two: "2 \<le> length dat" using assms by simp
  have core: "sc_pkcs1_strip_02_padding_constant_time calloc n (Some dat) n out (Some olen) =
    Some (if stripped_ok dat (length dat) (unat olen)
          then let m = drop (separator dat + 1) dat in (int (length m), memcpy_at out 0 m, Some (of_nat (length m)))
          else (SC_ERROR_WRONG_PADDING, out, Some olen))"
  proof (cases "stripped_ok dat (length dat) (unat olen)")
    case True
    then have "unat n - (unat n - (separator dat + 1)) = separator dat + 1"
      using assms(1) by (simp add: stripped_ok_def)
    then show ?thesis
      using strip_02_core [of dat n n calloc olen out] assms nz True by (simp add: Let_def)
  next
    case False
    then show ?thesis using strip_02_core [of dat n n calloc olen out] assms nz by simp
  qed
  show ?thesis unfolding core
    using stripped_ok_message [OF two, of "unat olen"] by (auto split: option.splits)
qed

definition example_block :: bytes where
  "example_block = [0, 2, 1, 2, 3, 4, 5, 6, 7, 8, 0, 0xCA, 0xFE]"

theorem strip_02_is_pkcs1_witness:
  "sc_pkcs1_strip_02_padding_constant_time (\<lambda>k. Some (replicate k 0)) 13 (Some example_block) 13 [9, 9, 9, 9] (Some 4) =
     Some (2, [0xCA, 0xFE, 9, 9], Some 2)"
proof -
  have "pkcs1_message example_block = Some [0xCA, 0xFE]" by (simp add: pkcs1_message_def example_block_def)
  then show ?thesis
    using strip_02_is_pkcs1 [of example_block 13 "\<lambda>k. Some (replicate k 0)" 4 "[9, 9, 9, 9]"]
    by (simp add: example_block_def memcpy_at_def)
qed

text \<open>The comment of the source says that a shorter input is padded with zeros on the left and that the
  checks then fail. With one byte less than the modulus, the leading zero left out, they pass; the
  message comes back without its first byte.\<close>

lemma short_block_loses_byte:
  "sc_pkcs1_strip_02_padding_constant_time (\<lambda>k. Some (replicate k 0)) 13 (Some (tl example_block)) 12 [9, 9, 9, 9] (Some 4) =
     Some (1, [0xFE, 9, 9, 9], Some 1)"
proof -
  have "separator (0 # tl example_block) = 10" by (simp add: separator_def example_block_def)
  moreover have "stripped_ok (0 # tl example_block) 12 4"
    using calculation by (simp add: stripped_ok_def example_block_def)
  ultimately show ?thesis
    using strip_02_core [of "tl example_block" 12 13 "\<lambda>k. Some (replicate k 0)" 4 "[9, 9, 9, 9]"]
    by (simp add: example_block_def memcpy_at_def)
qed

section \<open>Padding of type 1 and the prefix are removed again\<close>

lemma skip_ff_replicate: "skip_ff (replicate k 0xFF @ bs) = skip_ff bs"
  by (induction k) simp_all

lemma add_01_bytes:
  assumes "length inp + 11 \<le> modlen" and "modlen \<le> out_len" and "out_len \<le> length out"
  shows "sc_pkcs1_add_01_padding inp out out_len modlen =
    (Inr modlen, [0, 1] @ replicate (modlen - length inp - 3) 0xFF @ [0] @ inp @ drop modlen out)"
proof -
  define i where "i = modlen - length inp"
  have i: "11 \<le> i" "i + length inp = modlen" "modlen \<le> length out" using assms by (auto simp: i_def)
  obtain x y mid z where out: "take i out = x # y # mid @ [z]" "length mid = i - 3"
  proof -
    have "length (take i out) = i" using i by simp
    with i that [of "take i out ! 0" "take i out ! 1" "butlast (drop 2 (take i out))" "last (take i out)"] show thesis
      by (cases "take i out"; cases "tl (take i out)"; cases "tl (tl (take i out))") auto
  qed
  have pos: "i - 3 + 2 = i - 1" using i by simp
  have fill: "memcpy_at (0 # 1 # (mid @ [z]) @ inp @ drop modlen out) 2 (replicate (i - 3) 0xFF) =
    0 # 1 # replicate (i - 3) 0xFF @ [z] @ inp @ drop modlen out"
    using out(2) by (simp add: memcpy_at_def numeral_2_eq_2)
  have "sc_pkcs1_add_01_padding inp out out_len modlen =
    (Inr modlen, (memcpy_at (0 # 1 # (mid @ [z]) @ inp @ drop modlen out) 2 (replicate (i - 3) 0xFF))[2 + (i - 3) := 0])"
    using assms i out(1) by (simp add: sc_pkcs1_add_01_padding_def Let_def i_def [symmetric] memcpy_at_def [of out])
  then show ?thesis unfolding fill using out(2) by (simp add: i_def [symmetric] list_update_append)
qed

text \<open>Padding of type 1 fills the block up to the length of the modulus, and removing it gives the data
  back, for every length the modulus has room for.\<close>
lemma padding_01_removed:
  assumes "length inp + 11 \<le> modlen" and "modlen \<le> out_len" and "out_len \<le> length out"
    and "length inp \<le> blen" and "blen \<le> length buf"
    and "sc_pkcs1_add_01_padding inp out out_len modlen = (Inr n, b)"
  shows "n = modlen \<and> length b = length out \<and>
    sc_pkcs1_strip_01_padding (Some (take n b)) (Some buf) blen = Inr (Some (length inp), Some (memcpy_at buf 0 inp))"
proof -
  define k where "k = modlen - length inp - 3"
  have k: "8 \<le> k" "modlen = k + length inp + 3" using assms(1) by (auto simp: k_def)
  have b: "n = modlen" "b = [0, 1] @ replicate k 0xFF @ [0] @ inp @ drop modlen out"
    using add_01_bytes [OF assms(1-3)] assms(6) by (auto simp: k_def)
  define em where "em = 0 # 1 # replicate k 0xFF @ 0 # inp"
  have "b = em @ drop modlen out" "n = length em" using b k by (simp_all add: em_def)
  then have t: "take n b = 0 # 1 # replicate k 0xFF @ 0 # inp" by (simp add: em_def)
  have "length b = length out" using b k assms by simp
  moreover have "sc_pkcs1_strip_01_padding (Some (take n b)) (Some buf) blen = Inr (Some (length inp), Some (memcpy_at buf 0 inp))"
    unfolding t using k assms(4) by (simp add: sc_pkcs1_strip_01_padding_def Let_def skip_ff_replicate)
  ultimately show ?thesis using b by simp
qed

lemma padding_01_example:
  "sc_pkcs1_strip_01_padding (Some ([0, 1] @ replicate 11 0xFF @ [0, 5, 6])) (Some [7, 7]) 2 = Inr (Some 2, Some [5, 6])"
proof -
  have "sc_pkcs1_add_01_padding [5, 6] (replicate 16 0) 16 16 = (Inr 16, [0, 1] @ replicate 11 0xFF @ [0, 5, 6])"
    using add_01_bytes [of "[5, 6]" 16 16 "replicate 16 0"] by simp
  from padding_01_removed [OF _ _ _ _ _ this, where blen = 2 and buf = "[7, 7]"] show ?thesis
    by (simp add: memcpy_at_def)
qed

lemma hdr_lengths:
  "length hdr_md5 = 18" "length hdr_sha1 = 15" "length hdr_sha256 = 19" "length hdr_sha384 = 19"
  "length hdr_sha512 = 19" "length hdr_sha224 = 19" "length hdr_ripemd160 = 15"
  by (simp_all add: hdr_md5_def hdr_sha1_def hdr_sha256_def hdr_sha384_def hdr_sha512_def hdr_sha224_def hdr_ripemd160_def)

lemma hdr_differ: "hdr_sha1 \<noteq> hdr_ripemd160"
  by (simp add: hdr_sha1_def hdr_ripemd160_def)

text \<open>For every hash algorithm of the table, the DigestInfo prefix put before a hash of the algorithm's
  length is recognised again: the same algorithm, and the hash.\<close>
lemma digest_info_recognised:
  assumes "algorithm \<noteq> SC_ALGORITHM_RSA_HASH_NONE" and "length buf \<ge> blen" and "blen \<ge> length inp"
    and "out_len \<le> length out" and "sc_pkcs1_add_digest_info_prefix algorithm inp out out_len = Inr (n, b)"
  shows "sc_pkcs1_strip_digest_info_prefix (take n b) (Some buf) blen =
    (Some algorithm, Inr (Some (length inp, memcpy_at buf 0 inp)))"
proof -
  obtain hdr where alg: "(algorithm, hdr, length inp) \<in> set digest_info_prefix" and t: "take n b = hdr @ inp"
  proof -
    have "\<exists>hdr. (algorithm, hdr, length inp) \<in> set t \<and> take n b = hdr @ inp"
      if "add_prefix t algorithm inp out out_len = Inr (n, b)" for t
      using that assms(4) by (induction t) (auto split: if_splits simp: memcpy_at_def)
    then show thesis using that assms(5) unfolding sc_pkcs1_add_digest_info_prefix_def by blast
  qed
  have "(algorithm, hdr, length inp) \<in> set (tl digest_info_prefix)"
    using alg assms(1) by (auto simp: digest_info_prefix_def)
  then show ?thesis
    unfolding sc_pkcs1_strip_digest_info_prefix_def t digest_info_prefix_def list.sel list.set insert_iff prod.inject empty_iff
    using assms(3) hdr_differ by (elim disjE conjE) (simp_all add: hdr_lengths)
qed

lemma digest_info_example:
  "sc_pkcs1_strip_digest_info_prefix (hdr_sha1 @ replicate 20 7) (Some (replicate 20 0)) 20 =
     (Some SC_ALGORITHM_RSA_HASH_SHA1, Inr (Some (20, replicate 20 7)))"
proof -
  have "sc_pkcs1_add_digest_info_prefix SC_ALGORITHM_RSA_HASH_SHA1 (replicate 20 7) (replicate 35 0) 35 =
    Inr (35, hdr_sha1 @ replicate 20 7)"
    by (simp add: sc_pkcs1_add_digest_info_prefix_def digest_info_prefix_def hdr_lengths memcpy_at_def)
  from digest_info_recognised [OF _ _ _ _ this, where buf = "replicate 20 0" and blen = 20] show ?thesis
    by (simp add: hdr_lengths memcpy_at_0)
qed

end
