(* ===== verification/Sc_Pss.thy ===== *)
theory Sc_Pss
  imports Sc_Padding
begin

unbundle bit_operations_syntax

text \<open>
  The paddings of PKCS#1 version 2 (OAEP, PSS), the general encoder and the choice of the padding
  (\<open>padding.c\<close>). The digests of OpenSSL and its random bytes are parameters.
\<close>

section \<open>OpenSSL\<close>

text \<open>\<open>evp_fetch\<close>: whether a digest of this name is there; \<open>evp_ctx\<close>: whether a context can be had; the
  digest of a message is \<open>None\<close> when one of the three calls (init, update, final) fails.\<close>

record evp =
  evp_fetch :: "string \<Rightarrow> bool"
  evp_ctx :: bool
  evp_size :: "string \<Rightarrow> nat"
  evp_digest :: "string \<Rightarrow> bytes \<Rightarrow> bytes option"
  rand_bytes :: "nat \<Rightarrow> bytes option"

definition sc_evp_md :: "evp \<Rightarrow> string \<Rightarrow> string option" where
  "sc_evp_md ev name = (if evp_fetch ev name then Some name else None)"

abbreviation (input) SC_ALGORITHM_MGF1_SHA1 :: "'a::len word" where "SC_ALGORITHM_MGF1_SHA1 \<equiv> 0x00100000"
abbreviation (input) SC_ALGORITHM_MGF1_SHA256 :: "'a::len word" where "SC_ALGORITHM_MGF1_SHA256 \<equiv> 0x00200000"
abbreviation (input) SC_ALGORITHM_MGF1_SHA384 :: "'a::len word" where "SC_ALGORITHM_MGF1_SHA384 \<equiv> 0x00400000"
abbreviation (input) SC_ALGORITHM_MGF1_SHA512 :: "'a::len word" where "SC_ALGORITHM_MGF1_SHA512 \<equiv> 0x00800000"
abbreviation (input) SC_ALGORITHM_MGF1_SHA224 :: "'a::len word" where "SC_ALGORITHM_MGF1_SHA224 \<equiv> 0x01000000"
abbreviation (input) SC_ALGORITHM_MGF1_HASHES :: "'a::len word" where "SC_ALGORITHM_MGF1_HASHES \<equiv> 0x01F00000"

definition hash_flag2md :: "evp \<Rightarrow> u64 \<Rightarrow> string option" where
  "hash_flag2md ev hash =
    (let h = hash AND SC_ALGORITHM_RSA_HASHES in
     if h = SC_ALGORITHM_RSA_HASH_SHA1 then sc_evp_md ev ''SHA1''
     else if h = SC_ALGORITHM_RSA_HASH_SHA224 then sc_evp_md ev ''SHA224''
     else if h = SC_ALGORITHM_RSA_HASH_SHA256 then sc_evp_md ev ''SHA256''
     else if h = SC_ALGORITHM_RSA_HASH_SHA384 then sc_evp_md ev ''SHA384''
     else if h = SC_ALGORITHM_RSA_HASH_SHA512 then sc_evp_md ev ''SHA512''
     else None)"

definition mgf1_flag2md :: "evp \<Rightarrow> u64 \<Rightarrow> string option" where
  "mgf1_flag2md ev flags =
    (let h = flags AND SC_ALGORITHM_MGF1_HASHES in
     if h = SC_ALGORITHM_MGF1_SHA1 then sc_evp_md ev ''SHA1''
     else if h = SC_ALGORITHM_MGF1_SHA224 then sc_evp_md ev ''SHA224''
     else if h = SC_ALGORITHM_MGF1_SHA256 then sc_evp_md ev ''SHA256''
     else if h = SC_ALGORITHM_MGF1_SHA384 then sc_evp_md ev ''SHA384''
     else if h = SC_ALGORITHM_MGF1_SHA512 then sc_evp_md ev ''SHA512''
     else None)"

definition hash_len2algo :: "nat \<Rightarrow> u64" where
  "hash_len2algo hash_len =
    (if hash_len = 20 then SC_ALGORITHM_RSA_HASH_SHA1
     else if hash_len = 28 then SC_ALGORITHM_RSA_HASH_SHA224
     else if hash_len = 32 then SC_ALGORITHM_RSA_HASH_SHA256
     else if hash_len = 48 then SC_ALGORITHM_RSA_HASH_SHA384
     else if hash_len = 64 then SC_ALGORITHM_RSA_HASH_SHA512
     else SC_ALGORITHM_RSA_HASH_NONE)"

section \<open>The mask generation function\<close>

text \<open>The counter as four bytes.\<close>

definition cnt_bytes :: "nat \<Rightarrow> bytes" where
  "cnt_bytes i = [of_nat (i div 2 ^ 24), of_nat (i div 2 ^ 16), of_nat (i div 2 ^ 8), of_nat i]"

text \<open>\<open>acc\<close> is the part of the mask written so far; the fuel is the length of the mask, since every round
  of a digest that is not empty writes at least a byte. \<open>Inl 1\<close> is the failure the source returns.\<close>

fun mgf1_loop :: "nat \<Rightarrow> evp \<Rightarrow> string \<Rightarrow> bytes \<Rightarrow> nat \<Rightarrow> nat \<Rightarrow> bytes \<Rightarrow> bytes res" where
  "mgf1_loop 0 ev md seed len i acc = (if length acc < len then Inl OUT_OF_FUEL else Inr acc)"
| "mgf1_loop (Suc f) ev md seed len i acc =
    (if length acc < len then
       (case evp_digest ev md (seed @ cnt_bytes i) of
          None \<Rightarrow> Inl 1
        | Some h \<Rightarrow>
           if length acc + evp_size ev md \<le> len then mgf1_loop f ev md seed len (Suc i) (acc @ h)
           else Inr (acc @ take (len - length acc) h))
     else Inr acc)"

definition mgf1 :: "evp \<Rightarrow> nat \<Rightarrow> bytes \<Rightarrow> string \<Rightarrow> bytes res" where
  "mgf1 ev len seed md = (if \<not> evp_ctx ev then Inl 1 else mgf1_loop len ev md seed len 0 [])"

abbreviation xor_bytes :: "bytes \<Rightarrow> bytes \<Rightarrow> bytes" where
  "xor_bytes \<equiv> map2 (XOR)"

section \<open>Removing OAEP padding\<close>

text \<open>The search for the separator: \<open>j\<close> counts the bytes and adds them up, \<open>i\<close> counts them.\<close>

fun oaep_scan :: "nat \<Rightarrow> nat \<Rightarrow> nat \<Rightarrow> bytes \<Rightarrow> nat option" where
  "oaep_scan mdlen i j [] = None"
| "oaep_scan mdlen i j (b # db) =
    (let j = j + unat b + 1; i = i + 1 in
     if i > mdlen \<and> j = i + 1 then Some i else oaep_scan mdlen i j db)"

definition oaep_label :: "evp \<Rightarrow> string \<Rightarrow> bytes \<Rightarrow> bytes res" where
  "oaep_label ev md param =
    (if \<not> evp_ctx ev then Inl SC_ERROR_INTERNAL
     else case evp_digest ev md param of
            None \<Rightarrow> Inl SC_ERROR_INTERNAL
          | Some label \<Rightarrow> if label = [] then Inl SC_ERROR_INTERNAL else Inr label)"

text \<open>The data block, unmasked, the hash of the label added to its first bytes.\<close>

definition oaep_block :: "evp \<Rightarrow> string \<Rightarrow> nat \<Rightarrow> bytes \<Rightarrow> bytes \<Rightarrow> bytes res" where
  "oaep_block ev md mdlen label data =
    (let dblen = length data - 1 - mdlen in
     case mgf1 ev mdlen (drop (mdlen + 1) data) md of
       Inl e \<Rightarrow> if e = OUT_OF_FUEL then Inl e else Inl SC_ERROR_INTERNAL
     | Inr seed \<Rightarrow>
        let seed = xor_bytes seed (take mdlen (drop 1 data)) in
        case mgf1 ev dblen seed md of
          Inl e \<Rightarrow> if e = OUT_OF_FUEL then Inl e else Inl SC_ERROR_INTERNAL
        | Inr db \<Rightarrow>
           let db = xor_bytes db (drop (mdlen + 1) data)
           in Inr (xor_bytes (take (length label) db) label @ drop (length label) db))"

text \<open>The message is copied to the start of the data; its length is returned.\<close>

definition sc_pkcs1_strip_oaep_padding :: "evp \<Rightarrow> bytes option \<Rightarrow> u64 \<Rightarrow> bytes \<Rightarrow> nat res \<times> bytes option" where
  "sc_pkcs1_strip_oaep_padding ev data flags param =
    (case data of None \<Rightarrow> (Inl SC_ERROR_INTERNAL, data)
     | Some dat \<Rightarrow>
        (case hash_flag2md ev flags of None \<Rightarrow> (Inl SC_ERROR_NOT_SUPPORTED, data)
         | Some hash_md \<Rightarrow>
            (case oaep_label ev hash_md param of Inl e \<Rightarrow> (Inl e, data)
             | Inr label \<Rightarrow>
                (case mgf1_flag2md ev flags of None \<Rightarrow> (Inl SC_ERROR_NOT_SUPPORTED, data)
                 | Some mgf1_md \<Rightarrow>
                    let mdlen = evp_size ev mgf1_md; len = length dat; dblen = len - 1 - mdlen in
                    if len < 2 * mdlen + 2 then (Inl SC_ERROR_WRONG_PADDING, data)
                    else if hd dat \<noteq> 0 then (Inl SC_ERROR_WRONG_PADDING, data)
                    else if dblen > 512 then (Inl SC_ERROR_INTERNAL, data)
                    else
                      (case oaep_block ev mgf1_md mdlen label dat of Inl e \<Rightarrow> (Inl e, data)
                       | Inr db \<Rightarrow>
                          (case oaep_scan mdlen 0 0 db of None \<Rightarrow> (Inl SC_ERROR_WRONG_PADDING, data)
                           | Some i \<Rightarrow> (Inr (dblen - i), Some (memcpy_at dat 0 (drop i db)))))))))"

section \<open>Adding PSS padding\<close>

fun pss_rounds :: "nat \<Rightarrow> evp \<Rightarrow> string \<Rightarrow> bytes \<Rightarrow> nat \<Rightarrow> nat \<Rightarrow> bytes \<Rightarrow> bytes res" where
  "pss_rounds 0 ev md z dblen round out = Inr out"
| "pss_rounds (Suc n) ev md z dblen round out =
    (case evp_digest ev md (z @ cnt_bytes round) of
       None \<Rightarrow> Inl SC_ERROR_INTERNAL
     | Some msk \<Rightarrow>
        let i = round * evp_size ev md;
            k = min (evp_size ev md) (dblen - i)
        in pss_rounds n ev md z dblen (Suc round)
             (memcpy_at out i (xor_bytes (take k (drop i out)) (take k msk))))"

text \<open>\<open>out\<close> is the caller's buffer; the result is its first \<open>mod_length\<close> bytes.\<close>

definition sc_pkcs1_add_pss_padding ::
  "evp \<Rightarrow> u64 \<Rightarrow> u64 \<Rightarrow> bytes \<Rightarrow> bytes \<Rightarrow> nat \<Rightarrow> nat \<Rightarrow> nat \<Rightarrow> bytes res" where
  "sc_pkcs1_add_pss_padding ev hash mgf1_hash inp out out_len mod_bits sLen =
    (let mod_length = (mod_bits + 7) div 8 in
     if out_len < mod_length then Inl SC_ERROR_BUFFER_TOO_SMALL
     else case hash_flag2md ev hash of None \<Rightarrow> Inl SC_ERROR_NOT_SUPPORTED
     | Some md \<Rightarrow>
        let hlen = evp_size ev md; dblen = mod_length - hlen - 1; plen = mod_length - sLen - hlen - 1 in
        if length inp \<noteq> hlen then Inl SC_ERROR_INVALID_ARGUMENTS
        else if sLen + hlen + 2 > mod_length then Inl SC_ERROR_NOT_SUPPORTED
        else if sLen > 512 then Inl SC_ERROR_INVALID_ARGUMENTS
        else case rand_bytes ev sLen of None \<Rightarrow> Inl SC_ERROR_INTERNAL
        | Some salt \<Rightarrow>
           if \<not> evp_ctx ev then Inl SC_ERROR_INTERNAL
           else case evp_digest ev md (replicate 8 0 @ inp @ salt) of None \<Rightarrow> Inl SC_ERROR_INTERNAL
           | Some h \<Rightarrow>
              let out = memcpy_at out 0 (replicate (plen - 1) 0);
                  out = out[plen - 1 := 1];
                  out = memcpy_at out plen salt;
                  out = memcpy_at out dblen h;
                  out = out[dblen + hlen := 0xBC]
              in case mgf1_flag2md ev mgf1_hash of None \<Rightarrow> Inl SC_ERROR_INTERNAL
                 | Some mgf1_md \<Rightarrow>
                    let mgf1_hlen = evp_size ev mgf1_md;
                        mgf_rounds = (dblen + mgf1_hlen - 1) div mgf1_hlen
                    in case pss_rounds mgf_rounds ev mgf1_md (take hlen (drop dblen out)) dblen 0 out of
                         Inl e \<Rightarrow> Inl e
                       | Inr out \<Rightarrow>
                          Inr (take mod_length
                            (out[0 := out ! 0 AND drop_bit (8 * mod_length - mod_bits + 1) 0xff])))"

section \<open>The general encoder\<close>

abbreviation (input) SC_ALGORITHM_RSA_RAW :: "'a::len word" where "SC_ALGORITHM_RSA_RAW \<equiv> 0x00000001"
abbreviation (input) SC_ALGORITHM_RSA_PADS :: "'a::len word" where "SC_ALGORITHM_RSA_PADS \<equiv> 0x000000FF"
abbreviation (input) SC_ALGORITHM_RSA_PAD_NONE :: "'a::len word" where "SC_ALGORITHM_RSA_PAD_NONE \<equiv> 0x00000001"
abbreviation (input) SC_ALGORITHM_RSA_PAD_PSS :: "'a::len word" where "SC_ALGORITHM_RSA_PAD_PSS \<equiv> 0x00000010"
abbreviation (input) SC_ALGORITHM_RSA_PAD_OAEP :: "'a::len word" where "SC_ALGORITHM_RSA_PAD_OAEP \<equiv> 0x00000020"
abbreviation (input) SC_ALGORITHM_RSA_PAD_PKCS1_TYPE_01 :: "'a::len word" where "SC_ALGORITHM_RSA_PAD_PKCS1_TYPE_01 \<equiv> 0x00000040"
abbreviation (input) SC_ALGORITHM_RSA_PAD_PKCS1_TYPE_02 :: "'a::len word" where "SC_ALGORITHM_RSA_PAD_PKCS1_TYPE_02 \<equiv> 0x00000080"
abbreviation (input) SC_ALGORITHM_RSA_PAD_PKCS1 :: "'a::len word" where "SC_ALGORITHM_RSA_PAD_PKCS1 \<equiv> 0x000000C0"
abbreviation (input) SC_ALGORITHM_AES :: "'a::len word" where "SC_ALGORITHM_AES \<equiv> 67"
abbreviation (input) SC_ALGORITHM_AES_CBC_PAD :: "'a::len word" where "SC_ALGORITHM_AES_CBC_PAD \<equiv> 0x04000000"
abbreviation (input) SC_ALGORITHM_AES_FLAGS :: "'a::len word" where "SC_ALGORITHM_AES_FLAGS \<equiv> 0x0F000000"

text \<open>\<open>slen\<close>: the length of the salt of a PSS mechanism, when the caller gives its parameters. The result
  is what the source leaves in the buffer, as many bytes as it announces.\<close>

definition sc_pkcs1_encode :: "evp \<Rightarrow> u64 \<Rightarrow> bytes \<Rightarrow> bytes \<Rightarrow> nat \<Rightarrow> nat \<Rightarrow> nat option \<Rightarrow> bytes res" where
  "sc_pkcs1_encode ev flags inp out out_len mod_bits slen =
    (let mod_len = (mod_bits + 7) div 8;
         hash_algo = flags AND SC_ALGORITHM_RSA_HASHES;
         pad_algo = flags AND SC_ALGORITHM_RSA_PADS;
         pad_algo = (if pad_algo = 0 then SC_ALGORITHM_RSA_PAD_NONE else pad_algo);
         prefixed = (if (pad_algo = SC_ALGORITHM_RSA_PAD_PKCS1_TYPE_01 \<or> pad_algo = SC_ALGORITHM_RSA_PAD_NONE) \<and>
                        hash_algo \<noteq> SC_ALGORITHM_RSA_HASH_NONE
                     then ebind (sc_pkcs1_add_digest_info_prefix (ucast hash_algo) inp out out_len)
                            (\<lambda>(n, b). Inr (take n b, b))
                     else Inr (inp, out))
     in ebind prefixed (\<lambda>(tmp, out).
          if pad_algo = SC_ALGORITHM_RSA_PAD_NONE then Inr tmp
          else if pad_algo = SC_ALGORITHM_RSA_PAD_PKCS1_TYPE_01 then
            (case sc_pkcs1_add_01_padding tmp out out_len mod_len of
               (Inl e, _) \<Rightarrow> Inl e
             | (Inr n, b) \<Rightarrow> Inr (take n b))
          else if pad_algo = SC_ALGORITHM_RSA_PAD_PSS then
            (let hash_algo = (if hash_algo = SC_ALGORITHM_RSA_HASH_NONE then hash_len2algo (length tmp) else hash_algo)
             in case hash_flag2md ev hash_algo of
                  None \<Rightarrow> Inl SC_ERROR_NOT_SUPPORTED
                | Some md \<Rightarrow>
                   sc_pkcs1_add_pss_padding ev hash_algo (flags AND SC_ALGORITHM_MGF1_HASHES) tmp out out_len mod_bits
                     (case slen of None \<Rightarrow> evp_size ev md | Some s \<Rightarrow> s))
          else Inl SC_ERROR_INTERNAL))"

text \<open>Which part of an operation the library does (\<open>pflags\<close>), and which the card (\<open>sflags\<close>, whose old value is
  kept in one branch).\<close>

definition sc_get_encoding_flags :: "u64 \<Rightarrow> u64 \<Rightarrow> u64 \<Rightarrow> (u64 \<times> u64) res" where
  "sc_get_encoding_flags iflags caps sflags =
    (if caps AND iflags = iflags then Inr (0, iflags)
     else if caps AND SC_ALGORITHM_RSA_PAD_PSS \<noteq> 0 \<and> iflags AND SC_ALGORITHM_RSA_PAD_PSS \<noteq> 0 then
       Inr (iflags AND NOT (iflags AND (SC_ALGORITHM_MGF1_HASHES OR SC_ALGORITHM_RSA_PAD_PSS)),
            (sflags OR SC_ALGORITHM_RSA_PAD_PSS) OR (iflags AND SC_ALGORITHM_MGF1_HASHES))
     else if caps AND SC_ALGORITHM_RSA_RAW \<noteq> 0 \<and>
        (iflags AND SC_ALGORITHM_RSA_PAD_PKCS1 \<noteq> 0 \<or> iflags AND SC_ALGORITHM_RSA_PAD_PSS \<noteq> 0 \<or>
         iflags AND SC_ALGORITHM_RSA_PAD_OAEP \<noteq> 0 \<or> iflags AND SC_ALGORITHM_RSA_PAD_NONE \<noteq> 0) then
       Inr (iflags, SC_ALGORITHM_RSA_PAD_NONE)
     else if caps AND (SC_ALGORITHM_RSA_PAD_PKCS1_TYPE_01 OR SC_ALGORITHM_RSA_HASH_NONE) \<noteq> 0 \<and>
        iflags AND SC_ALGORITHM_RSA_PAD_PKCS1_TYPE_01 \<noteq> 0 then
       Inr (iflags AND SC_ALGORITHM_RSA_HASHES, SC_ALGORITHM_RSA_PAD_PKCS1_TYPE_01 OR SC_ALGORITHM_RSA_HASH_NONE)
     else if caps AND (SC_ALGORITHM_RSA_PAD_PKCS1_TYPE_02 OR SC_ALGORITHM_RSA_HASH_NONE) \<noteq> 0 \<and>
        iflags AND SC_ALGORITHM_RSA_PAD_PKCS1_TYPE_02 \<noteq> 0 then
       Inr (iflags AND SC_ALGORITHM_RSA_HASHES, SC_ALGORITHM_RSA_PAD_PKCS1_TYPE_02 OR SC_ALGORITHM_RSA_HASH_NONE)
     else if iflags AND SC_ALGORITHM_AES = SC_ALGORITHM_AES then Inr (0, 0)
     else if iflags AND SC_ALGORITHM_AES_FLAGS > 0 then
       Inr (if iflags AND SC_ALGORITHM_AES_CBC_PAD \<noteq> 0 then SC_ALGORITHM_AES_CBC_PAD else 0,
            iflags AND SC_ALGORITHM_AES_FLAGS)
     else Inl SC_ERROR_NOT_SUPPORTED)"

section \<open>The mask generation function of the standard\<close>

text \<open>\<open>digest_ok ev md H\<close>: the digest \<open>md\<close> of OpenSSL computes the function \<open>H\<close>, of a fixed length.\<close>

definition digest_ok :: "evp \<Rightarrow> string \<Rightarrow> (bytes \<Rightarrow> bytes) \<Rightarrow> bool" where
  "digest_ok ev md H \<longleftrightarrow> evp_ctx ev \<and> 0 < evp_size ev md \<and>
    (\<forall>x. evp_digest ev md x = Some (H x) \<and> length (H x) = evp_size ev md)"

definition mgf1_blocks :: "(bytes \<Rightarrow> bytes) \<Rightarrow> bytes \<Rightarrow> nat \<Rightarrow> bytes" where
  "mgf1_blocks H seed n = concat (map (\<lambda>i. H (seed @ cnt_bytes i)) [0..<n])"

definition MGF1 :: "(bytes \<Rightarrow> bytes) \<Rightarrow> bytes \<Rightarrow> nat \<Rightarrow> bytes" where
  "MGF1 H seed len = take len (mgf1_blocks H seed len)"

lemma digest_okD:
  assumes "digest_ok ev md H"
  shows "evp_ctx ev" and "0 < evp_size ev md" and "evp_digest ev md x = Some (H x)" and "length (H x) = evp_size ev md"
  using assms by (auto simp: digest_ok_def)

lemma length_blocks: "digest_ok ev md H \<Longrightarrow> length (mgf1_blocks H seed n) = n * evp_size ev md"
  by (induction n) (auto simp: mgf1_blocks_def digest_okD)

lemma blocks_Suc: "mgf1_blocks H seed (Suc n) = mgf1_blocks H seed n @ H (seed @ cnt_bytes n)"
  by (simp add: mgf1_blocks_def)

lemma blocks_add: "mgf1_blocks H seed (i + k) = mgf1_blocks H seed i @ concat (map (\<lambda>j. H (seed @ cnt_bytes j)) [i..<i + k])"
  using upt_add_eq_append [of 0 i k] by (simp add: mgf1_blocks_def)

lemma take_blocks: "len \<le> length (mgf1_blocks H seed i) \<Longrightarrow> i \<le> n \<Longrightarrow>
  take len (mgf1_blocks H seed n) = take len (mgf1_blocks H seed i)"
  using blocks_add [of H seed i "n - i"] by simp

lemma MGF1_length: "digest_ok ev md H \<Longrightarrow> length (MGF1 H seed len) = len"
  using digest_okD(2) [of ev md H] by (simp add: MGF1_def length_blocks)

lemma MGF1_enough:
  assumes "digest_ok ev md H" and "len \<le> n * evp_size ev md"
  shows "MGF1 H seed len = take len (mgf1_blocks H seed n)"
proof (cases "n \<le> len")
  case True
  then show ?thesis using assms take_blocks [of len H seed n len] by (simp add: MGF1_def length_blocks)
next
  case False
  have "len \<le> len * evp_size ev md" using digest_okD(2) [OF assms(1)] by simp
  then show ?thesis using False assms(1) take_blocks [of len H seed len n] by (simp add: MGF1_def length_blocks)
qed

lemma mgf1_loop_blocks:
  assumes ok: "digest_ok ev md H"
  shows "acc = mgf1_blocks H seed i \<Longrightarrow> length acc \<le> len \<Longrightarrow> len \<le> length acc + f \<Longrightarrow>
    mgf1_loop f ev md seed len i acc = Inr (MGF1 H seed len)"
proof (induction f arbitrary: i acc)
  case 0
  then have "len = i * evp_size ev md" by (simp add: length_blocks [OF ok])
  then show ?case using 0 MGF1_enough [OF ok, of len i seed] by (simp add: length_blocks [OF ok])
next
  case (Suc f)
  have pos: "0 < evp_size ev md" and dig: "evp_digest ev md x = Some (H x)" and hl: "length (H x) = evp_size ev md" for x
    using digest_okD [OF ok] by auto
  have la: "length acc = i * evp_size ev md" using Suc.prems(1) by (simp add: length_blocks [OF ok])
  have next_block: "acc @ H (seed @ cnt_bytes i) = mgf1_blocks H seed (Suc i)" using Suc.prems(1) by (simp add: blocks_Suc)
  consider (full) "length acc = len" | (more) "length acc + evp_size ev md \<le> len"
    | (last) "length acc < len" "len < length acc + evp_size ev md" using Suc.prems(2) by linarith
  then show ?case
  proof cases
    case full
    then show ?thesis using MGF1_enough [OF ok, of len i seed] la Suc.prems(1) by simp
  next
    case more
    have "mgf1_loop f ev md seed len (Suc i) (acc @ H (seed @ cnt_bytes i)) = Inr (MGF1 H seed len)"
      using more pos Suc.prems(3) by (intro Suc.IH next_block) (auto simp: hl)
    then show ?thesis using more pos by (simp add: dig)
  next
    case last
    have "acc @ take (len - length acc) (H (seed @ cnt_bytes i)) = take len (mgf1_blocks H seed (Suc i))"
      unfolding next_block [symmetric] using last by simp
    also have "\<dots> = MGF1 H seed len"
      using MGF1_enough [OF ok, of len "Suc i" seed] last la by simp
    finally show ?thesis using last by (simp add: dig)
  qed
qed

lemma mgf1_is_MGF1: "digest_ok ev md H \<Longrightarrow> mgf1 ev len seed md = Inr (MGF1 H seed len)"
  using mgf1_loop_blocks [of ev md H "[]" seed 0 len len] digest_okD(1) [of ev md H]
  by (simp add: mgf1_def mgf1_blocks_def)

section \<open>OAEP\<close>

lemma xor_back: "length a = length b \<Longrightarrow> xor_bytes b (xor_bytes a b) = a"
  by (induction a b rule: list_induct2) (simp_all add: xor.left_commute)

text \<open>The encoding of the standard: \<open>k\<close> is the length of the modulus, \<open>lhash\<close> the hash of the label.\<close>

definition oaep_encode :: "bytes \<Rightarrow> (bytes \<Rightarrow> nat \<Rightarrow> bytes) \<Rightarrow> nat \<Rightarrow> bytes \<Rightarrow> bytes \<Rightarrow> bytes" where
  "oaep_encode lhash G k seed m =
    (let hlen = length lhash;
         db = lhash @ replicate (k - length m - 2 * hlen - 2) 0 @ [1] @ m;
         masked_db = xor_bytes db (G seed (k - hlen - 1));
         masked_seed = xor_bytes seed (G masked_db hlen)
     in 0 # masked_seed @ masked_db)"

lemma oaep_scan_first:
  "mdlen \<le> i + z \<Longrightarrow> oaep_scan mdlen i i (replicate z 0 @ 1 # m) = Some (i + z + 1)"
  by (induction z arbitrary: i) (simp_all add: Let_def)

lemma xor_self: "xor_bytes a a = replicate (length a) 0"
  by (induction a) simp_all

text \<open>What the code sees of an encoded block: \<open>lhash\<close> is the hash the block was made with, \<open>z\<close> the number of
  padding bytes.\<close>

lemma strip_encoded:
  fixes param :: bytes
  assumes hash: "hash_flag2md ev flags = Some hmd" "digest_ok ev hmd H"
    and mgf: "mgf1_flag2md ev flags = Some gmd" "digest_ok ev gmd G"
    and size: "evp_size ev hmd = hl" "evp_size ev gmd = hl" and seed: "length seed = hl" and lh: "length lhash = hl"
    and k: "k = length m + 2 * hl + 2 + z" and room: "length m + hl + 1 + z \<le> 512"
    and em: "em = oaep_encode lhash (MGF1 G) k seed m"
  defines "db \<equiv> xor_bytes lhash (H param) @ replicate z 0 @ 1 # m"
  shows "sc_pkcs1_strip_oaep_padding ev (Some em) flags param =
    (case oaep_scan hl 0 0 db of
       None \<Rightarrow> (Inl SC_ERROR_WRONG_PADDING, Some em)
     | Some i \<Rightarrow> (Inr (hl + z + 1 + length m - i), Some (memcpy_at em 0 (drop i db))))"
proof -
  define dl where "dl = hl + z + 1 + length m"
  have dl: "k - 1 - hl = dl" "k - hl - 1 = dl" "k - length m - 2 * hl - 2 = z" using k by (simp_all add: dl_def)
  define db0 where "db0 = lhash @ replicate z 0 @ [1] @ m"
  define mdb where "mdb = xor_bytes db0 (MGF1 G seed dl)"
  define mseed where "mseed = xor_bytes seed (MGF1 G mdb hl)"
  have lH: "length (H param) = hl" using digest_okD(4) [OF hash(2)] size by simp
  have pos: "0 < hl" using digest_okD(2) [OF hash(2)] size by simp
  have ldb: "length db0 = dl" using lh by (simp add: db0_def dl_def)
  have lmdb: "length mdb = dl" using ldb by (simp add: mdb_def MGF1_length [OF mgf(2)])
  have lms: "length mseed = hl" using seed by (simp add: mseed_def MGF1_length [OF mgf(2)])
  have em': "em = 0 # mseed @ mdb"
    unfolding em oaep_encode_def Let_def lh dl db0_def [symmetric] mdb_def [symmetric] mseed_def [symmetric] ..
  have lem: "length em = k" using k lms lmdb by (simp add: em' dl_def)
  have data: "drop (hl + 1) em = mdb" "take hl (drop 1 em) = mseed" using lms by (simp_all add: em')
  have s: "xor_bytes (MGF1 G mdb hl) mseed = seed"
    using xor_back [of seed "MGF1 G mdb hl"] seed by (simp add: mseed_def MGF1_length [OF mgf(2)])
  have d: "xor_bytes (MGF1 G seed dl) mdb = db0"
    using xor_back [of db0 "MGF1 G seed dl"] ldb by (simp add: mdb_def MGF1_length [OF mgf(2)])
  have label: "oaep_label ev hmd param = Inr (H param)"
    using pos lH digest_okD(1) [OF hash(2)] by (auto simp: oaep_label_def digest_okD(3) [OF hash(2)])
  have block: "oaep_block ev gmd hl (H param) em = Inr db"
    unfolding oaep_block_def Let_def lem data mgf1_is_MGF1 [OF mgf(2)] sum.case s dl d
    using lh by (simp add: db_def db0_def lH)
  have lens: "\<not> k < 2 * hl + 2" "\<not> dl > 512" "\<not> hd em \<noteq> 0" using k room by (auto simp: em' dl_def)
  show ?thesis
    unfolding sc_pkcs1_strip_oaep_padding_def option.case hash(1) label sum.case mgf(1) Let_def size lem dl
      block if_not_P [OF lens(1)] if_not_P [OF lens(2)] if_not_P [OF lens(3)] unfolding dl_def ..
qed


text \<open>The search for the separator adds up the bytes from the hash of the label on. A block made for
  another label, whose hash differs in the lowest bit of one byte, is accepted: the message that comes
  back is what follows, padding included. The standard asks for an error.\<close>

lemma oaep_wrong_label_accepted:
  assumes "hash_flag2md ev flags = Some hmd" "digest_ok ev hmd H"
    and "mgf1_flag2md ev flags = Some gmd" "digest_ok ev gmd G"
    and "evp_size ev hmd = hl" "evp_size ev gmd = hl" and "length seed = hl" and lh: "length lhash = hl"
    and k: "k = length m + 2 * hl + 2 + Suc y" "length m + hl + 1 + Suc y \<le> 512"
    and "em = oaep_encode lhash (MGF1 G) k seed m"
    and other: "xor_bytes lhash (H param) = replicate a 0 @ 1 # replicate b 0"
  shows "sc_pkcs1_strip_oaep_padding ev (Some em) flags param =
    (Inr (Suc y + length m), Some (memcpy_at em 0 (replicate y 0 @ 1 # m)))"
proof -
  have "length (xor_bytes lhash (H param)) = hl" using lh digest_okD(4) [OF assms(2)] assms(5) by simp
  then have ab: "hl = a + 1 + b" using other by simp
  have run: "oaep_scan hl i (i + 1) (replicate n 0 @ 0 # rest) = Some (hl + 1)" if "i + n = hl" for i n rest
    using that by (induction n arbitrary: i) (simp_all add: Let_def)
  have start: "oaep_scan hl i i (replicate n 0 @ 1 # rest) = oaep_scan hl (i + n + 1) (i + n + 2) rest" if "i + n < hl" for i n rest
    using that by (induction n arbitrary: i) (simp_all add: Let_def)
  have scan: "oaep_scan hl 0 0 ((replicate a 0 @ 1 # replicate b 0) @ replicate (Suc y) 0 @ 1 # m) = Some (hl + 1)"
    using start [of 0 a "replicate b 0 @ 0 # replicate y 0 @ 1 # m"] run [of "a + 1" b "replicate y 0 @ 1 # m"] ab by simp
  have rest: "drop (hl + 1) ((replicate a 0 @ 1 # replicate b 0) @ replicate (Suc y) 0 @ 1 # m) = replicate y 0 @ 1 # m"
    by (simp add: ab)
  show ?thesis
    using strip_encoded [OF assms(1-8) k assms(11), of param] unfolding other scan option.case rest by simp
qed

definition toy_evp :: evp where
  "toy_evp = \<lparr>evp_fetch = (\<lambda>_. True), evp_ctx = True, evp_size = (\<lambda>md. if md = ''SHA512'' then 2 else 1),
     evp_digest = (\<lambda>md x. Some (if md = ''SHA512'' then [foldl (+) 3 x, 5] else [foldl (+) 1 x])),
     rand_bytes = (\<lambda>n. Some (replicate n 9))\<rparr>"

lemma toy_digest: "digest_ok toy_evp ''SHA1'' (\<lambda>x. [foldl (+) 1 x])"
  by (simp add: digest_ok_def toy_evp_def)

lemma toy_flags:
  "hash_flag2md toy_evp 0x00100200 = Some ''SHA1''" "mgf1_flag2md toy_evp 0x00100200 = Some ''SHA1''"
  "hash_flag2md toy_evp 0x00800200 = Some ''SHA1''" "mgf1_flag2md toy_evp 0x00800200 = Some ''SHA512''"
  by (simp_all add: hash_flag2md_def mgf1_flag2md_def sc_evp_md_def toy_evp_def)


section \<open>PSS\<close>

text \<open>The verification of the standard: \<open>em_bits\<close> is one less than the number of bits of the modulus.\<close>

definition pss_verify :: "(bytes \<Rightarrow> bytes) \<Rightarrow> nat \<Rightarrow> (bytes \<Rightarrow> nat \<Rightarrow> bytes) \<Rightarrow> bytes \<Rightarrow> bytes \<Rightarrow> nat \<Rightarrow> nat \<Rightarrow> bool" where
  "pss_verify H hlen G mhash em em_bits slen =
    (let em_len = (em_bits + 7) div 8;
         dblen = em_len - hlen - 1;
         top = drop_bit (8 * em_len - em_bits) (0xff :: u8);
         masked_db = take dblen em;
         h = take hlen (drop dblen em);
         db = xor_bytes masked_db (G h dblen);
         db = db[0 := db ! 0 AND top]
     in length em = em_len \<and> hlen + slen + 2 \<le> em_len \<and> last em = 0xBC \<and> masked_db ! 0 AND NOT top = 0 \<and>
        take (dblen - slen - 1) db = replicate (dblen - slen - 1) 0 \<and> db ! (dblen - slen - 1) = 1 \<and>
        H (replicate 8 0 @ mhash @ drop (dblen - slen) db) = h)"

text \<open>The mask is applied block by block.\<close>

definition masked :: "(bytes \<Rightarrow> bytes) \<Rightarrow> bytes \<Rightarrow> nat \<Rightarrow> nat \<Rightarrow> bytes \<Rightarrow> bytes" where
  "masked H z n k out = xor_bytes (take k out) (mgf1_blocks H z n) @ drop k out"

lemma zip_take_le: "length xs = k \<Longrightarrow> zip xs (take k ys) = zip xs ys"
  using take_zip [of k xs ys] by simp

lemma pss_round:
  assumes ok: "digest_ok ev md H" and "r * evp_size ev md < dblen" and "dblen \<le> length out"
  defines "i \<equiv> r * evp_size ev md"
  defines "k \<equiv> min (evp_size ev md) (dblen - i)"
  shows "memcpy_at (masked H z r i out) i (xor_bytes (take k (drop i (masked H z r i out))) (take k (H (z @ cnt_bytes r)))) =
    masked H z (Suc r) (i + k) out"
proof -
  have li: "length (mgf1_blocks H z r) = i" by (simp add: length_blocks [OF ok] i_def)
  have hl: "length (H (z @ cnt_bytes r)) = evp_size ev md" by (rule digest_okD(4) [OF ok])
  have ik: "i + k \<le> length out" using assms(2,3) by (simp add: i_def k_def)
  define a where "a = take i out"
  define b where "b = take k (drop i out)"
  have la: "length a = i" "length b = k" using ik by (simp_all add: a_def b_def)
  have out: "take (i + k) out = a @ b" "drop i out = b @ drop (i + k) out"
    using append_take_drop_id [of k "drop i out"] by (simp_all add: a_def b_def take_add add.commute)
  have tk: "xor_bytes b (take k (H (z @ cnt_bytes r))) = xor_bytes b (H (z @ cnt_bytes r))"
    using la(2) zip_take_le [of b k "H (z @ cnt_bytes r)"] by simp
  have kh: "k \<le> length (H (z @ cnt_bytes r))" using hl by (simp add: k_def)
  show ?thesis
    using la li kh unfolding masked_def blocks_Suc out
    by (simp add: a_def [symmetric] memcpy_at_def tk)
qed

lemma pss_rounds_masked:
  assumes ok: "digest_ok ev md H" and len: "dblen \<le> length out" and hl: "hl = evp_size ev md"
  shows "n = 0 \<or> (r + n - 1) * hl < dblen \<Longrightarrow>
    pss_rounds n ev md z dblen r (masked H z r (min (r * hl) dblen) out) =
    Inr (masked H z (r + n) (min ((r + n) * hl) dblen) out)"
proof (induction n arbitrary: r)
  case (Suc n)
  have "r * hl \<le> (r + n) * hl" by simp
  moreover have "(r + n) * hl < dblen" using Suc.prems by simp
  ultimately have rb: "r * hl < dblen" by (rule le_less_trans)
  have step: "min (r * hl) dblen = r * hl" "r * hl + min hl (dblen - r * hl) = min (Suc r * hl) dblen" using rb by auto
  have "pss_rounds (Suc n) ev md z dblen r (masked H z r (min (r * hl) dblen) out) =
    pss_rounds n ev md z dblen (Suc r) (masked H z (Suc r) (min (Suc r * hl) dblen) out)"
    using pss_round [OF ok, of r dblen out z] rb len
    by (simp only: pss_rounds.simps digest_okD(3) [OF ok] option.case Let_def hl [symmetric] step)
  also have "\<dots> = Inr (masked H z (r + Suc n) (min ((r + Suc n) * hl) dblen) out)"
    using Suc.IH [of "Suc r"] Suc.prems by simp
  finally show ?case .
qed simp

lemma masked_MGF1:
  assumes "digest_ok ev md H" and "dblen \<le> n * evp_size ev md" and "dblen \<le> length out"
  shows "masked H z n dblen out = xor_bytes (take dblen out) (MGF1 H z dblen) @ drop dblen out"
  using assms zip_take_le [of "take dblen out" dblen "mgf1_blocks H z n"] by (simp add: masked_def MGF1_enough)

text \<open>The buffer before it is masked.\<close>

lemma pss_buffer:
  assumes "plen + length salt + length h + 1 \<le> length out" and "1 \<le> plen"
  shows "(memcpy_at (memcpy_at ((memcpy_at out 0 (replicate (plen - 1) 0))[plen - 1 := 1]) plen salt) (plen + length salt) h)
      [plen + length salt + length h := b] =
    replicate (plen - 1) 0 @ [1] @ salt @ h @ [b] @ drop (plen + length salt + length h + 1) out"
proof -
  obtain q where q: "plen = Suc q" using assms(2) by (cases plen) auto
  define s where "s = plen + length salt + length h"
  have one: "(memcpy_at out 0 (replicate (plen - 1) 0))[plen - 1 := 1] = (replicate q 0 @ [1]) @ drop plen out"
  proof -
    have "drop q out = out ! q # drop plen out" using assms(1) by (simp add: q Cons_nth_drop_Suc)
    then show ?thesis by (simp add: q memcpy_at_0 list_update_append)
  qed
  have "memcpy_at (memcpy_at ((replicate q 0 @ [1]) @ drop plen out) plen salt) (plen + length salt) h =
    (replicate q 0 @ [1] @ salt @ h) @ drop s out"
    using assms(1) by (simp add: memcpy_at_def q s_def ac_simps)
  moreover have "drop s out = out ! s # drop (s + 1) out"
    using assms(1) by (simp add: s_def Cons_nth_drop_Suc)
  ultimately show ?thesis
    unfolding one by (simp add: q s_def list_update_append)
qed

lemma top_mask: "1 \<le> s \<Longrightarrow> s \<le> 7 \<Longrightarrow> d = 0 \<or> d = 1 \<Longrightarrow> d AND drop_bit s (0xff :: u8) = d"
proof -
  assume "1 \<le> s" "s \<le> 7" "d = 0 \<or> d = 1"
  moreover from this have "s \<in> set [1..<8]" by simp
  ultimately show ?thesis by (auto simp: upt_rec)
qed

lemma mask_once: "(((d XOR x) AND t) XOR x) AND t = d AND (t :: u8)"
  by (rule bit_eqI) (auto simp: bit_simps)

lemma unmask:
  assumes "length db = length g" and "db \<noteq> []" and "db ! 0 AND t = db ! 0"
  shows "(xor_bytes ((xor_bytes db g)[0 := xor_bytes db g ! 0 AND t]) g)
      [0 := xor_bytes ((xor_bytes db g)[0 := xor_bytes db g ! 0 AND t]) g ! 0 AND t] = db"
proof -
  obtain d ds x xs where c: "db = d # ds" "g = x # xs" "length ds = length xs"
    using assms(1,2) by (cases db; cases g) auto
  have "xor_bytes (xor_bytes ds xs) xs = ds" using xor_back [OF c(3)] by (induction ds xs rule: list_induct2') (auto simp: c xor.assoc)
  then show ?thesis using assms(3) by (simp add: c mask_once)
qed

text \<open>The data block of the standard, and its masked form in which \<open>t\<close> clears the bits above the modulus.\<close>

definition pss_data :: "bytes \<Rightarrow> nat \<Rightarrow> bytes" where
  "pss_data salt dblen = replicate (dblen - length salt - 1) 0 @ [1] @ salt"

definition pss_masked :: "u8 \<Rightarrow> bytes \<Rightarrow> bytes \<Rightarrow> bytes" where
  "pss_masked t g db = (let x = xor_bytes db g in x[0 := x ! 0 AND t])"

lemma pss_length: "length salt + 1 \<le> dblen \<Longrightarrow> length (pss_data salt dblen) = dblen"
  by (simp add: pss_data_def)

text \<open>The rounds of the mask generation cover the data block.\<close>

lemma pss_rounds_enough:
  assumes mgf: "digest_ok ev gmd G" and len: "dblen \<le> length out" and n: "n = (dblen + evp_size ev gmd - 1) div evp_size ev gmd"
  shows "pss_rounds n ev gmd h dblen 0 out = Inr (xor_bytes (take dblen out) (MGF1 G h dblen) @ drop dblen out)"
proof -
  define gl where "gl = evp_size ev gmd"
  have gpos: "0 < gl" unfolding gl_def by (rule digest_okD(2) [OF mgf])
  have n2: "dblen \<le> n * gl" "n = 0 \<or> (0 + n - 1) * gl < dblen"
  proof -
    have "dblen + gl - 1 = n * gl + (dblen + gl - 1) mod gl"
      unfolding n gl_def by (simp only: div_mult_mod_eq)
    moreover have "(dblen + gl - 1) mod gl < gl" using gpos by simp
    ultimately show "dblen \<le> n * gl" using gpos by linarith
    have "n * gl \<le> dblen + gl - 1" by (simp add: n gl_def)
    then show "n = 0 \<or> (0 + n - 1) * gl < dblen" using gpos by (cases n) auto
  qed
  have "pss_rounds n ev gmd h dblen 0 out = Inr (masked G h n (min (n * gl) dblen) out)"
    using pss_rounds_masked [OF mgf len gl_def n2(2), of h] by (simp add: masked_def mgf1_blocks_def)
  also have "min (n * gl) dblen = dblen" using n2(1) by simp
  also have "masked G h n dblen out = xor_bytes (take dblen out) (MGF1 G h dblen) @ drop dblen out"
    using masked_MGF1 [OF mgf n2(1) [unfolded gl_def] len, of h] by simp
  finally show ?thesis .
qed

text \<open>The code builds the block of the standard from the salt it draws.\<close>

lemma pss_block_built:
  assumes hash: "hash_flag2md ev hash = Some md" "digest_ok ev md H"
    and mgf: "mgf1_flag2md ev mgf1_hash = Some gmd" "digest_ok ev gmd G"
    and random: "\<And>n salt. rand_bytes ev n = Some salt \<Longrightarrow> length salt = n"
    and buffer: "out_len \<le> length out"
    and run: "sc_pkcs1_add_pss_padding ev hash mgf1_hash inp out out_len mod_bits slen = Inr em"
    and sizes: "hl = evp_size ev md" "ml = (mod_bits + 7) div 8" "dblen = ml - hl - 1"
  shows "\<exists>salt h. length salt = slen \<and> h = H (replicate 8 0 @ inp @ salt) \<and> length h = hl \<and> slen + hl + 2 \<le> ml \<and>
    em = pss_masked (drop_bit (8 * ml - mod_bits + 1) 0xff) (MGF1 G h dblen) (pss_data salt dblen) @ h @ [0xBC]"
proof -
  define t where "t = drop_bit (8 * ml - mod_bits + 1) (0xff :: u8)"
  have room: "ml \<le> out_len" "length inp = hl" "slen + hl + 2 \<le> ml" "slen \<le> 512"
    using run by (auto simp: sc_pkcs1_add_pss_padding_def hash(1) Let_def sizes split: if_splits)
  obtain salt where salt: "rand_bytes ev slen = Some salt"
    using run room by (auto simp: sc_pkcs1_add_pss_padding_def hash(1) Let_def split: if_splits option.splits)
  have ls: "length salt = slen" by (rule random [OF salt])
  define h where "h = H (replicate 8 0 @ inp @ salt)"
  have lh: "length h = hl" unfolding h_def sizes(1) by (rule digest_okD(4) [OF hash(2)])
  define plen where "plen = ml - slen - hl - 1"
  have plen: "1 \<le> plen" "dblen = plen + slen" "dblen + hl + 1 = ml" using room by (auto simp: plen_def sizes(3))
  define db where "db = pss_data salt dblen"
  have db: "db = replicate (plen - 1) 0 @ [1] @ salt" using ls plen by (simp add: db_def pss_data_def)
  define out1 where "out1 = db @ h @ [0xBC] @ drop ml out"
  have ldb: "length db = dblen" "db \<noteq> []" using plen ls by (auto simp: db)
  have built: "(memcpy_at (memcpy_at ((memcpy_at out 0 (replicate (plen - 1) 0))[plen - 1 := 1]) plen salt) dblen h)
      [dblen + hl := 0xBC] = out1"
    using pss_buffer [of plen salt h out "0xBC"] plen ls lh room buffer by (simp add: out1_def db)
  have z: "take hl (drop dblen out1) = h" using ldb lh by (simp add: out1_def)
  define g where "g = MGF1 G h dblen"
  have lg: "length g = dblen" unfolding g_def by (rule MGF1_length [OF mgf(2)])
  have lout: "dblen \<le> length out1" using ldb by (simp add: out1_def)
  have rounds: "pss_rounds ((dblen + evp_size ev gmd - 1) div evp_size ev gmd) ev gmd h dblen 0 out1 =
      Inr (xor_bytes db g @ h @ [0xBC] @ drop ml out)"
    using pss_rounds_enough [OF mgf(2) lout refl, of h] ldb by (simp add: g_def out1_def)
  have "em = take ml ((xor_bytes db g @ h @ [0xBC] @ drop ml out)
      [0 := (xor_bytes db g @ h @ [0xBC] @ drop ml out) ! 0 AND t])"
    using run room
    unfolding sc_pkcs1_add_pss_padding_def Let_def hash(1) mgf(1) option.case salt sizes(1,2) [symmetric]
      plen_def [symmetric] sizes(3) [symmetric] digest_okD(3) [OF hash(2)] h_def [symmetric] built z
      rounds sum.case t_def [symmetric]
    by (simp add: digest_okD(1) [OF hash(2)])
  also have "\<dots> = take (length (pss_masked t g db @ h @ [0xBC])) ((pss_masked t g db @ h @ [0xBC]) @ drop ml out)"
    using ldb lg lh plen by (simp add: pss_masked_def Let_def list_update_append nth_append)
  finally have "em = pss_masked t g db @ h @ [0xBC]" by simp
  then show ?thesis
    by (intro exI [of _ salt] exI [of _ h]) (use ls lh room(3) h_def in \<open>simp add: t_def g_def db_def\<close>)
qed

text \<open>The standard counts one bit less than the modulus has; the sizes agree unless that starts a new byte.\<close>

lemma pss_sizes:
  assumes "0 < mod_bits" "mod_bits mod 8 \<noteq> (1 :: nat)" and ml: "ml = (mod_bits + 7) div 8"
  shows "(mod_bits - 1 + 7) div 8 = ml" "8 * ml - (mod_bits - 1) = 8 * ml - mod_bits + 1"
    "1 \<le> 8 * ml - mod_bits + 1" "8 * ml - mod_bits + 1 \<le> 7"
proof -
  obtain q r where r: "mod_bits = 8 * q + r" "r < 8" "r \<noteq> 1"
    using assms(2) mult_div_mod_eq [of 8 mod_bits] by (metis mod_less_divisor zero_less_numeral)
  have "r = 0 \<or> r = 2 \<or> r = 3 \<or> r = 4 \<or> r = 5 \<or> r = 6 \<or> r = 7" using r(2,3) by linarith
  then have m: "ml = (if r = 0 then q else q + 1)" "(mod_bits - 1 + 7) div 8 = (if r = 0 then q else q + 1)"
    using assms(1) unfolding ml r(1) by auto
  then show "(mod_bits - 1 + 7) div 8 = ml" by simp
  show "8 * ml - (mod_bits - 1) = 8 * ml - mod_bits + 1" "1 \<le> 8 * ml - mod_bits + 1" "8 * ml - mod_bits + 1 \<le> 7"
    using assms(1) r unfolding m(1) by auto
qed

lemma pss_unmasked:
  assumes "length salt + 1 \<le> dblen" and "length g = dblen" and t: "t = drop_bit s (0xff :: u8)" "1 \<le> s" "s \<le> 7"
  shows "pss_masked t g (pss_masked t g (pss_data salt dblen)) = pss_data salt dblen"
    and "pss_masked t g (pss_data salt dblen) ! 0 AND NOT t = 0"
    and "length (pss_masked t g (pss_data salt dblen)) = dblen"
proof -
  let ?db = "pss_data salt dblen"
  have l: "length ?db = dblen" "?db \<noteq> []" using assms(1) by (auto simp: pss_length pss_data_def)
  show "length (pss_masked t g ?db) = dblen" using l assms(2) by (simp add: pss_masked_def Let_def)
  have "?db ! 0 AND t = ?db ! 0"
    unfolding t(1) by (rule top_mask [OF t(2,3)]) (cases "dblen - length salt - 1", simp_all add: pss_data_def)
  with unmask [of ?db g t] l assms(2) show "pss_masked t g (pss_masked t g ?db) = ?db"
    by (simp add: pss_masked_def Let_def)
  have "0 < length (xor_bytes ?db g)" using l assms(1,2) by simp
  then have "pss_masked t g ?db ! 0 = xor_bytes ?db g ! 0 AND t"
    unfolding pss_masked_def Let_def by (rule nth_list_update_eq)
  then show "pss_masked t g ?db ! 0 AND NOT t = 0" by (simp add: and.assoc)
qed

text \<open>C18: A block the PSS code makes passes the verification of the standard, for any digests, hash, random
  bytes, length of the salt and modulus whose number of bits is not one more than a multiple of eight.\<close>
theorem pss_verifies:
  assumes hash: "hash_flag2md ev hash = Some md" "digest_ok ev md H"
    and mgf: "mgf1_flag2md ev mgf1_hash = Some gmd" "digest_ok ev gmd G"
    and random: "\<And>n salt. rand_bytes ev n = Some salt \<Longrightarrow> length salt = n"
    and bits: "0 < mod_bits" "mod_bits mod 8 \<noteq> 1" and buffer: "out_len \<le> length out"
    and run: "sc_pkcs1_add_pss_padding ev hash mgf1_hash inp out out_len mod_bits slen = Inr em"
  shows "pss_verify H (evp_size ev md) (MGF1 G) inp em (mod_bits - 1) slen"
proof -
  define hl where "hl = evp_size ev md"
  define ml where "ml = (mod_bits + 7) div 8"
  define dblen where "dblen = ml - hl - 1"
  define t where "t = drop_bit (8 * ml - mod_bits + 1) (0xff :: u8)"
  obtain salt h where salt: "length salt = slen" "h = H (replicate 8 0 @ inp @ salt)" "length h = hl" "slen + hl + 2 \<le> ml"
    and em: "em = pss_masked t (MGF1 G h dblen) (pss_data salt dblen) @ h @ [0xBC]"
    using pss_block_built [OF hash mgf random buffer run hl_def ml_def dblen_def] unfolding t_def by blast
  note sizes = pss_sizes [OF bits ml_def]
  have "length salt + 1 \<le> dblen" using salt(1,4) by (simp add: dblen_def)
  note un = pss_unmasked [OF this MGF1_length [OF mgf(2)] t_def sizes(3,4), of h]
  have parts: "take dblen em = pss_masked t (MGF1 G h dblen) (pss_data salt dblen)" "take hl (drop dblen em) = h"
    "length em = ml" "last em = 0xBC" "hl + slen + 2 \<le> ml"
    using un(3) salt by (simp_all add: em dblen_def)
  have "take (dblen - slen - 1) (pss_data salt dblen) = replicate (dblen - slen - 1) 0"
    "pss_data salt dblen ! (dblen - slen - 1) = 1" "drop (dblen - slen) (pss_data salt dblen) = salt"
    using salt(1,4) by (simp_all add: pss_data_def nth_append dblen_def)
  then show ?thesis
    unfolding pss_verify_def Let_def sizes hl_def [symmetric] dblen_def [symmetric] t_def [symmetric] parts(1,2)
      un(1) [unfolded pss_masked_def [of _ _ "pss_masked _ _ _"] Let_def]
    using parts(3-5) un(2) salt(2) by simp
qed

theorem pss_verifies_witness:
  "\<exists>em. sc_pkcs1_add_pss_padding toy_evp 0x00100200 0x00100000 [7] (replicate 8 0) 8 64 3 = Inr em \<and>
    pss_verify (\<lambda>x. [foldl (+) 1 x]) 1 (MGF1 (\<lambda>x. [foldl (+) 1 x])) [7] em 63 3"
proof -
  have flags: "mgf1_flag2md toy_evp 0x00100000 = Some ''SHA1''"
    by (simp add: mgf1_flag2md_def sc_evp_md_def toy_evp_def)
  have total: "\<exists>o1. pss_rounds n toy_evp ''SHA1'' z dl r o2 = Inr o1" for n z dl r o2
    by (induction n arbitrary: r o2) (auto simp: toy_evp_def Let_def)
  have ends: "\<exists>x. (case pss_rounds n toy_evp ''SHA1'' z dl r o2 of Inl e \<Rightarrow> Inl e | Inr out \<Rightarrow> Inr (f out)) = Inr x" for n z dl r o2 f
    using total [of n z dl r o2] by auto
  have toy: "evp_ctx toy_evp" "evp_size toy_evp ''SHA1'' = 1" "evp_digest toy_evp ''SHA1'' x = Some [foldl (+) 1 x]"
    "rand_bytes toy_evp k = Some (replicate k 9)" for x k by (simp_all add: toy_evp_def)
  have "\<exists>em. sc_pkcs1_add_pss_padding toy_evp 0x00100200 0x00100000 [7] (replicate 8 0) 8 64 3 = Inr em"
    unfolding sc_pkcs1_add_pss_padding_def toy_flags flags Let_def option.case toy by (simp add: ends toy)
  then obtain em where em: "sc_pkcs1_add_pss_padding toy_evp 0x00100200 0x00100000 [7] (replicate 8 0) 8 64 3 = Inr em" by blast
  have "pss_verify (\<lambda>x. [foldl (+) 1 x]) (evp_size toy_evp ''SHA1'') (MGF1 (\<lambda>x. [foldl (+) 1 x])) [7] em (64 - 1) 3"
    by (rule pss_verifies [OF toy_flags(1) toy_digest flags toy_digest _ _ _ _ em]) (auto simp: toy_evp_def)
  then show ?thesis using em by (auto simp: toy_evp_def)
qed

section \<open>The encoder and its inverse\<close>

lemma hash_flag_survives:
  assumes "flags AND SC_ALGORITHM_RSA_HASHES \<noteq> SC_ALGORITHM_RSA_HASH_NONE"
  shows "ucast (flags AND SC_ALGORITHM_RSA_HASHES :: u64) \<noteq> (SC_ALGORITHM_RSA_HASH_NONE :: u32)"
proof
  define alg :: u32 where "alg = ucast (flags AND SC_ALGORITHM_RSA_HASHES)"
  assume "ucast (flags AND SC_ALGORITHM_RSA_HASHES) = (SC_ALGORITHM_RSA_HASH_NONE :: u32)"
  then have "(ucast alg :: u64) = 0x100" by (simp add: alg_def)
  moreover have "(ucast (ucast w :: u32) :: u64) = w AND Bit_Operations.mask 32" for w :: u64
    by (rule bit_word_eqI) (auto simp: bit_simps)
  then have "(ucast alg :: u64) = flags AND SC_ALGORITHM_RSA_HASHES"
    by (simp add: alg_def and.assoc mask_numeral)
  ultimately show False using assms by simp
qed

lemma digest_info_shape:
  assumes "sc_pkcs1_add_digest_info_prefix alg inp out out_len = Inr (n, b)" and "out_len \<le> length out"
  shows "\<exists>hdr. take n b = hdr @ inp \<and> length b = length out \<and> n = length hdr + length inp"
proof -
  have "\<exists>hdr. take n b = hdr @ inp \<and> length b = length out \<and> n = length hdr + length inp"
    if "add_prefix t alg inp out out_len = Inr (n, b)" for t
    using that assms(2) by (induction t) (auto split: if_splits simp: memcpy_at_def)
  then show ?thesis using assms(1) unfolding sc_pkcs1_add_digest_info_prefix_def by blast
qed

text \<open>C20: A hash encoded for a signature with the padding of version 1.5 (prefix of the algorithm, then padding
  of type 1) fills the length of the modulus, and the routines that take a signature apart find the
  algorithm and the hash in it.\<close>
theorem signature_block_decodes:
  assumes pad: "flags AND SC_ALGORITHM_RSA_PADS = SC_ALGORITHM_RSA_PAD_PKCS1_TYPE_01"
    and hash: "flags AND SC_ALGORITHM_RSA_HASHES \<noteq> SC_ALGORITHM_RSA_HASH_NONE"
    and buffer: "out_len \<le> length out"
    and run: "sc_pkcs1_encode ev flags inp out out_len mod_bits slen = Inr em"
  shows "length em = (mod_bits + 7) div 8 \<and>
    (\<exists>info. sc_pkcs1_strip_01_padding (Some em) (Some em) (length em) = Inr (Some (length info), Some (memcpy_at em 0 info)) \<and>
       sc_pkcs1_strip_digest_info_prefix info (Some em) (length em) =
         (Some (ucast (flags AND SC_ALGORITHM_RSA_HASHES)), Inr (Some (length inp, memcpy_at em 0 inp))))"
proof -
  define ml where "ml = (mod_bits + 7) div 8"
  define alg :: u32 where "alg = ucast (flags AND SC_ALGORITHM_RSA_HASHES)"
  obtain n b where pre: "sc_pkcs1_add_digest_info_prefix alg inp out out_len = Inr (n, b)"
    and enc: "(case sc_pkcs1_add_01_padding (take n b) b out_len ml of (Inl e, _) \<Rightarrow> Inl e | (Inr n, b) \<Rightarrow> Inr (take n b)) = Inr em"
    using run pad hash
    by (auto simp: sc_pkcs1_encode_def Let_def ebind_def alg_def ml_def split: sum.splits prod.splits)
  have alg: "alg \<noteq> SC_ALGORITHM_RSA_HASH_NONE" unfolding alg_def by (rule hash_flag_survives [OF hash])
  obtain hdr where info: "take n b = hdr @ inp" and b: "length b = length out" and n: "n = length hdr + length inp"
    using digest_info_shape [OF pre buffer] by blast
  obtain n2 b2 where add: "sc_pkcs1_add_01_padding (take n b) b out_len ml = (Inr n2, b2)" and em: "em = take n2 b2"
    using enc by (auto split: sum.splits prod.splits)
  have fits: "length (take n b) + 11 \<le> ml" "ml \<le> out_len"
    using add by (auto simp: sc_pkcs1_add_01_padding_def Let_def split: if_splits)
  have strip: "n2 = ml \<and> length b2 = length b \<and>
    sc_pkcs1_strip_01_padding (Some (take n2 b2)) (Some buf) blen = Inr (Some (length (take n b)), Some (memcpy_at buf 0 (take n b)))"
    if "length (take n b) \<le> blen" "blen \<le> length buf" for buf blen
    by (rule padding_01_removed [OF fits _ that add]) (simp add: b buffer)
  have len: "length em = ml" using strip [of ml "replicate ml 0"] fits b buffer em by simp
  have le: "length (take n b) \<le> length em" using fits(1) unfolding len by linarith
  have "sc_pkcs1_strip_01_padding (Some em) (Some em) (length em) =
    Inr (Some (length (take n b)), Some (memcpy_at em 0 (take n b)))"
    using strip [OF le order_refl] unfolding em [symmetric] by blast
  moreover have "length inp \<le> length em" using le unfolding info by simp
  then have "sc_pkcs1_strip_digest_info_prefix (take n b) (Some em) (length em) =
      (Some alg, Inr (Some (length inp, memcpy_at em 0 inp)))"
    using digest_info_recognised [OF alg _ _ buffer pre, of "length em" em] by simp
  ultimately show ?thesis unfolding ml_def [symmetric] alg_def [symmetric] using len by blast
qed

lemma plain_sha1_block:
  "sc_pkcs1_encode ev 0x240 (replicate 20 7) (replicate 64 0) 64 512 None =
    Inr ([0, 1] @ replicate 26 0xFF @ [0] @ hdr_sha1 @ replicate 20 7)"
proof -
  have pre: "sc_pkcs1_add_digest_info_prefix 0x200 (replicate 20 7) (replicate 64 0) 64 =
    Inr (35, hdr_sha1 @ replicate 20 7 @ replicate 29 0)"
    by (simp add: sc_pkcs1_add_digest_info_prefix_def digest_info_prefix_def hdr_lengths memcpy_at_def)
  have "sc_pkcs1_add_01_padding (hdr_sha1 @ replicate 20 7) (hdr_sha1 @ replicate 20 7 @ replicate 29 0) 64 64 =
    (Inr 64, [0, 1] @ replicate 26 0xFF @ [0] @ (hdr_sha1 @ replicate 20 7) @ drop 64 (hdr_sha1 @ replicate 20 7 @ replicate 29 0))"
    using add_01_bytes [of "hdr_sha1 @ replicate 20 7" 64 64 "hdr_sha1 @ replicate 20 7 @ replicate 29 0"]
    by (simp add: hdr_lengths)
  then show ?thesis
    by (simp add: sc_pkcs1_encode_def ebind_def pre hdr_lengths)
qed

theorem signature_block_decodes_witness:
  "length ([0, 1] @ replicate 26 0xFF @ [0] @ hdr_sha1 @ replicate 20 (7 :: u8)) = 64"
  using signature_block_decodes [OF _ _ _ plain_sha1_block [of toy_evp]] by simp

text \<open>A card that only says it signs without a hash (\<open>HASH_NONE\<close>) is taken to pad as well.\<close>

lemma hash_none_taken_for_padding:
  "sc_get_encoding_flags SC_ALGORITHM_RSA_PAD_PKCS1_TYPE_01 SC_ALGORITHM_RSA_HASH_NONE 0 = Inr (0, 0x140)"
  by (simp add: sc_get_encoding_flags_def)

end
