(* ===== verification/Sc_Codec.thy ===== *)
theory Sc_Codec
  imports Sc_Bytes
begin

text \<open>
  Base 64 (\<open>libopensc/base64.c\<close>) and the tag-length headers of simple TLV
  (\<open>libopensc/simpletlv.c\<close>).

  The encoder fills a buffer of which the model keeps what has been written, the terminator
  included; \<open>outlen\<close> is the room that is left. The decoder reads a C string, which is the list of
  its bytes; a pointer into it is the rest of the list, and reading at the end gives the
  terminator. \<open>from_base64\<close> returns its count, the 24 bits and how far it has read.
\<close>

section \<open>Base 64: encoding\<close>

definition base64_table :: bytes where
  "base64_table = map of_char
    (''ABCDEFGHIJKLMNOPQRSTUVWXYZabcdefghijklmnopqrstuvwxyz'' @ ''0123456789+/='')"

text \<open>The four characters of 24 bits; the last \<open>fillers\<close> of them are the padding character.\<close>

definition to_base64 :: "u32 \<Rightarrow> nat \<Rightarrow> bytes" where
  "to_base64 i fillers =
     map (\<lambda>c. if fillers \<ge> 4 - c then base64_table ! 64
              else base64_table ! unat (drop_bit (18 - 6 * c) i AND 0x3f)) [0, 1, 2, 3]"

text \<open>The loop over full groups. It returns the bytes that are left, the room that is left, the
  number of characters in the line and what has been written.\<close>

fun encode_groups ::
  "bytes \<Rightarrow> nat \<Rightarrow> u32 \<Rightarrow> nat \<Rightarrow> bytes \<Rightarrow> (bytes \<times> nat \<times> u32 \<times> bytes) res" where
  "encode_groups (a # b # d # ins) outlen chars line out =
    (let i = ucast d + push_bit 8 (ucast b) + push_bit 16 (ucast a) in
     if outlen < 4 then Inl SC_ERROR_BUFFER_TOO_SMALL
     else
       let out = out @ to_base64 i 0; outlen = outlen - 4; chars = chars + 4 in
       if unat chars \<ge> line \<and> line > 0 then
         (if outlen < 1 then Inl SC_ERROR_BUFFER_TOO_SMALL
          else encode_groups ins (outlen - 1) 0 line (out @ [10]))
       else encode_groups ins outlen chars line out)"
| "encode_groups ins outlen chars line out = Inr (ins, outlen, chars, out)"

text \<open>The bits of the one or two bytes after the last full group.\<close>

fun last_bits :: "bytes \<Rightarrow> nat \<Rightarrow> u32 \<Rightarrow> u32" where
  "last_bits [] c i = i"
| "last_bits (b # bs) c i = last_bits bs (c + 1) (i OR push_bit ((2 - c) * 8) (ucast b))"

definition sc_base64_encode :: "bytes \<Rightarrow> nat \<Rightarrow> nat \<Rightarrow> bytes res" where
  "sc_base64_encode ins outlen linelength =
    (let line = linelength - linelength mod 4 in
     ebind (encode_groups ins outlen 0 line []) (\<lambda>(ins, outlen, chars, out).
     ebind (if ins \<noteq> [] then
              (if outlen < 4 then Inl SC_ERROR_BUFFER_TOO_SMALL
               else Inr (outlen - 4, chars + 4, out @ to_base64 (last_bits ins 0 0) (3 - length ins)))
            else Inr (outlen, chars, out)) (\<lambda>(outlen, chars, out).
     ebind (if chars \<noteq> 0 \<and> line > 0 then
              (if outlen < 1 then Inl SC_ERROR_BUFFER_TOO_SMALL
               else Inr (outlen - 1, out @ [10]))
            else Inr (outlen, out)) (\<lambda>(outlen, out).
     if outlen < 1 then Inl SC_ERROR_BUFFER_TOO_SMALL else Inr (out @ [0])))))"

section \<open>Base 64: decoding\<close>

text \<open>The table, indexed by the character: \<open>0xFF\<close> is invalid, \<open>0xC0\<close> the padding character,
  \<open>0xD0\<close> a line end; \<open>0xE0\<close> and \<open>0xF2\<close> are other separators, which the decoder refuses.\<close>

definition bin_table :: bytes where
  "bin_table =
    (let ff = replicate 8 0xFF in
     ff @ [0xFF, 0xE0, 0xD0, 0xFF, 0xFF, 0xD0, 0xFF, 0xFF] @ ff @ ff @
     0xE0 # replicate 10 0xFF @ [0x3E, 0xFF, 0xF2, 0xFF, 0x3F] @
     map of_nat [0x34..<0x3E] @ [0xFF, 0xFF, 0xFF, 0xC0, 0xFF, 0xFF] @
     0xFF # map of_nat [0..<0x1A] @ replicate 5 0xFF @
     0xFF # map of_nat [0x1A..<0x34] @ replicate 5 0xFF)"

definition c_char :: "bytes \<Rightarrow> u8" where
  "c_char s = (case s of [] \<Rightarrow> 0 | k # _ \<Rightarrow> k)"

fun from_base64_loop :: "bytes \<Rightarrow> nat \<Rightarrow> u32 \<Rightarrow> (nat \<times> u32 \<times> bytes) option" where
  "from_base64_loop ins c res =
    (if c \<ge> 4 then Some (c, res, ins)
     else
       let k = c_char ins in
       if unat k \<ge> 128 then None
       else if k = 0 \<and> c = 0 then Some (0, res, ins)
       else
         let b = bin_table ! unat k in
         if b = 0xC0 then Some (c, res, ins)
         else if b = 0xD0 then
           (case ins of [] \<Rightarrow> None | _ # ins \<Rightarrow> from_base64_loop ins c res)
         else if b > 0x3f then None
         else (case ins of [] \<Rightarrow> None
               | _ # ins \<Rightarrow> from_base64_loop ins (c + 1) (res OR push_bit (18 - 6 * c) (ucast b))))"

declare from_base64_loop.simps [simp del]

definition from_base64 :: "bytes \<Rightarrow> (nat \<times> u32 \<times> bytes) option" where
  "from_base64 ins =
    (case from_base64_loop ins 0 0 of
       None \<Rightarrow> None
     | Some (c, res, rest) \<Rightarrow> Some (c * 6 div 8, res, rest))"

lemma from_base64_loop_shorter:
  "from_base64_loop ins c res = Some (c', res', rest) \<Longrightarrow> length rest + c' \<le> length ins + c"
proof (induction ins c res rule: from_base64_loop.induct)
  case (1 ins c res)
  note step = "1.prems" [unfolded from_base64_loop.simps [of ins c res]]
  show ?case
  proof (cases ins)
    case Nil
    with step show ?thesis
      by (auto simp: Let_def split: if_splits)
  next
    case (Cons k ks)
    with step "1.IH" show ?thesis
      by (fastforce simp: Let_def c_char_def split: if_splits)
  qed
qed

lemma from_base64_shorter:
  assumes "from_base64 ins = Some (r, i, rest)" and "r \<noteq> 0"
  shows "length rest < length ins"
proof -
  from assms(1) obtain c where c: "from_base64_loop ins 0 0 = Some (c, i, rest)" "r = c * 6 div 8"
    by (auto simp: from_base64_def split: option.splits)
  with assms(2) have "c \<noteq> 0"
    by (cases c) auto
  with from_base64_loop_shorter [OF c(1)] show ?thesis by simp
qed

text \<open>The loop that writes the \<open>r\<close> bytes of a group.\<close>

fun emit :: "nat \<Rightarrow> nat \<Rightarrow> u32 \<Rightarrow> nat \<Rightarrow> bytes \<Rightarrow> (nat \<times> bytes) res" where
  "emit 0 s i outlen out = Inr (outlen, out)"
| "emit (Suc r) s i outlen out =
    (if outlen = 0 then Inl SC_ERROR_BUFFER_TOO_SMALL
     else emit r (s - 8) i (outlen - 1) (out @ [ucast (drop_bit s i)]))"

function decode_groups :: "bytes \<Rightarrow> nat \<Rightarrow> bytes \<Rightarrow> bytes res" where
  "decode_groups ins outlen out =
    (case from_base64 ins of
       None \<Rightarrow> Inl SC_ERROR_INVALID_ARGUMENTS
     | Some (r, i, rest) \<Rightarrow>
        if r = 0 then Inr out
        else ebind (emit r 16 i outlen out) (\<lambda>(outlen, out).
          if r < 3 \<or> c_char rest = 0 then Inr out else decode_groups rest outlen out))"
  by pat_completeness auto
termination
  by (relation "measure (\<lambda>(ins, _). length ins)") (auto dest: from_base64_shorter)

declare decode_groups.simps [simp del]

definition sc_base64_decode :: "bytes \<Rightarrow> nat \<Rightarrow> bytes res" where
  "sc_base64_decode ins outlen = decode_groups ins outlen []"

section \<open>Simple TLV\<close>

definition sc_simpletlv_put_tag :: "u8 \<Rightarrow> nat \<Rightarrow> nat \<Rightarrow> bytes res" where
  "sc_simpletlv_put_tag tag datalen outlen =
    (if outlen < 2 \<or> outlen < 4 \<and> datalen \<ge> 0xff then Inl SC_ERROR_INVALID_ARGUMENTS
     else if tag = 0 \<or> tag = 0xff then Inl SC_ERROR_INVALID_ARGUMENTS
     else if datalen > 0xffff then Inl SC_ERROR_WRONG_LENGTH
     else if datalen < 0xff then Inr [tag, of_nat datalen]
     else Inr [tag, 0xff, of_nat datalen AND 0xff, of_nat (datalen div 256) AND 0xff])"

text \<open>The first component is the return code; the tag and the length are also given when the
  content is cut off. The pointer moves to the content, or to nowhere.\<close>

definition sc_simpletlv_read_tag ::
  "bytes \<Rightarrow> unit res \<times> (u8 \<times> nat) option \<times> bytes option" where
  "sc_simpletlv_read_tag buf =
    (case buf of
       tag # l # p \<Rightarrow>
        let long = (l = 0xff) in
        if long \<and> length p < 2 then (Inl SC_ERROR_INVALID_TLV_OBJECT, None, None)
        else
          let len = (if long then unat (lebytes2ushort p) else unat l);
              p = (if long then drop 2 p else p)
          in if len > length p then (Inl SC_ERROR_TLV_END_OF_CONTENTS, Some (tag, len), Some p)
             else (Inr (), Some (tag, len), Some p)
     | _ \<Rightarrow> (Inl SC_ERROR_INVALID_TLV_OBJECT, None, None))"

section \<open>Facts on base 64\<close>

lemma base64_table_ranges:
  "base64_table = map of_nat ([65..<91] @ [97..<123] @ [48..<58] @ [43, 47, 61])"
  by (simp add: base64_table_def upt_rec)

lemma table_length: "length base64_table = 65"
  by (simp add: base64_table_ranges)

text \<open>The decoder's table inverts the encoder's.\<close>

lemma bin_table_ranges:
  "n < 26 \<Longrightarrow> bin_table ! (65 + n) = of_nat n"
  "n < 26 \<Longrightarrow> bin_table ! (97 + n) = of_nat (26 + n)"
  "n < 10 \<Longrightarrow> bin_table ! (48 + n) = of_nat (52 + n)"
  "bin_table ! 43 = 62" "bin_table ! 47 = 63" "bin_table ! 61 = 0xC0" "bin_table ! 10 = 0xD0"
  by (simp_all add: bin_table_def Let_def nth_append nth_Cons' del: upt_Suc upt_rec_numeral)

lemma base64_char:
  assumes "n < 64"
  obtains k where "base64_table ! n = of_nat k" and "0 < k" and "k < 128" and "bin_table ! k = of_nat n"
proof -
  consider "n < 26" | "26 \<le> n" "n < 52" | "52 \<le> n" "n < 62" | "n = 62" | "n = 63"
    using assms by linarith
  then show ?thesis
  proof cases
    case 1
    with bin_table_ranges(1) [of n] show ?thesis
      by (intro that [of "65 + n"]) (simp_all add: base64_table_ranges nth_append del: upt_Suc upt_rec_numeral)
  next
    case 2
    then obtain m where n: "n = 26 + m" "m < 26"
      using le_Suc_ex by force
    with bin_table_ranges(2) [of m] show ?thesis
      by (intro that [of "97 + m"]) (simp_all add: base64_table_ranges nth_append del: upt_Suc upt_rec_numeral)
  next
    case 3
    then obtain m where n: "n = 52 + m" "m < 10"
      using le_Suc_ex by force
    with bin_table_ranges(3) [of m] show ?thesis
      by (intro that [of "48 + m"]) (simp_all add: base64_table_ranges nth_append del: upt_Suc upt_rec_numeral)
  next
    case 4
    with bin_table_ranges(4) show ?thesis
      by (intro that [of 43]) (simp_all add: base64_table_ranges nth_append del: upt_Suc upt_rec_numeral)
  next
    case 5
    with bin_table_ranges(5) show ?thesis
      by (intro that [of 47]) (simp_all add: base64_table_ranges nth_append del: upt_Suc upt_rec_numeral)
  qed
qed


text \<open>One step of the decoder on a character of the table, on a line end and on the padding.\<close>

lemma loop_char:
  assumes n: "n < 64" and c: "c < 4"
  shows "from_base64_loop (base64_table ! n # rest) c res =
         from_base64_loop rest (c + 1) (res OR push_bit (18 - 6 * c) (of_nat n))"
proof -
  from base64_char [OF n] obtain k where k: "base64_table ! n = of_nat k" "0 < k" "k < 128"
    and b: "bin_table ! k = of_nat n" .
  have u: "unat (of_nat k :: u8) = k" "unat (of_nat n :: u8) = n"
    using k(3) n by (simp_all add: unat_of_nat)
  have nz: "(of_nat k :: u8) \<noteq> 0"
    using u(1) k(2) by (metis unat_0 less_irrefl)
  have small: "\<not> (of_nat n :: u8) > 0x3f" "(of_nat n :: u8) \<noteq> 0xC0" "(of_nat n :: u8) \<noteq> 0xD0"
    using n u(2) by (auto simp: word_less_nat_alt)
  have up: "ucast (of_nat n :: u8) = (of_nat n :: u32)"
    using n by (simp add: unsigned_of_nat take_bit_nat_eq_self)
  show ?thesis
    using c k(3) nz
    by (subst from_base64_loop.simps) (simp add: k(1) c_char_def u(1) b small up)
qed

lemma loop_newline: "c < 4 \<Longrightarrow> from_base64_loop (10 # rest) c res = from_base64_loop rest c res"
  by (subst from_base64_loop.simps) (simp add: c_char_def bin_table_ranges)

lemma loop_padding: "c < 4 \<Longrightarrow> from_base64_loop (61 # rest) c res = Some (c, res, 61 # rest)"
  by (subst from_base64_loop.simps) (simp add: c_char_def bin_table_ranges)

lemma loop_full: "from_base64_loop rest 4 res = Some (4, res, rest)"
  by (subst from_base64_loop.simps) simp

lemma loop_end: "c_char ins = 0 \<Longrightarrow> from_base64_loop ins 0 res = Some (0, res, ins)"
  by (subst from_base64_loop.simps) simp

lemma sextet: "unat (drop_bit k (i :: u32) AND 0x3f) < 64"
proof -
  have "drop_bit k i AND 0x3f \<le> 0x3f" by (rule word_and_le1)
  then have "unat (drop_bit k i AND 0x3f) \<le> unat (0x3f :: u32)" by (rule word_le_nat_alt [THEN iffD1])
  then show ?thesis by simp
qed

lemma padding_char: "base64_table ! 64 = 61"
  by (simp add: base64_table_ranges)

definition sextets :: "nat \<Rightarrow> u32 \<Rightarrow> u32" where
  "sextets c i = push_bit (24 - 6 * c) (drop_bit (24 - 6 * c) i) AND 0xFFFFFF"

lemma sextets_join:
  "push_bit 18 (drop_bit 18 i AND 0x3f) OR push_bit 12 (drop_bit 12 i AND 0x3f) = sextets 2 i"
  "sextets 2 i OR push_bit 6 (drop_bit 6 i AND 0x3f) = sextets 3 i"
  "sextets 3 i OR (i AND 0x3f) = sextets 4 i"
proof -
  have m: "(0x3f :: u32) = mask 6" "(0xFFFFFF :: u32) = mask 24"
    by (simp_all add: mask_eq_exp_minus_1)
  have at: "bit (push_bit k (drop_bit k i AND mask 6)) n \<longleftrightarrow> bit i n \<and> k \<le> n \<and> n < k + 6 \<and> n < 32"
    for k n by (cases "k \<le> n") (auto simp: bit_simps dest: bit_imp_le_length)
  have all: "bit (push_bit k (drop_bit k i)) n \<longleftrightarrow> bit i n \<and> k \<le> n \<and> n < 32" for k n
    by (cases "k \<le> n") (auto simp: bit_simps dest: bit_imp_le_length)
  have low: "bit (i AND mask 6) n \<longleftrightarrow> bit i n \<and> n < 6" for n
    by (auto simp: bit_simps dest: bit_imp_le_length)
  have top: "bit (sextets c i) n \<longleftrightarrow> bit i n \<and> 24 - 6 * c \<le> n \<and> n < 24" for c n
    unfolding sextets_def m by (auto simp: bit_and_iff all bit_mask_iff dest: bit_imp_le_length)
  show "push_bit 18 (drop_bit 18 i AND 0x3f) OR push_bit 12 (drop_bit 12 i AND 0x3f) = sextets 2 i"
    unfolding m by (rule bit_word_eqI, simp only: bit_or_iff at top) auto
  show "sextets 2 i OR push_bit 6 (drop_bit 6 i AND 0x3f) = sextets 3 i"
    unfolding m by (rule bit_word_eqI, simp only: bit_or_iff at top) auto
  show "sextets 3 i OR (i AND 0x3f) = sextets 4 i"
    unfolding m by (rule bit_word_eqI, simp only: bit_or_iff low top) auto
qed

lemma decode_to_base64:
  "from_base64 (to_base64 i 0 @ rest) = Some (3, sextets 4 i, rest)"
  "from_base64 (to_base64 i 1 @ rest) = Some (2, sextets 3 i, 61 # rest)"
  "from_base64 (to_base64 i 2 @ rest) = Some (1, sextets 2 i, 61 # 61 # rest)"
  using sextets_join [of i] sextet [of 0 i]
  by (simp_all add: from_base64_def to_base64_def loop_char sextet loop_full loop_padding padding_char
      numeral_2_eq_2 [symmetric])

lemma bit_sextets: "bit (sextets c i) n \<longleftrightarrow> bit i n \<and> 24 - 6 * c \<le> n \<and> n < 24"
proof -
  have m: "(0xFFFFFF :: u32) = mask 24"
    by (simp add: mask_eq_exp_minus_1)
  show ?thesis
    unfolding sextets_def m
    by (cases "24 - 6 * c \<le> n") (auto simp: bit_simps dest: bit_imp_le_length)
qed

lemma group_or:
  "ucast d + push_bit 8 (ucast b) + push_bit 16 (ucast a) =
   ucast (d :: u8) OR push_bit 8 (ucast (b :: u8)) OR (push_bit 16 (ucast (a :: u8)) :: u32)"
proof -
  have 1: "ucast d + push_bit 8 (ucast b) = ucast d OR (push_bit 8 (ucast b) :: u32)"
    by (rule disjunctive_add) (auto simp: bit_simps dest: bit_imp_le_length)
  show ?thesis
    unfolding 1 or.assoc [symmetric] by (rule disjunctive_add) (auto simp: bit_simps dest: bit_imp_le_length)
qed

lemma group_bytes:
  fixes a b d :: u8
  defines "i \<equiv> ucast d OR push_bit 8 (ucast b) OR (push_bit 16 (ucast a) :: u32)"
  shows "2 \<le> c \<Longrightarrow> ucast (drop_bit 16 (sextets c i)) = a"
    and "3 \<le> c \<Longrightarrow> ucast (drop_bit 8 (sextets c i)) = b"
    and "4 \<le> c \<Longrightarrow> ucast (sextets c i) = d"
  unfolding i_def
  by (rule bit_word_eqI, auto simp: bit_simps bit_sextets dest: bit_imp_le_length)+

lemma emit_bytes:
  "r \<le> 3 \<Longrightarrow> emit r 16 i outlen out =
    (if r \<le> outlen
     then Inr (outlen - r, out @ take r [ucast (drop_bit 16 i), ucast (drop_bit 8 i), ucast i])
     else Inl SC_ERROR_BUFFER_TOO_SMALL)"
proof -
  assume "r \<le> 3"
  then consider "r = 0" | "r = 1" | "r = 2" | "r = 3" by linarith
  then show ?thesis
    by cases (auto simp: numeral_2_eq_2 numeral_3_eq_3)
qed

lemma decode_end: "c_char ins = 0 \<Longrightarrow> decode_groups ins outlen out = Inr out"
  by (subst decode_groups.simps) (simp add: from_base64_def loop_end)

lemma decode_newline: "decode_groups (10 # ins) outlen out = decode_groups ins outlen out"
  by (subst (1 2) decode_groups.simps) (simp add: from_base64_def loop_newline)

lemma decode_full_group:
  assumes "3 \<le> outlen"
  shows "decode_groups (to_base64 (ucast d OR push_bit 8 (ucast b) OR push_bit 16 (ucast a)) 0 @ rest) outlen out =
         decode_groups rest (outlen - 3) (out @ [a, b, d])"
  by (subst decode_groups.simps)
     (use assms in \<open>simp add: decode_to_base64 emit_bytes group_bytes decode_end\<close>)

lemmas last_group_bytes =
  group_bytes(1) [where c = 2 and b = 0 and d = 0, simplified]
  group_bytes(1,2) [where c = 3 and d = 0, simplified]

lemma last_bits_group:
  "last_bits [a] 0 0 = ucast (0 :: u8) OR push_bit 8 (ucast (0 :: u8)) OR push_bit 16 (ucast a)"
  "last_bits [a, b] 0 0 = ucast (0 :: u8) OR push_bit 8 (ucast b) OR push_bit 16 (ucast a)"
  by (simp_all add: or.commute)

lemma decode_last_group:
  assumes "ins \<noteq> []" and "length ins < 3" and "length ins \<le> outlen"
  shows "decode_groups (to_base64 (last_bits ins 0 0) (3 - length ins) @ rest) outlen out = Inr (out @ ins)"
proof -
  from assms consider a where "ins = [a]" | a b where "ins = [a, b]"
    by (cases ins rule: remdups_adj.cases) (auto simp: numeral_3_eq_3)
  then show ?thesis
  proof cases
    case (1 a)
    with assms(3) show ?thesis
      by (subst decode_groups.simps)
         (simp add: decode_to_base64 emit_bytes last_bits_group last_group_bytes del: last_bits.simps)
  next
    case (2 a b)
    with assms(3) show ?thesis
      by (subst decode_groups.simps)
         (simp add: decode_to_base64(2) [unfolded One_nat_def] emit_bytes last_bits_group last_group_bytes del: last_bits.simps)
  qed
qed

text \<open>The loop over full groups: what it writes is decoded to the bytes it has consumed.\<close>

lemma decode_encode_groups:
  assumes "encode_groups ins outlen chars line out = Inr (ins', outlen', chars', out')"
  shows "\<exists>full enc. ins = full @ ins' \<and> out' = out @ enc \<and> length ins' < 3 \<and>
    (\<forall>room dec tail. length full \<le> room \<longrightarrow>
      decode_groups (enc @ tail) room dec = decode_groups tail (room - length full) (dec @ full))"
  using assms
proof (induction ins outlen chars line out rule: encode_groups.induct)
  case (1 a b d ins outlen chars line out)
  let ?t = "to_base64 (ucast d + push_bit 8 (ucast b) + push_bit 16 (ucast a)) 0"
  let ?brk = "unat (chars + 4) \<ge> line \<and> line > 0"
  let ?nl = "if ?brk then [10] else [] :: bytes"
  have "\<exists>full enc. ins = full @ ins' \<and> out' = (out @ ?t @ ?nl) @ enc \<and> length ins' < 3 \<and>
    (\<forall>room dec tail. length full \<le> room \<longrightarrow>
      decode_groups (enc @ tail) room dec = decode_groups tail (room - length full) (dec @ full))"
  proof (cases ?brk)
    case True
    with "1.IH"(1) "1.prems" show ?thesis
      by (auto simp: Let_def split: if_splits)
  next
    case False
    with "1.IH"(2) "1.prems" show ?thesis
      by (auto simp: Let_def split: if_splits)
  qed
  then obtain full enc where rest: "ins = full @ ins'" "out' = (out @ ?t @ ?nl) @ enc" "length ins' < 3"
    and dec: "\<And>room dec tail. length full \<le> room \<Longrightarrow>
      decode_groups (enc @ tail) room dec = decode_groups tail (room - length full) (dec @ full)"
    by blast
  have "decode_groups ((?t @ ?nl @ enc) @ tail) room dec' =
        decode_groups tail (room - length (a # b # d # full)) (dec' @ a # b # d # full)"
    if "length (a # b # d # full) \<le> room" for room dec' tail
    using that dec [of "room - 3"]
    by (simp add: group_or decode_full_group decode_newline numeral_3_eq_3)
  with rest show ?case
    by (intro exI [of _ "a # b # d # full"] exI [of _ "?t @ ?nl @ enc"]) simp
qed (auto intro!: exI [of _ "[]"])

text \<open>C21: What the encoder writes, at any line length, the decoder turns back into the bytes, given
  room for them; line ends and the padding of the last group do not change the result.
\<close>

theorem base64_roundtrip:
  assumes ok: "sc_base64_encode ins outlen linelength = Inr text" and room: "length ins \<le> room"
  shows "sc_base64_decode text room = Inr ins"
proof -
  from ok obtain ins' outlen' chars' out' tail where
    g: "encode_groups ins outlen 0 (linelength - linelength mod 4) [] = Inr (ins', outlen', chars', out')"
    and t: "text = out' @ (if ins' \<noteq> [] then to_base64 (last_bits ins' 0 0) (3 - length ins') else []) @ tail"
    and e: "tail = [0] \<or> tail = [10, 0]"
    unfolding sc_base64_encode_def Let_def ebind_Inr_iff
    by (auto split: if_splits)
  from decode_encode_groups [OF g] obtain full where
    f: "ins = full @ ins'" "length ins' < 3"
    and d: "\<And>room dec tail. length full \<le> room \<Longrightarrow>
      decode_groups (out' @ tail) room dec = decode_groups tail (room - length full) (dec @ full)"
    by auto
  have stop: "decode_groups tail n out = Inr out" for n out
    using e by (auto simp: decode_newline decode_end c_char_def)
  show ?thesis
    using room f by (auto simp: sc_base64_decode_def t d stop decode_last_group)
qed

lemma base64_roundtrip_witness:
  "sc_base64_encode [0x66, 0x6F, 0x6F, 0x62] 11 4 = Inr (map of_char ''Zm9v'' @ [10] @ map of_char ''Yg=='' @ [10, 0]) \<and>
   sc_base64_decode (map of_char ''Zm9v'' @ [10] @ map of_char ''Yg=='' @ [10, 0]) 4 = Inr [0x66, 0x6F, 0x6F, 0x62]"
proof -
  have "sc_base64_encode [0x66, 0x6F, 0x6F, 0x62] 11 4 =
      Inr (map of_char ''Zm9v'' @ [10] @ map of_char ''Yg=='' @ [10, 0])"
    by (simp add: sc_base64_encode_def to_base64_def base64_table_ranges upt_rec)
  with base64_roundtrip [OF this, of 4] show ?thesis by simp
qed

section \<open>Facts on simple TLV\<close>

lemma le_length:
  assumes "n \<le> 0xffff"
  shows "unat (lebytes2ushort [of_nat n AND 0xff, of_nat (n div 256) AND 0xff]) = n"
proof -
  have ff: "(x :: u8) AND 0xff = x" for x
  proof -
    have "(0xff :: u8) = - 1" by simp
    then show ?thesis by (simp only: and.right_neutral)
  qed
  have shift: "bit (n div 256) (k - 8) \<longleftrightarrow> bit n k" if "8 \<le> k" for k
    using that bit_drop_bit_eq [of 8 n] by (simp add: drop_bit_eq_div fun_eq_iff)
  have "lebytes2ushort [of_nat n, of_nat (n div 256)] = (of_nat n :: u16)"
    by (rule bit_word_eqI)
       (auto simp: lebytes2ushort_def bit_simps bit_unsigned_iff shift dest: bit_imp_le_length)
  with assms show ?thesis
    by (simp add: ff unsigned_of_nat take_bit_nat_eq_self)
qed

text \<open>
  A header written for content of some length is read back from any buffer that holds the content
  behind it: the tag, the length and a pointer to the content.
\<close>

lemma simpletlv_roundtrip:
  assumes put: "sc_simpletlv_put_tag tag datalen outlen = Inr hdr" and "datalen \<le> length content"
  shows "sc_simpletlv_read_tag (hdr @ content) = (Inr (), Some (tag, datalen), Some content)"
proof (cases "datalen < 0xff")
  case True
  then have u: "unat (of_nat datalen :: u8) = datalen"
    by (simp add: unsigned_of_nat take_bit_nat_eq_self)
  with True have "(of_nat datalen :: u8) \<noteq> 0xff"
    by (auto dest: arg_cong [where f = unat])
  with put assms(2) True u show ?thesis
    by (auto simp: sc_simpletlv_put_tag_def sc_simpletlv_read_tag_def split: if_splits)
next
  case False
  with put have "datalen \<le> 0xffff"
    by (auto simp: sc_simpletlv_put_tag_def split: if_splits)
  from le_length [OF this] put assms(2) False show ?thesis
    by (auto simp: sc_simpletlv_put_tag_def sc_simpletlv_read_tag_def lebytes2ushort_def split: if_splits)
qed

text \<open>The two bytes a header needs are not always enough: from 255 bytes on it takes four.\<close>

lemma simpletlv_size:
  assumes "tag \<noteq> 0" and "tag \<noteq> 0xff" and "datalen \<le> 0xffff"
  shows "(\<exists>hdr. sc_simpletlv_put_tag tag datalen outlen = Inr hdr) \<longleftrightarrow>
         (if datalen < 0xff then 2 else 4) \<le> outlen"
  using assms by (auto simp: sc_simpletlv_put_tag_def)

end
