(* ===== verification/Sc_Table.thy ===== *)
theory Sc_Table
  imports Sc_Asn1
begin

text \<open>
  The table-driven decoder and encoder of \<open>libopensc/asn1.c\<close>, and the algorithm identifiers of
  \<open>libopensc/pkcs15-algo.c\<close> that take part in their recursion.

  A caller describes a structure by a table of entries; each entry points to the variable its
  value goes to (\<open>parm\<close>) and often to a second one with the size (\<open>arg\<close>). The memory these
  pointers lead to is a list of typed cells, a pointer an index into it; several entries may
  point to the same cell. A pointer to another table, to a PKCS#15 object or to a callback is
  part of the entry. An access through a pointer to a cell of another type, outside the memory, or
  beyond the end of an array is the result \<open>UNDEFINED\<close>, which is no code of the library: that it
  never appears is what the type theorem of \<open>Sc_TableType\<close> says.

  The decoder is total: it calls itself on the content of an element, or on a smaller table at the
  same position.
\<close>

unbundle bit_operations_syntax

abbreviation (input) UNDEFINED :: sc_error where "UNDEFINED \<equiv> 2"
abbreviation (input) SC_ASN1_PRESENT :: u32 where "SC_ASN1_PRESENT \<equiv> 1"
abbreviation (input) SC_ASN1_OPTIONAL :: u32 where "SC_ASN1_OPTIONAL \<equiv> 2"
abbreviation (input) SC_ASN1_ALLOC :: u32 where "SC_ASN1_ALLOC \<equiv> 4"
abbreviation (input) SC_ASN1_UNSIGNED :: u32 where "SC_ASN1_UNSIGNED \<equiv> 8"
abbreviation (input) SC_ASN1_EMPTY_ALLOWED :: u32 where "SC_ASN1_EMPTY_ALLOWED \<equiv> 0x10"
abbreviation (input) SC_ASN1_TAG_SEQUENCE_CONS :: u32 where "SC_ASN1_TAG_SEQUENCE_CONS \<equiv> 0x20000010"
abbreviation (input) SC_MAX_AID_SIZE :: nat where "SC_MAX_AID_SIZE \<equiv> 16"
abbreviation (input) SC_MAX_SE_NUM :: nat where "SC_MAX_SE_NUM \<equiv> 8"
abbreviation (input) SC_PKCS15_MAX_LABEL_SIZE :: nat where "SC_PKCS15_MAX_LABEL_SIZE \<equiv> 255"
abbreviation (input) SC_PKCS15_MAX_ID_SIZE :: nat where "SC_PKCS15_MAX_ID_SIZE \<equiv> 255"
abbreviation (input) SC_PKCS15_MAX_ACCESS_RULES :: nat where "SC_PKCS15_MAX_ACCESS_RULES \<equiv> 8"

section \<open>Entries and memory\<close>

datatype asn1_type =
    SC_ASN1_BOOLEAN | SC_ASN1_INTEGER | SC_ASN1_BIT_STRING | SC_ASN1_OCTET_STRING | SC_ASN1_NULL
  | SC_ASN1_OBJECT | SC_ASN1_ENUMERATED | SC_ASN1_UTF8STRING | SC_ASN1_PRINTABLESTRING
  | SC_ASN1_GENERALIZEDTIME | SC_ASN1_BIT_STRING_NI | SC_ASN1_STRUCT | SC_ASN1_CHOICE
  | SC_ASN1_BIT_FIELD | SC_ASN1_PATH | SC_ASN1_PKCS15_ID | SC_ASN1_PKCS15_OBJECT
  | SC_ASN1_ALGORITHM_ID | SC_ASN1_SE_INFO | SC_ASN1_CALLBACK | SC_ASN1_OTHER

text \<open>An algorithm identifier and its parameters. The salt is the part of its array in use; an
  elliptic curve keeps the fields the code sets.\<close>

datatype sc_algorithm_id =
    Algorithm_id (alg_algorithm: u64) (alg_oid: oid) (alg_params: "alg_params option")
and alg_params =
    Des_iv bytes
  | Gost_params oid oid
  | Pbkdf2_params bytes int nat sc_algorithm_id
  | Pbes2_params sc_algorithm_id sc_algorithm_id
  | Ec_params int "bytes option"

record sc_pkcs15_sec_env_info =
  si_se :: int
  si_owner :: oid
  si_aid :: bytes

text \<open>
  The cells: an \<open>int\<close>, an \<open>unsigned int\<close>, a \<open>size_t\<close>, an array of bytes, a pointer to allocated
  bytes, and the structures an entry can fill as a whole. An identifier is the part of its array
  in use.
\<close>

datatype cell =
    Int_cell int | Word_cell u32 | Size_cell nat | Array_cell bytes | Buf_cell "bytes option"
  | Oid_cell oid | Id_cell bytes | Path_cell sc_path | Alg_cell sc_algorithm_id
  | Se_cell "sc_pkcs15_sec_env_info list"

text \<open>
  The name of an entry only marks the end of a table, which is the end of the list. A PKCS#15
  object is the address of its common attributes (label, flags, authentication identifier, user
  consent, then the two parts of each access rule) and its three tables. A callback is what it
  does when decoding and when encoding.
\<close>

datatype asn1_entry =
    Entry (e_type: asn1_type) (e_tag: u32) (e_flags: u32) (e_parm: asn1_parm) (e_arg: "nat option")
and asn1_parm =
    Parm_null
  | Parm_table "asn1_entry list"
  | Parm_var nat
  | Parm_object nat "asn1_entry list option" "asn1_entry list option" "asn1_entry list option"
  | Parm_callback "bytes \<Rightarrow> cell list \<Rightarrow> unit res \<times> cell list" "cell list \<Rightarrow> bytes res"

definition e_flag :: "asn1_entry \<Rightarrow> u32 \<Rightarrow> bool" where
  "e_flag e f \<longleftrightarrow> e_flags e AND f \<noteq> 0"

definition set_parm :: "asn1_parm \<Rightarrow> asn1_entry \<Rightarrow> asn1_entry" where
  "set_parm p e = Entry (e_type e) (e_tag e) (e_flags e) p (e_arg e)"

definition set_present :: "asn1_entry \<Rightarrow> asn1_entry" where
  "set_present e = Entry (e_type e) (e_tag e) (e_flags e OR SC_ASN1_PRESENT) (e_parm e) (e_arg e)"

definition sc_format_asn1_entry :: "asn1_parm \<Rightarrow> nat option \<Rightarrow> bool \<Rightarrow> asn1_entry \<Rightarrow> asn1_entry" where
  "sc_format_asn1_entry p a present e =
    (let e = Entry (e_type e) (e_tag e) (e_flags e) p a in if present then set_present e else e)"

text \<open>A table as it is declared, with no variables, and the call of \<open>sc_format_asn1_entry\<close> on each
  of its entries.\<close>

definition blank :: "asn1_type \<Rightarrow> u32 \<Rightarrow> u32 \<Rightarrow> asn1_entry" where
  "blank t tag flags = Entry t tag flags Parm_null None"

definition format_all :: "bool \<Rightarrow> (asn1_parm \<times> nat option) list \<Rightarrow> asn1_entry list \<Rightarrow> asn1_entry list" where
  "format_all present = map2 (\<lambda>(p, a). sc_format_asn1_entry p a present)"

section \<open>Variables\<close>

text \<open>The cell an entry points to; nothing is done for a null pointer.\<close>

definition deref :: "asn1_entry \<Rightarrow> cell list \<Rightarrow> (nat \<Rightarrow> cell \<Rightarrow> unit res \<times> cell list) \<Rightarrow> unit res \<times> cell list" where
  "deref e m f =
    (case e_parm e of
       Parm_null \<Rightarrow> (Inr (), m)
     | Parm_var a \<Rightarrow> if a < length m then f a (m ! a) else (Inl UNDEFINED, m)
     | _ \<Rightarrow> (Inl UNDEFINED, m))"

text \<open>The size an entry points to: its address and value. \<open>missing\<close> is the code for a null pointer.\<close>

definition sized ::
  "sc_error \<Rightarrow> asn1_entry \<Rightarrow> cell list \<Rightarrow> (nat \<Rightarrow> nat \<Rightarrow> unit res \<times> cell list) \<Rightarrow> unit res \<times> cell list" where
  "sized missing e m f =
    (case e_arg e of
       None \<Rightarrow> (Inl missing, m)
     | Some l \<Rightarrow>
        if l < length m then (case m ! l of Size_cell n \<Rightarrow> f l n | _ \<Rightarrow> (Inl UNDEFINED, m))
        else (Inl UNDEFINED, m))"

definition int_at :: "cell list \<Rightarrow> nat \<Rightarrow> int" where
  "int_at m a = (case m ! a of Int_cell x \<Rightarrow> x | _ \<Rightarrow> 0)"

definition size_at :: "cell list \<Rightarrow> nat \<Rightarrow> nat" where
  "size_at m a = (case m ! a of Size_cell n \<Rightarrow> n | _ \<Rightarrow> 0)"

definition array_at :: "cell list \<Rightarrow> nat \<Rightarrow> bytes" where
  "array_at m a = (case m ! a of Array_cell b \<Rightarrow> b | _ \<Rightarrow> [])"

definition buf_at :: "cell list \<Rightarrow> nat \<Rightarrow> bytes" where
  "buf_at m a = (case m ! a of Buf_cell (Some b) \<Rightarrow> b | _ \<Rightarrow> [])"

definition oid_at :: "cell list \<Rightarrow> nat \<Rightarrow> oid" where
  "oid_at m a = (case m ! a of Oid_cell v \<Rightarrow> v | _ \<Rightarrow> sc_init_oid)"

definition alg_at :: "cell list \<Rightarrow> nat \<Rightarrow> sc_algorithm_id" where
  "alg_at m a = (case m ! a of Alg_cell i \<Rightarrow> i | _ \<Rightarrow> Algorithm_id 0 (replicate 16 0) None)"

section \<open>Decoding one value\<close>

text \<open>The types that fill one cell.\<close>

definition write_cell :: "asn1_type \<Rightarrow> bytes \<Rightarrow> cell \<Rightarrow> unit res \<times> cell" where
  "write_cell t obj c =
    (if t = SC_ASN1_BOOLEAN then
       (case c of Int_cell _ \<Rightarrow>
          if length obj \<noteq> 1 then (Inl SC_ERROR_INVALID_ASN1_OBJECT, c)
          else (Inr (), Int_cell (if obj ! 0 \<noteq> 0 then 1 else 0))
        | _ \<Rightarrow> (Inl UNDEFINED, c))
     else if t = SC_ASN1_INTEGER \<or> t = SC_ASN1_ENUMERATED then
       (case c of Int_cell _ \<Rightarrow>
          (case sc_asn1_decode_integer obj False of Inl e \<Rightarrow> (Inl e, c) | Inr x \<Rightarrow> (Inr (), Int_cell x))
        | _ \<Rightarrow> (Inl UNDEFINED, c))
     else if t = SC_ASN1_OBJECT then
       (case c of Oid_cell v \<Rightarrow>
          (case sc_asn1_decode_object_id (Some obj) v of (r, v) \<Rightarrow> (r, Oid_cell v))
        | _ \<Rightarrow> (Inl UNDEFINED, c))
     else if t = SC_ASN1_PKCS15_ID then
       (case c of Id_cell _ \<Rightarrow> (Inr (), Id_cell (take SC_PKCS15_MAX_ID_SIZE obj)) | _ \<Rightarrow> (Inl UNDEFINED, c))
     else (Inl UNDEFINED, c))"

text \<open>A bit field has the size of an \<open>unsigned int\<close>; its size is read without a check of the pointer.\<close>

definition write_field :: "asn1_entry \<Rightarrow> bytes \<Rightarrow> nat \<Rightarrow> cell \<Rightarrow> cell list \<Rightarrow> unit res \<times> cell list" where
  "write_field e obj a c m =
     sized UNDEFINED e m (\<lambda>l n.
       case c of Word_cell _ \<Rightarrow>
         (case decode_bit_field obj n False of Inl r \<Rightarrow> (Inl r, m) | Inr w \<Rightarrow> (Inr (), m[a := Word_cell w]))
       | _ \<Rightarrow> (Inl UNDEFINED, m))"

text \<open>The number of bits is stored where the number of bytes of the buffer was read.\<close>

definition store_bits :: "nat \<Rightarrow> int res \<Rightarrow> cell list \<Rightarrow> unit res \<times> cell list" where
  "store_bits l r m =
    (case r of
       Inl e \<Rightarrow> (Inl e, m)
     | Inr n \<Rightarrow> if n \<ge> 0 then (Inr (), m[l := Size_cell (nat n)]) else (Inl n, m))"

definition write_bits ::
  "(nat \<Rightarrow> bytes option) \<Rightarrow> asn1_entry \<Rightarrow> bytes \<Rightarrow> nat \<Rightarrow> cell \<Rightarrow> cell list \<Rightarrow> unit res \<times> cell list" where
  "write_bits malloc e obj a c m =
     sized SC_ERROR_INTERNAL e m (\<lambda>l n.
       let invert = (e_type e = SC_ASN1_BIT_STRING) in
       if length obj < 1 then (Inl SC_ERROR_INVALID_ASN1_OBJECT, m)
       else if e_flag e SC_ASN1_ALLOC then
         (case c of Buf_cell _ \<Rightarrow>
            if length obj > 1 \<and> malloc (length obj - 1) = None
            then (Inl SC_ERROR_OUT_OF_MEMORY, m[a := Buf_cell None])
            else (case decode_bit_string obj (replicate (length obj - 1) 0) invert False of
                    (r, out) \<Rightarrow>
                      store_bits l r
                        ((if length obj > 1 then m[a := Buf_cell (Some out)] else m)[l := Size_cell (length obj - 1)]))
          | _ \<Rightarrow> (Inl UNDEFINED, m))
       else
         (case c of Array_cell buf \<Rightarrow>
            if n > length buf then (Inl UNDEFINED, m)
            else (case decode_bit_string obj (take n buf) invert False of
                    (r, out) \<Rightarrow> store_bits l r (m[a := Array_cell (out @ drop n buf)]))
          | _ \<Rightarrow> (Inl UNDEFINED, m)))"

text \<open>Octets go to an array of the caller, as many as it has room for, or to allocated memory.\<close>

definition write_octets ::
  "(nat \<Rightarrow> bytes option) \<Rightarrow> asn1_entry \<Rightarrow> bytes \<Rightarrow> nat \<Rightarrow> cell \<Rightarrow> cell list \<Rightarrow> unit res \<times> cell list" where
  "write_octets malloc e obj a c m =
     sized SC_ERROR_INTERNAL e m (\<lambda>l n.
       let obj = (if e_type e = SC_ASN1_OCTET_STRING \<and> e_flag e SC_ASN1_UNSIGNED \<and> length obj > 1 \<and> obj ! 0 = 0
                  then tl obj else obj) in
       if e_flag e SC_ASN1_ALLOC then
         (case c of Buf_cell _ \<Rightarrow>
            if length obj > 0 then
              (if malloc (length obj) = None then (Inl SC_ERROR_OUT_OF_MEMORY, m[a := Buf_cell None])
               else (Inr (), m[a := Buf_cell (Some obj), l := Size_cell (length obj)]))
            else (Inr (), m[l := Size_cell 0])
          | _ \<Rightarrow> (Inl UNDEFINED, m))
       else
         (case c of Array_cell buf \<Rightarrow>
            let k = (if length obj > n then n else length obj) in
            if k > length buf then (Inl UNDEFINED, m)
            else (Inr (), m[a := Array_cell (memcpy_at buf 0 (take k obj)), l := Size_cell k])
          | _ \<Rightarrow> (Inl UNDEFINED, m)))"

definition write_text ::
  "(nat \<Rightarrow> bytes option) \<Rightarrow> asn1_entry \<Rightarrow> bytes \<Rightarrow> nat \<Rightarrow> cell \<Rightarrow> cell list \<Rightarrow> unit res \<times> cell list" where
  "write_text malloc e obj a c m =
     sized SC_ERROR_INTERNAL e m (\<lambda>l n.
       if e_flag e SC_ASN1_ALLOC then
         (case c of Buf_cell _ \<Rightarrow>
            (case malloc (length obj + 1) of
               None \<Rightarrow> (Inl SC_ERROR_OUT_OF_MEMORY, m[a := Buf_cell None])
             | Some _ \<Rightarrow>
                (case sc_asn1_decode_utf8string obj (replicate (length obj + 1) 0) of
                   (r, out) \<Rightarrow> (ebind r (\<lambda>_. Inr ()), m[a := Buf_cell (Some out), l := Size_cell (length obj)])))
          | _ \<Rightarrow> (Inl UNDEFINED, m))
       else
         (case c of Array_cell buf \<Rightarrow>
            if n > length buf then (Inl UNDEFINED, m)
            else (case sc_asn1_decode_utf8string obj (take n buf) of
                    (Inl r, out) \<Rightarrow> (Inl r, m)
                  | (Inr k, out) \<Rightarrow> (Inr (), m[a := Array_cell (out @ drop n buf), l := Size_cell k]))
          | _ \<Rightarrow> (Inl UNDEFINED, m)))"

section \<open>Structures of several values\<close>

text \<open>
  A decoder is applied to a choice flag, a table, the input and the memory. It returns its code
  (the index of the alternative for a choice) with the number of bytes it has moved forward, the
  table with the entries it has found marked, and the memory. A function whose table leads to its own
  variables only runs the decoder on a memory of just these; uninitialised ones start as zero.
\<close>

type_synonym decoder =
  "bool \<Rightarrow> asn1_entry list \<Rightarrow> bytes \<Rightarrow> cell list \<Rightarrow> (nat \<times> nat) res \<times> asn1_entry list \<times> cell list"

subsection \<open>Paths\<close>

definition c_asn1_path_ext :: "asn1_entry list" where
  "c_asn1_path_ext =
    [blank SC_ASN1_OCTET_STRING (SC_ASN1_APP OR 0x0F) 0, blank SC_ASN1_OCTET_STRING 4 0]"

definition c_asn1_path :: "asn1_entry list" where
  "c_asn1_path =
    [blank SC_ASN1_OCTET_STRING 4 SC_ASN1_OPTIONAL, blank SC_ASN1_INTEGER 2 SC_ASN1_OPTIONAL,
     blank SC_ASN1_INTEGER (SC_ASN1_CTX OR 0) SC_ASN1_OPTIONAL,
     blank SC_ASN1_STRUCT ((SC_ASN1_CTX OR 1) OR SC_ASN1_CONS) SC_ASN1_OPTIONAL]"

text \<open>The variables: \<open>path_value\<close>, \<open>path_len\<close>, \<open>aid_value\<close>, \<open>aid_len\<close>, \<open>idx\<close>, \<open>count\<close>. The first two
  are shared by the plain and the extended path.\<close>

definition path_vars :: "cell list" where
  "path_vars =
    [Array_cell (replicate SC_MAX_PATH_SIZE 0), Size_cell SC_MAX_PATH_SIZE,
     Array_cell (replicate SC_MAX_AID_SIZE 0), Size_cell SC_MAX_AID_SIZE, Int_cell 0, Int_cell 0]"

definition path_entries :: "asn1_entry list" where
  "path_entries =
    (let ext = format_all False [(Parm_var 2, Some 3), (Parm_var 0, Some 1)] c_asn1_path_ext in
     format_all False [(Parm_var 0, Some 1), (Parm_var 4, None), (Parm_var 5, None), (Parm_table ext, None)]
       c_asn1_path)"

definition path_type :: "bytes \<Rightarrow> bytes \<Rightarrow> int" where
  "path_type val aid =
    (if length val = 2 then SC_PATH_TYPE_FILE_ID
     else if length aid \<noteq> 0 \<and> length val > 2 then SC_PATH_TYPE_FROM_CURRENT
     else SC_PATH_TYPE_PATH)"

definition asn1_decode_path :: "decoder \<Rightarrow> bytes \<Rightarrow> unit res \<times> sc_path" where
  "asn1_decode_path rec obj =
    (case rec False path_entries obj path_vars of
       (Inl r, _, _) \<Rightarrow> (Inl r, zero_path)
     | (Inr _, t, m) \<Rightarrow>
        let val = take (size_at m 1) (array_at m 0);
            present = (\<lambda>i. e_flag (t ! i) SC_ASN1_PRESENT);
            aid = (if present 3 then take (size_at m 3) (array_at m 2) else [])
        in if \<not> present 3 \<and> \<not> present 0 then (Inl SC_ERROR_ASN1_OBJECT_NOT_FOUND, zero_path)
           else
             (Inr (), \<lparr>p_value = val,
               p_index = (if present 1 \<and> present 2 then int_at m 4 else 0),
               p_count = (if present 1 \<and> present 2 then int_at m 5 else - 1),
               p_type = path_type val aid, p_aid = aid\<rparr>))"

subsection \<open>Security environments\<close>

definition c_asn1_se :: "asn1_entry list" where
  "c_asn1_se = [blank SC_ASN1_STRUCT SC_ASN1_TAG_SEQUENCE_CONS 0]"

definition c_asn1_se_info :: "asn1_entry list" where
  "c_asn1_se_info =
    [blank SC_ASN1_INTEGER 2 0, blank SC_ASN1_OBJECT 6 SC_ASN1_OPTIONAL, blank SC_ASN1_OCTET_STRING 4 SC_ASN1_OPTIONAL]"

text \<open>The variables: the number, the owner, the application identifier and its length.\<close>

definition se_vars :: "cell list" where
  "se_vars = [Int_cell 0, Oid_cell (replicate 16 0), Array_cell (replicate SC_MAX_AID_SIZE 0), Size_cell SC_MAX_AID_SIZE]"

definition se_entries :: "asn1_entry list" where
  "se_entries =
    format_all False
      [(Parm_table (format_all False [(Parm_var 0, None), (Parm_var 1, None), (Parm_var 2, Some 3)] c_asn1_se_info), None)]
      c_asn1_se"

definition nested_table :: "asn1_parm \<Rightarrow> asn1_entry list" where
  "nested_table p = (case p of Parm_table t \<Rightarrow> t | _ \<Rightarrow> [])"

text \<open>Allocations ask for the size of the C structure on a machine with 64-bit pointers.\<close>

fun se_loop :: "(nat \<Rightarrow> bytes option) \<Rightarrow> decoder \<Rightarrow> nat \<Rightarrow> bytes \<Rightarrow> sc_pkcs15_sec_env_info list \<Rightarrow> sc_pkcs15_sec_env_info list res" where
  "se_loop malloc rec 0 p ses = Inr ses"
| "se_loop malloc rec (Suc n) p ses =
    (if p = [] then Inr ses
     else case rec False se_entries p se_vars of
         (Inl r, _, _) \<Rightarrow> Inl r
       | (Inr (_, off), t, m) \<Rightarrow>
          let owner = (if e_flag (nested_table (e_parm (t ! 0)) ! 1) SC_ASN1_PRESENT then oid_at m 1 else sc_init_oid)
          in if malloc 96 = None then Inl SC_ERROR_OUT_OF_MEMORY
             else se_loop malloc rec n (drop off p)
               (ses @ [\<lparr>si_se = int_at m 0, si_owner = owner, si_aid = take (size_at m 3) (array_at m 2)\<rparr>]))"

definition asn1_decode_se_info ::
  "(nat \<Rightarrow> bytes option) \<Rightarrow> decoder \<Rightarrow> bytes \<Rightarrow> sc_pkcs15_sec_env_info list res" where
  "asn1_decode_se_info malloc rec obj =
    (if malloc (SC_MAX_SE_NUM * 8) = None then Inl SC_ERROR_OUT_OF_MEMORY
     else se_loop malloc rec SC_MAX_SE_NUM obj [])"

subsection \<open>PKCS#15 objects\<close>

definition c_asn1_access_control_rule :: "asn1_entry list" where
  "c_asn1_access_control_rule =
    [blank SC_ASN1_BIT_FIELD 3 SC_ASN1_OPTIONAL, blank SC_ASN1_PKCS15_ID 4 SC_ASN1_OPTIONAL]"

definition c_asn1_access_control_rules :: "asn1_entry list" where
  "c_asn1_access_control_rules =
    replicate SC_PKCS15_MAX_ACCESS_RULES (blank SC_ASN1_STRUCT SC_ASN1_TAG_SEQUENCE_CONS SC_ASN1_OPTIONAL)"

definition c_asn1_com_obj_attr :: "asn1_entry list" where
  "c_asn1_com_obj_attr =
    [blank SC_ASN1_UTF8STRING 12 SC_ASN1_OPTIONAL, blank SC_ASN1_BIT_FIELD 3 SC_ASN1_OPTIONAL,
     blank SC_ASN1_PKCS15_ID 4 SC_ASN1_OPTIONAL, blank SC_ASN1_INTEGER 2 SC_ASN1_OPTIONAL,
     blank SC_ASN1_STRUCT SC_ASN1_TAG_SEQUENCE_CONS SC_ASN1_OPTIONAL]"

definition c_asn1_p15_obj :: "asn1_entry list" where
  "c_asn1_p15_obj =
    [blank SC_ASN1_STRUCT SC_ASN1_TAG_SEQUENCE_CONS 0, blank SC_ASN1_STRUCT SC_ASN1_TAG_SEQUENCE_CONS 0,
     blank SC_ASN1_STRUCT ((SC_ASN1_CTX OR 0) OR SC_ASN1_CONS) SC_ASN1_OPTIONAL,
     blank SC_ASN1_STRUCT ((SC_ASN1_CTX OR 1) OR SC_ASN1_CONS) 0]"

definition opt_table :: "asn1_entry list option \<Rightarrow> asn1_parm" where
  "opt_table t = (case t of None \<Rightarrow> Parm_null | Some t \<Rightarrow> Parm_table t)"

definition table_opt :: "asn1_parm \<Rightarrow> asn1_entry list option" where
  "table_opt p = (case p of Parm_table t \<Rightarrow> Some t | _ \<Rightarrow> None)"

text \<open>The variables after the memory: the lengths of the label, of the flags and of an access mode.
  \<open>ob\<close> is the address of the object, \<open>base\<close> that of the variables.\<close>

definition p15_vars :: "cell list" where
  "p15_vars = [Size_cell SC_PKCS15_MAX_LABEL_SIZE, Size_cell 4, Size_cell 4]"

definition rule_entries :: "nat \<Rightarrow> nat \<Rightarrow> asn1_entry list" where
  "rule_entries ob base =
    format_all False
      (map (\<lambda>ii. (Parm_table (format_all False
          [(Parm_var (ob + 4 + 2 * ii), Some (base + 2)), (Parm_var (ob + 5 + 2 * ii), None)]
          c_asn1_access_control_rule), None)) [0..<SC_PKCS15_MAX_ACCESS_RULES])
      c_asn1_access_control_rules"

definition attr_entries :: "nat \<Rightarrow> nat \<Rightarrow> asn1_entry list" where
  "attr_entries ob base =
    format_all False
      [(Parm_var ob, Some base), (Parm_var (ob + 1), Some (base + 1)), (Parm_var (ob + 2), None),
       (Parm_var (ob + 3), None), (Parm_table (rule_entries ob base), None)]
      c_asn1_com_obj_attr"

definition p15_entries ::
  "nat \<Rightarrow> nat \<Rightarrow> asn1_entry list option \<Rightarrow> asn1_entry list option \<Rightarrow> asn1_entry list option \<Rightarrow> asn1_entry list" where
  "p15_entries ob base cls sub ty =
    format_all False
      [(Parm_table (attr_entries ob base), None), (opt_table cls, None), (opt_table sub, None), (opt_table ty, None)]
      c_asn1_p15_obj"

definition asn1_decode_p15_object ::
  "decoder \<Rightarrow> bytes \<Rightarrow> nat \<Rightarrow> asn1_entry list option \<Rightarrow> asn1_entry list option \<Rightarrow> asn1_entry list option \<Rightarrow>
   cell list \<Rightarrow> unit res \<times> asn1_parm \<times> cell list" where
  "asn1_decode_p15_object rec obj ob cls sub ty m =
    (case rec False (p15_entries ob (length m) cls sub ty) obj (m @ p15_vars) of
       (r, t, m') \<Rightarrow>
         (ebind r (\<lambda>_. Inr ()),
          Parm_object ob (table_opt (e_parm (t ! 1))) (table_opt (e_parm (t ! 2))) (table_opt (e_parm (t ! 3))),
          take (length m) m'))"

subsection \<open>Algorithm identifiers\<close>

text \<open>Which pair of functions an entry of the algorithm table has for its parameters.\<close>

datatype alg_codec = No_codec | Des_codec | Gost_codec | Pbkdf2_codec | Pbes2_codec | Ec_codec

text \<open>An array of 16 numbers initialised by a shorter list ends in zeros.\<close>

definition oid_literal :: "int list \<Rightarrow> oid" where
  "oid_literal xs = xs @ replicate (SC_MAX_OBJECT_ID_OCTETS - length xs) 0"

abbreviation (input) SC_ALGORITHM_SHA1 :: int where "SC_ALGORITHM_SHA1 \<equiv> 129"
abbreviation (input) SC_ALGORITHM_EDDSA :: int where "SC_ALGORITHM_EDDSA \<equiv> 4"
abbreviation (input) SC_ALGORITHM_XEDDSA :: int where "SC_ALGORITHM_XEDDSA \<equiv> 5"

definition algorithm_table :: "(int \<times> oid \<times> alg_codec) list" where
  "algorithm_table =
    (let rsadsi = [1, 2, 840, 113549] in
     map (\<lambda>(i, arcs, c). (i, oid_literal arcs, c))
      [(129, rsadsi @ [2, 7, - 1], No_codec),
       (129, [1, 3, 6, 1, 5, 5, 8, 1, 2, - 1], No_codec),
       (129, [1, 3, 14, 3, 2, 26, - 1], No_codec),
       (128, rsadsi @ [2, 5, - 1], No_codec),
       (0, rsadsi @ [1, 1, 1, - 1], No_codec),
       (0, rsadsi @ [1, 1, 10, - 1], No_codec),
       (64, [1, 3, 14, 3, 2, 7, - 1], Des_codec),
       (65, rsadsi @ [3, 7, - 1], Des_codec),
       (66, [1, 2, 4434, 66565, 3, 7, - 1], No_codec),
       (3, [1, 2, 643, 2, 2, 19, - 1], Gost_codec),
       (192, rsadsi @ [1, 5, 12, - 1], Pbkdf2_codec),
       (256, rsadsi @ [1, 5, 13, - 1], Pbes2_codec),
       (2, [1, 2, 840, 10045, 2, 1, - 1], Ec_codec),
       (4, [1, 3, 101, 112, - 1], Ec_codec),
       (4, [1, 3, 6, 1, 4, 1, 11591, 15, 1, - 1], Ec_codec),
       (4, [1, 3, 101, 113, - 1], Ec_codec),
       (5, [1, 3, 101, 110, - 1], Ec_codec),
       (5, [1, 3, 6, 1, 4, 1, 3029, 1, 5, 1 - 1], Ec_codec),
       (5, [1, 3, 101, 111, - 1], Ec_codec)])"

text \<open>The entry for an identifier: by its object identifier when the number, as an \<open>int\<close>, is negative,
  else by the number.\<close>

definition sc_asn1_get_algorithm_info :: "u64 \<Rightarrow> oid \<Rightarrow> (int \<times> oid \<times> alg_codec) option" where
  "sc_asn1_get_algorithm_info algorithm v =
    (let n = sint (ucast algorithm :: u32) in
     find (\<lambda>(i, w, c). n < 0 \<and> sc_compare_oid v w \<or> i = n) algorithm_table)"

definition c_asn1_des_iv :: "asn1_entry list" where
  "c_asn1_des_iv = [blank SC_ASN1_OCTET_STRING 4 0]"

definition asn1_decode_des_params ::
  "(nat \<Rightarrow> bytes option) \<Rightarrow> decoder \<Rightarrow> bytes \<Rightarrow> alg_params option res" where
  "asn1_decode_des_params malloc rec buf =
    (case rec False (format_all False [(Parm_var 0, Some 1)] c_asn1_des_iv) buf
            [Array_cell (replicate 8 0), Size_cell 8] of
       (Inl r, _, _) \<Rightarrow> Inl r
     | (Inr _, _, m) \<Rightarrow>
        if size_at m 1 \<noteq> 8 then Inl SC_ERROR_INVALID_ASN1_OBJECT
        else if malloc 8 = None then Inl SC_ERROR_OUT_OF_MEMORY
        else Inr (Some (Des_iv (take 8 (array_at m 0)))))"

definition c_asn1_gostr3410_params0 :: "asn1_entry list" where
  "c_asn1_gostr3410_params0 = [blank SC_ASN1_STRUCT SC_ASN1_TAG_SEQUENCE_CONS 0]"

definition c_asn1_gostr3410_params :: "asn1_entry list" where
  "c_asn1_gostr3410_params =
    [blank SC_ASN1_OBJECT 6 0, blank SC_ASN1_OBJECT 6 0, blank SC_ASN1_OBJECT 6 SC_ASN1_OPTIONAL]"

text \<open>What is read is not stored.\<close>

definition asn1_decode_gostr3410_params :: "decoder \<Rightarrow> bytes \<Rightarrow> alg_params option res" where
  "asn1_decode_gostr3410_params rec buf =
    (let t = format_all False [(Parm_var 0, None), (Parm_var 1, None), (Parm_var 2, None)] c_asn1_gostr3410_params in
     case rec False (format_all False [(Parm_table t, None)] c_asn1_gostr3410_params0) buf
            (replicate 3 (Oid_cell (replicate 16 0))) of
       (Inl r, _, _) \<Rightarrow> Inl r
     | (Inr _, _, _) \<Rightarrow> Inr None)"

definition c_asn1_pbkdf2_params :: "asn1_entry list" where
  "c_asn1_pbkdf2_params =
    [blank SC_ASN1_OCTET_STRING 4 0, blank SC_ASN1_INTEGER 2 0, blank SC_ASN1_INTEGER 2 SC_ASN1_OPTIONAL,
     blank SC_ASN1_ALGORITHM_ID 16 SC_ASN1_OPTIONAL]"

text \<open>
  The variables: salt, its length, the iterations, the length of the key, the hash. The length of the
  key is a \<open>size_t\<close> set to zero into which the decoder stores an \<open>int\<close>; its value is that of the
  lower half of a little-endian number.
\<close>

definition asn1_decode_pbkdf2_params :: "(nat \<Rightarrow> bytes option) \<Rightarrow> decoder \<Rightarrow> bytes \<Rightarrow> alg_params option res" where
  "asn1_decode_pbkdf2_params malloc rec buf =
    (case rec False
            (format_all False [(Parm_var 0, Some 1), (Parm_var 2, None), (Parm_var 3, None), (Parm_var 4, None)]
              c_asn1_pbkdf2_params) buf
            [Array_cell (replicate 16 0), Size_cell 16, Int_cell 0, Int_cell 0,
             Alg_cell (Algorithm_id (of_int SC_ALGORITHM_SHA1) (replicate 16 0) None)] of
       (Inl r, _, _) \<Rightarrow> Inl r
     | (Inr _, _, m) \<Rightarrow>
        if malloc 120 = None then Inl SC_ERROR_OUT_OF_MEMORY
        else Inr (Some (Pbkdf2_params (take (size_at m 1) (array_at m 0)) (int_at m 2)
          (nat (int_at m 3 mod 2 ^ 32)) (alg_at m 4))))"

definition c_asn1_pbes2_params :: "asn1_entry list" where
  "c_asn1_pbes2_params = [blank SC_ASN1_ALGORITHM_ID 16 0, blank SC_ASN1_ALGORITHM_ID 16 0]"

definition asn1_decode_pbes2_params :: "(nat \<Rightarrow> bytes option) \<Rightarrow> decoder \<Rightarrow> bytes \<Rightarrow> alg_params option res" where
  "asn1_decode_pbes2_params malloc rec buf =
    (case rec False (format_all False [(Parm_var 0, None), (Parm_var 1, None)] c_asn1_pbes2_params) buf
            (replicate 2 (Alg_cell (Algorithm_id 0 (replicate 16 0) None))) of
       (Inl r, _, _) \<Rightarrow> Inl r
     | (Inr _, _, m) \<Rightarrow>
        if malloc 160 = None then Inl SC_ERROR_OUT_OF_MEMORY
        else Inr (Some (Pbes2_params (alg_at m 0) (alg_at m 1))))"

definition c_asn1_ec_params :: "asn1_entry list" where
  "c_asn1_ec_params =
    [blank SC_ASN1_STRUCT SC_ASN1_TAG_SEQUENCE_CONS 0, blank SC_ASN1_OBJECT 6 0, blank SC_ASN1_NULL 5 0]"

definition ec_entries :: "asn1_entry list" where
  "ec_entries = c_asn1_ec_params[1 := sc_format_asn1_entry (Parm_var 0) None False (c_asn1_ec_params ! 1)]"

definition asn1_decode_ec_params ::
  "(nat \<Rightarrow> bytes option) \<Rightarrow> decoder \<Rightarrow> bytes \<Rightarrow> alg_params option res" where
  "asn1_decode_ec_params malloc rec buf =
    (if buf = [] then Inr None
     else case rec True ec_entries buf [Oid_cell (replicate 16 0)] of
         (Inl r, _, _) \<Rightarrow> Inl r
       | (Inr (i, _), _, _) \<Rightarrow>
          if malloc 112 = None then Inl SC_ERROR_OUT_OF_MEMORY
          else if i \<le> 1 then
            (if malloc (length buf) = None then Inl SC_ERROR_OUT_OF_MEMORY
             else Inr (Some (Ec_params (int i) (Some buf))))
          else Inr (Some (Ec_params 0 None)))"

definition decode_params ::
  "(nat \<Rightarrow> bytes option) \<Rightarrow> decoder \<Rightarrow> alg_codec \<Rightarrow> bytes \<Rightarrow> alg_params option res" where
  "decode_params malloc rec c buf =
    (case c of
       No_codec \<Rightarrow> Inr None
     | Des_codec \<Rightarrow> asn1_decode_des_params malloc rec buf
     | Gost_codec \<Rightarrow> asn1_decode_gostr3410_params rec buf
     | Pbkdf2_codec \<Rightarrow> asn1_decode_pbkdf2_params malloc rec buf
     | Pbes2_codec \<Rightarrow> asn1_decode_pbes2_params malloc rec buf
     | Ec_codec \<Rightarrow> asn1_decode_ec_params malloc rec buf)"

definition c_asn1_alg_id :: "asn1_entry list" where
  "c_asn1_alg_id = [blank SC_ASN1_OBJECT 6 0, blank SC_ASN1_NULL 5 SC_ASN1_OPTIONAL]"

definition alg_id_entries :: "bool \<Rightarrow> asn1_entry list" where
  "alg_id_entries present =
    [sc_format_asn1_entry (Parm_var 0) None present (c_asn1_alg_id ! 0), c_asn1_alg_id ! 1]"

definition sc_asn1_decode_algorithm_id ::
  "(nat \<Rightarrow> bytes option) \<Rightarrow> decoder \<Rightarrow> bytes \<Rightarrow> unit res \<times> sc_algorithm_id" where
  "sc_asn1_decode_algorithm_id malloc rec obj =
    (case rec False (alg_id_entries False) obj [Oid_cell (replicate 16 0)] of
       (Inl r, _, m) \<Rightarrow> (Inl r, Algorithm_id 0 (oid_at m 0) None)
     | (Inr (_, off), t, m) \<Rightarrow>
        let v = oid_at m 0 in
        case sc_asn1_get_algorithm_info 0xFFFFFFFF v of
          None \<Rightarrow> (Inr (), Algorithm_id 0xFFFFFFFF v None)
        | Some (i, _, c) \<Rightarrow>
           if c = No_codec then (Inr (), Algorithm_id (of_int i) v None)
           else if e_flag (t ! 1) SC_ASN1_PRESENT
           then (Inl SC_ERROR_INVALID_ASN1_OBJECT, Algorithm_id (of_int i) v None)
           else case decode_params malloc rec c (drop off obj) of
               Inl r \<Rightarrow> (Inl r, Algorithm_id (of_int i) v None)
             | Inr p \<Rightarrow> (Inr (), Algorithm_id (of_int i) v p))"

section \<open>The decoder\<close>

text \<open>The parameter of an entry after decoding: a table has its entries marked.\<close>

definition keep_parm :: "asn1_entry \<Rightarrow> unit res \<times> cell list \<Rightarrow> unit res \<times> asn1_parm \<times> cell list" where
  "keep_parm e x = (fst x, e_parm e, snd x)"

definition decode_value ::
  "(nat \<Rightarrow> bytes option) \<Rightarrow> decoder \<Rightarrow> asn1_entry \<Rightarrow> bytes \<Rightarrow> cell list \<Rightarrow> unit res \<times> asn1_parm \<times> cell list" where
  "decode_value malloc rec e obj m =
    (case e_type e of
       SC_ASN1_STRUCT \<Rightarrow>
         (case e_parm e of
            Parm_null \<Rightarrow> (Inr (), Parm_null, m)
          | Parm_table t \<Rightarrow> (case rec False t obj m of (r, t, m) \<Rightarrow> (ebind r (\<lambda>_. Inr ()), Parm_table t, m))
          | p \<Rightarrow> (Inl UNDEFINED, p, m))
     | SC_ASN1_NULL \<Rightarrow> (Inr (), e_parm e, m)
     | SC_ASN1_BIT_STRING \<Rightarrow> keep_parm e (deref e m (\<lambda>a c. write_bits malloc e obj a c m))
     | SC_ASN1_BIT_STRING_NI \<Rightarrow> keep_parm e (deref e m (\<lambda>a c. write_bits malloc e obj a c m))
     | SC_ASN1_BIT_FIELD \<Rightarrow> keep_parm e (deref e m (\<lambda>a c. write_field e obj a c m))
     | SC_ASN1_OCTET_STRING \<Rightarrow> keep_parm e (deref e m (\<lambda>a c. write_octets malloc e obj a c m))
     | SC_ASN1_GENERALIZEDTIME \<Rightarrow> keep_parm e (deref e m (\<lambda>a c. write_octets malloc e obj a c m))
     | SC_ASN1_PRINTABLESTRING \<Rightarrow> keep_parm e (deref e m (\<lambda>a c. write_text malloc e obj a c m))
     | SC_ASN1_UTF8STRING \<Rightarrow> keep_parm e (deref e m (\<lambda>a c. write_text malloc e obj a c m))
     | SC_ASN1_PATH \<Rightarrow> keep_parm e (deref e m (\<lambda>a c.
         case c of
           Path_cell _ \<Rightarrow> (case asn1_decode_path rec obj of (r, p) \<Rightarrow> (r, m[a := Path_cell p]))
         | _ \<Rightarrow> (Inl UNDEFINED, m)))
     | SC_ASN1_PKCS15_OBJECT \<Rightarrow>
         (case e_parm e of
            Parm_null \<Rightarrow> (Inr (), Parm_null, m)
          | Parm_object ob cls sub ty \<Rightarrow> asn1_decode_p15_object rec obj ob cls sub ty m
          | p \<Rightarrow> (Inl UNDEFINED, p, m))
     | SC_ASN1_ALGORITHM_ID \<Rightarrow> keep_parm e (deref e m (\<lambda>a c.
         case c of
           Alg_cell _ \<Rightarrow> (case sc_asn1_decode_algorithm_id malloc rec obj of (r, i) \<Rightarrow> (r, m[a := Alg_cell i]))
         | _ \<Rightarrow> (Inl UNDEFINED, m)))
     | SC_ASN1_SE_INFO \<Rightarrow> keep_parm e (deref e m (\<lambda>a c.
         case c of
           Se_cell _ \<Rightarrow>
             (case asn1_decode_se_info malloc rec obj of
                Inl r \<Rightarrow> (Inl r, m)
              | Inr ses \<Rightarrow>
                 sized UNDEFINED e m (\<lambda>l n. (Inr (), m[a := Se_cell ses, l := Size_cell (length ses)])))
         | _ \<Rightarrow> (Inl UNDEFINED, m)))
     | SC_ASN1_CALLBACK \<Rightarrow>
         (case e_parm e of
            Parm_null \<Rightarrow> (Inr (), Parm_null, m)
          | Parm_callback f g \<Rightarrow> keep_parm e (f obj m)
          | p \<Rightarrow> (Inl UNDEFINED, p, m))
     | SC_ASN1_CHOICE \<Rightarrow> (Inl SC_ERROR_INVALID_ASN1_OBJECT, e_parm e, m)
     | SC_ASN1_OTHER \<Rightarrow> (Inl SC_ERROR_INVALID_ASN1_OBJECT, e_parm e, m)
     | t \<Rightarrow> keep_parm e (deref e m (\<lambda>a c. case write_cell t obj c of (r, c) \<Rightarrow> (r, m[a := c]))))"

text \<open>An entry is marked as present when its value has been decoded.\<close>

definition asn1_decode_entry ::
  "(nat \<Rightarrow> bytes option) \<Rightarrow> decoder \<Rightarrow> asn1_entry \<Rightarrow> bytes \<Rightarrow> cell list \<Rightarrow> unit res \<times> asn1_entry \<times> cell list" where
  "asn1_decode_entry malloc rec e obj m =
    (case decode_value malloc rec e obj m of
       (Inl r, p, m) \<Rightarrow> (Inl r, set_parm p e, m)
     | (Inr _, p, m) \<Rightarrow> (Inr (), set_present (set_parm p e), m))"

text \<open>The buffers allocated for entries that are present are freed, also in nested tables.\<close>

definition owns_buffer :: "asn1_entry \<Rightarrow> bool" where
  "owns_buffer e \<longleftrightarrow>
     e_type e \<in> {SC_ASN1_OCTET_STRING, SC_ASN1_BIT_STRING_NI, SC_ASN1_BIT_STRING, SC_ASN1_GENERALIZEDTIME,
       SC_ASN1_PRINTABLESTRING, SC_ASN1_UTF8STRING} \<and>
     e_flag e SC_ASN1_ALLOC \<and> e_flag e SC_ASN1_PRESENT"

fun sc_free_entry :: "asn1_entry list \<Rightarrow> cell list \<Rightarrow> cell list" where
  "sc_free_entry [] m = m"
| "sc_free_entry (Entry ty tag fl p ar # es) m =
    sc_free_entry es
     (case p of
        Parm_table t \<Rightarrow> if ty = SC_ASN1_CHOICE \<or> ty = SC_ASN1_STRUCT then sc_free_entry t m else m
      | Parm_var a \<Rightarrow> if owns_buffer (Entry ty tag fl p ar) then m[a := Buf_cell None] else m
      | _ \<Rightarrow> m)"

text \<open>
  The loop over the entries: \<open>pre\<close> are the ones already passed, \<open>p\<close> what is left of the input. A
  choice ends at the first alternative found; its code is the index of that.
\<close>

fun decode_loop ::
  "(nat \<Rightarrow> bytes option) \<Rightarrow> decoder \<Rightarrow> bool \<Rightarrow> asn1_entry list \<Rightarrow> asn1_entry list \<Rightarrow> bytes \<Rightarrow> cell list \<Rightarrow>
   (nat \<times> bytes) res \<times> asn1_entry list \<times> cell list" where
  "decode_loop malloc rec choice pre [] p m =
    ((if choice then Inl SC_ERROR_ASN1_OBJECT_NOT_FOUND else Inr (0, p)), pre, m)"
| "decode_loop malloc rec choice pre (e # es) p m =
    (if e_type e = SC_ASN1_CHOICE then
       (case e_parm e of
          Parm_table t \<Rightarrow>
           (case rec True t p m of
              (r, t', m') \<Rightarrow>
               let e' = set_parm (Parm_table t') e; q = (case r of Inr (_, off) \<Rightarrow> drop off p | Inl _ \<Rightarrow> p) in
               if \<not> isl r \<or> e_flag e SC_ASN1_OPTIONAL then
                 (if choice then (Inr (length pre, q), pre @ e' # es, m')
                  else decode_loop malloc rec choice (pre @ [e']) es q m')
               else (ebind r (\<lambda>_. Inr (0, p)), pre @ e' # es, m'))
        | _ \<Rightarrow> (Inl UNDEFINED, pre @ e # es, m))
     else
       case sc_asn1_skip_tag p (e_tag e) of
         None \<Rightarrow>
          if choice \<or> e_flag e SC_ASN1_OPTIONAL then decode_loop malloc rec choice (pre @ [e]) es p m
          else (Inl SC_ERROR_ASN1_OBJECT_NOT_FOUND, pre @ e # es, sc_free_entry (pre @ e # es) m)
       | Some (obj, q) \<Rightarrow>
          (case asn1_decode_entry malloc rec e obj m of
             (Inl r, e', m') \<Rightarrow> (Inl r, pre @ e' # es, m')
           | (Inr _, e', m') \<Rightarrow>
              if choice then (Inr (length pre, q), pre @ e' # es, m')
              else decode_loop malloc rec choice (pre @ [e']) es q m'))"

subsection \<open>Termination\<close>

lemma skip_tag_shorter:
  "sc_asn1_skip_tag p t = Some (obj, q) \<Longrightarrow> length obj + length q < length p"
  by (auto simp: sc_asn1_skip_tag_def split: read_tag.splits if_splits dest!: read_tag_shorter)

text \<open>The structures call the decoder on their content or a part of it.\<close>

lemma se_loop_cong:
  "(\<And>c t o1 k. length o1 \<le> length p \<Longrightarrow> f c t o1 k = g c t o1 k) \<Longrightarrow> se_loop malloc f n p ses = se_loop malloc g n p ses"
proof (induction n arbitrary: p ses)
  case (Suc n)
  have "se_loop malloc f n (drop off p) s = se_loop malloc g n (drop off p) s" for off s
    using Suc.prems by (intro Suc.IH) simp
  with Suc.prems [of p False se_entries se_vars] show ?case
    by (auto simp: Let_def split: prod.splits sum.splits)
qed simp

lemma decode_params_cong:
  assumes "\<And>c t o1 k. length o1 \<le> length buf \<Longrightarrow> f c t o1 k = g c t o1 k"
  shows "decode_params malloc f a buf = decode_params malloc g a buf"
  using assms
  by (simp add: decode_params_def asn1_decode_des_params_def asn1_decode_gostr3410_params_def Let_def
      asn1_decode_pbkdf2_params_def asn1_decode_pbes2_params_def asn1_decode_ec_params_def split: alg_codec.split)

lemma decode_algorithm_id_cong:
  assumes "\<And>c t o1 k. length o1 \<le> length obj \<Longrightarrow> f c t o1 k = g c t o1 k"
  shows "sc_asn1_decode_algorithm_id malloc f obj = sc_asn1_decode_algorithm_id malloc g obj"
proof -
  have "decode_params malloc f a (drop n obj) = decode_params malloc g a (drop n obj)" for a n
    by (rule decode_params_cong) (simp add: assms)
  then show ?thesis
    by (simp add: sc_asn1_decode_algorithm_id_def assms Let_def split: prod.split sum.split option.split)
qed

lemma decode_value_cong:
  assumes "\<And>c t o1 k. length o1 \<le> length obj \<Longrightarrow> f c t o1 k = g c t o1 k"
  shows "decode_value malloc f e obj m = decode_value malloc g e obj m"
proof -
  have "asn1_decode_se_info malloc f obj = asn1_decode_se_info malloc g obj"
    using se_loop_cong [of obj f g, OF assms] by (simp add: asn1_decode_se_info_def)
  moreover have "sc_asn1_decode_algorithm_id malloc f obj = sc_asn1_decode_algorithm_id malloc g obj"
    by (rule decode_algorithm_id_cong) (rule assms)
  ultimately show ?thesis
    by (cases "e_type e")
       (simp_all add: decode_value_def asn1_decode_path_def asn1_decode_p15_object_def assms
        cong: cell.case_cong asn1_parm.case_cong)
qed

lemma decode_loop_cong [fundef_cong]:
  assumes "malloc = malloc'" and "choice = choice'" and "pre = pre'" and "es = es'" and "p = p'" and "m = m'"
    and "\<And>c t o1 k. length o1 < length p' \<or>
      length o1 \<le> length p' \<and> (\<exists>e \<in> set es'. e_parm e = Parm_table t) \<Longrightarrow> f c t o1 k = g c t o1 k"
  shows "decode_loop malloc f choice pre es p m = decode_loop malloc' g choice' pre' es' p' m'"
  unfolding assms(1-6) using assms(7)
proof (induction es' arbitrary: pre' p' m')
  case (Cons e es)
  have rest: "decode_loop malloc' f choice' pre' es q k = decode_loop malloc' g choice' pre' es q k"
    if "length q \<le> length p'" for pre' q k
    using that by (intro Cons.IH Cons.prems) auto
  show ?case
  proof (cases "e_type e = SC_ASN1_CHOICE")
    case True
    have "f True t p' k = g True t p' k" if "e_parm e = Parm_table t" for t k
      using that by (intro Cons.prems) simp
    with True rest show ?thesis
      by (auto simp: Let_def split: asn1_parm.split prod.split sum.split)
  next
    case False
    have "asn1_decode_entry malloc' f e obj m' = asn1_decode_entry malloc' g e obj m'"
      if "length obj < length p'" for obj
    proof -
      have "decode_value malloc' f e obj m' = decode_value malloc' g e obj m'"
        by (rule decode_value_cong) (use that in \<open>auto intro: Cons.prems\<close>)
      then show ?thesis by (simp add: asn1_decode_entry_def)
    qed
    with False rest show ?thesis
      by (auto split: option.split prod.split sum.split dest!: skip_tag_shorter)
  qed
qed simp

lemma table_size: "e \<in> set es \<Longrightarrow> e_parm e = Parm_table t \<Longrightarrow> size_list size t < size_list size es"
proof (induction es)
  case (Cons a es)
  have "size_list size t < size a" if "e_parm a = Parm_table t"
    using that by (cases a) simp
  with Cons show ?case by fastforce
qed simp

function asn1_decode :: "(nat \<Rightarrow> bytes option) \<Rightarrow> decoder" where
  "asn1_decode malloc choice tab ins m =
    (if length ins < 2 then
       (if dropWhile (\<lambda>e. e_flag e SC_ASN1_OPTIONAL) tab = [] then (Inr (0, 0), tab, m)
        else (Inl SC_ERROR_ASN1_OBJECT_NOT_FOUND, tab, m))
     else if ins ! 0 = 0 \<or> ins ! 0 = 0xFF then (Inl SC_ERROR_ASN1_END_OF_CONTENTS, tab, m)
     else case decode_loop malloc (\<lambda>c t o1 k. asn1_decode malloc c t o1 k) choice [] tab ins m of
         (Inl r, t, m) \<Rightarrow> (Inl r, t, m)
       | (Inr (i, p), t, m) \<Rightarrow> (Inr (i, length ins - length p), t, m))"
  by pat_completeness auto
termination
  by (relation "measures [\<lambda>(_, _, _, ins, _). length ins, \<lambda>(_, _, tab, _, _). size_list size tab]")
     (auto dest: table_size)

declare asn1_decode.simps [simp del]

text \<open>The entry points; a null input is never found.\<close>

definition decode_from ::
  "(nat \<Rightarrow> bytes option) \<Rightarrow> bool \<Rightarrow> asn1_entry list \<Rightarrow> bytes option \<Rightarrow> cell list \<Rightarrow>
   (nat \<times> nat) res \<times> asn1_entry list \<times> cell list" where
  "decode_from malloc choice tab ins m =
    (case ins of None \<Rightarrow> (Inl SC_ERROR_ASN1_OBJECT_NOT_FOUND, tab, m) | Some s \<Rightarrow> asn1_decode malloc choice tab s m)"

definition sc_asn1_decode ::
  "(nat \<Rightarrow> bytes option) \<Rightarrow> asn1_entry list \<Rightarrow> bytes option \<Rightarrow> cell list \<Rightarrow>
   (nat \<times> nat) res \<times> asn1_entry list \<times> cell list" where
  "sc_asn1_decode malloc = decode_from malloc False"

definition sc_asn1_decode_choice ::
  "(nat \<Rightarrow> bytes option) \<Rightarrow> asn1_entry list \<Rightarrow> bytes option \<Rightarrow> cell list \<Rightarrow>
   (nat \<times> nat) res \<times> asn1_entry list \<times> cell list" where
  "sc_asn1_decode_choice malloc = decode_from malloc True"

end
