(* ===== verification/Sc_TableType.thy ===== *)
theory Sc_TableType
  imports Sc_Table
begin

text \<open>
  Type soundness of the table-driven decoder: run on a table whose entries point to variables of
  the types they fill, with sizes that do not exceed the arrays, the decoder never makes an access
  that is undefined, leaves every variable with its type and every array with its length, and
  changes nothing in the tables but the marks of what was found. The tables of paths, security
  environments, algorithm identifiers and PKCS#15 objects are such tables.
\<close>

section \<open>Types of variables\<close>

text \<open>The type of a size says which bound it keeps: that of a fixed array's size is the length of the
  array, that of allocated memory has none. An array of type \<open>Text_t\<close> ends in a zero byte, which its
  size leaves out: what is in it is a C string.\<close>

datatype cell_type =
    Int_t | Word_t | Size_t "nat option" | Array_t nat | Text_t nat | Buf_t | Oid_t | Id_t | Path_t | Alg_t | Se_t

definition path_fits :: "sc_path \<Rightarrow> bool" where
  "path_fits p \<longleftrightarrow> length (p_value p) \<le> SC_MAX_PATH_SIZE \<and> length (p_aid p) \<le> SC_MAX_AID_SIZE"

fun has_type :: "cell \<Rightarrow> cell_type \<Rightarrow> bool" where
  "has_type (Int_cell x) t \<longleftrightarrow> t = Int_t"
| "has_type (Word_cell x) t \<longleftrightarrow> t = Word_t"
| "has_type (Size_cell n) t \<longleftrightarrow> (case t of Size_t b \<Rightarrow> (case b of None \<Rightarrow> True | Some k \<Rightarrow> n \<le> k) | _ \<Rightarrow> False)"
| "has_type (Array_cell b) t \<longleftrightarrow> t = Array_t (length b) \<or> t = Text_t (length b) \<and> b \<noteq> [] \<and> last b = 0"
| "has_type (Buf_cell b) t \<longleftrightarrow> t = Buf_t"
| "has_type (Oid_cell v) t \<longleftrightarrow> t = Oid_t"
| "has_type (Id_cell v) t \<longleftrightarrow> t = Id_t \<and> length v \<le> SC_PKCS15_MAX_ID_SIZE"
| "has_type (Path_cell p) t \<longleftrightarrow> t = Path_t \<and> path_fits p"
| "has_type (Alg_cell i) t \<longleftrightarrow> t = Alg_t"
| "has_type (Se_cell ses) t \<longleftrightarrow>
     t = Se_t \<and> length ses \<le> SC_MAX_SE_NUM \<and> (\<forall>se \<in> set ses. length (si_aid se) \<le> SC_MAX_AID_SIZE)"

definition mem_ok :: "cell_type list \<Rightarrow> cell list \<Rightarrow> bool" where
  "mem_ok G m \<longleftrightarrow> list_all2 has_type m G"

text \<open>The types of the common attributes of a PKCS#15 object.\<close>

definition object_types :: "cell_type list" where
  "object_types =
    [Array_t SC_PKCS15_MAX_LABEL_SIZE, Word_t, Id_t, Int_t] @ concat (replicate SC_PKCS15_MAX_ACCESS_RULES [Word_t, Id_t])"

definition at_type :: "cell_type list \<Rightarrow> nat \<Rightarrow> cell_type \<Rightarrow> bool" where
  "at_type G a t \<longleftrightarrow> a < length G \<and> G ! a = t"

definition size_ok :: "cell_type list \<Rightarrow> nat option \<Rightarrow> (nat option \<Rightarrow> bool) \<Rightarrow> bool" where
  "size_ok G ar P \<longleftrightarrow> (\<forall>l. ar = Some l \<longrightarrow> (\<exists>b. at_type G l (Size_t b) \<and> P b))"

definition allocates :: "u32 \<Rightarrow> bool" where
  "allocates fl \<longleftrightarrow> fl AND SC_ASN1_ALLOC \<noteq> 0"

text \<open>The types that fill one variable.\<close>

definition scalar_type :: "asn1_type \<Rightarrow> cell_type option" where
  "scalar_type ty =
    (case ty of
       SC_ASN1_BOOLEAN \<Rightarrow> Some Int_t | SC_ASN1_INTEGER \<Rightarrow> Some Int_t | SC_ASN1_ENUMERATED \<Rightarrow> Some Int_t
     | SC_ASN1_OBJECT \<Rightarrow> Some Oid_t | SC_ASN1_PKCS15_ID \<Rightarrow> Some Id_t | SC_ASN1_PATH \<Rightarrow> Some Path_t
     | SC_ASN1_ALGORITHM_ID \<Rightarrow> Some Alg_t | _ \<Rightarrow> None)"

definition octets_ok :: "cell_type list \<Rightarrow> u32 \<Rightarrow> nat \<Rightarrow> nat option \<Rightarrow> bool" where
  "octets_ok G fl a ar \<longleftrightarrow>
    (if allocates fl then at_type G a Buf_t \<and> size_ok G ar (\<lambda>b. b = None)
     else
       (\<exists>k. at_type G a (Array_t k) \<and> size_ok G ar (\<lambda>b. \<exists>c \<le> k. b = Some c)) \<or>
       (\<exists>k. at_type G a (Text_t k) \<and> size_ok G ar (\<lambda>b. \<exists>c < k. b = Some c)))"

definition var_ok :: "cell_type list \<Rightarrow> asn1_type \<Rightarrow> u32 \<Rightarrow> nat \<Rightarrow> nat option \<Rightarrow> bool" where
  "var_ok G ty fl a ar \<longleftrightarrow>
    (case scalar_type ty of
       Some t \<Rightarrow> at_type G a t
     | None \<Rightarrow>
        if ty = SC_ASN1_SE_INFO then at_type G a Se_t \<and> ar \<noteq> None \<and> size_ok G ar (\<lambda>b. b = None)
        else if ty = SC_ASN1_BIT_FIELD then at_type G a Word_t \<and> ar \<noteq> None \<and> size_ok G ar (\<lambda>b. True)
        else if ty = SC_ASN1_BIT_STRING \<or> ty = SC_ASN1_BIT_STRING_NI then
          allocates fl \<and> at_type G a Buf_t \<and> size_ok G ar (\<lambda>b. b = None)
        else if ty = SC_ASN1_OCTET_STRING \<or> ty = SC_ASN1_GENERALIZEDTIME \<or> ty = SC_ASN1_UTF8STRING \<or>
                ty = SC_ASN1_PRINTABLESTRING then octets_ok G fl a ar
        else ty = SC_ASN1_NULL \<or> ty = SC_ASN1_OTHER)"

text \<open>A callback must be safe in every memory that extends the typed one.\<close>

fun entry_ok :: "cell_type list \<Rightarrow> asn1_entry \<Rightarrow> bool" where
  "entry_ok G (Entry ty tag fl p ar) \<longleftrightarrow>
    (case p of
       Parm_null \<Rightarrow> ty \<noteq> SC_ASN1_CHOICE
     | Parm_table t \<Rightarrow> (ty = SC_ASN1_STRUCT \<or> ty = SC_ASN1_CHOICE) \<and> (\<forall>e \<in> set t. entry_ok G e)
     | Parm_var a \<Rightarrow> var_ok G ty fl a ar
     | Parm_object ob cls sub tt \<Rightarrow>
         ty = SC_ASN1_PKCS15_OBJECT \<and> (\<forall>i < length object_types. at_type G (ob + i) (object_types ! i)) \<and>
         (\<forall>t. cls = Some t \<longrightarrow> (\<forall>e \<in> set t. entry_ok G e)) \<and>
         (\<forall>t. sub = Some t \<longrightarrow> (\<forall>e \<in> set t. entry_ok G e)) \<and>
         (\<forall>t. tt = Some t \<longrightarrow> (\<forall>e \<in> set t. entry_ok G e))
     | Parm_callback f g \<Rightarrow>
         ty = SC_ASN1_CALLBACK \<and>
         (\<forall>D obj m r m'. mem_ok (G @ D) m \<longrightarrow> f obj m = (r, m') \<longrightarrow> mem_ok (G @ D) m' \<and> r \<noteq> Inl UNDEFINED))"

definition table_ok :: "cell_type list \<Rightarrow> asn1_entry list \<Rightarrow> bool" where
  "table_ok G t \<longleftrightarrow> (\<forall>e \<in> set t. entry_ok G e)"

text \<open>A table without its marks, also in the tables below it.\<close>

fun unmark :: "asn1_entry \<Rightarrow> asn1_entry" where
  "unmark (Entry ty tag fl p ar) =
    Entry ty tag (fl AND NOT SC_ASN1_PRESENT)
     (case p of
        Parm_table t \<Rightarrow> Parm_table (map unmark t)
      | Parm_object ob cls sub tt \<Rightarrow>
          Parm_object ob (map_option (map unmark) cls) (map_option (map unmark) sub) (map_option (map unmark) tt)
      | q \<Rightarrow> q) ar"

section \<open>Facts on memories and tables\<close>

lemma mem_ok_length: "mem_ok G m \<Longrightarrow> length m = length G"
  by (simp add: mem_ok_def list_all2_lengthD)

lemma mem_okD: "mem_ok G m \<Longrightarrow> at_type G a t \<Longrightarrow> a < length m \<and> has_type (m ! a) t"
  by (auto simp: mem_ok_def at_type_def list_all2_conv_all_nth)

lemma mem_ok_update: "mem_ok G m \<Longrightarrow> at_type G a t \<Longrightarrow> has_type c t \<Longrightarrow> mem_ok G (m[a := c])"
  by (auto simp: mem_ok_def at_type_def list_all2_conv_all_nth nth_list_update)

lemma mem_ok_append: "mem_ok G m \<Longrightarrow> mem_ok D k \<Longrightarrow> mem_ok (G @ D) (m @ k)"
  by (simp add: mem_ok_def list_all2_appendI)

lemma mem_ok_take: "mem_ok (G @ D) m \<Longrightarrow> n = length G \<Longrightarrow> mem_ok G (take n m)"
  by (simp add: mem_ok_def list_all2_append2) (auto dest: list_all2_lengthD)

lemma at_type_append: "at_type G a t \<Longrightarrow> at_type (G @ D) a t"
  by (simp add: at_type_def nth_append)

lemma at_type_last: "i < length D \<Longrightarrow> D ! i = t \<Longrightarrow> at_type (G @ D) (length G + i) t"
  by (simp add: at_type_def nth_append)

lemma size_ok_append: "size_ok G ar P \<Longrightarrow> size_ok (G @ D) ar P"
  by (auto simp: size_ok_def intro: at_type_append)

lemma octets_ok_append: "octets_ok G fl a ar \<Longrightarrow> octets_ok (G @ D) fl a ar"
  by (auto simp: octets_ok_def intro: size_ok_append at_type_append split: if_splits)

lemma var_ok_append: "var_ok G ty fl a ar \<Longrightarrow> var_ok (G @ D) ty fl a ar"
  by (cases ty) (simp_all add: var_ok_def scalar_type_def size_ok_append at_type_append octets_ok_append)

lemma entry_ok_append: "entry_ok G e \<Longrightarrow> entry_ok (G @ D) e"
proof (induction G e rule: entry_ok.induct)
  case (1 G ty tag fl p ar)
  then show ?case
    by (cases p) (auto intro: var_ok_append at_type_append)
qed

lemma table_ok_append: "table_ok G t \<Longrightarrow> table_ok (G @ D) t"
  by (auto simp: table_ok_def intro: entry_ok_append)

lemma allocates_unmark: "allocates (fl AND NOT SC_ASN1_PRESENT) = allocates fl"
  by (simp add: allocates_def and.assoc)

lemma var_ok_unmark: "var_ok G ty (fl AND NOT SC_ASN1_PRESENT) a ar = var_ok G ty fl a ar"
  unfolding var_ok_def octets_ok_def allocates_unmark ..

lemma entry_ok_unmark: "entry_ok G (unmark e) \<longleftrightarrow> entry_ok G e"
proof (induction G e rule: entry_ok.induct)
  case (1 G ty tag fl p ar)
  show ?case
  proof (cases p)
    case (Parm_object ob cls sub tt)
    have "(\<forall>e \<in> set t. entry_ok G (unmark e)) \<longleftrightarrow> (\<forall>e \<in> set t. entry_ok G e)"
      if "cls = Some t \<or> sub = Some t \<or> tt = Some t" for t
      using that 1(2) [OF Parm_object] 1(3) [OF Parm_object] 1(4) [OF Parm_object] by blast
    then have tab: "(\<forall>t. map_option (map unmark) x = Some t \<longrightarrow> (\<forall>e \<in> set t. entry_ok G e)) \<longleftrightarrow>
        (\<forall>t. x = Some t \<longrightarrow> (\<forall>e \<in> set t. entry_ok G e))" if "x = cls \<or> x = sub \<or> x = tt" for x
      using that by (cases x) auto
    show ?thesis
      unfolding Parm_object unmark.simps entry_ok.simps asn1_parm.case
      by (intro conj_cong refl tab) blast+
  next
    case (Parm_table t)
    then have "\<forall>e \<in> set t. entry_ok G (unmark e) \<longleftrightarrow> entry_ok G e"
      using 1(1) [OF Parm_table] by blast
    then show ?thesis using Parm_table by simp
  next
    case (Parm_var a)
    then show ?thesis using var_ok_unmark [of G ty fl a ar] by simp
  qed simp_all
qed

section \<open>One value\<close>

lemma decode_int_loop_code: "decode_int_loop neg a bs \<noteq> Inl UNDEFINED"
  by (induction neg a bs rule: decode_int_loop.induct) simp_all

lemma decode_integer_code: "sc_asn1_decode_integer bs s \<noteq> Inl UNDEFINED"
  by (auto simp: sc_asn1_decode_integer_def ebind_def decode_int_loop_code split: sum.split)

lemma decode_integer_codeD: "sc_asn1_decode_integer bs s = Inl e \<Longrightarrow> e \<noteq> UNDEFINED"
  using decode_integer_code by auto

lemma oid_arc_code: "oid_arc a cur bs \<noteq> Inl UNDEFINED"
  by (induction a cur bs rule: oid_arc.induct) simp_all

lemma oid_arcs_code: "oid_arcs large bs n v \<noteq> Inl UNDEFINED"
proof (induction large bs n v rule: oid_arcs.induct)
  case (2 large c rest n v)
  then show ?case
    using oid_arc_code [of "ucast (c AND 0x7F)" c rest] by (auto simp: Let_def split: sum.split)
qed simp

lemma decode_object_id_code: "sc_asn1_decode_object_id bs v = (r, w) \<Longrightarrow> r \<noteq> Inl UNDEFINED"
  by (auto simp: sc_asn1_decode_object_id_def Let_def oid_arcs_code simp del: oid_arcs.simps
      split: option.splits list.splits sum.splits if_splits)

lemma decode_bits_ok:
  "decode_bits invert z bs n out = (r, out') \<Longrightarrow> length out' = length out \<and> r \<noteq> Inl UNDEFINED"
  by (induction invert z bs n out rule: decode_bits.induct) (auto simp: Let_def split: if_splits)

lemma decode_bit_string_ok:
  "decode_bit_string bs out invert s = (r, out') \<Longrightarrow> length out' = length out \<and> r \<noteq> Inl UNDEFINED"
  by (auto simp: decode_bit_string_def Let_def dest: decode_bits_ok split: if_splits)

lemma decode_bit_field_code: "decode_bit_field bs n s \<noteq> Inl UNDEFINED"
  by (auto simp: decode_bit_field_def dest: decode_bit_string_ok split: prod.split sum.split)

lemma write_cell_ok:
  assumes "scalar_type ty = Some t" and "ty \<noteq> SC_ASN1_PATH" and "ty \<noteq> SC_ASN1_ALGORITHM_ID" and "has_type c t"
    and "write_cell ty obj c = (r, c')"
  shows "has_type c' t \<and> r \<noteq> Inl UNDEFINED"
  using assms
  by (cases ty)
     (auto simp: write_cell_def scalar_type_def split: cell.splits if_splits sum.splits prod.splits
      dest: decode_object_id_code decode_integer_codeD)

text \<open>What an access through an entry's pointers keeps.\<close>

definition keeps_ok :: "cell_type list \<Rightarrow> unit res \<times> cell list \<Rightarrow> bool" where
  "keeps_ok G x \<longleftrightarrow> mem_ok G (snd x) \<and> fst x \<noteq> Inl UNDEFINED"

lemma keeps_okI [intro]: "mem_ok G m \<Longrightarrow> r \<noteq> Inl UNDEFINED \<Longrightarrow> keeps_ok G (r, m)"
  by (simp add: keeps_ok_def)

lemma deref_ok:
  assumes "mem_ok G m" and "e_parm e = Parm_null \<or> e_parm e = Parm_var a \<and> at_type G a t"
    and "\<And>c. e_parm e = Parm_var a \<Longrightarrow> has_type c t \<Longrightarrow> keeps_ok G (f a c)"
  shows "keeps_ok G (deref e m f)"
  using assms mem_okD [OF assms(1), of a t] by (auto simp: deref_def)

lemma sized_ok:
  assumes m: "mem_ok G m" and s: "size_ok G (e_arg e) P"
    and none: "missing \<noteq> UNDEFINED \<or> e_arg e \<noteq> None"
    and f: "\<And>l n b. at_type G l (Size_t b) \<Longrightarrow> P b \<Longrightarrow> (\<And>k. b = Some k \<Longrightarrow> n \<le> k) \<Longrightarrow> keeps_ok G (f l n)"
  shows "keeps_ok G (sized missing e m f)"
proof (cases "e_arg e")
  case None
  with m none show ?thesis by (auto simp: sized_def)
next
  case (Some l)
  with s obtain b where b: "at_type G l (Size_t b)" "P b"
    by (auto simp: size_ok_def)
  from mem_okD [OF m b(1)] obtain n where n: "l < length m" "m ! l = Size_cell n" "has_type (Size_cell n) (Size_t b)"
    by (cases "m ! l") auto
  from n(3) have "n \<le> k" if "b = Some k" for k using that by simp
  with f [OF b, of n] n(1,2) Some show ?thesis
    by (simp add: sized_def)
qed

lemma write_field_ok:
  assumes "mem_ok G m" and "at_type G a Word_t" and "has_type c Word_t"
    and "e_arg e \<noteq> None" and "size_ok G (e_arg e) (\<lambda>_. True)"
  shows "keeps_ok G (write_field e obj a c m)"
  unfolding write_field_def
proof (rule sized_ok [OF assms(1,5)])
  fix l n b
  show "keeps_ok G (case c of
      Word_cell _ \<Rightarrow> (case decode_bit_field obj n False of Inl r \<Rightarrow> (Inl r, m) | Inr w \<Rightarrow> (Inr (), m[a := Word_cell w]))
    | _ \<Rightarrow> (Inl UNDEFINED, m))"
    using assms decode_bit_field_code [of obj n False]
    by (cases c) (auto intro!: mem_ok_update split: sum.split)
qed (use assms in simp)

lemma store_bits_ok:
  "mem_ok G m \<Longrightarrow> at_type G l (Size_t None) \<Longrightarrow> r \<noteq> Inl UNDEFINED \<Longrightarrow> keeps_ok G (store_bits l r m)"
  by (auto simp: store_bits_def intro!: mem_ok_update split: sum.split)

lemma write_bits_ok:
  assumes "mem_ok G m" and "at_type G a Buf_t" and "has_type c Buf_t" and "allocates (e_flags e)"
    and "size_ok G (e_arg e) (\<lambda>b. b = None)"
  shows "keeps_ok G (write_bits malloc e obj a c m)"
  unfolding write_bits_def
proof (rule sized_ok [OF assms(1,5)])
  fix l n b assume l: "at_type G l (Size_t b)" "b = None"
  have alloc: "e_flag e SC_ASN1_ALLOC" using assms(4) by (simp add: allocates_def e_flag_def)
  obtain x where c: "c = Buf_cell x" using assms(3) by (cases c) auto
  obtain r out where d: "decode_bit_string obj (replicate (length obj - 1) 0) (e_type e = SC_ASN1_BIT_STRING) False = (r, out)"
    by (metis prod.exhaust)
  from decode_bit_string_ok [OF d] have "r \<noteq> Inl UNDEFINED" by simp
  with assms(1,2) l have "keeps_ok G (store_bits l r
      ((if length obj > 1 then m[a := Buf_cell (Some out)] else m)[l := Size_cell (length obj - 1)]))"
    by (intro store_bits_ok mem_ok_update) (auto intro: mem_ok_update)
  with assms(1,2) alloc c d show "keeps_ok G
     (let invert = (e_type e = SC_ASN1_BIT_STRING) in
       if length obj < 1 then (Inl SC_ERROR_INVALID_ASN1_OBJECT, m)
       else if e_flag e SC_ASN1_ALLOC then
         (case c of Buf_cell _ \<Rightarrow>
            if length obj > 1 \<and> malloc (length obj - 1) = None
            then (Inl SC_ERROR_OUT_OF_MEMORY, m[a := Buf_cell None])
            else (case decode_bit_string obj (replicate (length obj - 1) 0) invert False of
                    (r, out) \<Rightarrow>
                      store_bits l r
                        ((if length obj > 1 then m[a := Buf_cell (Some out)] else m)[l := Size_cell (length obj - 1)]))
          | _ \<Rightarrow> (Inl UNDEFINED, m))
       else
         (case c of Array_cell buf \<Rightarrow>
            if n > length buf then (Inl UNDEFINED, m)
            else (case decode_bit_string obj (take n buf) invert False of
                    (r, out) \<Rightarrow> store_bits l r (m[a := Array_cell (out @ drop n buf)]))
          | _ \<Rightarrow> (Inl UNDEFINED, m)))"
    by (auto simp: Let_def intro!: mem_ok_update)
qed simp

lemma size_cell_type: "has_type (Size_cell n) (Size_t b) \<longleftrightarrow> (\<forall>k. b = Some k \<longrightarrow> n \<le> k)"
  by (cases b) auto

text \<open>The last byte of an array that is longer than what is copied stays.\<close>

lemma last_memcpy: "length src < length dst \<Longrightarrow> last (memcpy_at dst 0 src) = last dst \<and> memcpy_at dst 0 src \<noteq> []"
  by (auto simp: memcpy_at_0)

lemma write_octets_ok:
  assumes m: "mem_ok G m" and ok: "octets_ok G (e_flags e) a (e_arg e)" and c: "a < length m" "m ! a = c"
  shows "keeps_ok G (write_octets malloc e obj a c m)"
proof (cases "allocates (e_flags e)")
  case True
  then have alloc: "e_flag e SC_ASN1_ALLOC" by (simp add: allocates_def e_flag_def)
  from True ok have b: "at_type G a Buf_t" and s: "size_ok G (e_arg e) (\<lambda>b. b = None)"
    by (simp_all add: octets_ok_def)
  obtain x where x: "c = Buf_cell x" using mem_okD [OF m b] c by (cases c) auto
  show ?thesis
    unfolding write_octets_def
    by (rule sized_ok [OF m s]) (use alloc x m b in \<open>auto simp: Let_def intro!: mem_ok_update\<close>)
next
  case False
  then have alloc: "\<not> e_flag e SC_ASN1_ALLOC" by (simp add: allocates_def e_flag_def)
  from False ok consider
      k where "at_type G a (Array_t k)" "size_ok G (e_arg e) (\<lambda>b. \<exists>c \<le> k. b = Some c)"
    | k where "at_type G a (Text_t k)" "size_ok G (e_arg e) (\<lambda>b. \<exists>c < k. b = Some c)"
    by (auto simp: octets_ok_def)
  then show ?thesis
  proof cases
    case (1 k)
    obtain buf where buf: "c = Array_cell buf" "length buf = k" using mem_okD [OF m 1(1)] c by (cases c) auto
    show ?thesis
      unfolding write_octets_def
      by (rule sized_ok [OF m 1(2)])
         (use alloc buf m 1(1) in \<open>auto simp: Let_def size_cell_type min_def intro!: mem_ok_update\<close>)
  next
    case (2 k)
    obtain buf where buf: "c = Array_cell buf" "length buf = k" "buf \<noteq> []" "last buf = 0"
      using mem_okD [OF m 2(1)] c by (cases c) auto
    show ?thesis
      unfolding write_octets_def
      by (rule sized_ok [OF m 2(2)])
         (use alloc buf m 2(1) in \<open>auto simp: Let_def size_cell_type min_def last_memcpy intro!: mem_ok_update\<close>)
  qed
qed

lemma write_text_ok:
  assumes m: "mem_ok G m" and ok: "octets_ok G (e_flags e) a (e_arg e)" and c: "a < length m" "m ! a = c"
  shows "keeps_ok G (write_text malloc e obj a c m)"
proof (cases "allocates (e_flags e)")
  case True
  then have alloc: "e_flag e SC_ASN1_ALLOC" by (simp add: allocates_def e_flag_def)
  from True ok have b: "at_type G a Buf_t" and s: "size_ok G (e_arg e) (\<lambda>b. b = None)"
    by (simp_all add: octets_ok_def)
  obtain x where x: "c = Buf_cell x" using mem_okD [OF m b] c by (cases c) auto
  show ?thesis
    unfolding write_text_def
    by (rule sized_ok [OF m s])
       (use alloc x m b in \<open>auto simp: sc_asn1_decode_utf8string_def intro!: mem_ok_update split: option.split\<close>)
next
  case False
  then have alloc: "\<not> e_flag e SC_ASN1_ALLOC" by (simp add: allocates_def e_flag_def)
  from False ok consider
      k where "at_type G a (Array_t k)" "size_ok G (e_arg e) (\<lambda>b. \<exists>c \<le> k. b = Some c)"
    | k where "at_type G a (Text_t k)" "size_ok G (e_arg e) (\<lambda>b. \<exists>c < k. b = Some c)"
    by (auto simp: octets_ok_def)
  then show ?thesis
  proof cases
    case (1 k)
    obtain buf where buf: "c = Array_cell buf" "length buf = k" using mem_okD [OF m 1(1)] c by (cases c) auto
    show ?thesis
      unfolding write_text_def
      by (rule sized_ok [OF m 1(2)])
         (use alloc buf m 1(1) in \<open>auto simp: sc_asn1_decode_utf8string_def size_cell_type intro!: mem_ok_update\<close>)
  next
    case (2 k)
    obtain buf where buf: "c = Array_cell buf" "length buf = k" "buf \<noteq> []" "last buf = 0"
      using mem_okD [OF m 2(1)] c by (cases c) auto
    show ?thesis
      unfolding write_text_def
      by (rule sized_ok [OF m 2(2)])
         (use alloc buf m 2(1) in \<open>auto simp: sc_asn1_decode_utf8string_def size_cell_type intro!: mem_ok_update\<close>)
  qed
qed

section \<open>Structures\<close>

text \<open>A decoder that is sound for one table and input, in every well-typed memory.\<close>

definition decodes_ok :: "decoder \<Rightarrow> bool \<Rightarrow> asn1_entry list \<Rightarrow> bytes \<Rightarrow> bool" where
  "decodes_ok rec choice t ins \<longleftrightarrow>
    (\<forall>G m r t' m'. mem_ok G m \<longrightarrow> table_ok G t \<longrightarrow> rec choice t ins m = (r, t', m') \<longrightarrow>
      mem_ok G m' \<and> map unmark t' = map unmark t \<and> r \<noteq> Inl UNDEFINED)"

lemma decodes_okD:
  assumes "decodes_ok rec choice t ins" and "mem_ok G m" and "table_ok G t"
    and "rec choice t ins m = (r, t', m')"
  shows "mem_ok G m'" and "map unmark t' = map unmark t" and "r \<noteq> Inl UNDEFINED"
  using assms unfolding decodes_ok_def by blast+

lemma path_entries_ok:
  "mem_ok [Array_t 16, Size_t (Some 16), Array_t 16, Size_t (Some 16), Int_t, Int_t] path_vars"
  "table_ok [Array_t 16, Size_t (Some 16), Array_t 16, Size_t (Some 16), Int_t, Int_t] path_entries"
  by (simp_all add: mem_ok_def path_vars_def table_ok_def path_entries_def Let_def format_all_def c_asn1_path_def
      c_asn1_path_ext_def blank_def sc_format_asn1_entry_def var_ok_def scalar_type_def octets_ok_def size_ok_def
      at_type_def allocates_def)

lemma decode_path_ok:
  assumes "decodes_ok rec False path_entries obj" and "asn1_decode_path rec obj = (r, p)"
  shows "path_fits p \<and> r \<noteq> Inl UNDEFINED"
proof -
  obtain q t m where run: "rec False path_entries obj path_vars = (q, t, m)" by (metis prod.exhaust)
  note ok = decodes_okD [OF assms(1) path_entries_ok run]
  have "length (take (size_at m 1) (array_at m 0)) \<le> 16" "length (take (size_at m 3) (array_at m 2)) \<le> 16"
    using mem_okD [OF ok(1), of 0 "Array_t 16"] mem_okD [OF ok(1), of 2 "Array_t 16"]
    by (auto simp: at_type_def array_at_def split: cell.split)
  moreover have "path_fits zero_path" by (simp add: path_fits_def zero_path_def)
  ultimately show ?thesis
    using assms(2) run ok(3)
    by (auto simp: asn1_decode_path_def Let_def path_fits_def split: sum.splits if_splits)
qed

lemma se_entries_ok:
  "mem_ok [Int_t, Oid_t, Array_t 16, Size_t (Some 16)] se_vars"
  "table_ok [Int_t, Oid_t, Array_t 16, Size_t (Some 16)] se_entries"
  by (simp_all add: mem_ok_def se_vars_def table_ok_def se_entries_def format_all_def c_asn1_se_def
      c_asn1_se_info_def blank_def sc_format_asn1_entry_def var_ok_def scalar_type_def octets_ok_def size_ok_def
      at_type_def allocates_def)

lemma se_loop_ok:
  assumes "\<And>o1. length o1 \<le> length p \<Longrightarrow> decodes_ok rec False se_entries o1"
    and "\<forall>se \<in> set ses. length (si_aid se) \<le> 16" and "se_loop malloc rec n p ses = r"
  shows "r \<noteq> Inl UNDEFINED \<and> (\<forall>s. r = Inr s \<longrightarrow> length s \<le> length ses + n \<and> (\<forall>se \<in> set s. length (si_aid se) \<le> 16))"
  using assms
proof (induction n arbitrary: p ses)
  case (Suc n)
  show ?case
  proof (cases "p = []")
    case False
    obtain q t m where run: "rec False se_entries p se_vars = (q, t, m)" by (metis prod.exhaust)
    note ok = decodes_okD [OF Suc.prems(1) [OF le_refl] se_entries_ok run]
    show ?thesis
    proof (cases q)
      case (Inl e)
      with Suc.prems(3) False run ok(3) show ?thesis by auto
    next
      case (Inr x)
      obtain i off where x: "x = (i, off)" by (cases x)
      let ?se = "\<lparr>si_se = int_at m 0,
        si_owner = (if e_flag (nested_table (e_parm (t ! 0)) ! 1) SC_ASN1_PRESENT then oid_at m 1 else sc_init_oid),
        si_aid = take (size_at m 3) (array_at m 2)\<rparr>"
      have "length (take (size_at m 3) (array_at m 2)) \<le> 16"
        using mem_okD [OF ok(1), of 2 "Array_t 16"] by (auto simp: at_type_def array_at_def split: cell.split)
      then have "\<forall>se \<in> set (ses @ [?se]). length (si_aid se) \<le> 16" using Suc.prems(2) by auto
      moreover have "malloc 96 \<noteq> None \<Longrightarrow> se_loop malloc rec n (drop off p) (ses @ [?se]) = r"
        and none: "malloc 96 = None \<Longrightarrow> r = Inl SC_ERROR_OUT_OF_MEMORY"
        using Suc.prems(3) False run Inr x by (auto simp: Let_def split: if_splits)
      ultimately have "malloc 96 \<noteq> None \<Longrightarrow> r \<noteq> Inl UNDEFINED \<and>
          (\<forall>s. r = Inr s \<longrightarrow> length s \<le> length (ses @ [?se]) + n \<and> (\<forall>se \<in> set s. length (si_aid se) \<le> 16))"
        by (intro Suc.IH Suc.prems(1)) auto
      then show ?thesis using none by (cases "malloc 96 = None") auto
    qed
  qed (use Suc.prems in auto)
qed auto

text \<open>The tables of algorithm identifiers.\<close>

lemmas table_ok_simps = mem_ok_def table_ok_def format_all_def blank_def sc_format_asn1_entry_def var_ok_def
  scalar_type_def octets_ok_def size_ok_def at_type_def allocates_def

lemma decode_params_ok:
  assumes R: "\<And>c t o1. length o1 \<le> length buf \<Longrightarrow> decodes_ok rec c t o1"
  shows "decode_params malloc rec a buf \<noteq> Inl UNDEFINED"
proof -
  have run: "r \<noteq> Inl UNDEFINED" if "mem_ok G m" "table_ok G t" "rec c t buf m = (r, t', m')" for c G m t r t' m'
    using R [of buf c t] that by (auto dest: decodes_okD)
  have "asn1_decode_des_params malloc rec buf \<noteq> Inl UNDEFINED"
    using run [of "[Array_t 8, Size_t (Some 8)]" "[Array_cell (replicate 8 0), Size_cell 8]"
        "format_all False [(Parm_var 0, Some 1)] c_asn1_des_iv"]
    by (auto simp: asn1_decode_des_params_def table_ok_simps c_asn1_des_iv_def split: prod.split sum.split)
  moreover have "asn1_decode_gostr3410_params rec buf \<noteq> Inl UNDEFINED"
    using run [of "[Oid_t, Oid_t, Oid_t]" "replicate 3 (Oid_cell (replicate 16 0))"
        "format_all False [(Parm_table (format_all False [(Parm_var 0, None), (Parm_var 1, None), (Parm_var 2, None)]
          c_asn1_gostr3410_params), None)] c_asn1_gostr3410_params0"]
    by (auto simp: asn1_decode_gostr3410_params_def Let_def table_ok_simps numeral_3_eq_3 c_asn1_gostr3410_params_def
        c_asn1_gostr3410_params0_def split: prod.split sum.split)
  moreover have "asn1_decode_pbkdf2_params malloc rec buf \<noteq> Inl UNDEFINED"
    using run [of "[Array_t 16, Size_t (Some 16), Int_t, Int_t, Alg_t]"
        "[Array_cell (replicate 16 0), Size_cell 16, Int_cell 0, Int_cell 0,
          Alg_cell (Algorithm_id (of_int SC_ALGORITHM_SHA1) (replicate 16 0) None)]"
        "format_all False [(Parm_var 0, Some 1), (Parm_var 2, None), (Parm_var 3, None), (Parm_var 4, None)]
          c_asn1_pbkdf2_params"]
    by (auto simp: asn1_decode_pbkdf2_params_def table_ok_simps c_asn1_pbkdf2_params_def split: prod.split sum.split)
  moreover have "asn1_decode_pbes2_params malloc rec buf \<noteq> Inl UNDEFINED"
    using run [of "[Alg_t, Alg_t]" "replicate 2 (Alg_cell (Algorithm_id 0 (replicate 16 0) None))"
        "format_all False [(Parm_var 0, None), (Parm_var 1, None)] c_asn1_pbes2_params"]
    by (auto simp: asn1_decode_pbes2_params_def table_ok_simps numeral_2_eq_2 c_asn1_pbes2_params_def
        split: prod.split sum.split)
  moreover have "asn1_decode_ec_params malloc rec buf \<noteq> Inl UNDEFINED"
    using run [of "[Oid_t]" "[Oid_cell (replicate 16 0)]" ec_entries]
    by (auto simp: asn1_decode_ec_params_def table_ok_simps ec_entries_def c_asn1_ec_params_def
        split: prod.split sum.split)
  ultimately show ?thesis
    by (cases a) (simp_all add: decode_params_def)
qed

lemma decode_algorithm_id_ok:
  assumes R: "\<And>c t o1. length o1 \<le> length obj \<Longrightarrow> decodes_ok rec c t o1"
    and d: "sc_asn1_decode_algorithm_id malloc rec obj = (r, i)"
  shows "r \<noteq> Inl UNDEFINED"
proof -
  obtain q t m where run: "rec False (alg_id_entries False) obj [Oid_cell (replicate 16 0)] = (q, t, m)"
    by (metis prod.exhaust)
  have "q \<noteq> Inl UNDEFINED"
    by (rule decodes_okD(3) [OF R [OF le_refl] _ _ run, of "[Oid_t]"])
       (simp_all add: table_ok_simps alg_id_entries_def c_asn1_alg_id_def)
  moreover have "decode_params malloc rec c (drop off obj) \<noteq> Inl UNDEFINED" for c off
    by (rule decode_params_ok) (simp add: R)
  ultimately show ?thesis
    using d run
    by (auto simp: sc_asn1_decode_algorithm_id_def Let_def split: sum.splits option.splits if_splits)
qed

text \<open>PKCS#15 objects: the attributes are entries of the memory with the three sizes behind it.\<close>

definition size_types :: "cell_type list" where
  "size_types = [Size_t (Some SC_PKCS15_MAX_LABEL_SIZE), Size_t None, Size_t None]"

lemma object_type_at:
  "ii < 8 \<Longrightarrow> object_types ! (4 + 2 * ii) = Word_t \<and> object_types ! (5 + 2 * ii) = Id_t"
  "length object_types = 20"
  "object_types ! 0 = Array_t 255" "object_types ! 1 = Word_t" "object_types ! 2 = Id_t" "object_types ! 3 = Int_t"
proof -
  show "length object_types = 20" "object_types ! 0 = Array_t 255" "object_types ! 1 = Word_t"
    "object_types ! 2 = Id_t" "object_types ! 3 = Int_t"
    by (simp_all add: object_types_def eval_nat_numeral)
  assume "ii < 8"
  then consider "ii = 0" | "ii = 1" | "ii = 2" | "ii = 3" | "ii = 4" | "ii = 5" | "ii = 6" | "ii = 7" by linarith
  then show "object_types ! (4 + 2 * ii) = Word_t \<and> object_types ! (5 + 2 * ii) = Id_t"
    by cases (simp_all add: object_types_def eval_nat_numeral)
qed

lemma p15_entries_ok:
  assumes obj: "\<forall>i < length object_types. at_type G (ob + i) (object_types ! i)"
    and cls: "\<forall>t. cls = Some t \<longrightarrow> table_ok G t" and sub: "\<forall>t. sub = Some t \<longrightarrow> table_ok G t"
    and ty: "\<forall>t. ty = Some t \<longrightarrow> table_ok G t" and n: "n = length G"
  shows "table_ok (G @ size_types) (p15_entries ob n cls sub ty)"
proof -
  let ?H = "G @ size_types"
  have sizes: "at_type ?H n (Size_t (Some 255))" "at_type ?H (n + 1) (Size_t None)" "at_type ?H (n + 2) (Size_t None)"
    unfolding n by (simp_all add: at_type_def size_types_def nth_append)
  have at: "at_type ?H (ob + i) (object_types ! i)" if "i < 20" for i
    using obj that by (intro at_type_append) (simp add: object_type_at)
  have rule: "table_ok ?H (format_all False
      [(Parm_var (ob + 4 + 2 * ii), Some (n + 2)), (Parm_var (ob + 5 + 2 * ii), None)] c_asn1_access_control_rule)"
    if "ii < 8" for ii
    using at [of "4 + 2 * ii"] at [of "5 + 2 * ii"] that sizes(3) object_type_at(1) [OF that]
    by (auto simp: table_ok_def format_all_def c_asn1_access_control_rule_def blank_def sc_format_asn1_entry_def
        var_ok_def scalar_type_def size_ok_def add.assoc)
  have rules: "table_ok ?H (rule_entries ob n)"
  proof -
    have "length (rule_entries ob n) = 8"
      by (simp add: rule_entries_def format_all_def c_asn1_access_control_rules_def)
    moreover have "\<forall>ii < 8. entry_ok ?H (rule_entries ob n ! ii)"
      using rule
      by (simp add: rule_entries_def format_all_def c_asn1_access_control_rules_def blank_def
          sc_format_asn1_entry_def table_ok_def Let_def del: upt_Suc upt_rec_numeral)
    ultimately show ?thesis
      by (simp add: table_ok_def all_set_conv_all_nth)
  qed
  have attr: "table_ok ?H (attr_entries ob n)"
    using at [of 0] at [of 1] at [of 2] at [of 3] sizes rules
    by (auto simp: attr_entries_def table_ok_def format_all_def c_asn1_com_obj_attr_def blank_def
        sc_format_asn1_entry_def var_ok_def scalar_type_def octets_ok_def size_ok_def allocates_def object_type_at
        object_type_at(4) [unfolded One_nat_def])
  have opt: "entry_ok ?H (sc_format_asn1_entry (opt_table x) None False (blank SC_ASN1_STRUCT tag fl))"
    if "\<forall>t. x = Some t \<longrightarrow> table_ok G t" for x tag fl
    using that table_ok_append [of G _ size_types]
    by (cases x) (auto simp: opt_table_def sc_format_asn1_entry_def blank_def table_ok_def)
  show ?thesis
    using attr opt [OF cls] opt [OF sub] opt [OF ty]
    by (simp add: p15_entries_def table_ok_def format_all_def c_asn1_p15_obj_def)
      (simp add: sc_format_asn1_entry_def blank_def)
qed


section \<open>The decoder\<close>

lemma unmark_eq [simp]:
  "unmark (set_present e) = unmark e"
  "e_parm e = p \<Longrightarrow> set_parm p e = e"
  by (cases e, simp add: set_present_def bit_eq_iff bit_simps, blast)
     (cases e, simp add: set_parm_def)

lemma unmark_table: "map unmark t' = map unmark t \<Longrightarrow> table_ok G t' \<longleftrightarrow> table_ok G t"
proof -
  assume "map unmark t' = map unmark t"
  then have "set (map unmark t') = set (map unmark t)" by simp
  then have "(\<forall>e \<in> set t'. entry_ok G (unmark e)) \<longleftrightarrow> (\<forall>e \<in> set t. entry_ok G (unmark e))"
    by (metis (no_types, lifting) imageE imageI list.set_map)
  then show ?thesis by (simp only: entry_ok_unmark table_ok_def)
qed

lemma unmark_table_parm:
  "e_parm e = Parm_table t \<Longrightarrow> map unmark t' = map unmark t \<Longrightarrow> unmark (set_parm (Parm_table t') e) = unmark e"
  by (cases e) (simp add: set_parm_def)

lemma decode_p15_object_ok:
  assumes R: "\<And>c t o1. length o1 \<le> length obj \<Longrightarrow> decodes_ok rec c t o1"
    and m: "mem_ok G m" and e: "entry_ok G e" and p: "e_parm e = Parm_object ob cls sub ty"
    and d: "asn1_decode_p15_object rec obj ob cls sub ty m = (r, q, m')"
  shows "mem_ok G m' \<and> unmark (set_parm q e) = unmark e \<and> r \<noteq> Inl UNDEFINED"
proof -
  obtain x t k where run: "rec False (p15_entries ob (length m) cls sub ty) obj (m @ p15_vars) = (x, t, k)"
    by (metis prod.exhaust)
  have mem: "mem_ok (G @ size_types) (m @ p15_vars)"
    using m by (rule mem_ok_append) (simp add: mem_ok_def p15_vars_def size_types_def)
  have tab: "table_ok (G @ size_types) (p15_entries ob (length m) cls sub ty)"
    using e p mem_ok_length [OF m]
    by (intro p15_entries_ok; cases e) (auto simp: table_ok_def)
  note ok = decodes_okD [OF R [OF le_refl] mem tab run]
  let ?e = "\<lambda>i. p15_entries ob (length m) cls sub ty ! i"
  have len4: "length (p15_entries ob (length m) cls sub ty) = 4"
    by (simp add: p15_entries_def format_all_def c_asn1_p15_obj_def)
  then have len: "length t = 4"
    using arg_cong [OF ok(2), of length] by simp
  have same: "unmark (t ! i) = unmark (?e i)" if "i < 4" for i
    using arg_cong [OF ok(2), of "\<lambda>xs. xs ! i"] that len len4 by simp
  have opt: "map_option (map unmark) (table_opt (e_parm a)) = map_option (map unmark) y"
    if "unmark a = unmark (sc_format_asn1_entry (opt_table y) None False b)" for a b y
    using that
    by (cases a, cases "e_parm a", cases y)
       (auto simp: sc_format_asn1_entry_def opt_table_def table_opt_def split: option.splits asn1_parm.splits)
  have "map_option (map unmark) (table_opt (e_parm (t ! 1))) = map_option (map unmark) cls"
    "map_option (map unmark) (table_opt (e_parm (t ! 2))) = map_option (map unmark) sub"
    "map_option (map unmark) (table_opt (e_parm (t ! 3))) = map_option (map unmark) ty"
    using same [of 1] same [of 2] same [of 3]
    by (auto intro!: opt simp: p15_entries_def format_all_def c_asn1_p15_obj_def)
  moreover have "mem_ok G (take (length m) k)"
    using ok(1) mem_ok_length [OF m] by (rule mem_ok_take)
  ultimately show ?thesis
    using d run ok(3) p by (cases e) (auto simp: asn1_decode_p15_object_def set_parm_def ebind_def split: sum.splits)
qed

lemma keep_parm_ok:
  "keeps_ok G x \<Longrightarrow> keep_parm e x = (r, p, m') \<Longrightarrow>
   mem_ok G m' \<and> unmark (set_parm p e) = unmark e \<and> r \<noteq> Inl UNDEFINED"
  by (auto simp: keep_parm_def keeps_ok_def)

lemma var_entry:
  assumes "entry_ok G e" and "e_type e \<notin> {SC_ASN1_STRUCT, SC_ASN1_PKCS15_OBJECT, SC_ASN1_CALLBACK, SC_ASN1_CHOICE}"
  shows "e_parm e = Parm_null \<or> (\<exists>a. e_parm e = Parm_var a \<and> var_ok G (e_type e) (e_flags e) a (e_arg e))"
  using assms by (cases e; cases "e_parm e") auto

lemma var_entry_type:
  assumes "entry_ok G e" and "e_type e = ty"
    and "ty \<notin> {SC_ASN1_STRUCT, SC_ASN1_PKCS15_OBJECT, SC_ASN1_CALLBACK, SC_ASN1_CHOICE}"
  obtains a where "e_parm e = Parm_null \<or> e_parm e = Parm_var a \<and> var_ok G ty (e_flags e) a (e_arg e)"
  using var_entry [OF assms(1)] assms(2,3) by metis

text \<open>One lemma per group of types: what is read or written through the pointers of the entry.\<close>

lemma decode_scalar_ok:
  assumes t: "scalar_type (e_type e) = Some t" "e_type e \<noteq> SC_ASN1_PATH" "e_type e \<noteq> SC_ASN1_ALGORITHM_ID"
    and m: "mem_ok G m" and e: "entry_ok G e"
  shows "keeps_ok G (deref e m (\<lambda>a c. case write_cell (e_type e) obj c of (r, c) \<Rightarrow> (r, m[a := c])))"
proof -
  have nt: "e_type e \<notin> {SC_ASN1_STRUCT, SC_ASN1_PKCS15_OBJECT, SC_ASN1_CALLBACK, SC_ASN1_CHOICE}"
    using t(1) by (auto simp: scalar_type_def)
  obtain a where "e_parm e = Parm_null \<or> e_parm e = Parm_var a \<and> var_ok G (e_type e) (e_flags e) a (e_arg e)"
    by (rule var_entry_type [OF e refl nt])
  then have va: "e_parm e = Parm_null \<or> e_parm e = Parm_var a \<and> at_type G a t"
    by (simp add: var_ok_def t(1))
  show ?thesis
  proof (rule deref_ok [OF m va])
    fix c assume c: "e_parm e = Parm_var a" "has_type c t"
    obtain r c' where w: "write_cell (e_type e) obj c = (r, c')" by (metis prod.exhaust)
    have "at_type G a t" using c(1) va by simp
    with write_cell_ok [OF t c(2) w] w
    show "keeps_ok G (case write_cell (e_type e) obj c of (r, c) \<Rightarrow> (r, m[a := c]))"
      by (auto intro: mem_ok_update [OF m])
  qed
qed

lemma decode_field_ok:
  assumes t: "e_type e = SC_ASN1_BIT_FIELD" and m: "mem_ok G m" and e: "entry_ok G e"
  shows "keeps_ok G (deref e m (\<lambda>a c. write_field e obj a c m))"
proof -
  have nt: "e_type e \<notin> {SC_ASN1_STRUCT, SC_ASN1_PKCS15_OBJECT, SC_ASN1_CALLBACK, SC_ASN1_CHOICE}"
    using t by simp
  obtain a where "e_parm e = Parm_null \<or> e_parm e = Parm_var a \<and> var_ok G (e_type e) (e_flags e) a (e_arg e)"
    by (rule var_entry_type [OF e refl nt])
  then have va: "e_parm e = Parm_null \<or> e_parm e = Parm_var a \<and> at_type G a Word_t \<and>
      e_arg e \<noteq> None \<and> size_ok G (e_arg e) (\<lambda>_. True)"
    using t by (auto simp: var_ok_def scalar_type_def)
  show ?thesis
    by (rule deref_ok [OF m, of e a Word_t]) (use va in \<open>auto intro!: write_field_ok [OF m]\<close>)
qed

lemma decode_bits_entry_ok:
  assumes t: "e_type e = SC_ASN1_BIT_STRING \<or> e_type e = SC_ASN1_BIT_STRING_NI" and m: "mem_ok G m" and e: "entry_ok G e"
  shows "keeps_ok G (deref e m (\<lambda>a c. write_bits malloc e obj a c m))"
proof -
  have nt: "e_type e \<notin> {SC_ASN1_STRUCT, SC_ASN1_PKCS15_OBJECT, SC_ASN1_CALLBACK, SC_ASN1_CHOICE}"
    using t by auto
  obtain a where "e_parm e = Parm_null \<or> e_parm e = Parm_var a \<and> var_ok G (e_type e) (e_flags e) a (e_arg e)"
    by (rule var_entry_type [OF e refl nt])
  then have va: "e_parm e = Parm_null \<or> e_parm e = Parm_var a \<and> at_type G a Buf_t \<and>
      allocates (e_flags e) \<and> size_ok G (e_arg e) (\<lambda>b. b = None)"
    using t by (auto simp: var_ok_def scalar_type_def)
  show ?thesis
    by (rule deref_ok [OF m, of e a Buf_t]) (use va in \<open>auto intro!: write_bits_ok [OF m]\<close>)
qed

lemma decode_octets_ok:
  assumes t: "e_type e \<in> {SC_ASN1_OCTET_STRING, SC_ASN1_GENERALIZEDTIME, SC_ASN1_UTF8STRING, SC_ASN1_PRINTABLESTRING}"
    and m: "mem_ok G m" and e: "entry_ok G e"
    and w: "\<And>a. octets_ok G (e_flags e) a (e_arg e) \<Longrightarrow> a < length m \<Longrightarrow> keeps_ok G (w a (m ! a))"
  shows "keeps_ok G (deref e m w)"
proof -
  have nt: "e_type e \<notin> {SC_ASN1_STRUCT, SC_ASN1_PKCS15_OBJECT, SC_ASN1_CALLBACK, SC_ASN1_CHOICE}"
    using t by auto
  obtain a where "e_parm e = Parm_null \<or> e_parm e = Parm_var a \<and> var_ok G (e_type e) (e_flags e) a (e_arg e)"
    by (rule var_entry_type [OF e refl nt])
  then have va: "e_parm e = Parm_null \<or> e_parm e = Parm_var a \<and> octets_ok G (e_flags e) a (e_arg e)"
    using t by (auto simp: var_ok_def scalar_type_def)
  moreover have "a < length m" if "octets_ok G (e_flags e) a (e_arg e)"
    using that mem_okD [OF m] by (auto simp: octets_ok_def split: if_splits)
  ultimately show ?thesis
    using m w [of a] by (auto simp: deref_def)
qed

lemma decode_whole_ok:
  assumes m: "mem_ok G m" and e: "entry_ok G e" and t: "scalar_type (e_type e) = Some t"
    and w: "\<And>a c. at_type G a t \<Longrightarrow> has_type c t \<Longrightarrow> keeps_ok G (w a c)"
  shows "keeps_ok G (deref e m w)"
proof -
  have nt: "e_type e \<notin> {SC_ASN1_STRUCT, SC_ASN1_PKCS15_OBJECT, SC_ASN1_CALLBACK, SC_ASN1_CHOICE}"
    using t by (auto simp: scalar_type_def)
  obtain a where "e_parm e = Parm_null \<or> e_parm e = Parm_var a \<and> var_ok G (e_type e) (e_flags e) a (e_arg e)"
    by (rule var_entry_type [OF e refl nt])
  then have va: "e_parm e = Parm_null \<or> e_parm e = Parm_var a \<and> at_type G a t"
    by (simp add: var_ok_def t)
  show ?thesis
    by (rule deref_ok [OF m va]) (use va w in auto)
qed

lemma decode_se_ok:
  assumes R: "\<And>c t o1. length o1 \<le> length obj \<Longrightarrow> decodes_ok rec c t o1"
    and m: "mem_ok G m" and e: "entry_ok G e" and t: "e_type e = SC_ASN1_SE_INFO"
  shows "keeps_ok G (deref e m (\<lambda>a c. case c of
      Se_cell _ \<Rightarrow> (case asn1_decode_se_info malloc rec obj of
          Inl r \<Rightarrow> (Inl r, m)
        | Inr ses \<Rightarrow> sized UNDEFINED e m (\<lambda>l n. (Inr (), m[a := Se_cell ses, l := Size_cell (length ses)])))
    | _ \<Rightarrow> (Inl UNDEFINED, m)))" (is "keeps_ok G (deref e m ?w)")
proof -
  have nt: "e_type e \<notin> {SC_ASN1_STRUCT, SC_ASN1_PKCS15_OBJECT, SC_ASN1_CALLBACK, SC_ASN1_CHOICE}"
    using t by simp
  obtain a where "e_parm e = Parm_null \<or> e_parm e = Parm_var a \<and> var_ok G (e_type e) (e_flags e) a (e_arg e)"
    by (rule var_entry_type [OF e refl nt])
  then have va: "e_parm e = Parm_null \<or> e_parm e = Parm_var a \<and> at_type G a Se_t \<and>
      e_arg e \<noteq> None \<and> size_ok G (e_arg e) (\<lambda>b. b = None)"
    using t by (auto simp: var_ok_def scalar_type_def)
  have ses: "asn1_decode_se_info malloc rec obj \<noteq> Inl UNDEFINED \<and>
      (\<forall>s. asn1_decode_se_info malloc rec obj = Inr s \<longrightarrow> length s \<le> 8 \<and> (\<forall>se \<in> set s. length (si_aid se) \<le> 16))"
    using se_loop_ok [of obj rec "[]" malloc 8, OF R] by (simp add: asn1_decode_se_info_def)
  show ?thesis
  proof (rule deref_ok [OF m, of e a Se_t])
    show "e_parm e = Parm_null \<or> e_parm e = Parm_var a \<and> at_type G a Se_t" using va by blast
    fix c assume p: "e_parm e = Parm_var a" and c: "has_type c Se_t"
    from p va have a: "at_type G a Se_t" and l: "e_arg e \<noteq> None" and s: "size_ok G (e_arg e) (\<lambda>b. b = None)"
      by simp_all
    obtain x where x: "c = Se_cell x" using c by (cases c) (auto split: cell_type.splits)
    have "keeps_ok G (sized UNDEFINED e m (\<lambda>l n. (Inr (), m[a := Se_cell y, l := Size_cell (length y)])))"
      if "asn1_decode_se_info malloc rec obj = Inr y" for y
      by (rule sized_ok [OF m s]) (use ses that a l m in \<open>auto intro!: mem_ok_update\<close>)
    then show "keeps_ok G (?w a c)"
      using ses m x by (auto split: sum.split)
  qed
qed

lemma decode_value_ok:
  assumes R: "\<And>c t o1. length o1 \<le> length obj \<Longrightarrow> decodes_ok rec c t o1"
    and m: "mem_ok G m" and e: "entry_ok G e" and d: "decode_value malloc rec e obj m = (r, p, m')"
  shows "mem_ok G m' \<and> unmark (set_parm p e) = unmark e \<and> r \<noteq> Inl UNDEFINED"
proof -
  let ?goal = "mem_ok G m' \<and> unmark (set_parm p e) = unmark e \<and> r \<noteq> Inl UNDEFINED"
  have keep: ?goal if "decode_value malloc rec e obj m = keep_parm e x" "keeps_ok G x" for x
    using keep_parm_ok [OF that(2), of e r p m'] that(1) d by simp
  have scalar: ?goal if "scalar_type (e_type e) = Some t" "e_type e \<noteq> SC_ASN1_PATH" "e_type e \<noteq> SC_ASN1_ALGORITHM_ID" for t
    by (rule keep [OF _ decode_scalar_ok [OF that m e, of obj]])
       (use that in \<open>cases "e_type e"; simp add: decode_value_def scalar_type_def\<close>)
  have octets: "?goal" if "e_type e \<in> {SC_ASN1_OCTET_STRING, SC_ASN1_GENERALIZEDTIME}"
    by (rule keep [OF _ decode_octets_ok [OF _ m e, of "\<lambda>a c. write_octets malloc e obj a c m"]])
       (use that write_octets_ok [OF m] in \<open>auto simp: decode_value_def\<close>)
  have strings: "?goal" if "e_type e \<in> {SC_ASN1_PRINTABLESTRING, SC_ASN1_UTF8STRING}"
    by (rule keep [OF _ decode_octets_ok [OF _ m e, of "\<lambda>a c. write_text malloc e obj a c m"]])
       (use that write_text_ok [OF m] in \<open>auto simp: decode_value_def\<close>)
  have bits: ?goal if "e_type e = SC_ASN1_BIT_STRING \<or> e_type e = SC_ASN1_BIT_STRING_NI"
    by (rule keep [OF _ decode_bits_entry_ok [OF that m e, of malloc obj]])
       (use that in \<open>auto simp: decode_value_def\<close>)
  have same: "unmark (set_parm q e) = unmark e" if "e_parm e = q" for q
    using that by simp
  show ?thesis
  proof (cases "e_type e")
    case SC_ASN1_STRUCT
    show ?thesis
    proof (cases "e_parm e")
      case (Parm_table t)
      obtain x t1 k where run: "rec False t obj m = (x, t1, k)" by (metis prod.exhaust)
      have "table_ok G t" using e Parm_table by (cases e) (simp add: table_ok_def)
      note ok = decodes_okD [OF R [OF le_refl] m this run]
      show ?thesis
        using d SC_ASN1_STRUCT Parm_table run ok unmark_table_parm [OF Parm_table ok(2)]
        by (auto simp: decode_value_def ebind_def split: sum.splits)
    qed (use d e m SC_ASN1_STRUCT in \<open>cases e; auto simp: decode_value_def var_ok_def scalar_type_def\<close>)+
  next
    case SC_ASN1_PKCS15_OBJECT
    show ?thesis
    proof (cases "e_parm e")
      case (Parm_object ob cls sub ty)
      with d SC_ASN1_PKCS15_OBJECT have "asn1_decode_p15_object rec obj ob cls sub ty m = (r, p, m')"
        by (simp add: decode_value_def)
      from decode_p15_object_ok [OF _ m e Parm_object this] R show ?thesis by blast
    qed (use d e m SC_ASN1_PKCS15_OBJECT in \<open>cases e; auto simp: decode_value_def var_ok_def scalar_type_def\<close>)+
  next
    case SC_ASN1_CALLBACK
    show ?thesis
    proof (cases "e_parm e")
      case (Parm_callback f g)
      obtain x k where run: "f obj m = (x, k)" by (cases "f obj m")
      have safe: "\<forall>D obj m r m'. mem_ok (G @ D) m \<longrightarrow> f obj m = (r, m') \<longrightarrow> mem_ok (G @ D) m' \<and> r \<noteq> Inl UNDEFINED"
        using e Parm_callback by (cases e) simp
      have "keeps_ok G (f obj m)"
        using safe [rule_format, of "[]" m obj x k] m run by (simp add: keeps_ok_def)
      then show ?thesis
        by (intro keep) (simp_all add: decode_value_def SC_ASN1_CALLBACK Parm_callback)
    qed (use d e m SC_ASN1_CALLBACK in \<open>cases e; auto simp: decode_value_def var_ok_def scalar_type_def\<close>)+
  next
    case SC_ASN1_PATH
    have "keeps_ok G (deref e m (\<lambda>a c. case c of
        Path_cell _ \<Rightarrow> (case asn1_decode_path rec obj of (r, p) \<Rightarrow> (r, m[a := Path_cell p]))
      | _ \<Rightarrow> (Inl UNDEFINED, m)))"
    proof (rule decode_whole_ok [OF m e, of Path_t])
      fix a c assume "at_type G a Path_t" "has_type c Path_t"
      moreover obtain q x where run: "asn1_decode_path rec obj = (q, x)" by (cases "asn1_decode_path rec obj")
      moreover note decode_path_ok [OF R [OF le_refl] run]
      ultimately show "keeps_ok G (case c of
          Path_cell _ \<Rightarrow> (case asn1_decode_path rec obj of (r, p) \<Rightarrow> (r, m[a := Path_cell p]))
        | _ \<Rightarrow> (Inl UNDEFINED, m))"
        using m by (cases c) (auto intro!: mem_ok_update split: cell_type.splits)
    qed (simp add: SC_ASN1_PATH scalar_type_def)
    then show ?thesis
      by (rule keep [rotated]) (simp add: decode_value_def SC_ASN1_PATH)
  next
    case SC_ASN1_ALGORITHM_ID
    have "keeps_ok G (deref e m (\<lambda>a c. case c of
        Alg_cell _ \<Rightarrow> (case sc_asn1_decode_algorithm_id malloc rec obj of (r, i) \<Rightarrow> (r, m[a := Alg_cell i]))
      | _ \<Rightarrow> (Inl UNDEFINED, m)))"
    proof (rule decode_whole_ok [OF m e, of Alg_t])
      fix a c assume "at_type G a Alg_t" "has_type c Alg_t"
      moreover obtain q x where run: "sc_asn1_decode_algorithm_id malloc rec obj = (q, x)"
        by (cases "sc_asn1_decode_algorithm_id malloc rec obj")
      moreover note decode_algorithm_id_ok [OF R run]
      ultimately show "keeps_ok G (case c of
          Alg_cell _ \<Rightarrow> (case sc_asn1_decode_algorithm_id malloc rec obj of (r, i) \<Rightarrow> (r, m[a := Alg_cell i]))
        | _ \<Rightarrow> (Inl UNDEFINED, m))"
        using m by (cases c) (auto intro!: mem_ok_update split: cell_type.splits)
    qed (simp add: SC_ASN1_ALGORITHM_ID scalar_type_def)
    then show ?thesis
      by (rule keep [rotated]) (simp add: decode_value_def SC_ASN1_ALGORITHM_ID)
  next
    case SC_ASN1_SE_INFO
    show ?thesis
      by (rule keep [OF _ decode_se_ok [OF R m e SC_ASN1_SE_INFO]]) (simp_all add: decode_value_def SC_ASN1_SE_INFO)
  next
    case SC_ASN1_BIT_FIELD
    show ?thesis
      by (rule keep [OF _ decode_field_ok [OF SC_ASN1_BIT_FIELD m e]]) (simp add: decode_value_def SC_ASN1_BIT_FIELD)
  qed (use d m same scalar octets strings bits in \<open>auto simp: decode_value_def scalar_type_def\<close>)
qed

lemma free_ok: "mem_ok G m \<Longrightarrow> table_ok G t \<Longrightarrow> mem_ok G (sc_free_entry t m)"
proof (induction t m rule: sc_free_entry.induct)
  case (2 ty tag fl p ar es m)
  have "mem_ok G (m[a := Buf_cell None])" if "p = Parm_var a" "owns_buffer (Entry ty tag fl p ar)" for a
  proof -
    have "var_ok G ty fl a ar" using 2(4) that(1) by (simp add: table_ok_def)
    then have "at_type G a Buf_t"
      using that(2)
      by (auto simp: owns_buffer_def var_ok_def scalar_type_def octets_ok_def allocates_def e_flag_def)
    then show ?thesis by (intro mem_ok_update [OF 2(3)]) simp_all
  qed
  with 2 show ?case by (cases p) (auto simp: table_ok_def)
qed simp

lemma decode_entry_ok:
  assumes R: "\<And>c t o1. length o1 \<le> length obj \<Longrightarrow> decodes_ok rec c t o1"
    and m: "mem_ok G m" and e: "entry_ok G e" and d: "asn1_decode_entry malloc rec e obj m = (r, e', m')"
  shows "mem_ok G m'" and "unmark e' = unmark e" and "r \<noteq> Inl UNDEFINED"
proof -
  obtain x p k where run: "decode_value malloc rec e obj m = (x, p, k)" by (metis prod.exhaust)
  have "mem_ok G k \<and> unmark (set_parm p e) = unmark e \<and> x \<noteq> Inl UNDEFINED"
    using decode_value_ok [OF _ m e run] R by blast
  then show "mem_ok G m'" and "unmark e' = unmark e" and "r \<noteq> Inl UNDEFINED"
    using d run by (auto simp: asn1_decode_entry_def split: sum.splits)
qed

text \<open>A table of which one entry has been replaced by one that differs in marks.\<close>

lemma table_ok_mid:
  "table_ok G (pre @ e # es) \<Longrightarrow> unmark e' = unmark e \<Longrightarrow> table_ok G (pre @ e' # es)"
  by (rule unmark_table [THEN iffD2]) simp_all

lemma decode_loop_ok:
  assumes "\<And>c t o1. length o1 < length p \<or> length o1 \<le> length p \<and> (\<exists>e \<in> set es. e_parm e = Parm_table t) \<Longrightarrow>
      decodes_ok rec c t o1"
    and "mem_ok G m" and "table_ok G (pre @ es)" and "decode_loop malloc rec choice pre es p m = (r, t', m')"
  shows "mem_ok G m' \<and> map unmark t' = map unmark (pre @ es) \<and> r \<noteq> Inl UNDEFINED"
  using assms
proof (induction es arbitrary: pre p m)
  case (Cons e es)
  have e: "entry_ok G e" using Cons.prems(3) by (simp add: table_ok_def)
  have rest: "mem_ok G m' \<and> map unmark t' = map unmark (pre @ e # es) \<and> r \<noteq> Inl UNDEFINED"
    if "decode_loop malloc rec choice (pre @ [e']) es q k = (r, t', m')" "length q \<le> length p" "mem_ok G k"
      "unmark e' = unmark e" for e' q k
  proof -
    have "mem_ok G m' \<and> map unmark t' = map unmark ((pre @ [e']) @ es) \<and> r \<noteq> Inl UNDEFINED"
    proof (rule Cons.IH [OF _ that(3) _ that(1)])
      show "table_ok G ((pre @ [e']) @ es)" using table_ok_mid [OF Cons.prems(3) that(4)] by simp
      fix c t and o1 :: bytes
      assume "length o1 < length q \<or> length o1 \<le> length q \<and> (\<exists>e \<in> set es. e_parm e = Parm_table t)"
      then show "decodes_ok rec c t o1" using that(2) by (intro Cons.prems(1)) auto
    qed
    then show ?thesis using that(4) by simp
  qed
  show ?case
  proof (cases "e_type e = SC_ASN1_CHOICE")
    case True
    obtain t where t: "e_parm e = Parm_table t" using e True by (cases e; cases "e_parm e") (auto simp: var_ok_def scalar_type_def)
    obtain x t1 k where run: "rec True t p m = (x, t1, k)" by (metis prod.exhaust)
    have "table_ok G t" using e t by (cases e) (simp add: table_ok_def)
    have "decodes_ok rec True t p" using t by (intro Cons.prems(1)) auto
    note ok = decodes_okD [OF this Cons.prems(2) \<open>table_ok G t\<close> run]
    let ?e = "set_parm (Parm_table t1) e" and ?q = "case x of Inr (_, off) \<Rightarrow> drop off p | Inl _ \<Rightarrow> p"
    have same: "unmark ?e = unmark e" by (rule unmark_table_parm [OF t ok(2)])
    have short: "length ?q \<le> length p" by (auto split: sum.split prod.split)
    have step: "decode_loop malloc rec choice pre (e # es) p m =
        (if \<not> isl x \<or> e_flag e SC_ASN1_OPTIONAL then
           (if choice then (Inr (length pre, ?q), pre @ ?e # es, k)
            else decode_loop malloc rec choice (pre @ [?e]) es ?q k)
         else (ebind x (\<lambda>_. Inr (0, p)), pre @ ?e # es, k))"
      using True t run by (simp add: Let_def)
    show ?thesis
    proof (cases "(\<not> isl x \<or> e_flag e SC_ASN1_OPTIONAL) \<and> \<not> choice")
      case True
      then have "decode_loop malloc rec choice (pre @ [?e]) es ?q k = (r, t', m')"
        using step Cons.prems(4) by simp
      then show ?thesis by (rule rest [OF _ short ok(1) same])
    next
      case False
      then have "m' = k" "t' = pre @ ?e # es" "(\<exists>y. r = Inr y) \<or> (\<exists>z. r = Inl z \<and> x = Inl z)"
        using step Cons.prems(4) by (auto simp: ebind_def split: if_splits sum.splits)
      then show ?thesis using ok same by auto
    qed
  next
    case False
    show ?thesis
    proof (cases "sc_asn1_skip_tag p (e_tag e)")
      case None
      then show ?thesis
        using False Cons.prems(2,4) rest [of e p m] free_ok [OF Cons.prems(2,3)]
        by (auto split: if_splits)
    next
      case (Some y)
      obtain obj q where y: "y = (obj, q)" by (cases y)
      with Some have short: "length obj + length q < length p" by (simp add: skip_tag_shorter)
      obtain x e' k where run: "asn1_decode_entry malloc rec e obj m = (x, e', k)" by (metis prod.exhaust)
      have "decodes_ok rec c t o1" if "length o1 \<le> length obj" for c t o1
        using that short by (intro Cons.prems(1)) auto
      note ok = decode_entry_ok [OF this Cons.prems(2) e run]
      show ?thesis
      proof (cases x)
        case (Inl z)
        then show ?thesis using False Some y run ok Cons.prems(4) by auto
      next
        case (Inr z)
        then show ?thesis
          using False Some y run ok short Cons.prems(4) rest [of e' q k]
          by (cases choice) auto
      qed
    qed
  qed
qed (auto split: if_splits)

lemma decode_types:
  assumes "mem_ok G m" and "table_ok G tab" and "asn1_decode malloc choice tab ins m = (r, tab', m')"
  shows "mem_ok G m' \<and> map unmark tab' = map unmark tab \<and> r \<noteq> Inl UNDEFINED"
  using assms
proof (induction malloc choice tab ins m arbitrary: G r tab' m' rule: asn1_decode.induct)
  case (1 malloc choice tab ins m)
  show ?case
  proof (cases "length ins < 2 \<or> ins ! 0 = 0 \<or> ins ! 0 = 0xFF")
    case True
    with 1(2,4) show ?thesis
      by (subst (asm) asn1_decode.simps) (auto split: if_splits)
  next
    case False
    have D: "decodes_ok (\<lambda>c t o1 k. asn1_decode malloc c t o1 k) c t o1"
      if "length o1 < length ins \<or> length o1 \<le> length ins \<and> (\<exists>e \<in> set tab. e_parm e = Parm_table t)" for c t o1
      unfolding decodes_ok_def using 1(1) that False by blast
    obtain x t k where run:
      "decode_loop malloc (\<lambda>c t o1 k. asn1_decode malloc c t o1 k) choice [] tab ins m = (x, t, k)"
      by (metis prod.exhaust)
    have tab: "table_ok G ([] @ tab)" using 1(3) by simp
    have "mem_ok G k \<and> map unmark t = map unmark ([] @ tab) \<and> x \<noteq> Inl UNDEFINED"
      using decode_loop_ok [OF _ 1(2) tab run] D by blast
    with 1(4) False run show ?thesis
      by (subst (asm) asn1_decode.simps) (auto split: sum.splits)
  qed
qed

text \<open>C35: type soundness of the table-driven decoder: a table that fits the memory is decoded without an undefined access: every variable keeps
  its type, every array its length and every size its bound, and the table only gains marks.\<close>

theorem asn1_decode_sound:
  assumes "mem_ok G m" and "table_ok G tab" and "asn1_decode malloc choice tab ins m = (r, tab', m')"
  shows "mem_ok G m' \<and> map unmark tab' = map unmark tab \<and> r \<noteq> Inl UNDEFINED"
  using assms by (rule decode_types)

theorem asn1_decode_sound_witness:
  "\<exists>r t m. asn1_decode (\<lambda>n. None) False path_entries [0x04, 0x02, 0x3F, 0x00] path_vars = (r, t, m) \<and>
    mem_ok [Array_t 16, Size_t (Some 16), Array_t 16, Size_t (Some 16), Int_t, Int_t] m \<and>
    map unmark t = map unmark path_entries \<and> r \<noteq> Inl UNDEFINED"
proof -
  obtain r t m where run: "asn1_decode (\<lambda>n. None) False path_entries [0x04, 0x02, 0x3F, 0x00] path_vars = (r, t, m)"
    by (metis prod.exhaust)
  then show ?thesis
    using asn1_decode_sound [OF path_entries_ok run] by blast
qed

end
