(* ===== verification/Sc_TableEnc.thy ===== *)
theory Sc_TableEnc
  imports Sc_Table
begin

text \<open>
  The table-driven encoder of \<open>libopensc/asn1.c\<close> and the encoding of algorithm identifiers
  (\<open>libopensc/pkcs15-algo.c\<close>), over the entries and the memory of \<open>Sc_Table\<close>. The encoder is total:
  every table it builds on its way weighs less than the entry it stands for.
\<close>

section \<open>Encoding one value\<close>

text \<open>The size an entry points to; a null pointer is an argument the caller got wrong.\<close>

definition arg_size :: "asn1_entry \<Rightarrow> cell list \<Rightarrow> nat res" where
  "arg_size e m =
    (case e_arg e of
       None \<Rightarrow> Inl SC_ERROR_INVALID_ARGUMENTS
     | Some l \<Rightarrow> if l < length m then (case m ! l of Size_cell n \<Rightarrow> Inr n | _ \<Rightarrow> Inl UNDEFINED) else Inl UNDEFINED)"

definition allocated :: "(nat \<Rightarrow> bytes option) \<Rightarrow> nat \<Rightarrow> unit res" where
  "allocated malloc n = (if malloc n = None then Inl SC_ERROR_OUT_OF_MEMORY else Inr ())"

text \<open>The types that are read from one cell; \<open>alg\<close> encodes an algorithm identifier.\<close>

definition read_octets :: "(nat \<Rightarrow> bytes option) \<Rightarrow> asn1_entry \<Rightarrow> cell list \<Rightarrow> cell \<Rightarrow> bytes res" where
  "read_octets malloc e m c =
     ebind (arg_size e m) (\<lambda>n.
     ebind (allocated malloc (n + 1)) (\<lambda>_.
       case c of Array_cell b \<Rightarrow>
         if n > length b \<or> e_flag e SC_ASN1_UNSIGNED \<and> b = [] then Inl UNDEFINED
         else Inr ((if e_flag e SC_ASN1_UNSIGNED \<and> hd b AND 0x80 \<noteq> 0 then [0] else []) @ take n b)
       | _ \<Rightarrow> Inl UNDEFINED))"

definition read_cell ::
  "(nat \<Rightarrow> bytes option) \<Rightarrow> (sc_algorithm_id \<Rightarrow> bytes res) \<Rightarrow> asn1_entry \<Rightarrow> cell list \<Rightarrow> cell \<Rightarrow> bytes res" where
  "read_cell malloc alg e m c =
    (case e_type e of
       SC_ASN1_BOOLEAN \<Rightarrow>
         ebind (allocated malloc 1) (\<lambda>_. case c of Int_cell x \<Rightarrow> Inr [if x \<noteq> 0 then 0xFF else 0] | _ \<Rightarrow> Inl UNDEFINED)
     | SC_ASN1_INTEGER \<Rightarrow> (case c of Int_cell x \<Rightarrow> asn1_encode_integer malloc x | _ \<Rightarrow> Inl UNDEFINED)
     | SC_ASN1_ENUMERATED \<Rightarrow> (case c of Int_cell x \<Rightarrow> asn1_encode_integer malloc x | _ \<Rightarrow> Inl UNDEFINED)
     | SC_ASN1_BIT_STRING \<Rightarrow>
         ebind (arg_size e m) (\<lambda>n. case c of
             Array_cell b \<Rightarrow> if (n + 7) div 8 > length b then Inl UNDEFINED else encode_bit_string malloc b n True
           | _ \<Rightarrow> Inl UNDEFINED)
     | SC_ASN1_BIT_STRING_NI \<Rightarrow>
         ebind (arg_size e m) (\<lambda>n. case c of
             Array_cell b \<Rightarrow> if (n + 7) div 8 > length b then Inl UNDEFINED else encode_bit_string malloc b n False
           | _ \<Rightarrow> Inl UNDEFINED)
     | SC_ASN1_BIT_FIELD \<Rightarrow>
         ebind (arg_size e m) (\<lambda>n. if n \<noteq> 4 then Inl SC_ERROR_BUFFER_TOO_SMALL
           else case c of Word_cell w \<Rightarrow> encode_bit_field malloc w | _ \<Rightarrow> Inl UNDEFINED)
     | SC_ASN1_PRINTABLESTRING \<Rightarrow> read_octets malloc e m c
     | SC_ASN1_OCTET_STRING \<Rightarrow> read_octets malloc e m c
     | SC_ASN1_UTF8STRING \<Rightarrow> read_octets malloc e m c
     | SC_ASN1_GENERALIZEDTIME \<Rightarrow>
         ebind (arg_size e m) (\<lambda>n. ebind (allocated malloc n) (\<lambda>_. case c of
             Array_cell b \<Rightarrow> if n > length b then Inl UNDEFINED else Inr (take n b) | _ \<Rightarrow> Inl UNDEFINED))
     | SC_ASN1_OBJECT \<Rightarrow> (case c of Oid_cell v \<Rightarrow> sc_asn1_encode_object_id malloc v | _ \<Rightarrow> Inl UNDEFINED)
     | SC_ASN1_PKCS15_ID \<Rightarrow>
         (case c of Id_cell v \<Rightarrow> ebind (allocated malloc (length v)) (\<lambda>_. Inr v) | _ \<Rightarrow> Inl UNDEFINED)
     | SC_ASN1_ALGORITHM_ID \<Rightarrow> (case c of Alg_cell i \<Rightarrow> alg i | _ \<Rightarrow> Inl UNDEFINED)
     | _ \<Rightarrow> Inl SC_ERROR_INVALID_ASN1_OBJECT)"

definition var_cell :: "asn1_entry \<Rightarrow> cell list \<Rightarrow> (cell \<Rightarrow> bytes res) \<Rightarrow> bytes res" where
  "var_cell e m f =
    (case e_parm e of Parm_var a \<Rightarrow> if a < length m then f (m ! a) else Inl UNDEFINED | _ \<Rightarrow> Inl UNDEFINED)"

text \<open>The element around the content; what an empty content means depends on the entry.\<close>

definition wrap_entry :: "(nat \<Rightarrow> bytes option) \<Rightarrow> asn1_entry \<Rightarrow> bytes \<Rightarrow> bytes res" where
  "wrap_entry malloc e buf =
    (if buf = [] \<and> e_flag e SC_ASN1_OPTIONAL \<and> \<not> e_flag e SC_ASN1_PRESENT then Inr []
     else if buf = [] \<and> e_flag e SC_ASN1_EMPTY_ALLOWED then asn1_write_element malloc (e_tag e) (Some buf) (length buf)
     else if buf \<noteq> [] \<or> e_type e = SC_ASN1_NULL \<or> e_tag e AND SC_ASN1_CONS \<noteq> 0
     then asn1_write_element malloc (e_tag e) (Some buf) (length buf)
     else Inl SC_ERROR_INVALID_ASN1_OBJECT)"

section \<open>Encoding of structures\<close>

type_synonym encoder = "asn1_entry list \<Rightarrow> cell list \<Rightarrow> bytes res"

text \<open>A path is written from a copy: value, its length, index, count. The flags of the entry are
  passed on to the value.\<close>

definition add_flags :: "u32 \<Rightarrow> asn1_entry \<Rightarrow> asn1_entry" where
  "add_flags f e = Entry (e_type e) (e_tag e) (e_flags e OR f) (e_parm e) (e_arg e)"

definition path_table :: "sc_path \<Rightarrow> u32 \<Rightarrow> asn1_entry list" where
  "path_table path parent_flags =
    (let t0 = add_flags parent_flags (sc_format_asn1_entry (Parm_var 0) (Some 1) True (c_asn1_path ! 0));
         t = c_asn1_path[0 := t0]
     in if p_count path > 0
        then t[1 := sc_format_asn1_entry (Parm_var 2) None True (c_asn1_path ! 1),
               2 := sc_format_asn1_entry (Parm_var 3) None True (c_asn1_path ! 2)]
        else t)"

definition asn1_encode_path :: "encoder \<Rightarrow> sc_path \<Rightarrow> u32 \<Rightarrow> bytes res" where
  "asn1_encode_path rec path parent_flags =
     rec (path_table path parent_flags)
       [Array_cell (p_value path), Size_cell (length (p_value path)), Int_cell (p_index path), Int_cell (p_count path)]"

definition se_table :: "sc_pkcs15_sec_env_info \<Rightarrow> asn1_entry list" where
  "se_table se =
    (let t = c_asn1_se_info[0 := sc_format_asn1_entry (Parm_var 0) None True (c_asn1_se_info ! 0)];
         t = (if sc_valid_oid (si_owner se)
              then t[1 := sc_format_asn1_entry (Parm_var 1) None True (c_asn1_se_info ! 1)] else t);
         t = (if si_aid se \<noteq> []
              then t[2 := sc_format_asn1_entry (Parm_var 2) (Some 3) True (c_asn1_se_info ! 2)] else t)
     in [sc_format_asn1_entry (Parm_table t) None True (c_asn1_se ! 0)])"

primrec asn1_encode_se_info :: "encoder \<Rightarrow> sc_pkcs15_sec_env_info list \<Rightarrow> bytes res" where
  "asn1_encode_se_info rec [] = Inr []"
| "asn1_encode_se_info rec (se # ses) =
     ebind (rec (se_table se)
              [Int_cell (si_se se), Oid_cell (si_owner se), Array_cell (si_aid se), Size_cell (length (si_aid se))])
       (\<lambda>b. ebind (asn1_encode_se_info rec ses) (\<lambda>bs. Inr (b @ bs)))"

text \<open>
  The common attributes of a PKCS#15 object are written from a copy of the object: the label, its
  length, the flags, their size, the authentication identifier, the user consent, and for each rule
  the mode, its size and the identifier. Attributes that are zero or empty are left out; access rules
  end at the first one without a mode.
\<close>

definition object_copy :: "nat \<Rightarrow> cell list \<Rightarrow> cell list" where
  "object_copy ob m =
    [m ! ob, Size_cell (length (takeWhile (\<lambda>b. b \<noteq> 0) (array_at m ob))), m ! (ob + 1), Size_cell 4, m ! (ob + 2), m ! (ob + 3)]
     @ concat (map (\<lambda>ii. [m ! (ob + 4 + 2 * ii), Size_cell 4, m ! (ob + 5 + 2 * ii)]) [0..<SC_PKCS15_MAX_ACCESS_RULES])"

definition word_at :: "cell list \<Rightarrow> nat \<Rightarrow> u32" where
  "word_at m a = (case m ! a of Word_cell w \<Rightarrow> w | _ \<Rightarrow> 0)"

definition id_at :: "cell list \<Rightarrow> nat \<Rightarrow> bytes" where
  "id_at m a = (case m ! a of Id_cell v \<Rightarrow> v | _ \<Rightarrow> [])"

definition rule_table :: "nat \<Rightarrow> cell list \<Rightarrow> nat \<Rightarrow> asn1_entry list" where
  "rule_table b k a =
    (let t = c_asn1_access_control_rule;
         t1 = (if id_at k (a + 2) = [] then blank SC_ASN1_NULL 5 SC_ASN1_OPTIONAL else t ! 1)
     in [sc_format_asn1_entry (Parm_var (b + a)) (Some (b + a + 1)) True (t ! 0),
         sc_format_asn1_entry (Parm_var (b + a + 2)) None True t1])"

definition rules_table :: "nat \<Rightarrow> cell list \<Rightarrow> asn1_entry list" where
  "rules_table b k =
    (let n = length (takeWhile (\<lambda>ii. word_at k (6 + 3 * ii) \<noteq> 0) [0..<SC_PKCS15_MAX_ACCESS_RULES])
     in map (\<lambda>ii. if ii < n
                  then sc_format_asn1_entry (Parm_table (rule_table b k (6 + 3 * ii))) None True (c_asn1_access_control_rules ! ii)
                  else c_asn1_access_control_rules ! ii) [0..<SC_PKCS15_MAX_ACCESS_RULES])"

definition format_if :: "bool \<Rightarrow> asn1_parm \<Rightarrow> nat option \<Rightarrow> asn1_entry \<Rightarrow> asn1_entry" where
  "format_if c p a e = (if c then sc_format_asn1_entry p a True e else e)"

definition attr_table :: "nat \<Rightarrow> cell list \<Rightarrow> asn1_entry list" where
  "attr_table b k =
    [format_if (size_at k 1 \<noteq> 0) (Parm_var b) (Some (b + 1)) (c_asn1_com_obj_attr ! 0),
     format_if (word_at k 2 \<noteq> 0) (Parm_var (b + 2)) (Some (b + 3)) (c_asn1_com_obj_attr ! 1),
     format_if (id_at k 4 \<noteq> []) (Parm_var (b + 4)) None (c_asn1_com_obj_attr ! 2),
     format_if (int_at k 5 \<noteq> 0) (Parm_var (b + 5)) None (c_asn1_com_obj_attr ! 3),
     format_if (word_at k 6 \<noteq> 0) (Parm_table (rules_table b k)) None (c_asn1_com_obj_attr ! 4)]"

definition object_table ::
  "nat \<Rightarrow> cell list \<Rightarrow> asn1_entry list option \<Rightarrow> asn1_entry list option \<Rightarrow> asn1_entry list option \<Rightarrow>
   asn1_entry list" where
  "object_table b k cls sub ty =
    [sc_format_asn1_entry (Parm_table (attr_table b k)) None True (c_asn1_p15_obj ! 0),
     sc_format_asn1_entry (opt_table cls) None True (c_asn1_p15_obj ! 1),
     format_if (case sub of Some (_ # _) \<Rightarrow> True | _ \<Rightarrow> False) (opt_table sub) None (c_asn1_p15_obj ! 2),
     sc_format_asn1_entry (opt_table ty) None True (c_asn1_p15_obj ! 3)]"

definition asn1_encode_p15_object ::
  "encoder \<Rightarrow> nat \<Rightarrow> asn1_entry list option \<Rightarrow> asn1_entry list option \<Rightarrow> asn1_entry list option \<Rightarrow>
   cell list \<Rightarrow> bytes res" where
  "asn1_encode_p15_object rec ob cls sub ty m =
    (if ob + 4 + 2 * SC_PKCS15_MAX_ACCESS_RULES > length m then Inl UNDEFINED
     else let k = object_copy ob m in rec (object_table (length m) k cls sub ty) (m @ k))"


section \<open>The encoder\<close>

text \<open>A measure of tables under which every call of the encoder goes down: a path and a security
  environment are worth their own tables, an object that of its common attributes too.\<close>

definition own_weight :: "asn1_type \<Rightarrow> nat" where
  "own_weight ty =
    (if ty = SC_ASN1_PATH \<or> ty = SC_ASN1_SE_INFO then 10 else if ty = SC_ASN1_PKCS15_OBJECT then 100 else 1)"

fun weight :: "asn1_entry \<Rightarrow> nat" where
  "weight (Entry ty tag fl p ar) =
    own_weight ty +
    (case p of
       Parm_table t \<Rightarrow> 1 + sum_list (map weight t)
     | Parm_object ob cls sub ty \<Rightarrow>
         (case cls of None \<Rightarrow> 0 | Some t \<Rightarrow> 1 + sum_list (map weight t)) +
         (case sub of None \<Rightarrow> 0 | Some t \<Rightarrow> 1 + sum_list (map weight t)) +
         (case ty of None \<Rightarrow> 0 | Some t \<Rightarrow> 1 + sum_list (map weight t))
     | _ \<Rightarrow> 0)"

definition table_weight :: "asn1_entry list \<Rightarrow> nat" where
  "table_weight t = 1 + sum_list (map weight t)"

lemma weight_pos: "0 < weight e"
  by (cases e) (simp add: own_weight_def)

lemma weight_format [simp]:
  "weight (sc_format_asn1_entry p a s e) = weight (Entry (e_type e) (e_tag e) (e_flags e) p a)"
  by (cases e) (simp add: sc_format_asn1_entry_def set_present_def Let_def)

lemma path_table_weight: "table_weight (path_table p f) < 10"
  by (auto simp: table_weight_def path_table_def Let_def c_asn1_path_def blank_def own_weight_def add_flags_def
      sc_format_asn1_entry_def set_present_def)

lemma se_table_weight: "table_weight (se_table se) < 10"
  by (auto simp: table_weight_def se_table_def Let_def c_asn1_se_def c_asn1_se_info_def blank_def own_weight_def)

lemma rules_table_weight: "sum_list (map weight (rules_table b k)) \<le> 8 * 4"
proof -
  have "sum_list (map weight (rules_table b k)) \<le> (\<Sum>ii \<leftarrow> [0..<8]. 4 :: nat)"
    unfolding rules_table_def Let_def map_map comp_def c_asn1_access_control_rules_def
    by (rule sum_list_mono)
       (auto simp: rule_table_def Let_def c_asn1_access_control_rule_def blank_def own_weight_def)
  then show ?thesis by (simp add: sum_list_triv)
qed

lemma attr_table_weight: "sum_list (map weight (attr_table b k)) \<le> 40"
  using rules_table_weight [of b k]
  by (simp add: attr_table_def format_if_def c_asn1_com_obj_attr_def blank_def own_weight_def)

lemma object_table_weight:
  "table_weight (object_table b k cls sub ty) < weight (Entry SC_ASN1_PKCS15_OBJECT tag fl (Parm_object ob cls sub ty) ar)"
  using attr_table_weight [of b k]
  by (auto simp: table_weight_def object_table_def format_if_def c_asn1_p15_obj_def blank_def own_weight_def opt_table_def
      split: option.split)

lemma encode_se_info_cong [fundef_cong]:
  assumes "ses = ses'" and "\<And>t m. table_weight t < 10 \<Longrightarrow> f t m = g t m"
  shows "asn1_encode_se_info f ses = asn1_encode_se_info g ses'"
  unfolding assms(1) by (induction ses') (simp_all add: assms(2) se_table_weight)


lemma encode_path_cong [fundef_cong]:
  assumes "v = v'" and "fl = fl'" and "\<And>t m. table_weight t < 10 \<Longrightarrow> f t m = g t m"
  shows "asn1_encode_path f v fl = asn1_encode_path g v' fl'"
  unfolding assms(1,2) asn1_encode_path_def by (rule assms(3)) (rule path_table_weight)

lemma encode_p15_object_cong [fundef_cong]:
  assumes "ob = ob'" and "cls = cls'" and "sub = sub'" and "ty = ty'" and "m = m'"
    and "\<And>t k b v. t = object_table b v cls' sub' ty' \<Longrightarrow> f t k = g t k"
  shows "asn1_encode_p15_object f ob cls sub ty m = asn1_encode_p15_object g ob' cls' sub' ty' m'"
  unfolding assms(1-5) asn1_encode_p15_object_def by (simp add: assms(6) Let_def)

lemma filter_weight:
  assumes "filter P t = c # cs"
  shows "weight c < weight (Entry ty tag fl (Parm_table t) ar)"
proof -
  from assms have "c \<in> set (filter P t)" by simp
  then have "weight c \<le> sum_list (map weight t)"
    by (intro member_le_sum_list) auto
  then show ?thesis by simp
qed

lemma nested_weight: "table_weight t < weight (Entry ty tag fl (Parm_table t) ar)"
  using weight_pos [of "Entry ty tag fl Parm_null ar"] by (simp add: table_weight_def)

lemma small_weight:
  "table_weight t < 10 \<Longrightarrow> ty = SC_ASN1_PATH \<or> ty = SC_ASN1_SE_INFO \<Longrightarrow> table_weight t < weight (Entry ty tag fl p ar)"
  by (auto simp: own_weight_def)

lemma cons_weight: "weight e < table_weight (e # es)" "table_weight es < table_weight (e # es)"
  using weight_pos [of e] by (simp_all add: table_weight_def)

text \<open>
  \<open>encode_entry\<close> and \<open>encode_table\<close> are \<open>asn1_encode_entry\<close> and \<open>asn1_encode\<close>, with the encoder of
  algorithm identifiers as a parameter; \<open>used\<close> is the number of bytes the result has so far.
\<close>

function encode_entry ::
    "(nat \<Rightarrow> bytes option) \<Rightarrow> (sc_algorithm_id \<Rightarrow> bytes res) \<Rightarrow> asn1_entry \<Rightarrow> cell list \<Rightarrow> bytes res"
  and encode_table ::
    "(nat \<Rightarrow> bytes option) \<Rightarrow> (sc_algorithm_id \<Rightarrow> bytes res) \<Rightarrow> nat \<Rightarrow> asn1_entry list \<Rightarrow> cell list \<Rightarrow> bytes res" where
  "encode_entry malloc alg (Entry ty tag fl p ar) m =
    (let e = Entry ty tag fl p ar in
     if \<not> e_flag e SC_ASN1_PRESENT then wrap_entry malloc e []
     else if ty = SC_ASN1_CHOICE then
       (case p of
          Parm_table t \<Rightarrow>
           (case filter (\<lambda>c. e_flag c SC_ASN1_PRESENT) t of
              [] \<Rightarrow> wrap_entry malloc e []
            | [c] \<Rightarrow> encode_entry malloc alg c m
            | _ \<Rightarrow> Inl SC_ERROR_INVALID_ASN1_OBJECT)
        | _ \<Rightarrow> Inl UNDEFINED)
     else if ty = SC_ASN1_NULL then wrap_entry malloc e []
     else if (case p of Parm_null \<Rightarrow> True | _ \<Rightarrow> False) then Inl SC_ERROR_INVALID_ASN1_OBJECT
     else
       ebind
        (if ty = SC_ASN1_STRUCT then
           (case p of Parm_table t \<Rightarrow> encode_table malloc alg 0 t m | _ \<Rightarrow> Inl UNDEFINED)
         else if ty = SC_ASN1_PATH then
           var_cell e m (\<lambda>c. case c of
               Path_cell v \<Rightarrow> asn1_encode_path (\<lambda>t k. encode_table malloc alg 0 t k) v fl
             | _ \<Rightarrow> Inl UNDEFINED)
         else if ty = SC_ASN1_PKCS15_OBJECT then
           (case p of
              Parm_object ob cls sub tt \<Rightarrow>
                asn1_encode_p15_object (\<lambda>t k. encode_table malloc alg 0 t k) ob cls sub tt m
            | _ \<Rightarrow> Inl UNDEFINED)
         else if ty = SC_ASN1_SE_INFO then
           (case arg_size e m of
              Inl r \<Rightarrow> Inl (if r = SC_ERROR_INVALID_ARGUMENTS then SC_ERROR_INVALID_ASN1_OBJECT else r)
            | Inr n \<Rightarrow> var_cell e m (\<lambda>c. case c of
                 Se_cell ses \<Rightarrow>
                   if n > length ses then Inl UNDEFINED
                   else asn1_encode_se_info (\<lambda>t k. encode_table malloc alg 0 t k) (take n ses)
               | _ \<Rightarrow> Inl UNDEFINED))
         else if ty = SC_ASN1_CALLBACK then (case p of Parm_callback f g \<Rightarrow> g m | _ \<Rightarrow> Inl UNDEFINED)
         else var_cell e m (read_cell malloc alg e m))
        (wrap_entry malloc e))"
| "encode_table malloc alg used [] m = Inr []"
| "encode_table malloc alg used (e # es) m =
     ebind (encode_entry malloc alg e m) (\<lambda>b.
       if b \<noteq> [] \<and> malloc (used + length b) = None then Inl SC_ERROR_OUT_OF_MEMORY
       else ebind (encode_table malloc alg (used + length b) es m) (\<lambda>bs. Inr (b @ bs)))"
  by pat_completeness auto

termination
  by (relation "measure (\<lambda>x. case x of Inl (_, _, e, _) \<Rightarrow> weight e | Inr (_, _, _, t, _) \<Rightarrow> table_weight t)")
     (simp_all del: weight.simps
       add: filter_weight nested_weight small_weight object_table_weight cons_weight)

declare encode_entry.simps [simp del] encode_table.simps [simp del]


section \<open>Encoding of algorithm identifiers\<close>

text \<open>
  The parameters' tables. The flag of an entry that is formatted with \<open>set_present = 0\<close> stays
  off, so the hash of PBKDF2 is never written and neither part of PBES2 is.
\<close>

definition pbkdf2_table :: "nat \<Rightarrow> u64 \<Rightarrow> asn1_entry list" where
  "pbkdf2_table key_length hash =
    (let t = c_asn1_pbkdf2_params;
         t = t[0 := sc_format_asn1_entry (Parm_var 0) (Some 1) True (t ! 0),
               1 := sc_format_asn1_entry (Parm_var 2) None True (t ! 1)];
         t = (if key_length > 0 then t[2 := sc_format_asn1_entry (Parm_var 3) None True (t ! 2)] else t)
     in if hash \<noteq> of_int SC_ALGORITHM_SHA1
        then t[3 := sc_format_asn1_entry (Parm_var 4) None False (t ! 3)] else t)"

definition pbes2_table :: "asn1_entry list" where
  "pbes2_table = format_all False [(Parm_var 0, None), (Parm_var 1, None)] c_asn1_pbes2_params"

definition gost_table :: "asn1_entry list" where
  "gost_table =
    (let t = c_asn1_gostr3410_params;
         t = t[0 := sc_format_asn1_entry (Parm_var 0) None True (t ! 0),
               1 := sc_format_asn1_entry (Parm_var 1) None True (t ! 1)]
     in format_all True [(Parm_table t, None)] c_asn1_gostr3410_params0)"

text \<open>
  The encoders of parameters, with the encoder of tables. The length of a DES initial vector is an
  \<open>int\<close> that is read as a \<open>size_t\<close>: no defined size. \<open>malloc\<close> is the allocation of the copy.
\<close>

definition encode_params ::
  "(nat \<Rightarrow> bytes option) \<Rightarrow> encoder \<Rightarrow> alg_codec \<Rightarrow> alg_params \<Rightarrow> bytes res" where
  "encode_params malloc rec c p =
    (case c of
       No_codec \<Rightarrow> Inr []
     | Des_codec \<Rightarrow>
        (case p of Des_iv iv \<Rightarrow>
           rec (format_all True [(Parm_var 0, Some 1)] c_asn1_des_iv) [Array_cell iv, Int_cell 8]
         | _ \<Rightarrow> Inl UNDEFINED)
     | Gost_codec \<Rightarrow>
        (case p of Gost_params key hash \<Rightarrow> rec gost_table [Oid_cell key, Oid_cell hash] | _ \<Rightarrow> Inl UNDEFINED)
     | Pbkdf2_codec \<Rightarrow>
        (case p of Pbkdf2_params salt iterations key_length hash \<Rightarrow>
           rec (pbkdf2_table key_length (alg_algorithm hash))
             [Array_cell salt, Size_cell (length salt), Int_cell iterations,
              Int_cell (sint (of_nat key_length :: u32)), Alg_cell hash]
         | _ \<Rightarrow> Inl UNDEFINED)
     | Pbes2_codec \<Rightarrow>
        (case p of Pbes2_params deriv key \<Rightarrow> rec pbes2_table [Alg_cell deriv, Alg_cell key] | _ \<Rightarrow> Inl UNDEFINED)
     | Ec_codec \<Rightarrow>
        (case p of
           Ec_params ty (Some der) \<Rightarrow>
             if ty = 1 then ebind (allocated malloc (length der)) (\<lambda>_. Inr der) else Inr []
         | Ec_params ty None \<Rightarrow> Inr []
         | _ \<Rightarrow> Inl UNDEFINED))"

definition alg_id_table :: "bool \<Rightarrow> asn1_entry list" where
  "alg_id_table null_param =
    (let t = alg_id_entries True in if null_param then t[1 := set_present (t ! 1)] else t)"

text \<open>
  No entry of these tables that is present is an algorithm identifier, so encoding one does not
  encode another; the lemma \<open>encode_params_no_nested\<close> says that any encoder may stand in its place.
\<close>

definition encode_algorithm ::
  "(sc_algorithm_id \<Rightarrow> bytes res) \<Rightarrow> (nat \<Rightarrow> bytes option) \<Rightarrow> sc_algorithm_id \<Rightarrow> bytes res" where
  "encode_algorithm alg malloc i =
    (case sc_asn1_get_algorithm_info (alg_algorithm i) (alg_oid i) of
       None \<Rightarrow> Inl SC_ERROR_INVALID_ARGUMENTS
     | Some (_, w, c) \<Rightarrow>
        let v = (if sc_valid_oid (alg_oid i) then alg_oid i else w);
            null_param = (alg_algorithm i \<noteq> of_int SC_ALGORITHM_EDDSA \<and> alg_algorithm i \<noteq> of_int SC_ALGORITHM_XEDDSA \<and>
              (alg_params i = None \<or> c = No_codec))
        in ebind (encode_table malloc alg 0 (alg_id_table null_param) [Oid_cell v]) (\<lambda>b.
           ebind (case alg_params i of
                    None \<Rightarrow> Inr []
                  | Some p \<Rightarrow> encode_params malloc (encode_table malloc alg 0) c p) (\<lambda>obj.
           if obj \<noteq> [] \<and> malloc (length b + length obj) = None then Inl SC_ERROR_OUT_OF_MEMORY
           else Inr (b @ obj))))"

lemma encode_absent: "\<not> e_flag e SC_ASN1_PRESENT \<Longrightarrow> encode_entry malloc alg e m = wrap_entry malloc e []"
  by (cases e) (simp add: encode_entry.simps)

text \<open>Two encoders of algorithm identifiers give the same result on a table without one.\<close>

definition plain_entry :: "asn1_entry \<Rightarrow> bool" where
  "plain_entry e \<longleftrightarrow> \<not> e_flag e SC_ASN1_PRESENT \<or>
     e_type e \<in> {SC_ASN1_OCTET_STRING, SC_ASN1_INTEGER, SC_ASN1_OBJECT, SC_ASN1_NULL}"

lemma encode_plain_entry:
  assumes "plain_entry e"
  shows "encode_entry malloc alg e m = encode_entry malloc alg' e m"
proof (cases "e_flag e SC_ASN1_PRESENT")
  case True
  with assms show ?thesis
    by (cases e) (auto simp: encode_entry.simps plain_entry_def read_cell_def [abs_def] Let_def cong: if_cong)
qed (simp add: encode_absent)

lemma encode_plain_table:
  "list_all plain_entry t \<Longrightarrow> encode_table malloc alg n t m = encode_table malloc alg' n t m"
proof (induction t arbitrary: n)
  case (Cons e es)
  from Cons.prems encode_plain_entry [of e malloc alg m alg'] Cons.IH show ?case
    by (simp add: encode_table.simps cong: if_cong)
qed (simp add: encode_table.simps)


lemma encode_plain_struct:
  assumes "list_all plain_entry t"
  shows "encode_entry malloc alg (Entry SC_ASN1_STRUCT tag fl (Parm_table t) ar) m =
         encode_entry malloc alg' (Entry SC_ASN1_STRUCT tag fl (Parm_table t) ar) m"
  by (simp add: encode_entry.simps encode_plain_table [OF assms, of malloc alg 0 m alg'] Let_def cong: if_cong)

lemma plain_format [simp]:
  "e_type (sc_format_asn1_entry p a s e) = e_type e" "e_type (set_present e) = e_type e"
  "e_type (blank t tag f) = t"
  by (simp_all add: sc_format_asn1_entry_def set_present_def blank_def Let_def)

lemma absent_format [simp]:
  "e_flag (sc_format_asn1_entry p a False e) f = e_flag e f" "e_flag (blank t tag fl) f \<longleftrightarrow> fl AND f \<noteq> 0"
  by (simp_all add: sc_format_asn1_entry_def e_flag_def blank_def Let_def)

lemma encode_params_no_nested:
  "encode_params malloc (encode_table malloc alg 0) c p = encode_params malloc (encode_table malloc alg' 0) c p"
proof -
  note tabs = pbkdf2_table_def pbes2_table_def format_all_def Let_def c_asn1_pbkdf2_params_def
    c_asn1_pbes2_params_def c_asn1_des_iv_def
  have "list_all plain_entry (pbkdf2_table k h)" "list_all plain_entry pbes2_table"
    "list_all plain_entry (format_all True [(Parm_var 0, Some 1)] c_asn1_des_iv)" for k h
    by (simp_all add: tabs plain_entry_def)
  note plain = this [THEN encode_plain_table [of _ malloc alg _ _ alg']]
  have gost: "encode_table malloc alg 0 gost_table m = encode_table malloc alg' 0 gost_table m" for m
  proof -
    let ?t = "c_asn1_gostr3410_params[0 := sc_format_asn1_entry (Parm_var 0) None True (c_asn1_gostr3410_params ! 0),
      1 := sc_format_asn1_entry (Parm_var 1) None True (c_asn1_gostr3410_params ! 1)]"
    have "list_all plain_entry ?t"
      by (simp add: c_asn1_gostr3410_params_def plain_entry_def)
    from encode_plain_struct [OF this, of malloc alg _ _ _ m alg']
    have e: "encode_entry malloc alg (Entry SC_ASN1_STRUCT tag fl (Parm_table ?t) ar) m =
        encode_entry malloc alg' (Entry SC_ASN1_STRUCT tag fl (Parm_table ?t) ar) m" for tag fl ar .
    obtain tag fl ar where g: "gost_table = [Entry SC_ASN1_STRUCT tag fl (Parm_table ?t) ar]"
      by (simp add: gost_table_def Let_def format_all_def c_asn1_gostr3410_params0_def sc_format_asn1_entry_def
          set_present_def blank_def)
    show ?thesis unfolding g encode_table.simps e ..
  qed
  show ?thesis
    unfolding encode_params_def plain gost ..
qed

definition sc_asn1_encode_algorithm_id :: "(nat \<Rightarrow> bytes option) \<Rightarrow> sc_algorithm_id \<Rightarrow> bytes res" where
  "sc_asn1_encode_algorithm_id = encode_algorithm (\<lambda>_. Inl UNDEFINED)"

lemma encode_algorithm_any:
  "encode_algorithm alg malloc i = sc_asn1_encode_algorithm_id malloc i"
proof -
  have "list_all plain_entry (alg_id_table b)" for b
    by (simp add: alg_id_table_def alg_id_entries_def c_asn1_alg_id_def plain_entry_def Let_def)
  note plain = encode_plain_table [OF this, of malloc alg 0 _ _ "\<lambda>_. Inl UNDEFINED"]
  show ?thesis
    unfolding sc_asn1_encode_algorithm_id_def encode_algorithm_def plain
      encode_params_no_nested [of malloc alg _ _ "\<lambda>_. Inl UNDEFINED"] ..
qed

text \<open>The entry points of the encoder.\<close>

definition asn1_encode :: "(nat \<Rightarrow> bytes option) \<Rightarrow> encoder" where
  "asn1_encode malloc = encode_table malloc (sc_asn1_encode_algorithm_id malloc) 0"

definition sc_asn1_encode :: "(nat \<Rightarrow> bytes option) \<Rightarrow> asn1_entry list option \<Rightarrow> cell list \<Rightarrow> bytes res" where
  "sc_asn1_encode malloc t m =
    (case t of None \<Rightarrow> Inl SC_ERROR_INVALID_ARGUMENTS | Some t \<Rightarrow> asn1_encode malloc t m)"

end
