(* ===== verification/Sc_TablePath.thy ===== *)
theory Sc_TablePath
  imports Sc_TableEnc
begin

text \<open>
  Tables of elements with different tags: on the elements of some of its entries, in the order of the table,
  the decoder reads each entry's value in turn, and the encoder writes exactly such a sequence. Paths
  are written and read back by such a table.
\<close>

section \<open>A sequence of elements\<close>

text \<open>The element of a tag, and the bits of a tag that take part in its comparison.\<close>

definition tlv :: "u32 \<Rightarrow> bytes \<Rightarrow> bytes" where
  "tlv tag c = write_header tag @ len_octets (length c) @ c"

definition same_tag :: "u32 \<Rightarrow> u32 \<Rightarrow> bool" where
  "same_tag s t \<longleftrightarrow> s AND SC_ASN1_CLASS_MASK = t AND SC_ASN1_CLASS_MASK \<and>
     (s AND SC_ASN1_CONS = 0 \<longleftrightarrow> t AND SC_ASN1_CONS = 0) \<and> s AND SC_ASN1_TAG_MASK = t AND SC_ASN1_TAG_MASK"

lemma read_tlv:
  assumes tag: "elem_tag tag" and len: "length c < 2 ^ 32"
  shows "sc_asn1_read_tag (tlv tag c @ rest) =
    Tag_read (ucast (class_byte tag OR (if tag AND SC_ASN1_CONS \<noteq> 0 then 0x20 else 0))) (tag AND SC_ASN1_TAG_MASK)
      (length c) (c @ rest)"
proof -
  have h: "header_ok (write_header tag)" using tag by (simp add: elem_tag_def)
  show ?thesis
    using read_header [OF h len, of "c @ rest"]
    by (simp add: tlv_def short_chars_value [OF tag] class_of_header [OF tag])
qed

lemma skip_tlv:
  assumes tag: "elem_tag tag" and len: "length c < 2 ^ 32"
  shows "sc_asn1_skip_tag (tlv tag c @ rest) t = (if same_tag t tag then Some (c, rest) else None)"
proof (cases "tag AND SC_ASN1_CONS = 0")
  case True
  then show ?thesis
    by (cases rule: class_byteE [of tag]) (simp_all add: sc_asn1_skip_tag_def read_tlv [OF assms] Let_def same_tag_def)
next
  case False
  then show ?thesis
    by (cases rule: class_byteE [of tag]) (simp_all add: sc_asn1_skip_tag_def read_tlv [OF assms] Let_def same_tag_def)
qed

lemma skip_Nil [simp]: "sc_asn1_skip_tag [] t = None"
  by (simp add: sc_asn1_skip_tag_def sc_asn1_read_tag_def)

lemma write_tlv:
  assumes m: "malloc_ok malloc" and tag: "elem_tag tag"
  shows "asn1_write_element malloc tag (Some c) (length c) = Inr (tlv tag c)"
proof -
  have ok: "tag_chars_ok (short_chars tag)" using tag by (simp add: elem_tag_def)
  have "\<exists>e. asn1_write_element malloc tag (Some c) (length c) = Inr e"
    using m ok by (auto simp: asn1_write_element_def Let_def short_chars_def malloc_ok_def split: option.split)
      (metis option.distinct(1))+
  then show ?thesis using write_element_bytes [OF m ok] by (auto simp: tlv_def)
qed

text \<open>Rows: an entry of a table with the content of its element, if it is there.\<close>

type_synonym row = "asn1_entry \<times> bytes option"

fun stream :: "row list \<Rightarrow> bytes" where
  "stream [] = []"
| "stream ((e, None) # rs) = stream rs"
| "stream ((e, Some c) # rs) = tlv (e_tag e) c @ stream rs"

text \<open>The values are decoded in turn.\<close>

fun decode_rows ::
  "(nat \<Rightarrow> bytes option) \<Rightarrow> decoder \<Rightarrow> asn1_entry list \<Rightarrow> row list \<Rightarrow> cell list \<Rightarrow>
   (nat \<times> bytes) res \<times> asn1_entry list \<times> cell list" where
  "decode_rows malloc rec pre [] m = (Inr (0, []), pre, m)"
| "decode_rows malloc rec pre ((e, None) # rs) m = decode_rows malloc rec (pre @ [e]) rs m"
| "decode_rows malloc rec pre ((e, Some c) # rs) m =
    (case asn1_decode_entry malloc rec e c m of
       (Inl r, e', m') \<Rightarrow> (Inl r, pre @ e' # map fst rs, m')
     | (Inr _, e', m') \<Rightarrow> decode_rows malloc rec (pre @ [e']) rs m')"

definition row_ok :: "row \<Rightarrow> bool" where
  "row_ok r \<longleftrightarrow> elem_tag (e_tag (fst r)) \<and> e_type (fst r) \<noteq> SC_ASN1_CHOICE \<and>
     (case snd r of None \<Rightarrow> e_flag (fst r) SC_ASN1_OPTIONAL | Some c \<Rightarrow> length c < 2 ^ 32)"

definition rows_ok :: "row list \<Rightarrow> bool" where
  "rows_ok rs \<longleftrightarrow> (\<forall>r \<in> set rs. row_ok r) \<and> sorted_wrt (\<lambda>r s. \<not> same_tag (e_tag (fst r)) (e_tag (fst s))) rs"

lemma same_tag_refl [simp]: "same_tag t t"
  by (simp add: same_tag_def)

text \<open>An entry that is not there does not match what follows.\<close>

lemma skip_stream:
  assumes "\<forall>r \<in> set rs. row_ok r" and "\<forall>r \<in> set rs. \<not> same_tag t (e_tag (fst r))"
  shows "sc_asn1_skip_tag (stream rs) t = None"
  using assms by (induction rs rule: stream.induct) (auto simp: row_ok_def skip_tlv)

lemma decode_loop_rows:
  assumes "rows_ok rs"
  shows "decode_loop malloc rec False pre (map fst rs) (stream rs) m = decode_rows malloc rec pre rs m"
  using assms
proof (induction rs arbitrary: pre m rule: stream.induct)
  case (2 e rs)
  then have "sc_asn1_skip_tag (stream rs) (e_tag e) = None"
    by (intro skip_stream) (auto simp: rows_ok_def)
  moreover have "e_type e \<noteq> SC_ASN1_CHOICE" "e_flag e SC_ASN1_OPTIONAL"
    using 2 by (auto simp: rows_ok_def row_ok_def)
  ultimately show ?case using 2 by (simp add: rows_ok_def)
next
  case (3 e c rs)
  then have "sc_asn1_skip_tag (stream ((e, Some c) # rs)) (e_tag e) = Some (c, stream rs)" "e_type e \<noteq> SC_ASN1_CHOICE"
    by (auto simp: rows_ok_def row_ok_def skip_tlv)
  with 3 show ?case
    by (auto simp: rows_ok_def split: prod.split sum.split)
qed simp

lemma decode_rows_end: "decode_rows malloc rec pre rs m = (Inr x, t, k) \<Longrightarrow> x = (0, [])"
  by (induction rs arbitrary: pre m rule: stream.induct) (auto split: prod.splits sum.splits)

lemma tlv_first:
  assumes "elem_tag tag"
  shows "2 \<le> length (tlv tag c)" "(tlv tag c @ rest) ! 0 \<noteq> 0" "(tlv tag c @ rest) ! 0 \<noteq> 0xFF"
proof -
  have "header_ok (write_header tag)" using assms by (simp add: elem_tag_def)
  moreover have "b \<noteq> 0" if "b AND 0x1F = (0x1F :: u8)" for b using that by auto
  ultimately obtain b h where h: "write_header tag = b # h" "b \<noteq> 0xFF" "b \<noteq> 0"
    by (cases rule: header_okE) auto
  show "2 \<le> length (tlv tag c)" "(tlv tag c @ rest) ! 0 \<noteq> 0" "(tlv tag c @ rest) ! 0 \<noteq> 0xFF"
    using h by (simp_all add: tlv_def)
qed

lemma stream_first:
  assumes "\<forall>r \<in> set rs. row_ok r" and "stream rs \<noteq> []"
  shows "2 \<le> length (stream rs) \<and> stream rs ! 0 \<noteq> 0 \<and> stream rs ! 0 \<noteq> 0xFF"
  using assms
proof (induction rs rule: stream.induct)
  case (3 e c rs)
  then have "elem_tag (e_tag e)" by (simp add: row_ok_def)
  from tlv_first [OF this, of c] tlv_first(1) [OF this, of c] show ?case by simp
qed simp_all

lemma stream_Nil:
  assumes "\<forall>r \<in> set rs. row_ok r" and "stream rs = []"
  shows "dropWhile (\<lambda>e. e_flag e SC_ASN1_OPTIONAL) (map fst rs) = [] \<and>
    decode_rows malloc rec pre rs m = (Inr (0, []), pre @ map fst rs, m)"
  using assms
proof (induction rs arbitrary: pre rule: stream.induct)
  case (3 e c rs)
  then have "elem_tag (e_tag e)" by (simp add: row_ok_def)
  from tlv_first(1) [OF this, of c] 3(3) have False by auto
  then show ?case ..
qed (auto simp: row_ok_def)

text \<open>The decoder on the elements of a table is the decoding of the rows in turn, and takes all of them.\<close>

lemma decode_stream:
  assumes "rows_ok rs"
  shows "asn1_decode malloc False (map fst rs) (stream rs) m =
    (case decode_rows malloc (asn1_decode malloc) [] rs m of
       (Inl r, t, m') \<Rightarrow> (Inl r, t, m')
     | (Inr _, t, m') \<Rightarrow> (Inr (0, length (stream rs)), t, m'))"
proof (cases "stream rs = []")
  case True
  have "\<forall>r \<in> set rs. row_ok r" using assms by (simp add: rows_ok_def)
  from stream_Nil [OF this True, of malloc "asn1_decode malloc" "[]"] True show ?thesis
    by (subst asn1_decode.simps) simp
next
  case False
  have ok: "\<forall>r \<in> set rs. row_ok r" using assms by (simp add: rows_ok_def)
  note first = stream_first [OF ok False]
  obtain r t k where run: "decode_rows malloc (asn1_decode malloc) [] rs m = (r, t, k)" by (metis prod.exhaust)
  have "(\<lambda>c t o1 k. asn1_decode malloc c t o1 k) = asn1_decode malloc" by (intro ext) simp
  then show ?thesis
    using first run decode_rows_end [of malloc "asn1_decode malloc" "[]" rs m]
    by (subst asn1_decode.simps) (auto simp: decode_loop_rows [OF assms] split: sum.split)
qed

lemma encode_rows:
  assumes "malloc_ok malloc"
    and "\<forall>(e, c) \<in> set rs. encode_entry malloc alg e m = Inr (case c of None \<Rightarrow> [] | Some c \<Rightarrow> tlv (e_tag e) c)"
  shows "encode_table malloc alg n (map fst rs) m = Inr (stream rs)"
  using assms(2)
proof (induction rs arbitrary: n rule: stream.induct)
  case (3 e c rs)
  obtain b where "malloc (n + length (tlv (e_tag e) c)) = Some b"
    using assms(1) by (auto simp: malloc_ok_def)
  with 3 show ?case by (simp add: encode_table.simps)
qed (simp_all add: encode_table.simps)

section \<open>Paths\<close>

definition path_at :: "cell list \<Rightarrow> nat \<Rightarrow> sc_path" where
  "path_at m a = (case m ! a of Path_cell p \<Rightarrow> p | _ \<Rightarrow> zero_path)"

lemma path_tags: "elem_tag 4" "elem_tag 2" "elem_tag SC_ASN1_CTX" "elem_tag (SC_ASN1_CTX OR 1 OR SC_ASN1_CONS)"
  by code_simp+

lemma path_rows_ok:
  assumes "length v < 2 ^ 32" and "\<forall>c. i = Some c \<longrightarrow> length c < 2 ^ 32" and "\<forall>c. n = Some c \<longrightarrow> length c < 2 ^ 32"
  shows "rows_ok (zip path_entries [Some v, i, n, None])"
  using assms path_tags
  by (auto simp: rows_ok_def row_ok_def path_entries_def Let_def format_all_def c_asn1_path_def blank_def
      sc_format_asn1_entry_def same_tag_def e_flag_def split: option.split)

lemma stream_tags:
  "map e_tag es = map e_tag es' \<Longrightarrow> stream (zip es cs) = stream (zip es' cs)"
proof (induction es arbitrary: es' cs)
  case (Cons e es)
  then obtain e' fs where "es' = e' # fs" "e_tag e' = e_tag e" "map e_tag es = map e_tag fs"
    by (cases es') auto
  with Cons.IH show ?case by (cases cs; cases "hd cs") auto
qed simp

lemma encode_octets_entry:
  assumes "malloc_ok malloc" and "elem_tag tag" and "fl AND SC_ASN1_PRESENT \<noteq> 0" and "fl AND SC_ASN1_UNSIGNED = 0" and "b \<noteq> []"
    and "a < length m" "m ! a = Array_cell b" "l < length m" "m ! l = Size_cell (length b)"
  shows "encode_entry malloc alg (Entry SC_ASN1_OCTET_STRING tag fl (Parm_var a) (Some l)) m = Inr (tlv tag b)"
proof -
  obtain x where "malloc (Suc (length b)) = Some x" using assms(1) by (auto simp: malloc_ok_def)
  with assms write_tlv [OF assms(1,2), of b] show ?thesis
    by (simp add: encode_entry.simps e_flag_def var_cell_def read_cell_def read_octets_def arg_size_def allocated_def wrap_entry_def)
qed

lemma encode_int_entry:
  assumes "malloc_ok malloc" and "elem_tag tag" and "fl AND SC_ASN1_PRESENT \<noteq> 0"
    and "a < length m" "m ! a = Int_cell x" "asn1_encode_integer malloc x = Inr b" "b \<noteq> []"
  shows "encode_entry malloc alg (Entry SC_ASN1_INTEGER tag fl (Parm_var a) ar) m = Inr (tlv tag b)"
  using assms write_tlv [OF assms(1,2), of b]
  by (simp add: encode_entry.simps e_flag_def var_cell_def read_cell_def wrap_entry_def)

lemma encode_missing_entry:
  "fl AND SC_ASN1_PRESENT = 0 \<Longrightarrow> fl AND SC_ASN1_OPTIONAL \<noteq> 0 \<Longrightarrow>
   encode_entry malloc alg (Entry ty tag fl p ar) m = Inr []"
  by (simp add: encode_entry.simps e_flag_def wrap_entry_def)

lemma encode_path_stream:
  assumes m: "malloc_ok malloc" and v: "p_value p \<noteq> []"
    and i: "p_count p > 0 \<Longrightarrow> asn1_encode_integer malloc (p_index p) = Inr ib" "ib \<noteq> []"
    and n: "p_count p > 0 \<Longrightarrow> asn1_encode_integer malloc (p_count p) = Inr nb" "nb \<noteq> []"
    and c: "ci = (if p_count p > 0 then Some ib else None)" "cn = (if p_count p > 0 then Some nb else None)"
  shows "asn1_encode_path (asn1_encode malloc) p 0 = Inr (stream (zip path_entries [Some (p_value p), ci, cn, None]))"
proof -
  let ?rs = "zip (path_table p 0) [Some (p_value p), ci, cn, None]"
  let ?m = "[Array_cell (p_value p), Size_cell (length (p_value p)), Int_cell (p_index p), Int_cell (p_count p)]"
  have len: "length (path_table p 0) = 4"
    by (simp add: path_table_def Let_def c_asn1_path_def)
  have tags: "map e_tag (path_table p 0) = map e_tag path_entries"
    by (simp add: path_table_def path_entries_def Let_def c_asn1_path_def blank_def add_flags_def format_all_def
        sc_format_asn1_entry_def set_present_def)
  have "encode_table malloc alg 0 (map fst ?rs) ?m = Inr (stream ?rs)" for alg
    by (rule encode_rows [OF m])
       (use v i n c path_tags in \<open>auto simp: path_table_def Let_def c_asn1_path_def blank_def add_flags_def
          sc_format_asn1_entry_def set_present_def encode_missing_entry
          intro!: encode_octets_entry [OF m] encode_int_entry [OF m] split: if_splits\<close>)
  moreover have "map fst ?rs = path_table p 0" using len by simp
  ultimately show ?thesis
    using stream_tags [OF tags] by (simp add: asn1_encode_path_def asn1_encode_def)
qed

lemma decode_present_octets:
  assumes "a < length m" "m ! a = Array_cell b" "l < length m" "m ! l = Size_cell n"
    and "length c \<le> n" "length c \<le> length b" "fl AND SC_ASN1_ALLOC = 0" "fl AND SC_ASN1_UNSIGNED = 0"
  shows "asn1_decode_entry malloc rec (Entry SC_ASN1_OCTET_STRING tag fl (Parm_var a) (Some l)) c m =
    (Inr (), Entry SC_ASN1_OCTET_STRING tag (fl OR SC_ASN1_PRESENT) (Parm_var a) (Some l),
     m[a := Array_cell (memcpy_at b 0 c), l := Size_cell (length c)])"
  using assms
  by (simp add: asn1_decode_entry_def decode_value_def keep_parm_def deref_def write_octets_def sized_def e_flag_def
      set_parm_def set_present_def)

lemma decode_present_int:
  assumes "a < length m" "m ! a = Int_cell y" and "sc_asn1_decode_integer c False = Inr x"
  shows "asn1_decode_entry malloc rec (Entry SC_ASN1_INTEGER tag fl (Parm_var a) ar) c m =
    (Inr (), Entry SC_ASN1_INTEGER tag (fl OR SC_ASN1_PRESENT) (Parm_var a) ar, m[a := Int_cell x])"
  using assms
  by (simp add: asn1_decode_entry_def decode_value_def keep_parm_def deref_def write_cell_def set_parm_def set_present_def)

lemma short_tlv:
  assumes "elem_tag tag" and "length c < 128"
  shows "length (tlv tag c) \<le> 4 + length c"
proof -
  have "header_ok (write_header tag)" using assms by (simp add: elem_tag_def)
  then have "length (write_header tag) \<le> 3" by (cases rule: header_okE) auto
  then show ?thesis using assms(2) by (simp add: tlv_def len_size_def)
qed

lemma path_read_back:
  assumes m: "malloc_ok malloc" and v: "p_value p \<noteq> []" "length (p_value p) \<le> SC_MAX_PATH_SIZE"
    and i: "- (2 ^ 31) \<le> p_index p" "p_index p < 2 ^ 31" and n: "p_count p < 2 ^ 31"
  shows "\<exists>bs. asn1_encode_path (asn1_encode malloc) p 0 = Inr bs \<and> length bs < 64 \<and>
    asn1_decode_path (asn1_decode malloc) bs =
      (Inr (), p\<lparr>p_index := if p_count p > 0 then p_index p else 0, p_count := if p_count p > 0 then p_count p else - 1,
                  p_type := path_type (p_value p) [], p_aid := []\<rparr>)"
proof -
  obtain ib where ib: "asn1_encode_integer malloc (p_index p) = Inr ib" "sc_asn1_decode_integer ib False = Inr (p_index p)"
    "ib \<noteq> []" "length ib \<le> 4" using integer_roundtrip [OF m i, of False] by blast
  obtain nb where nb: "p_count p > 0 \<Longrightarrow> asn1_encode_integer malloc (p_count p) = Inr nb"
    "p_count p > 0 \<Longrightarrow> sc_asn1_decode_integer nb False = Inr (p_count p)" "nb \<noteq> []" "length nb \<le> 4"
  proof (cases "p_count p > 0")
    case True
    then show ?thesis using integer_roundtrip [OF m _ n, of False] that by auto
  next
    case False
    then show ?thesis using that [of "[0]"] by simp
  qed
  let ?ci = "if p_count p > 0 then Some ib else None" and ?cn = "if p_count p > 0 then Some nb else None"
  let ?rs = "zip path_entries [Some (p_value p), ?ci, ?cn, None]"
  have enc: "asn1_encode_path (asn1_encode malloc) p 0 = Inr (stream ?rs)"
    by (rule encode_path_stream [OF m v(1) _ ib(3) _ nb(3)]) (use ib nb in auto)
  have ok: "rows_ok ?rs"
    by (rule path_rows_ok) (use v ib nb in auto)
  have tab: "map fst ?rs = path_entries"
    by (simp add: path_entries_def Let_def format_all_def c_asn1_path_def)
  note run = decode_stream [OF ok, unfolded tab, of malloc path_vars]
  have copied: "take (length c) (memcpy_at b 0 c) = c" if "length c \<le> length b" for b c :: bytes
    using that by (simp add: memcpy_at_0)
  have "asn1_decode_path (asn1_decode malloc) (stream ?rs) =
      (Inr (), p\<lparr>p_index := if p_count p > 0 then p_index p else 0, p_count := if p_count p > 0 then p_count p else - 1,
                  p_type := path_type (p_value p) [], p_aid := []\<rparr>)"
  proof (cases "p_count p > 0")
    case True
    then show ?thesis
      unfolding asn1_decode_path_def run
      using v ib nb
      by (cases p)
         (simp add: path_entries_def Let_def format_all_def c_asn1_path_def blank_def sc_format_asn1_entry_def
          path_vars_def decode_present_octets decode_present_int e_flag_def size_at_def array_at_def int_at_def copied)
  next
    case False
    then show ?thesis
      unfolding asn1_decode_path_def run
      using v
      by (cases p)
         (simp add: path_entries_def Let_def format_all_def c_asn1_path_def blank_def sc_format_asn1_entry_def
          path_vars_def decode_present_octets decode_present_int e_flag_def size_at_def array_at_def int_at_def copied)
  qed
  moreover have "length (stream ?rs) < 64"
    using v ib nb path_tags by (auto simp: path_entries_def Let_def format_all_def c_asn1_path_def blank_def
        sc_format_asn1_entry_def intro!: le_less_trans [OF add_mono [OF short_tlv add_mono [OF short_tlv short_tlv]]]
        le_less_trans [OF short_tlv])
  ultimately show ?thesis using enc by blast
qed

text \<open>C36: a path that is written is read back: the value always, the index and the count when the
  count is positive; without one the path read has index 0 and count -1. The application
  identifier of the path is not written; the type is that of the value read.\<close>
theorem path_roundtrip:
  assumes m: "malloc_ok malloc" and v: "p_value p \<noteq> []" "length (p_value p) \<le> SC_MAX_PATH_SIZE"
    and i: "- (2 ^ 31) \<le> p_index p" "p_index p < 2 ^ 31" and n: "p_count p < 2 ^ 31"
  shows "\<exists>bs. asn1_encode_path (asn1_encode malloc) p 0 = Inr bs \<and>
    asn1_decode_path (asn1_decode malloc) bs =
      (Inr (), p\<lparr>p_index := if p_count p > 0 then p_index p else 0, p_count := if p_count p > 0 then p_count p else - 1,
                  p_type := path_type (p_value p) [], p_aid := []\<rparr>)"
  using path_read_back [OF assms] by blast

theorem path_roundtrip_witness:
  "\<exists>bs. asn1_encode_path (asn1_encode zero_malloc) \<lparr>p_value = [0x3F, 0, 0x50, 0x15], p_index = 7, p_count = 300,
        p_type = 0, p_aid = [1]\<rparr> 0 = Inr bs \<and>
    asn1_decode_path (asn1_decode zero_malloc) bs =
      (Inr (), \<lparr>p_value = [0x3F, 0, 0x50, 0x15], p_index = 7, p_count = 300, p_type = SC_PATH_TYPE_PATH, p_aid = []\<rparr>)"
  using path_roundtrip [OF zero_malloc_ok, of "\<lparr>p_value = [0x3F, 0, 0x50, 0x15], p_index = 7, p_count = 300,
    p_type = 0, p_aid = [1]\<rparr>"]
  by (simp add: path_type_def)

section \<open>What the tables get wrong\<close>

text \<open>A plain path before the extended one leaves its length in the variable that they share: the extended
  path 3F005015 is cut to two bytes.\<close>

lemma extended_path_cut:
  "p_value (snd (asn1_decode_path (asn1_decode (\<lambda>_. None))
     [0x04, 2, 0x3F, 0, 0xA1, 0x0A, 0x4F, 0x02, 0xA0, 0, 0x04, 4, 0x3F, 0, 0x50, 0x15])) = [0x3F, 0]"
  by code_simp

text \<open>Without an application identifier the one of a security environment has 16 bytes, which the code
  does not initialise.\<close>

lemma absent_aid_not_empty:
  "asn1_decode_se_info (\<lambda>n. Some (replicate n 0)) (asn1_decode (\<lambda>_. None)) [0x30, 3, 2, 1, 1] =
   Inr [\<lparr>si_se = 1, si_owner = sc_init_oid, si_aid = replicate 16 0\<rparr>]"
  by code_simp

text \<open>The object identifier that OpenPGP uses for X25519 is not found.\<close>

lemma x25519_not_found: "sc_asn1_get_algorithm_info 0xFFFFFFFF (oid_literal [1, 3, 6, 1, 4, 1, 3029, 1, 5, 1, - 1]) = None"
  by code_simp

text \<open>No PBES2 parameters can be written.\<close>

lemma pbes2_not_written:
  "encode_params malloc (encode_table malloc alg 0) Pbes2_codec (Pbes2_params d k) = Inl SC_ERROR_INVALID_ASN1_OBJECT"
  by (simp add: encode_params_def pbes2_table_def format_all_def c_asn1_pbes2_params_def blank_def
      sc_format_asn1_entry_def encode_table.simps encode_absent e_flag_def wrap_entry_def)

end
