(* ===== verification/Sc_TokenInfo.thy ===== *)
theory Sc_TokenInfo
  imports Sc_TablePath Sc_TableType
begin

text \<open>
  The token information of a PKCS#15 card (\<open>libopensc/pkcs15.c\<close>), read and written by tables. The
  numbers that the decoder stores as an \<open>int\<close> are ints; a C string is the bytes before its zero, a null pointer
  \<open>None\<close>; the pointer to the security environments is null when their list is empty.
\<close>

section \<open>Data\<close>

abbreviation (input) SC_MAX_SUPPORTED_ALGORITHMS :: nat where "SC_MAX_SUPPORTED_ALGORITHMS \<equiv> 16"

record supported_algo =
  sa_reference :: int
  sa_mechanism :: int
  sa_parameters :: oid
  sa_operations :: u32
  sa_algo_id :: oid
  sa_algo_ref :: int

record tokeninfo =
  ti_version :: int
  ti_flags :: u32
  ti_label :: "bytes option"
  ti_serial_number :: "string option"
  ti_manufacturer_id :: "bytes option"
  ti_gtime :: "bytes option"
  ti_update_path :: sc_path
  ti_profile_oid :: oid
  ti_profile_name :: "bytes option"
  ti_preferred_language :: "bytes option"
  ti_seInfo :: "sc_pkcs15_sec_env_info list"
  ti_num_seInfo :: nat
  ti_algos :: "supported_algo list"

text \<open>Cleared memory, as a new card has it.\<close>

definition zero_algo :: supported_algo where
  "zero_algo = \<lparr>sa_reference = 0, sa_mechanism = 0, sa_parameters = replicate 16 0, sa_operations = 0,
     sa_algo_id = replicate 16 0, sa_algo_ref = 0\<rparr>"

definition zero_tokeninfo :: tokeninfo where
  "zero_tokeninfo =
    \<lparr>ti_version = 0, ti_flags = 0, ti_label = None, ti_serial_number = None, ti_manufacturer_id = None,
     ti_gtime = None, ti_update_path = zero_path, ti_profile_oid = replicate 16 0, ti_profile_name = None,
     ti_preferred_language = None, ti_seInfo = [], ti_num_seInfo = 0,
     ti_algos = replicate SC_MAX_SUPPORTED_ALGORITHMS zero_algo\<rparr>"

abbreviation (input) sizeof_tokeninfo :: nat where "sizeof_tokeninfo \<equiv> 2504"

definition sc_pkcs15_tokeninfo_new :: "(nat \<Rightarrow> bytes option) \<Rightarrow> tokeninfo option" where
  "sc_pkcs15_tokeninfo_new malloc =
    (if malloc sizeof_tokeninfo = None then None else Some (zero_tokeninfo\<lparr>ti_profile_oid := sc_init_oid\<rparr>))"

text \<open>The number of security environments is left.\<close>

definition sc_pkcs15_clear_tokeninfo :: "tokeninfo \<Rightarrow> tokeninfo" where
  "sc_pkcs15_clear_tokeninfo ti =
    ti\<lparr>ti_label := None, ti_serial_number := None, ti_manufacturer_id := None, ti_gtime := None,
       ti_preferred_language := None, ti_profile_name := None, ti_seInfo := []\<rparr>"

section \<open>Tables\<close>

definition c_asn1_twlabel :: "asn1_entry list" where
  "c_asn1_twlabel = [blank SC_ASN1_UTF8STRING 12 0]"

definition c_asn1_algorithm_info :: "asn1_entry list" where
  "c_asn1_algorithm_info =
    [blank SC_ASN1_INTEGER 2 0, blank SC_ASN1_INTEGER 2 0, blank SC_ASN1_CHOICE 0 SC_ASN1_OPTIONAL,
     blank SC_ASN1_BIT_FIELD 3 0, blank SC_ASN1_OBJECT 6 SC_ASN1_OPTIONAL, blank SC_ASN1_INTEGER 2 SC_ASN1_OPTIONAL]"

definition c_asn1_algorithm_info_parameters :: "asn1_entry list" where
  "c_asn1_algorithm_info_parameters = [blank SC_ASN1_NULL 5 0, blank SC_ASN1_OBJECT 6 0]"

definition c_asn1_supported_algorithms :: "asn1_entry list" where
  "c_asn1_supported_algorithms =
    replicate SC_MAX_SUPPORTED_ALGORITHMS (blank SC_ASN1_STRUCT SC_ASN1_TAG_SEQUENCE_CONS SC_ASN1_OPTIONAL)"

definition c_asn1_last_update :: "asn1_entry list" where
  "c_asn1_last_update =
    [blank SC_ASN1_GENERALIZEDTIME 24 SC_ASN1_OPTIONAL, blank SC_ASN1_PATH SC_ASN1_TAG_SEQUENCE_CONS SC_ASN1_OPTIONAL]"

definition c_asn1_profile_indication :: "asn1_entry list" where
  "c_asn1_profile_indication =
    [blank SC_ASN1_OBJECT 6 SC_ASN1_OPTIONAL, blank SC_ASN1_UTF8STRING 12 SC_ASN1_OPTIONAL]"

definition c_asn1_toki_attrs :: "asn1_entry list" where
  "c_asn1_toki_attrs =
    [blank SC_ASN1_INTEGER 2 0,
     blank SC_ASN1_OCTET_STRING 4 SC_ASN1_OPTIONAL,
     blank SC_ASN1_UTF8STRING 12 SC_ASN1_OPTIONAL,
     blank SC_ASN1_UTF8STRING (SC_ASN1_CTX OR 0) SC_ASN1_OPTIONAL,
     blank SC_ASN1_STRUCT ((SC_ASN1_CTX OR 0) OR SC_ASN1_CONS) SC_ASN1_OPTIONAL,
     blank SC_ASN1_BIT_FIELD 3 0,
     blank SC_ASN1_SE_INFO SC_ASN1_TAG_SEQUENCE_CONS SC_ASN1_OPTIONAL,
     blank SC_ASN1_STRUCT ((SC_ASN1_CONS OR SC_ASN1_CTX) OR 1) SC_ASN1_OPTIONAL,
     blank SC_ASN1_STRUCT ((SC_ASN1_CONS OR SC_ASN1_CTX) OR 2) SC_ASN1_OPTIONAL,
     blank SC_ASN1_UTF8STRING (SC_ASN1_CTX OR 3) SC_ASN1_OPTIONAL,
     blank SC_ASN1_UTF8STRING (SC_ASN1_CTX OR 4) SC_ASN1_OPTIONAL,
     blank SC_ASN1_STRUCT ((SC_ASN1_CONS OR SC_ASN1_CTX) OR 5) SC_ASN1_OPTIONAL,
     blank SC_ASN1_PRINTABLESTRING 19 SC_ASN1_OPTIONAL,
     blank SC_ASN1_STRUCT ((SC_ASN1_CONS OR SC_ASN1_CTX) OR 6) SC_ASN1_OPTIONAL]"

definition c_asn1_tokeninfo :: "asn1_entry list" where
  "c_asn1_tokeninfo = [blank SC_ASN1_STRUCT SC_ASN1_TAG_SEQUENCE_CONS 0]"

section \<open>Reading\<close>

text \<open>
  The variables: \<open>serial\<close>, \<open>mnfid\<close>, \<open>label\<close>, \<open>last_update\<close>, \<open>profile_indication\<close> and \<open>preferred_language\<close>,
  each with its length, the sizes of the flags and of the five parts of an algorithm; from 18 on the fields
  of the structure: version, flags, security environments, their number, path, object identifier, then
  six for each algorithm. \<open>serial\<close> and \<open>preferred_language\<close> are not initialised in C.
\<close>

definition algo_cells :: "supported_algo \<Rightarrow> cell list" where
  "algo_cells a =
    [Int_cell (sa_reference a), Int_cell (sa_mechanism a), Oid_cell (sa_parameters a), Word_cell (sa_operations a),
     Oid_cell (sa_algo_id a), Int_cell (sa_algo_ref a)]"

definition toki_vars :: "tokeninfo \<Rightarrow> cell list" where
  "toki_vars ti =
    [Array_cell (replicate 128 0), Size_cell 128,
     Array_cell (replicate SC_PKCS15_MAX_LABEL_SIZE 0), Size_cell (SC_PKCS15_MAX_LABEL_SIZE - 1),
     Array_cell (replicate SC_PKCS15_MAX_LABEL_SIZE 0), Size_cell (SC_PKCS15_MAX_LABEL_SIZE - 1),
     Array_cell (replicate 32 0), Size_cell (32 - 1),
     Array_cell (replicate SC_PKCS15_MAX_LABEL_SIZE 0), Size_cell (SC_PKCS15_MAX_LABEL_SIZE - 1),
     Size_cell 4, Array_cell (replicate 3 0), Size_cell 3,
     Size_cell 4, Size_cell 4, Size_cell 64, Size_cell 4, Size_cell 4,
     Int_cell (ti_version ti), Word_cell (ti_flags ti), Se_cell (ti_seInfo ti), Size_cell (ti_num_seInfo ti),
     Path_cell (ti_update_path ti), Oid_cell (ti_profile_oid ti)]
    @ concat (map algo_cells (ti_algos ti))"

definition algo_address :: "nat \<Rightarrow> nat" where
  "algo_address ii = 24 + 6 * ii"

definition algo_entries :: "nat \<Rightarrow> asn1_entry list" where
  "algo_entries ii =
    (let a = algo_address ii;
         t = c_asn1_algorithm_info;
         ps = format_all False [(Parm_null, None), (Parm_var (a + 2), Some 15)] c_asn1_algorithm_info_parameters
     in [sc_format_asn1_entry (Parm_var a) (Some 13) False (t ! 0),
         sc_format_asn1_entry (Parm_var (a + 1)) (Some 14) False (t ! 1),
         sc_format_asn1_entry (Parm_table ps) None False (t ! 2),
         sc_format_asn1_entry (Parm_var (a + 3)) (Some 16) False (t ! 3),
         sc_format_asn1_entry (Parm_var (a + 4)) None True (t ! 4),
         sc_format_asn1_entry (Parm_var (a + 5)) (Some 17) False (t ! 5)])"

definition toki_attr_entries :: "asn1_entry list" where
  "toki_attr_entries =
    (let twlabel = format_all False [(Parm_var 4, Some 5)] c_asn1_twlabel;
         algos = format_all False (map (\<lambda>ii. (Parm_table (algo_entries ii), None)) [0..<SC_MAX_SUPPORTED_ALGORITHMS])
                   c_asn1_supported_algorithms;
         last_update = format_all False [(Parm_var 6, Some 7), (Parm_var 22, None)] c_asn1_last_update;
         profile = format_all False [(Parm_var 23, None), (Parm_var 8, Some 9)] c_asn1_profile_indication
     in format_all False
          [(Parm_var 18, None), (Parm_var 0, Some 1), (Parm_var 2, Some 3), (Parm_var 4, Some 5),
           (Parm_table twlabel, None), (Parm_var 19, Some 10), (Parm_var 20, Some 21), (Parm_null, None),
           (Parm_table algos, None), (Parm_null, None), (Parm_null, None), (Parm_table last_update, None),
           (Parm_var 11, Some 12), (Parm_table profile, None)]
          c_asn1_toki_attrs)"

definition tokeninfo_entries :: "asn1_entry list" where
  "tokeninfo_entries = format_all False [(Parm_table toki_attr_entries, None)] c_asn1_tokeninfo"

text \<open>The fields of the structure after decoding.\<close>

definition se_at :: "cell list \<Rightarrow> nat \<Rightarrow> sc_pkcs15_sec_env_info list" where
  "se_at m a = (case m ! a of Se_cell ses \<Rightarrow> ses | _ \<Rightarrow> [])"

definition algo_at :: "cell list \<Rightarrow> nat \<Rightarrow> supported_algo" where
  "algo_at m ii =
    (let a = algo_address ii
     in \<lparr>sa_reference = int_at m a, sa_mechanism = int_at m (a + 1), sa_parameters = oid_at m (a + 2),
         sa_operations = word_at m (a + 3), sa_algo_id = oid_at m (a + 4), sa_algo_ref = int_at m (a + 5)\<rparr>)"

definition toki_fields :: "cell list \<Rightarrow> tokeninfo \<Rightarrow> tokeninfo" where
  "toki_fields m ti =
    ti\<lparr>ti_version := int_at m 18, ti_flags := word_at m 19, ti_seInfo := se_at m 20, ti_num_seInfo := size_at m 21,
       ti_update_path := path_at m 22, ti_profile_oid := oid_at m 23,
       ti_algos := map (algo_at m) [0..<SC_MAX_SUPPORTED_ALGORITHMS]\<rparr>"

definition c_string :: "bytes \<Rightarrow> bytes" where
  "c_string b = takeWhile (\<lambda>c. c \<noteq> 0) b"

definition unknown_text :: bytes where
  "unknown_text = [0x28, 0x75, 0x6E, 0x6B, 0x6E, 0x6F, 0x77, 0x6E, 0x29]"

text \<open>A value is stored in allocated memory; the pointer is null when there is none.\<close>

definition store ::
  "(nat \<Rightarrow> bytes option) \<Rightarrow> (tokeninfo \<Rightarrow> bool) \<Rightarrow> nat \<Rightarrow> ('a option \<Rightarrow> tokeninfo \<Rightarrow> tokeninfo) \<Rightarrow> 'a \<Rightarrow> (tokeninfo, unit) prog" where
  "store malloc c n set_to x ti =
    (if \<not> c ti then (Inr (), ti)
     else if malloc n = None then (Inl SC_ERROR_OUT_OF_MEMORY, set_to None ti)
     else (Inr (), set_to (Some x) ti))"

definition strdup ::
  "(nat \<Rightarrow> bytes option) \<Rightarrow> (tokeninfo \<Rightarrow> bool) \<Rightarrow> (bytes option \<Rightarrow> tokeninfo \<Rightarrow> tokeninfo) \<Rightarrow> bytes \<Rightarrow> (tokeninfo, unit) prog" where
  "strdup malloc c set_to b = store malloc c (length (c_string b) + 1) set_to (c_string b)"

text \<open>The serial number as text of two digits for each of its bytes.\<close>

definition serial_text :: "bytes \<Rightarrow> string" where
  "serial_text b = (case sc_bin_to_hex b (length b * 2 + 1) None of Inr s \<Rightarrow> s | Inl _ \<Rightarrow> [])"

text \<open>What is stored after the decoding, from the attributes' table with its marks and the memory.\<close>

definition store_strings ::
  "(nat \<Rightarrow> bytes option) \<Rightarrow> asn1_entry list \<Rightarrow> cell list \<Rightarrow> (tokeninfo, unit) prog" where
  "store_strings malloc attrs m =
    (let present = (\<lambda>i. e_flag (attrs ! i) SC_ASN1_PRESENT);
         inner = (\<lambda>i j. e_flag (nested_table (e_parm (attrs ! i)) ! j) SC_ASN1_PRESENT);
         serial = take (size_at m 1) (array_at m 0)
     in sbind (store malloc (\<lambda>_. present 1 \<and> size_at m 1 > 0) (size_at m 1 * 2 + 1)
                 (\<lambda>v ti. ti\<lparr>ti_serial_number := v\<rparr>) (serial_text serial)) (\<lambda>_.
        sbind (strdup malloc (\<lambda>ti. ti_manufacturer_id ti = None) (\<lambda>v ti. ti\<lparr>ti_manufacturer_id := v\<rparr>)
                 (if present 2 then array_at m 2 else unknown_text)) (\<lambda>_.
        sbind (strdup malloc (\<lambda>ti. ti_label ti = None) (\<lambda>v ti. ti\<lparr>ti_label := v\<rparr>)
                 (if present 3 \<or> present 4 then array_at m 4 else unknown_text)) (\<lambda>_.
        sbind (strdup malloc (\<lambda>_. present 11 \<and> inner 11 0) (\<lambda>v ti. ti\<lparr>ti_gtime := v\<rparr>) (array_at m 6)) (\<lambda>_.
        sbind (strdup malloc (\<lambda>_. present 12) (\<lambda>v ti. ti\<lparr>ti_preferred_language := v\<rparr>) ((array_at m 11)[2 := 0])) (\<lambda>_.
        sbind (\<lambda>ti. (Inr (), ti\<lparr>ti_profile_oid := sc_init_oid\<rparr>)) (\<lambda>_.
          strdup malloc (\<lambda>_. present 13 \<and> \<not> inner 13 0 \<and> inner 13 1) (\<lambda>v ti. ti\<lparr>ti_profile_name := v\<rparr>) (array_at m 8))))))))"

definition sc_pkcs15_parse_tokeninfo :: "(nat \<Rightarrow> bytes option) \<Rightarrow> bytes \<Rightarrow> (tokeninfo, unit) prog" where
  "sc_pkcs15_parse_tokeninfo malloc buf ti =
    (case sc_asn1_decode malloc tokeninfo_entries (Some buf) (toki_vars ti) of
       (Inl r, _, m) \<Rightarrow> (Inl r, sc_pkcs15_clear_tokeninfo (toki_fields m ti))
     | (Inr _, t, m) \<Rightarrow> store_strings malloc (nested_table (e_parm (t ! 0))) m (toki_fields m ti))"

section \<open>Writing\<close>

text \<open>The variables of the encoder: version, serial number, manufacturer, label, flags (with their lengths), security
  environments, their number, path, time, object identifier, name of the profile, five sizes, the algorithms.\<close>

definition text_of :: "bytes option \<Rightarrow> bytes" where
  "text_of v = (case v of None \<Rightarrow> [] | Some b \<Rightarrow> b)"

definition encode_vars :: "bytes \<Rightarrow> tokeninfo \<Rightarrow> cell list" where
  "encode_vars serial ti =
    [Int_cell (ti_version ti), Array_cell serial, Size_cell (length serial),
     Array_cell (text_of (ti_manufacturer_id ti)), Size_cell (length (text_of (ti_manufacturer_id ti))),
     Array_cell (text_of (ti_label ti)), Size_cell (length (text_of (ti_label ti))),
     Word_cell (ti_flags ti), Size_cell 4, Se_cell (ti_seInfo ti), Size_cell (ti_num_seInfo ti),
     Path_cell (ti_update_path ti), Array_cell (text_of (ti_gtime ti)), Size_cell (length (text_of (ti_gtime ti))),
     Oid_cell (ti_profile_oid ti), Array_cell (text_of (ti_profile_name ti)), Size_cell (length (text_of (ti_profile_name ti))),
     Size_cell 4, Size_cell 4, Size_cell 64, Size_cell 4, Size_cell 4]
    @ concat (map algo_cells (ti_algos ti))"

text \<open>The parameters of an algorithm that has an object identifier for them are formatted as not present.\<close>

definition algo_row :: "supported_algo \<Rightarrow> nat \<Rightarrow> asn1_entry list" where
  "algo_row al ii =
    (let a = 22 + 6 * ii;
         t = c_asn1_algorithm_info;
         ps = c_asn1_algorithm_info_parameters;
         ps = (if \<not> sc_valid_oid (sa_parameters al) then ps[0 := sc_format_asn1_entry Parm_null None True (ps ! 0)]
               else ps[1 := sc_format_asn1_entry (Parm_var (a + 2)) (Some 19) False (ps ! 1)])
     in [sc_format_asn1_entry (Parm_var a) (Some 17) True (t ! 0),
         sc_format_asn1_entry (Parm_var (a + 1)) (Some 18) True (t ! 1),
         sc_format_asn1_entry (Parm_table ps) None True (t ! 2),
         sc_format_asn1_entry (Parm_var (a + 3)) (Some 20) True (t ! 3),
         sc_format_asn1_entry (Parm_var (a + 4)) None True (t ! 4),
         sc_format_asn1_entry (Parm_var (a + 5)) (Some 21) True (t ! 5)])"

definition algos_table :: "supported_algo list \<Rightarrow> asn1_entry list" where
  "algos_table algos =
    (let n = length (takeWhile (\<lambda>a. sa_reference a \<noteq> 0) (take SC_MAX_SUPPORTED_ALGORITHMS algos))
     in map (\<lambda>ii. if ii < n
                  then sc_format_asn1_entry (Parm_table (algo_row (algos ! ii) ii)) None True (c_asn1_supported_algorithms ! ii)
                  else c_asn1_supported_algorithms ! ii) [0..<SC_MAX_SUPPORTED_ALGORITHMS])"

text \<open>A field that is there, or the entry without one.\<close>

definition field :: "bool \<Rightarrow> asn1_parm \<Rightarrow> nat option \<Rightarrow> asn1_entry \<Rightarrow> asn1_entry" where
  "field c p a e = (if c then sc_format_asn1_entry p a True e else sc_format_asn1_entry Parm_null None False e)"

text \<open>The path of the last update goes to the entry for its time.\<close>

definition update_field :: "tokeninfo \<Rightarrow> asn1_entry \<Rightarrow> asn1_entry" where
  "update_field ti =
    (let t = c_asn1_last_update in
     if p_value (ti_update_path ti) \<noteq> []
     then field True (Parm_table (t[0 := sc_format_asn1_entry (Parm_var 11) None True (t ! 0)])) None
     else field (ti_gtime ti \<noteq> None) (Parm_table (t[0 := sc_format_asn1_entry (Parm_var 12) (Some 13) True (t ! 0)])) None)"

definition profile_field :: "tokeninfo \<Rightarrow> asn1_entry \<Rightarrow> asn1_entry" where
  "profile_field ti =
    (let t = c_asn1_profile_indication in
     if sc_valid_oid (ti_profile_oid ti)
     then field True (Parm_table (t[0 := sc_format_asn1_entry (Parm_var 14) None True (t ! 0)])) None
     else field (ti_profile_name ti \<noteq> None) (Parm_table (t[1 := sc_format_asn1_entry (Parm_var 15) (Some 16) True (t ! 1)])) None)"

definition toki_table :: "tokeninfo \<Rightarrow> asn1_entry list" where
  "toki_table ti =
    (let t = c_asn1_toki_attrs in
     [field True (Parm_var 0) None (t ! 0),
      field (ti_serial_number ti \<noteq> None) (Parm_var 1) (Some 2) (t ! 1),
      field (ti_manufacturer_id ti \<noteq> None) (Parm_var 3) (Some 4) (t ! 2),
      field (ti_label ti \<noteq> None) (Parm_var 5) (Some 6) (t ! 3),
      t ! 4,
      field (ti_flags ti \<noteq> 0) (Parm_var 7) (Some 8) (t ! 5),
      field (ti_num_seInfo ti \<noteq> 0) (if ti_seInfo ti = [] then Parm_null else Parm_var 9) (Some 10) (t ! 6),
      field False Parm_null None (t ! 7),
      field (sa_reference (ti_algos ti ! 0) \<noteq> 0) (Parm_table (algos_table (ti_algos ti))) None (t ! 8),
      field False Parm_null None (t ! 9),
      field False Parm_null None (t ! 10),
      update_field ti (t ! 11),
      field False Parm_null None (t ! 12),
      profile_field ti (t ! 13)])"

definition sc_pkcs15_encode_tokeninfo :: "(nat \<Rightarrow> bytes option) \<Rightarrow> tokeninfo \<Rightarrow> bytes res" where
  "sc_pkcs15_encode_tokeninfo malloc ti =
     ebind (case ti_serial_number ti of
              None \<Rightarrow> Inr []
            | Some s \<Rightarrow>
                if length s div 2 > 128 then Inl SC_ERROR_BUFFER_TOO_SMALL
                else (case sc_hex_to_bin s 128 of (Inl _, _) \<Rightarrow> Inl SC_ERROR_INVALID_ARGUMENTS | (Inr _, b) \<Rightarrow> Inr b))
       (\<lambda>serial.
         sc_asn1_encode malloc
           (Some [sc_format_asn1_entry (Parm_table (toki_table ti)) None True (c_asn1_tokeninfo ! 0)])
           (encode_vars serial ti))"

section \<open>What is not written or not kept\<close>

text \<open>The flags are not optional, but left out when they are zero.\<close>

lemma encode_field_missing: "encode_entry malloc alg (field False p a e) m = wrap_entry malloc (sc_format_asn1_entry Parm_null None False e) []"
  if "e_flags e AND SC_ASN1_PRESENT = 0"
  using that by (simp add: field_def encode_absent e_flag_def sc_format_asn1_entry_def Let_def)

section \<open>Bounds\<close>

text \<open>The types of the decoder's variables; four of the arrays are read as C strings.\<close>

definition algo_types :: "cell_type list" where
  "algo_types = [Int_t, Int_t, Oid_t, Word_t, Oid_t, Int_t]"

definition toki_types :: "cell_type list" where
  "toki_types =
    [Array_t 128, Size_t (Some 128), Text_t 255, Size_t (Some 254), Text_t 255, Size_t (Some 254),
     Text_t 32, Size_t (Some 31), Text_t 255, Size_t (Some 254), Size_t None, Array_t 3, Size_t (Some 3),
     Size_t None, Size_t None, Size_t None, Size_t None, Size_t None,
     Int_t, Word_t, Se_t, Size_t None, Path_t, Oid_t]
    @ concat (replicate SC_MAX_SUPPORTED_ALGORITHMS algo_types)"

text \<open>The bounds that a structure keeps.\<close>

definition short :: "nat \<Rightarrow> 'a list option \<Rightarrow> bool" where
  "short n v \<longleftrightarrow> (\<forall>b. v = Some b \<longrightarrow> length b \<le> n)"

definition strings_ok :: "tokeninfo \<Rightarrow> bool" where
  "strings_ok ti \<longleftrightarrow> short 254 (ti_label ti) \<and> short 256 (ti_serial_number ti) \<and> short 254 (ti_manufacturer_id ti) \<and>
     short 31 (ti_gtime ti) \<and> short 254 (ti_profile_name ti) \<and> short 2 (ti_preferred_language ti)"

definition fields_ok :: "tokeninfo \<Rightarrow> bool" where
  "fields_ok ti \<longleftrightarrow> path_fits (ti_update_path ti) \<and> length (ti_algos ti) = SC_MAX_SUPPORTED_ALGORITHMS \<and>
     length (ti_seInfo ti) \<le> SC_MAX_SE_NUM \<and> (\<forall>se \<in> set (ti_seInfo ti). length (si_aid se) \<le> SC_MAX_AID_SIZE)"

lemma nth_repeated: "i < n \<Longrightarrow> j < length b \<Longrightarrow> concat (replicate n b) ! (length b * i + j) = b ! j"
proof (induction n arbitrary: i)
  case (Suc n)
  then show ?case by (cases i) (auto simp: nth_append algebra_simps)
qed simp

lemma length_repeated: "length (concat (replicate n b)) = n * length b"
  by (induction n) simp_all

lemma algo_type_at:
  assumes "ii < 16" and "j < 6"
  shows "at_type toki_types (algo_address ii + j) (algo_types ! j)"
proof -
  define ys where "ys = concat (replicate 16 algo_types)"
  then obtain xs where xs: "toki_types = xs @ ys" "length xs = 24"
    by (simp add: toki_types_def)
  have "length algo_types = 6" by (simp add: algo_types_def)
  then have "length ys = 96" "ys ! (6 * ii + j) = algo_types ! j"
    using assms nth_repeated [of ii 16 j algo_types] length_repeated [of 16 algo_types] by (simp_all add: ys_def)
  then show ?thesis
    unfolding at_type_def algo_address_def xs(1) using assms xs(2) by (simp add: nth_append)
qed

lemma algo_entries_ok: "ii < 16 \<Longrightarrow> table_ok toki_types (algo_entries ii)"
  using algo_type_at [of ii 0] algo_type_at [of ii 1] algo_type_at [of ii 2] algo_type_at [of ii 3]
    algo_type_at [of ii 4] algo_type_at [of ii 5]
  by (simp add: algo_types_def algo_entries_def Let_def table_ok_def format_all_def c_asn1_algorithm_info_def
      c_asn1_algorithm_info_parameters_def blank_def sc_format_asn1_entry_def var_ok_def scalar_type_def size_ok_def
      set_present_def numeral_2_eq_2 numeral_3_eq_3)
   (simp add: at_type_def toki_types_def)

lemma toki_vars_ok:
  assumes "fields_ok ti"
  shows "mem_ok toki_types (toki_vars ti)"
proof -
  have "list_all2 has_type (concat (map algo_cells as)) (concat (replicate (length as) algo_types))" for as
    by (induction as) (auto simp: algo_cells_def algo_types_def intro!: list_all2_appendI)
  from this [of "ti_algos ti"] assms show ?thesis
    by (simp add: mem_ok_def toki_vars_def toki_types_def fields_ok_def)
qed

lemma toki_type_at:
  "at_type toki_types 0 (Array_t 128)" "at_type toki_types 1 (Size_t (Some 128))" "at_type toki_types 2 (Text_t 255)"
  "at_type toki_types 3 (Size_t (Some 254))" "at_type toki_types 4 (Text_t 255)" "at_type toki_types 5 (Size_t (Some 254))"
  "at_type toki_types 6 (Text_t 32)" "at_type toki_types 7 (Size_t (Some 31))" "at_type toki_types 8 (Text_t 255)"
  "at_type toki_types 9 (Size_t (Some 254))" "at_type toki_types 10 (Size_t None)" "at_type toki_types 11 (Array_t 3)"
  "at_type toki_types 12 (Size_t (Some 3))" "at_type toki_types 18 Int_t" "at_type toki_types 19 Word_t"
  "at_type toki_types 20 Se_t" "at_type toki_types 21 (Size_t None)" "at_type toki_types 22 Path_t" "at_type toki_types 23 Oid_t"
  by (simp_all add: at_type_def toki_types_def)

lemma size_okI: "at_type G l (Size_t b) \<Longrightarrow> P b \<Longrightarrow> size_ok G (Some l) P"
  by (auto simp: size_ok_def)

lemma algo_struct_ok: "table_ok toki_types
    (format_all False (map (\<lambda>ii. (Parm_table (algo_entries ii), None)) [0..<16]) c_asn1_supported_algorithms)"
proof -
  have "table_ok toki_types (format_all False (map (\<lambda>ii. (Parm_table (algo_entries ii), None)) xs)
      (replicate n (blank SC_ASN1_STRUCT SC_ASN1_TAG_SEQUENCE_CONS SC_ASN1_OPTIONAL)))"
    if "\<forall>ii \<in> set xs. ii < 16" for xs n
    using that
  proof (induction n arbitrary: xs)
    case (Suc n)
    show ?case
    proof (cases xs)
      case (Cons x ys)
      with Suc.prems have "table_ok toki_types (algo_entries x)" by (simp add: algo_entries_ok)
      with Suc.IH [of ys] Suc.prems Cons show ?thesis
        by (simp add: table_ok_def format_all_def) (simp add: blank_def sc_format_asn1_entry_def)
    qed (simp add: format_all_def table_ok_def)
  qed (simp add: format_all_def table_ok_def)
  from this [of "[0..<16]" 16] show ?thesis unfolding c_asn1_supported_algorithms_def by simp
qed

lemma octets_okI:
  "\<not> allocates fl \<Longrightarrow> at_type G a (Array_t k) \<Longrightarrow> at_type G l (Size_t (Some c)) \<Longrightarrow> c \<le> k \<Longrightarrow> octets_ok G fl a (Some l)"
  "\<not> allocates fl \<Longrightarrow> at_type G a (Text_t k) \<Longrightarrow> at_type G l (Size_t (Some c)) \<Longrightarrow> c < k \<Longrightarrow> octets_ok G fl a (Some l)"
  by (auto simp: octets_ok_def intro: size_okI)

lemma tokeninfo_entries_ok: "table_ok toki_types tokeninfo_entries"
proof -
  note simps = table_ok_def format_all_def blank_def sc_format_asn1_entry_def var_ok_def scalar_type_def
  have "\<not> allocates 0" "\<not> allocates 2" by (simp_all add: allocates_def)
  then have oct: "octets_ok toki_types 2 0 (Some 1)" "octets_ok toki_types 2 2 (Some 3)" "octets_ok toki_types 2 4 (Some 5)"
    "octets_ok toki_types 0 4 (Some 5)" "octets_ok toki_types 2 6 (Some 7)" "octets_ok toki_types 2 8 (Some 9)"
    "octets_ok toki_types 2 11 (Some 12)"
    using octets_okI(1) [OF _ toki_type_at(1,2)] octets_okI(2) [OF _ toki_type_at(3,4)] octets_okI(2) [OF _ toki_type_at(5,6)]
      octets_okI(2) [OF _ toki_type_at(7,8)] octets_okI(2) [OF _ toki_type_at(9,10)] octets_okI(1) [OF _ toki_type_at(12,13)]
    by simp_all
  note algo_struct_ok
  moreover have "table_ok toki_types (format_all False [(Parm_var 4, Some 5)] c_asn1_twlabel)"
    "table_ok toki_types (format_all False [(Parm_var 6, Some 7), (Parm_var 22, None)] c_asn1_last_update)"
    "table_ok toki_types (format_all False [(Parm_var 23, None), (Parm_var 8, Some 9)] c_asn1_profile_indication)"
    using toki_type_at oct by (simp_all add: simps c_asn1_twlabel_def c_asn1_last_update_def c_asn1_profile_indication_def)
  moreover have "size_ok toki_types (Some 10) (\<lambda>_. True)" "size_ok toki_types (Some 21) (\<lambda>b. b = None)"
    by (rule size_okI [OF toki_type_at(11)] size_okI [OF toki_type_at(17)], simp)+
  ultimately have "table_ok toki_types toki_attr_entries"
    unfolding toki_attr_entries_def Let_def using toki_type_at oct
    by (simp add: table_ok_def format_all_def c_asn1_toki_attrs_def blank_def sc_format_asn1_entry_def var_ok_def scalar_type_def)
  then show ?thesis
    by (simp add: tokeninfo_entries_def c_asn1_tokeninfo_def format_all_def table_ok_def blank_def sc_format_asn1_entry_def)
qed

text \<open>What the decoder leaves in the memory.\<close>

lemma fields_after:
  assumes "mem_ok toki_types m"
  shows "fields_ok (toki_fields m ti)"
  using mem_okD [OF assms toki_type_at(16)] mem_okD [OF assms toki_type_at(18)]
  by (auto simp: fields_ok_def toki_fields_def se_at_def path_at_def split: cell.split)

lemma text_after:
  assumes "mem_ok toki_types m" and "at_type toki_types a (Text_t k)"
  shows "length (c_string (array_at m a)) < k"
proof -
  obtain b where b: "m ! a = Array_cell b" "length b = k" "b \<noteq> []" "last b = 0"
    using mem_okD [OF assms] by (cases "m ! a") auto
  then obtain c where "b = c @ [0]" by (metis append_butlast_last_id)
  then have "length (takeWhile (\<lambda>c. c \<noteq> 0) b) < length b"
    by (simp add: takeWhile_append) (use length_takeWhile_le [of "\<lambda>c. c \<noteq> 0" c] in linarith)
  with b show ?thesis by (simp add: c_string_def array_at_def)
qed

lemma serial_text_hex: "serial_text b = hex_text None b" "length (hex_text None b) = 2 * length b"
proof -
  show "serial_text b = hex_text None b" by (simp add: serial_text_def sc_bin_to_hex_def)
  show "length (hex_text None b) = 2 * length b"
    by (induction "None :: char option" b rule: hex_text.induct) (simp_all add: hex_byte_def)
qed

lemma serial_text_short: "length b \<le> 128 \<Longrightarrow> length (serial_text b) \<le> 256"
  by (simp add: serial_text_hex)

text \<open>A step that stores a string that is short enough keeps the bounds.\<close>

definition keeps_bounds :: "(tokeninfo, unit) prog \<Rightarrow> bool" where
  "keeps_bounds f \<longleftrightarrow> (\<forall>ti r ti'. fields_ok ti \<and> strings_ok ti \<longrightarrow> f ti = (r, ti') \<longrightarrow>
     fields_ok ti' \<and> strings_ok ti' \<and> r \<noteq> Inl UNDEFINED)"

lemma keeps_boundsD:
  "keeps_bounds f \<Longrightarrow> fields_ok ti \<Longrightarrow> strings_ok ti \<Longrightarrow> f ti = (r, ti') \<Longrightarrow>
   fields_ok ti' \<and> strings_ok ti' \<and> r \<noteq> Inl UNDEFINED"
  unfolding keeps_bounds_def by blast

lemma keeps_bounds_sbind:
  assumes "keeps_bounds f" and "keeps_bounds g"
  shows "keeps_bounds (sbind f (\<lambda>_. g))"
  unfolding keeps_bounds_def
proof (intro allI impI)
  fix ti r ti' assume ti: "fields_ok ti \<and> strings_ok ti" and run: "sbind f (\<lambda>_. g) ti = (r, ti')"
  obtain q t1 where 1: "f ti = (q, t1)" by (metis prod.exhaust)
  with assms(1) ti have t1: "fields_ok t1 \<and> strings_ok t1 \<and> q \<noteq> Inl UNDEFINED" unfolding keeps_bounds_def by blast
  show "fields_ok ti' \<and> strings_ok ti' \<and> r \<noteq> Inl UNDEFINED"
  proof (cases q)
    case (Inl e)
    with run 1 t1 show ?thesis by (simp add: sbind_def)
  next
    case (Inr u)
    with run 1 have "g t1 = (r, ti')" by (simp add: sbind_def)
    with assms(2) t1 show ?thesis unfolding keeps_bounds_def by blast
  qed
qed

lemma fields_ok_update [simp]:
  "fields_ok (ti\<lparr>ti_serial_number := v\<rparr>) = fields_ok ti" "fields_ok (ti\<lparr>ti_label := w\<rparr>) = fields_ok ti"
  "fields_ok (ti\<lparr>ti_manufacturer_id := w\<rparr>) = fields_ok ti" "fields_ok (ti\<lparr>ti_gtime := w\<rparr>) = fields_ok ti"
  "fields_ok (ti\<lparr>ti_profile_name := w\<rparr>) = fields_ok ti" "fields_ok (ti\<lparr>ti_preferred_language := w\<rparr>) = fields_ok ti"
  "fields_ok (ti\<lparr>ti_profile_oid := o1\<rparr>) = fields_ok ti"
  by (simp_all add: fields_ok_def)

lemma strings_ok_update:
  assumes "strings_ok ti"
  shows "short 256 v \<Longrightarrow> strings_ok (ti\<lparr>ti_serial_number := v\<rparr>)" "short 254 w \<Longrightarrow> strings_ok (ti\<lparr>ti_label := w\<rparr>)"
    "short 254 w \<Longrightarrow> strings_ok (ti\<lparr>ti_manufacturer_id := w\<rparr>)" "short 31 w \<Longrightarrow> strings_ok (ti\<lparr>ti_gtime := w\<rparr>)"
    "short 254 w \<Longrightarrow> strings_ok (ti\<lparr>ti_profile_name := w\<rparr>)" "short 2 w \<Longrightarrow> strings_ok (ti\<lparr>ti_preferred_language := w\<rparr>)"
    "strings_ok (ti\<lparr>ti_profile_oid := o1\<rparr>)"
  using assms by (simp_all add: strings_ok_def)

lemma short_simps [simp]: "short n None" "short n (Some b) \<longleftrightarrow> length b \<le> n"
  by (simp_all add: short_def)

lemma keeps_bounds_store:
  assumes "\<And>ti. fields_ok ti \<Longrightarrow> strings_ok ti \<Longrightarrow> fields_ok (set_to None ti) \<and> strings_ok (set_to None ti)"
    and "\<And>ti. c ti \<Longrightarrow> fields_ok ti \<Longrightarrow> strings_ok ti \<Longrightarrow> fields_ok (set_to (Some x) ti) \<and> strings_ok (set_to (Some x) ti)"
  shows "keeps_bounds (store malloc c n set_to x)"
  using assms by (auto simp: keeps_bounds_def store_def split: if_splits)

lemma keeps_strings:
  "length x \<le> 256 \<Longrightarrow> keeps_bounds (store malloc c n (\<lambda>v ti. ti\<lparr>ti_serial_number := v\<rparr>) x)"
  "length y \<le> 254 \<Longrightarrow> keeps_bounds (store malloc c n (\<lambda>v ti. ti\<lparr>ti_manufacturer_id := v\<rparr>) y)"
  "length y \<le> 254 \<Longrightarrow> keeps_bounds (store malloc c n (\<lambda>v ti. ti\<lparr>ti_label := v\<rparr>) y)"
  "length y \<le> 31 \<Longrightarrow> keeps_bounds (store malloc c n (\<lambda>v ti. ti\<lparr>ti_gtime := v\<rparr>) y)"
  "length y \<le> 2 \<Longrightarrow> keeps_bounds (store malloc c n (\<lambda>v ti. ti\<lparr>ti_preferred_language := v\<rparr>) y)"
  "length y \<le> 254 \<Longrightarrow> keeps_bounds (store malloc c n (\<lambda>v ti. ti\<lparr>ti_profile_name := v\<rparr>) y)"
  "keeps_bounds (\<lambda>ti. (Inr (), ti\<lparr>ti_profile_oid := oid\<rparr>))"
  by (rule keeps_bounds_store; simp add: strings_ok_update)+
     (simp add: keeps_bounds_def strings_ok_update)

lemma store_strings_ok:
  assumes "mem_ok toki_types m"
  shows "keeps_bounds (store_strings malloc attrs m)"
proof -
  note t = text_after [OF assms]
  obtain b where b: "m ! 11 = Array_cell b" "length b = 3" using mem_okD [OF assms toki_type_at(12)] by (cases "m ! 11") auto
  then obtain x y z where "b = [x, y, z]" by (auto simp: numeral_3_eq_3 length_Suc_conv)
  with b have lang: "length (c_string ((array_at m 11)[2 := 0])) \<le> 2" by (simp add: array_at_def c_string_def)
  have sizes: "length (take (size_at m 1) (array_at m 0)) \<le> 128"
    using mem_okD [OF assms toki_type_at(1)] by (cases "m ! 0") (auto simp: array_at_def)
  have unknown: "length (c_string unknown_text) \<le> 254" by code_simp
  have texts: "length (c_string (array_at m 2)) \<le> 254" "length (c_string (array_at m 4)) \<le> 254"
    "length (c_string (array_at m 6)) \<le> 31" "length (c_string (array_at m 8)) \<le> 254"
    using t [OF toki_type_at(3)] t [OF toki_type_at(5)] t [OF toki_type_at(7)] t [OF toki_type_at(9)] by simp_all
  have other: "length (c_string (if p then array_at m 2 else unknown_text)) \<le> 254"
    "length (c_string (if p then array_at m 4 else unknown_text)) \<le> 254" for p
    using texts unknown by simp_all
  show ?thesis
    unfolding store_strings_def Let_def strdup_def
    by (rule keeps_bounds_sbind keeps_strings(1) [OF serial_text_short [OF sizes]] keeps_strings(2) [OF other(1)]
        keeps_strings(3) [OF other(2)] keeps_strings(4) [OF texts(3)] keeps_strings(5) [OF lang]
        keeps_strings(6) [OF texts(4)] keeps_strings(7))+
qed

text \<open>C32: whatever bytes the card returns, the token information is read without an undefined access, and every part of it keeps
  its bound: the path, the list of algorithms and the security environments those of their arrays, each string that of the
  array it is copied from, so that no string is read past its array.\<close>
theorem parse_tokeninfo_bounds:
  assumes "fields_ok ti" and "strings_ok ti" and "sc_pkcs15_parse_tokeninfo malloc buf ti = (r, ti')"
  shows "fields_ok ti' \<and> strings_ok ti' \<and> r \<noteq> Inl UNDEFINED"
proof -
  obtain q t m where run: "asn1_decode malloc False tokeninfo_entries buf (toki_vars ti) = (q, t, m)" by (metis prod.exhaust)
  note ok = decode_types [OF toki_vars_ok [OF assms(1)] tokeninfo_entries_ok run]
  have f: "fields_ok (toki_fields m ti)" "strings_ok (toki_fields m ti)"
    using fields_after [of m ti] ok(1) assms(2) by (simp_all add: toki_fields_def strings_ok_def)
  then have cleared: "fields_ok (sc_pkcs15_clear_tokeninfo (toki_fields m ti))" "strings_ok (sc_pkcs15_clear_tokeninfo (toki_fields m ti))"
    by (simp_all add: sc_pkcs15_clear_tokeninfo_def fields_ok_def strings_ok_def short_def)
  have kb: "keeps_bounds (store_strings malloc (nested_table (e_parm (t ! 0))) m)"
    by (rule store_strings_ok) (use ok in blast)
  have res: "(case q of Inl e \<Rightarrow> (Inl e, sc_pkcs15_clear_tokeninfo (toki_fields m ti))
      | Inr _ \<Rightarrow> store_strings malloc (nested_table (e_parm (t ! 0))) m (toki_fields m ti)) = (r, ti')"
    using assms(3) run by (cases q) (simp_all add: sc_pkcs15_parse_tokeninfo_def sc_asn1_decode_def decode_from_def)
  show ?thesis
  proof (cases q)
    case (Inl e)
    with res have "r = Inl e" "ti' = sc_pkcs15_clear_tokeninfo (toki_fields m ti)" by simp_all
    with cleared ok(1) Inl show ?thesis by simp
  next
    case (Inr x)
    with res have "store_strings malloc (nested_table (e_parm (t ! 0))) m (toki_fields m ti) = (r, ti')" by simp
    with keeps_boundsD [OF kb f] show ?thesis by blast
  qed
qed

theorem parse_tokeninfo_bounds_witness:
  "\<exists>r ti. sc_pkcs15_parse_tokeninfo (\<lambda>n. Some []) [0x30, 0x81] zero_tokeninfo = (r, ti) \<and>
    fields_ok ti \<and> strings_ok ti \<and> r \<noteq> Inl UNDEFINED"
proof -
  have "fields_ok zero_tokeninfo" "strings_ok zero_tokeninfo"
    by (simp_all add: zero_tokeninfo_def fields_ok_def strings_ok_def short_def path_fits_def zero_path_def)
  moreover obtain r ti where "sc_pkcs15_parse_tokeninfo (\<lambda>n. Some []) [0x30, 0x81] zero_tokeninfo = (r, ti)"
    by (metis prod.exhaust)
  ultimately show ?thesis using parse_tokeninfo_bounds by blast
qed

section \<open>What is not read or not written\<close>

text \<open>The object identifier of the profile is read and then overwritten.\<close>

lemma store_name_oid:
  "store malloc c n (\<lambda>v ti. ti\<lparr>ti_profile_name := v\<rparr>) x t = (r, t') \<Longrightarrow> ti_profile_oid t' = ti_profile_oid t"
  by (auto simp: store_def split: if_splits)

lemma profile_oid_lost:
  assumes "sc_pkcs15_parse_tokeninfo malloc buf ti = (Inr (), ti')"
  shows "ti_profile_oid ti' = sc_init_oid"
proof -
  obtain attrs m where "store_strings malloc attrs m (toki_fields m ti) = (Inr (), ti')"
    using assms by (auto simp: sc_pkcs15_parse_tokeninfo_def split: prod.splits sum.splits)
  then show ?thesis
    unfolding store_strings_def Let_def strdup_def
    by (elim sbind_InrE) (drule store_name_oid, auto)
qed

text \<open>A table with an entry that cannot be written is not written.\<close>

lemma encode_table_all:
  "encode_table malloc alg n t m = Inr b \<Longrightarrow> e \<in> set t \<Longrightarrow> \<exists>c. encode_entry malloc alg e m = Inr c"
proof (induction t arbitrary: n b)
  case (Cons x xs)
  then show ?case
    by (auto simp: encode_table.simps ebind_Inr_iff split: if_splits)
qed simp

lemma encode_struct_all:
  assumes "encode_entry malloc alg (Entry SC_ASN1_STRUCT tag fl (Parm_table t) ar) m = Inr b"
    and "fl AND SC_ASN1_PRESENT \<noteq> 0" and "e \<in> set t"
  shows "\<exists>c. encode_entry malloc alg e m = Inr c"
  using assms encode_table_all [of malloc alg 0 t m _ e]
  by (auto simp: encode_entry.simps e_flag_def Let_def ebind_Inr_iff)

lemma encoded_attr:
  assumes "sc_pkcs15_encode_tokeninfo malloc ti = Inr bs" and "e \<in> set (toki_table ti)"
  shows "\<exists>alg m c. encode_entry malloc alg e m = Inr c"
proof -
  let ?e = "sc_format_asn1_entry (Parm_table (toki_table ti)) None True (c_asn1_tokeninfo ! 0)"
  obtain alg m where "encode_table malloc alg 0 [?e] m = Inr bs"
    using assms(1) by (auto simp: sc_pkcs15_encode_tokeninfo_def ebind_Inr_iff sc_asn1_encode_def asn1_encode_def)
  then obtain c where "encode_entry malloc alg ?e m = Inr c"
    using encode_table_all [of malloc alg 0 "[?e]" m bs ?e] by auto
  moreover obtain tag fl where "?e = Entry SC_ASN1_STRUCT tag fl (Parm_table (toki_table ti)) None" "fl AND SC_ASN1_PRESENT \<noteq> 0"
    by (simp add: c_asn1_tokeninfo_def blank_def sc_format_asn1_entry_def set_present_def)
  ultimately show ?thesis using encode_struct_all [OF _ _ assms(2)] by metis
qed

text \<open>Flags of zero are left out although they are not optional, and the path of the last update is taken for a
  time without a length: neither can be written.\<close>

lemma tokeninfo_not_written:
  assumes "sc_pkcs15_encode_tokeninfo malloc ti = Inr bs"
  shows "ti_flags ti \<noteq> 0" and "p_value (ti_update_path ti) = []"
proof -
  show "ti_flags ti \<noteq> 0"
  proof
    assume "ti_flags ti = 0"
    moreover have "toki_table ti ! 5 \<in> set (toki_table ti)" by (intro nth_mem) (simp add: toki_table_def Let_def)
    ultimately show False
      using encoded_attr [OF assms, of "toki_table ti ! 5"]
      by (auto simp: toki_table_def Let_def field_def c_asn1_toki_attrs_def blank_def sc_format_asn1_entry_def
          encode_entry.simps e_flag_def wrap_entry_def)
  qed
  show "p_value (ti_update_path ti) = []"
  proof (rule ccontr)
    assume path: "p_value (ti_update_path ti) \<noteq> []"
    have "toki_table ti ! 11 \<in> set (toki_table ti)" by (intro nth_mem) (simp add: toki_table_def Let_def)
    from encoded_attr [OF assms this] obtain alg m c where "encode_entry malloc alg (toki_table ti ! 11) m = Inr c" by blast
    then obtain tag fl t ar where e: "encode_entry malloc alg (Entry SC_ASN1_STRUCT tag fl (Parm_table t) ar) m = Inr c"
      "fl AND SC_ASN1_PRESENT \<noteq> 0" "Entry SC_ASN1_GENERALIZEDTIME 24 3 (Parm_var 11) None \<in> set t"
      using path by (simp add: toki_table_def Let_def update_field_def field_def c_asn1_toki_attrs_def c_asn1_last_update_def
          blank_def sc_format_asn1_entry_def set_present_def)
    from encode_struct_all [OF e] show False
      by (auto simp: encode_entry.simps e_flag_def Let_def var_cell_def read_cell_def arg_size_def split: if_splits)
  qed
qed

text \<open>The object identifier that an algorithm has for its parameters is not written.\<close>

lemma algo_parameters_not_written:
  assumes "sc_valid_oid (sa_parameters al)"
  shows "encode_entry malloc alg (algo_row al ii ! 2) m = Inl SC_ERROR_INVALID_ASN1_OBJECT"
  using assms
  by (simp add: algo_row_def Let_def c_asn1_algorithm_info_def c_asn1_algorithm_info_parameters_def blank_def
      sc_format_asn1_entry_def set_present_def encode_entry.simps e_flag_def wrap_entry_def)

section \<open>Read back\<close>

lemma memcpy_text:
  assumes "length c + 1 \<le> n" and "n \<le> length b"
  shows "memcpy_at (take n b) 0 (c @ [0]) @ drop n b = c @ 0 # drop (length c + 1) b"
proof -
  have "drop (length c + 1) (take n b) @ drop n b = drop (length c + 1) b"
    using assms by (metis append_take_drop_id diff_is_0_eq drop_0 drop_append le_trans length_take min.absorb2)
  then show ?thesis by (simp add: memcpy_at_0)
qed

lemma decode_present_text:
  assumes "a < length m" "m ! a = Array_cell b" "l < length m" "m ! l = Size_cell n"
    and "length c + 1 \<le> n" "n \<le> length b" "fl AND SC_ASN1_ALLOC = 0"
  shows "asn1_decode_entry malloc rec (Entry SC_ASN1_UTF8STRING tag fl (Parm_var a) (Some l)) c m =
    (Inr (), Entry SC_ASN1_UTF8STRING tag (fl OR SC_ASN1_PRESENT) (Parm_var a) (Some l),
     m[a := Array_cell (c @ 0 # drop (length c + 1) b), l := Size_cell (length c + 1)])"
proof -
  have "sc_asn1_decode_utf8string c (take n b) = (Inr (length c + 1), memcpy_at (take n b) 0 (c @ [0]))"
    using assms by (simp add: sc_asn1_decode_utf8string_def)
  with assms memcpy_text [OF assms(5,6)] show ?thesis
    by (simp add: asn1_decode_entry_def decode_value_def keep_parm_def deref_def write_text_def sized_def e_flag_def
        set_parm_def set_present_def)
qed

lemma decode_present_field:
  assumes "a < length m" "m ! a = Word_cell v" "l < length m" "m ! l = Size_cell 4" and "decode_bit_field c 4 False = Inr w"
  shows "asn1_decode_entry malloc rec (Entry SC_ASN1_BIT_FIELD tag fl (Parm_var a) (Some l)) c m =
    (Inr (), Entry SC_ASN1_BIT_FIELD tag (fl OR SC_ASN1_PRESENT) (Parm_var a) (Some l), m[a := Word_cell w])"
  using assms
  by (simp add: asn1_decode_entry_def decode_value_def keep_parm_def deref_def write_field_def sized_def
      set_parm_def set_present_def)

lemma decode_present_struct:
  assumes "rec False t c m = (Inr x, t', m')"
  shows "asn1_decode_entry malloc rec (Entry SC_ASN1_STRUCT tag fl (Parm_table t) ar) c m =
    (Inr (), Entry SC_ASN1_STRUCT tag (fl OR SC_ASN1_PRESENT) (Parm_table t') ar, m')"
  using assms by (simp add: asn1_decode_entry_def decode_value_def set_parm_def set_present_def)

lemma encode_text_entry:
  assumes "malloc_ok malloc" and "elem_tag tag" and "fl AND SC_ASN1_PRESENT \<noteq> 0" and "fl AND SC_ASN1_UNSIGNED = 0" and "b \<noteq> []"
    and "a < length m" "m ! a = Array_cell b" "l < length m" "m ! l = Size_cell (length b)"
  shows "encode_entry malloc alg (Entry SC_ASN1_UTF8STRING tag fl (Parm_var a) (Some l)) m = Inr (tlv tag b)"
proof -
  obtain x where "malloc (Suc (length b)) = Some x" using assms(1) by (auto simp: malloc_ok_def)
  with assms write_tlv [OF assms(1,2), of b] show ?thesis
    by (simp add: encode_entry.simps e_flag_def var_cell_def read_cell_def read_octets_def arg_size_def allocated_def wrap_entry_def)
qed

lemma encode_field_entry:
  assumes "malloc_ok malloc" and "elem_tag tag" and "fl AND SC_ASN1_PRESENT \<noteq> 0"
    and "a < length m" "m ! a = Word_cell w" "l < length m" "m ! l = Size_cell 4"
    and "encode_bit_field malloc w = Inr b" "b \<noteq> []"
  shows "encode_entry malloc alg (Entry SC_ASN1_BIT_FIELD tag fl (Parm_var a) (Some l)) m = Inr (tlv tag b)"
  using assms write_tlv [OF assms(1,2), of b]
  by (simp add: encode_entry.simps e_flag_def var_cell_def read_cell_def arg_size_def wrap_entry_def)

lemma encode_struct_entry:
  assumes "malloc_ok malloc" and "elem_tag tag" and "fl AND SC_ASN1_PRESENT \<noteq> 0"
    and "encode_table malloc alg 0 t m = Inr b" "b \<noteq> []"
  shows "encode_entry malloc alg (Entry SC_ASN1_STRUCT tag fl (Parm_table t) ar) m = Inr (tlv tag b)"
  using assms write_tlv [OF assms(1,2), of b]
  by (simp add: encode_entry.simps e_flag_def wrap_entry_def)

lemma tlv_255:
  assumes "elem_tag tag" and "length c \<le> 255"
  shows "length (tlv tag c) \<le> 5 + length c"
proof -
  have "header_ok (write_header tag)" using assms by (simp add: elem_tag_def)
  then have "length (write_header tag) \<le> 3" by (cases rule: header_okE) auto
  moreover have "drop_bit 8 (length c) = 0" using assms(2) by (simp add: drop_bit_eq_div)
  then have "len_size (length c) \<le> 1" by (simp add: len_size_def length_bytes.simps)
  ultimately show ?thesis by (simp add: tlv_def)
qed

text \<open>The token information that the plain fields describe: a version, a serial number, manufacturer, label and flags.\<close>

definition plain_tokeninfo :: "int \<Rightarrow> bytes \<Rightarrow> bytes \<Rightarrow> bytes \<Rightarrow> u32 \<Rightarrow> tokeninfo" where
  "plain_tokeninfo version serial mnf label flags =
    zero_tokeninfo\<lparr>ti_version := version, ti_serial_number := Some (serial_text serial), ti_manufacturer_id := Some mnf,
      ti_label := Some label, ti_flags := flags, ti_profile_oid := sc_init_oid\<rparr>"

text \<open>A C string that fits in the buffers of the reader.\<close>

definition plain_text :: "bytes \<Rightarrow> bool" where
  "plain_text b \<longleftrightarrow> b \<noteq> [] \<and> 0 \<notin> set b \<and> length b \<le> 253"

definition toki_contents :: "bytes \<Rightarrow> bytes \<Rightarrow> bytes \<Rightarrow> bytes \<Rightarrow> bytes \<Rightarrow> bytes option list" where
  "toki_contents vb serial mnf label fb =
    [Some vb, Some serial, Some mnf, Some label, None, Some fb, None, None, None, None, None, None, None, None]"

lemma toki_tags:
  "elem_tag 2" "elem_tag 3" "elem_tag 4" "elem_tag 12" "elem_tag 19" "elem_tag SC_ASN1_TAG_SEQUENCE_CONS"
  "elem_tag (SC_ASN1_CTX OR 0)" "elem_tag ((SC_ASN1_CTX OR 0) OR SC_ASN1_CONS)" "elem_tag (SC_ASN1_CTX OR 3)"
  "elem_tag (SC_ASN1_CTX OR 4)" "elem_tag ((SC_ASN1_CONS OR SC_ASN1_CTX) OR 1)" "elem_tag ((SC_ASN1_CONS OR SC_ASN1_CTX) OR 2)"
  "elem_tag ((SC_ASN1_CONS OR SC_ASN1_CTX) OR 5)" "elem_tag ((SC_ASN1_CONS OR SC_ASN1_CTX) OR 6)"
  by code_simp+

lemma toki_tags_eq:
  "map e_tag (toki_table ti) = map e_tag c_asn1_toki_attrs" "map e_tag toki_attr_entries = map e_tag c_asn1_toki_attrs"
  by (simp_all add: toki_table_def toki_attr_entries_def field_def update_field_def profile_field_def Let_def format_all_def
      c_asn1_toki_attrs_def blank_def sc_format_asn1_entry_def set_present_def)

lemma toki_rows_ok:
  assumes "\<forall>c \<in> {vb, serial, mnf, label, fb}. length c \<le> 255"
  shows "rows_ok (zip toki_attr_entries (toki_contents vb serial mnf label fb))"
proof -
  have small: "length c < 2 ^ 32" if "c \<in> {vb, serial, mnf, label, fb}" for c
    using assms that by (intro le_less_trans [of "length c" 255]) auto
  have "\<forall>r \<in> set (zip toki_attr_entries (toki_contents vb serial mnf label fb)). row_ok r"
    using small toki_tags
    by (simp add: row_ok_def toki_attr_entries_def toki_contents_def Let_def format_all_def c_asn1_toki_attrs_def blank_def
        sc_format_asn1_entry_def e_flag_def)
  moreover have "sorted_wrt (\<lambda>r s. \<not> same_tag (e_tag (fst r)) (e_tag (fst s)))
      (zip toki_attr_entries (toki_contents vb serial mnf label fb))"
    by (simp add: toki_attr_entries_def toki_contents_def Let_def format_all_def c_asn1_toki_attrs_def blank_def
        sc_format_asn1_entry_def same_tag_def)
  ultimately show ?thesis unfolding rows_ok_def by blast
qed

lemma toki_stream:
  "stream (zip toki_attr_entries (toki_contents vb serial mnf label fb)) =
    tlv 2 vb @ tlv 4 serial @ tlv 12 mnf @ tlv (SC_ASN1_CTX OR 0) label @ tlv 3 fb"
  by (simp add: toki_attr_entries_def toki_contents_def Let_def format_all_def c_asn1_toki_attrs_def blank_def
      sc_format_asn1_entry_def)

lemma toki_stream_pos: "stream (zip toki_attr_entries (toki_contents vb serial mnf label fb)) \<noteq> []"
  using tlv_first(1) [OF toki_tags(1), of vb] by (auto simp: toki_stream)

lemma toki_stream_short:
  assumes "\<forall>c \<in> {vb, serial, mnf, label, fb}. length c \<le> 255"
  shows "length (stream (zip toki_attr_entries (toki_contents vb serial mnf label fb))) \<le> 1300"
proof -
  have "length (tlv 2 vb) \<le> 260" "length (tlv 4 serial) \<le> 260" "length (tlv 12 mnf) \<le> 260"
    "length (tlv (SC_ASN1_CTX OR 0) label) \<le> 260" "length (tlv 3 fb) \<le> 260"
    using tlv_255 [OF toki_tags(1), of vb] tlv_255 [OF toki_tags(3), of serial] tlv_255 [OF toki_tags(4), of mnf]
      tlv_255 [OF toki_tags(7), of label] tlv_255 [OF toki_tags(2), of fb] assms by auto
  then show ?thesis unfolding toki_stream length_append by linarith
qed

lemma toki_encoded:
  assumes m: "malloc_ok malloc" and v: "asn1_encode_integer malloc version = Inr vb" "vb \<noteq> []"
    and f: "encode_bit_field malloc flags = Inr fb" "fb \<noteq> []" "flags \<noteq> 0"
    and serial: "serial \<noteq> []" "length serial \<le> 128" and names: "mnf \<noteq> []" "label \<noteq> []"
  shows "sc_pkcs15_encode_tokeninfo malloc (plain_tokeninfo version serial mnf label flags) =
    Inr (tlv SC_ASN1_TAG_SEQUENCE_CONS (stream (zip toki_attr_entries (toki_contents vb serial mnf label fb))))"
proof -
  let ?ti = "plain_tokeninfo version serial mnf label flags" and ?cs = "toki_contents vb serial mnf label fb"
  let ?vars = "encode_vars serial ?ti"
  note hex = serial_text_hex [of serial]
  have bin: "sc_hex_to_bin (serial_text serial) 128 = (Inr (), serial)"
    using hex_to_bin_text [of None serial 128] serial(2) by (simp add: good_sep_def hex)
  have inv: "\<not> sc_valid_oid sc_init_oid" by code_simp
  have table: "toki_table ?ti =
      [Entry SC_ASN1_INTEGER 2 1 (Parm_var 0) None, Entry SC_ASN1_OCTET_STRING 4 3 (Parm_var 1) (Some 2),
       Entry SC_ASN1_UTF8STRING 12 3 (Parm_var 3) (Some 4), Entry SC_ASN1_UTF8STRING (SC_ASN1_CTX OR 0) 3 (Parm_var 5) (Some 6),
       c_asn1_toki_attrs ! 4, Entry SC_ASN1_BIT_FIELD 3 1 (Parm_var 7) (Some 8)] @ drop 6 c_asn1_toki_attrs"
    using f(3) inv
    by (simp add: toki_table_def Let_def field_def update_field_def profile_field_def plain_tokeninfo_def zero_tokeninfo_def
        zero_algo_def zero_path_def c_asn1_toki_attrs_def blank_def sc_format_asn1_entry_def set_present_def)
  have "\<forall>(e, c) \<in> set (zip (toki_table ?ti) ?cs).
      encode_entry malloc alg e ?vars = Inr (case c of None \<Rightarrow> [] | Some c \<Rightarrow> tlv (e_tag e) c)" for alg
    unfolding table using toki_tags v f serial names
    by (simp add: toki_contents_def c_asn1_toki_attrs_def blank_def encode_missing_entry encode_vars_def plain_tokeninfo_def
        text_of_def encode_int_entry [OF m] encode_octets_entry [OF m] encode_text_entry [OF m] encode_field_entry [OF m])
  from encode_rows [OF m this]
  have "encode_table malloc alg 0 (toki_table ?ti) ?vars = Inr (stream (zip (toki_table ?ti) ?cs))" for alg
    unfolding table by (simp add: toki_contents_def c_asn1_toki_attrs_def)
  moreover have "stream (zip (toki_table ?ti) ?cs) = stream (zip toki_attr_entries ?cs)"
    by (rule stream_tags) (simp only: toki_tags_eq)
  moreover note toki_stream_pos [of vb serial mnf label fb]
  ultimately have "encode_entry malloc alg (Entry SC_ASN1_STRUCT SC_ASN1_TAG_SEQUENCE_CONS 1 (Parm_table (toki_table ?ti)) None) ?vars =
      Inr (tlv SC_ASN1_TAG_SEQUENCE_CONS (stream (zip toki_attr_entries ?cs)))" for alg
    by (intro encode_struct_entry [OF m toki_tags(6)]) simp_all
  moreover obtain b where "malloc (length (tlv SC_ASN1_TAG_SEQUENCE_CONS (stream (zip toki_attr_entries ?cs)))) = Some b"
    using m by (auto simp: malloc_ok_def)
  ultimately show ?thesis
    using bin hex serial(2)
    by (simp add: sc_pkcs15_encode_tokeninfo_def plain_tokeninfo_def [of version serial mnf label flags, THEN arg_cong [where f = ti_serial_number]]
        sc_asn1_encode_def asn1_encode_def encode_table.simps c_asn1_tokeninfo_def blank_def sc_format_asn1_entry_def
        set_present_def)
qed

lemma algo_cells_at:
  assumes "ii < length as" and xs: "length xs = 24"
  shows "algo_at (xs @ concat (map algo_cells as)) ii = as ! ii"
proof -
  have nth: "concat (map algo_cells as) ! (6 * ii + j) = algo_cells (as ! ii) ! j" if "j < 6" for j
    using assms(1) that
  proof (induction as arbitrary: ii)
    case (Cons a as)
    have "length (algo_cells a) = 6" by (simp add: algo_cells_def)
    with Cons show ?case by (cases ii) (auto simp: nth_append)
  qed simp
  have "(xs @ concat (map algo_cells as)) ! (algo_address ii + j) = algo_cells (as ! ii) ! j" if "j < 6" for j
    using nth [OF that] xs by (simp add: algo_address_def nth_append)
  from this [of 0] this [of 1] this [of 2] this [of 3] this [of 4] this [of 5]
  show ?thesis
    by (cases "as ! ii")
       (simp add: algo_at_def Let_def algo_cells_def int_at_def oid_at_def word_at_def numeral_2_eq_2 numeral_3_eq_3)
qed

lemma algos_kept: "length xs = 24 \<Longrightarrow> length as = 16 \<Longrightarrow> map (algo_at (xs @ concat (map algo_cells as))) [0..<16] = as"
  by (rule nth_equalityI) (simp_all add: algo_cells_at)

text \<open>The memory after the decoding.\<close>

definition toki_read :: "bytes \<Rightarrow> bytes \<Rightarrow> bytes \<Rightarrow> int \<Rightarrow> u32 \<Rightarrow> cell list" where
  "toki_read serial mnf label version flags =
    [Array_cell (memcpy_at (replicate 128 0) 0 serial), Size_cell (length serial),
     Array_cell (mnf @ 0 # replicate (255 - (length mnf + 1)) 0), Size_cell (length mnf + 1),
     Array_cell (label @ 0 # replicate (255 - (length label + 1)) 0), Size_cell (length label + 1)]
    @ take 12 (drop 6 (toki_vars zero_tokeninfo)) @ [Int_cell version, Word_cell flags]
    @ take 4 (drop 20 (toki_vars zero_tokeninfo))"

lemma toki_decoded:
  assumes v: "sc_asn1_decode_integer vb False = Inr version" and f: "decode_bit_field fb 4 False = Inr flags"
    and small: "length vb \<le> 255" "length fb \<le> 255" "length serial \<le> 128" "length mnf \<le> 253" "length label \<le> 253"
  shows "\<exists>t. asn1_decode malloc False toki_attr_entries
      (stream (zip toki_attr_entries (toki_contents vb serial mnf label fb))) (toki_vars zero_tokeninfo) =
      (Inr (0, length (stream (zip toki_attr_entries (toki_contents vb serial mnf label fb)))), t,
       toki_read serial mnf label version flags @ concat (map algo_cells (ti_algos zero_tokeninfo))) \<and>
    map (\<lambda>e. e_flag e SC_ASN1_PRESENT) t =
      [True, True, True, True, False, True, False, False, False, False, False, False, False, False]"
proof -
  let ?rs = "zip toki_attr_entries (toki_contents vb serial mnf label fb)"
  have ok: "rows_ok ?rs" by (rule toki_rows_ok) (use small in auto)
  have tab: "map fst ?rs = toki_attr_entries"
    by (simp add: toki_attr_entries_def toki_contents_def Let_def format_all_def c_asn1_toki_attrs_def)
  define rest where "rest = concat (map algo_cells (ti_algos zero_tokeninfo))"
  have "\<exists>t. decode_rows malloc (asn1_decode malloc) [] ?rs (toki_vars zero_tokeninfo) =
      (Inr (0, []), t, toki_read serial mnf label version flags @ rest) \<and>
    map (\<lambda>e. e_flag e SC_ASN1_PRESENT) t =
      [True, True, True, True, False, True, False, False, False, False, False, False, False, False]"
    using v f small
    by (simp add: toki_vars_def rest_def [symmetric] toki_read_def toki_attr_entries_def toki_contents_def Let_def format_all_def
        c_asn1_toki_attrs_def blank_def sc_format_asn1_entry_def decode_present_int decode_present_octets decode_present_text
        decode_present_field e_flag_def)
  then show ?thesis
    unfolding decode_stream [OF ok, unfolded tab] rest_def by auto
qed

lemma c_string_read: "0 \<notin> set b \<Longrightarrow> c_string (b @ 0 # r) = b"
  by (induction b) (simp_all add: c_string_def)

lemma toki_parsed:
  assumes m: "malloc_ok malloc"
    and v: "sc_asn1_decode_integer vb False = Inr version" and f: "decode_bit_field fb 4 False = Inr flags"
    and small: "length vb \<le> 255" "length fb \<le> 255" "length serial \<le> 128" and serial: "serial \<noteq> []"
    and names: "plain_text mnf" "plain_text label"
  shows "sc_pkcs15_parse_tokeninfo malloc
      (tlv SC_ASN1_TAG_SEQUENCE_CONS (stream (zip toki_attr_entries (toki_contents vb serial mnf label fb)))) zero_tokeninfo =
    (Inr (), plain_tokeninfo version serial mnf label flags)"
proof -
  let ?c = "stream (zip toki_attr_entries (toki_contents vb serial mnf label fb))"
  let ?m = "toki_read serial mnf label version flags @ concat (map algo_cells (ti_algos zero_tokeninfo))"
  have lens: "length mnf \<le> 253" "length label \<le> 253" using names by (simp_all add: plain_text_def)
  from toki_decoded [OF v f small lens, of malloc] obtain attrs where read:
      "asn1_decode malloc False toki_attr_entries ?c (toki_vars zero_tokeninfo) = (Inr (0, length ?c), attrs, ?m) \<and>
       map (\<lambda>e. e_flag e SC_ASN1_PRESENT) attrs =
         [True, True, True, True, False, True, False, False, False, False, False, False, False, False]"
    by (rule exE)
  note dec = conjunct1 [OF read] and marks = conjunct2 [OF read]
  have len: "length attrs = 14" using arg_cong [OF marks, of length] by simp
  have present: "e_flag (attrs ! i) SC_ASN1_PRESENT =
      ([True, True, True, True, False, True, False, False, False, False, False, False, False, False] ! i)" if "i < 14" for i
    unfolding marks [symmetric] using that len by (simp only: nth_map)
  have ok: "rows_ok [(Entry SC_ASN1_STRUCT SC_ASN1_TAG_SEQUENCE_CONS 0 (Parm_table toki_attr_entries) None, Some ?c)]"
    using toki_tags(6) toki_stream_short [of vb serial mnf label fb] small lens
    by (auto simp: rows_ok_def row_ok_def intro: le_less_trans)
  have entries: "tokeninfo_entries = [Entry SC_ASN1_STRUCT SC_ASN1_TAG_SEQUENCE_CONS 0 (Parm_table toki_attr_entries) None]"
    by (simp add: tokeninfo_entries_def c_asn1_tokeninfo_def format_all_def blank_def sc_format_asn1_entry_def)
  have outer: "asn1_decode malloc False tokeninfo_entries (tlv SC_ASN1_TAG_SEQUENCE_CONS ?c) (toki_vars zero_tokeninfo) =
      (Inr (0, length (tlv SC_ASN1_TAG_SEQUENCE_CONS ?c)),
       [Entry SC_ASN1_STRUCT SC_ASN1_TAG_SEQUENCE_CONS 1 (Parm_table attrs) None], ?m)"
    using decode_stream [OF ok, of malloc "toki_vars zero_tokeninfo"]
    by (simp add: entries decode_present_struct [where rec = "asn1_decode malloc", OF dec])
  have fields: "toki_fields ?m zero_tokeninfo = zero_tokeninfo\<lparr>ti_version := version, ti_flags := flags\<rparr>"
  proof -
    have "length (toki_read serial mnf label version flags) = 24" by (simp add: toki_read_def toki_vars_def)
    from algos_kept [OF this, of "ti_algos zero_tokeninfo"]
    have "map (algo_at ?m) [0..<16] = ti_algos zero_tokeninfo" by (simp add: zero_tokeninfo_def del: upt_rec_numeral)
    then show ?thesis
      by (simp add: toki_fields_def toki_read_def toki_vars_def int_at_def word_at_def se_at_def size_at_def path_at_def
          oid_at_def del: upt_rec_numeral)
  qed
  have vals: "size_at ?m 1 = length serial" "take (length serial) (array_at ?m 0) = serial"
    "c_string (array_at ?m 2) = mnf" "c_string (array_at ?m 4) = label"
    using small(3) names by (simp_all add: toki_read_def size_at_def array_at_def memcpy_at_0 c_string_read plain_text_def)
  have alloc: "malloc n \<noteq> None" for n using m by (auto simp: malloc_ok_def)
  have "sc_pkcs15_parse_tokeninfo malloc (tlv SC_ASN1_TAG_SEQUENCE_CONS ?c) zero_tokeninfo =
      store_strings malloc attrs ?m (zero_tokeninfo\<lparr>ti_version := version, ti_flags := flags\<rparr>)"
    by (simp add: sc_pkcs15_parse_tokeninfo_def sc_asn1_decode_def decode_from_def outer nested_table_def fields)
  also have "\<dots> = (Inr (), plain_tokeninfo version serial mnf label flags)"
    using serial
    by (simp add: store_strings_def Let_def present vals vals(1) [unfolded One_nat_def] strdup_def store_def alloc sbind_def plain_tokeninfo_def)
       (simp add: zero_tokeninfo_def)
  finally show ?thesis .
qed



end
