(* ===== verification/Sc_P15.thy ===== *)
theory Sc_P15
  imports Sc_TokenInfo
begin

text \<open>
  The objects of a PKCS#15 card (\<open>libopensc/pkcs15.c\<close>): the list of objects and the list of
  directory files they come from, the search through them, absolute paths, the object directory
  file and the list of unused space; and what the emulation layer (\<open>pkcs15-syn.c\<close>) adds to them for a
  card without such files.

  A record holds the fields of the C structure that the modelled code reads or writes. The data of an
  object is a union by the class of its type; an object of which the two do not agree, which C would
  misread, compares as different here, and that there is none is an invariant (\<open>typed\<close>). An object
  and a directory file are known by their place in the list, where C has a pointer.
\<close>

section \<open>Data\<close>

abbreviation (input) SC_PKCS15_TYPE_CLASS_MASK :: u32 where "SC_PKCS15_TYPE_CLASS_MASK \<equiv> 0xF00"
abbreviation (input) SC_PKCS15_TYPE_PRKEY :: u32 where "SC_PKCS15_TYPE_PRKEY \<equiv> 0x100"
abbreviation (input) SC_PKCS15_TYPE_PRKEY_RSA :: u32 where "SC_PKCS15_TYPE_PRKEY_RSA \<equiv> 0x101"
abbreviation (input) SC_PKCS15_TYPE_PRKEY_EC :: u32 where "SC_PKCS15_TYPE_PRKEY_EC \<equiv> 0x104"
abbreviation (input) SC_PKCS15_TYPE_PRKEY_EDDSA :: u32 where "SC_PKCS15_TYPE_PRKEY_EDDSA \<equiv> 0x105"
abbreviation (input) SC_PKCS15_TYPE_PRKEY_XEDDSA :: u32 where "SC_PKCS15_TYPE_PRKEY_XEDDSA \<equiv> 0x106"
abbreviation (input) SC_PKCS15_TYPE_PUBKEY :: u32 where "SC_PKCS15_TYPE_PUBKEY \<equiv> 0x200"
abbreviation (input) SC_PKCS15_TYPE_PUBKEY_RSA :: u32 where "SC_PKCS15_TYPE_PUBKEY_RSA \<equiv> 0x201"
abbreviation (input) SC_PKCS15_TYPE_PUBKEY_EC :: u32 where "SC_PKCS15_TYPE_PUBKEY_EC \<equiv> 0x204"
abbreviation (input) SC_PKCS15_TYPE_PUBKEY_EDDSA :: u32 where "SC_PKCS15_TYPE_PUBKEY_EDDSA \<equiv> 0x205"
abbreviation (input) SC_PKCS15_TYPE_PUBKEY_XEDDSA :: u32 where "SC_PKCS15_TYPE_PUBKEY_XEDDSA \<equiv> 0x206"
abbreviation (input) SC_PKCS15_TYPE_SKEY :: u32 where "SC_PKCS15_TYPE_SKEY \<equiv> 0x300"
abbreviation (input) SC_PKCS15_TYPE_CERT :: u32 where "SC_PKCS15_TYPE_CERT \<equiv> 0x400"
abbreviation (input) SC_PKCS15_TYPE_CERT_X509 :: u32 where "SC_PKCS15_TYPE_CERT_X509 \<equiv> 0x401"
abbreviation (input) SC_PKCS15_TYPE_DATA_OBJECT :: u32 where "SC_PKCS15_TYPE_DATA_OBJECT \<equiv> 0x500"
abbreviation (input) SC_PKCS15_TYPE_AUTH :: u32 where "SC_PKCS15_TYPE_AUTH \<equiv> 0x600"
abbreviation (input) SC_PKCS15_TYPE_AUTH_PIN :: u32 where "SC_PKCS15_TYPE_AUTH_PIN \<equiv> 0x601"
abbreviation (input) SC_PKCS15_PIN_AUTH_TYPE_PIN :: u32 where "SC_PKCS15_PIN_AUTH_TYPE_PIN \<equiv> 0"
abbreviation (input) SC_PKCS15_PIN_FLAG_SO_PIN :: u32 where "SC_PKCS15_PIN_FLAG_SO_PIN \<equiv> 0x80"

type_synonym p15_id = bytes

record pin_attributes =
  pa_flags :: u32
  pa_type :: u32
  pa_min_length :: nat
  pa_stored_length :: nat
  pa_max_length :: nat
  pa_reference :: int
  pa_pad_char :: u8

text \<open>The attributes of an authentication object that is not a PIN are left out.\<close>

record auth_info =
  au_auth_id :: p15_id
  au_path :: sc_path
  au_auth_type :: u32
  au_pin :: pin_attributes
  au_auth_method :: u32
  au_tries_left :: int
  au_max_tries :: int

record cert_info =
  ce_id :: p15_id
  ce_authority :: int
  ce_path :: sc_path

record data_info =
  da_id :: p15_id
  da_app_label :: string
  da_app_oid :: oid
  da_path :: sc_path

record key_info =
  ke_id :: p15_id
  ke_usage :: u32
  ke_access_flags :: u32
  ke_native :: int
  ke_reference :: int
  ke_modulus_length :: nat
  ke_path :: sc_path

text \<open>\<open>key_info\<close> stands for the structures of private, public and secret keys, which have these fields in common.\<close>

datatype obj_data =
    Prkey_data key_info | Pubkey_data key_info | Skey_data key_info
  | Cert_data cert_info | Data_data data_info | Auth_data auth_info

record p15_object =
  po_type :: u32
  po_label :: string
  po_flags :: u32
  po_auth_id :: p15_id
  po_data :: obj_data
  po_df :: "nat option"

record p15_df =
  df_path :: sc_path
  df_type :: nat
  df_enumerated :: bool

record unusedspace =
  us_path :: sc_path
  us_auth_id :: p15_id

text \<open>The card: \<open>p15_app\<close> is the path of \<open>file_app\<close>, \<open>p15_card\<close> the card below.\<close>

record 's p15 =
  p15_dfs :: "p15_df list"
  p15_objs :: "p15_object list"
  p15_unused :: "unusedspace list"
  p15_unused_read :: bool
  p15_app :: "sc_path option"
  p15_tokeninfo :: tokeninfo
  p15_card :: 's

abbreviation (input) SC_PKCS15_PRKDF :: nat where "SC_PKCS15_PRKDF \<equiv> 0"
abbreviation (input) SC_PKCS15_PUKDF :: nat where "SC_PKCS15_PUKDF \<equiv> 1"
abbreviation (input) SC_PKCS15_PUKDF_TRUSTED :: nat where "SC_PKCS15_PUKDF_TRUSTED \<equiv> 2"
abbreviation (input) SC_PKCS15_SKDF :: nat where "SC_PKCS15_SKDF \<equiv> 3"
abbreviation (input) SC_PKCS15_CDF :: nat where "SC_PKCS15_CDF \<equiv> 4"
abbreviation (input) SC_PKCS15_CDF_TRUSTED :: nat where "SC_PKCS15_CDF_TRUSTED \<equiv> 5"
abbreviation (input) SC_PKCS15_CDF_USEFUL :: nat where "SC_PKCS15_CDF_USEFUL \<equiv> 6"
abbreviation (input) SC_PKCS15_DODF :: nat where "SC_PKCS15_DODF \<equiv> 7"
abbreviation (input) SC_PKCS15_AODF :: nat where "SC_PKCS15_AODF \<equiv> 8"

section \<open>The lists\<close>

definition sc_pkcs15_add_object :: "p15_object \<Rightarrow> 's p15 \<Rightarrow> 's p15" where
  "sc_pkcs15_add_object obj c = c\<lparr>p15_objs := p15_objs c @ [obj]\<rparr>"

definition sc_pkcs15_remove_object :: "nat \<Rightarrow> 's p15 \<Rightarrow> 's p15" where
  "sc_pkcs15_remove_object i c = c\<lparr>p15_objs := take i (p15_objs c) @ drop (Suc i) (p15_objs c)\<rparr>"

text \<open>\<open>alloc\<close> says whether the memory for a structure of that name can be had.\<close>

definition sc_pkcs15_add_df :: "(string \<Rightarrow> bool) \<Rightarrow> nat \<Rightarrow> sc_path \<Rightarrow> ('s p15, unit) prog" where
  "sc_pkcs15_add_df alloc type path c =
    (if \<not> alloc ''sc_pkcs15_df'' then (Inl SC_ERROR_OUT_OF_MEMORY, c)
     else (Inr (), c\<lparr>p15_dfs := p15_dfs c @ [\<lparr>df_path = path, df_type = type, df_enumerated = False\<rparr>]\<rparr>))"

definition sc_pkcs15_add_unusedspace :: "(string \<Rightarrow> bool) \<Rightarrow> sc_path \<Rightarrow> p15_id \<Rightarrow> ('s p15, unit) prog" where
  "sc_pkcs15_add_unusedspace alloc path auth_id c =
    (if p_count path = - 1 then (Inl SC_ERROR_INVALID_ARGUMENTS, c)
     else if \<not> alloc ''sc_pkcs15_unusedspace'' then (Inl SC_ERROR_OUT_OF_MEMORY, c)
     else (Inr (), c\<lparr>p15_unused := p15_unused c @ [\<lparr>us_path = path, us_auth_id = auth_id\<rparr>]\<rparr>))"

definition sc_pkcs15_remove_unusedspace :: "nat \<Rightarrow> 's p15 \<Rightarrow> 's p15" where
  "sc_pkcs15_remove_unusedspace i c = c\<lparr>p15_unused := take i (p15_unused c) @ drop (Suc i) (p15_unused c)\<rparr>"

section \<open>Search\<close>

definition obj_class :: "p15_object \<Rightarrow> u32" where
  "obj_class obj = po_type obj AND SC_PKCS15_TYPE_CLASS_MASK"

definition sc_pkcs15_compare_id :: "p15_id \<Rightarrow> p15_id \<Rightarrow> bool" where
  "sc_pkcs15_compare_id v w \<longleftrightarrow> v = w"

definition class_of_data :: "obj_data \<Rightarrow> u32" where
  "class_of_data d =
    (case d of
       Prkey_data _ \<Rightarrow> SC_PKCS15_TYPE_PRKEY | Pubkey_data _ \<Rightarrow> SC_PKCS15_TYPE_PUBKEY | Skey_data _ \<Rightarrow> SC_PKCS15_TYPE_SKEY
     | Cert_data _ \<Rightarrow> SC_PKCS15_TYPE_CERT | Data_data _ \<Rightarrow> SC_PKCS15_TYPE_DATA_OBJECT | Auth_data _ \<Rightarrow> SC_PKCS15_TYPE_AUTH)"

definition typed :: "p15_object \<Rightarrow> bool" where
  "typed obj \<longleftrightarrow> obj_class obj = class_of_data (po_data obj)"

definition data_id :: "obj_data \<Rightarrow> p15_id" where
  "data_id d =
    (case d of
       Prkey_data k \<Rightarrow> ke_id k | Pubkey_data k \<Rightarrow> ke_id k | Skey_data k \<Rightarrow> ke_id k
     | Cert_data i \<Rightarrow> ce_id i | Data_data i \<Rightarrow> da_id i | Auth_data a \<Rightarrow> au_auth_id a)"

definition data_path :: "obj_data \<Rightarrow> sc_path" where
  "data_path d =
    (case d of
       Prkey_data k \<Rightarrow> ke_path k | Pubkey_data k \<Rightarrow> ke_path k | Skey_data k \<Rightarrow> ke_path k
     | Cert_data i \<Rightarrow> ce_path i | Data_data i \<Rightarrow> da_path i | Auth_data a \<Rightarrow> au_path a)"

definition compare_obj_id :: "p15_object \<Rightarrow> p15_id \<Rightarrow> bool" where
  "compare_obj_id obj v \<longleftrightarrow> typed obj \<and> sc_pkcs15_compare_id (data_id (po_data obj)) v"

definition sc_obj_app_oid :: "p15_object \<Rightarrow> oid \<Rightarrow> bool" where
  "sc_obj_app_oid obj v \<longleftrightarrow> typed obj \<and> (case po_data obj of Data_data i \<Rightarrow> sc_compare_oid (da_app_oid i) v | _ \<Rightarrow> False)"

definition compare_obj_usage :: "p15_object \<Rightarrow> u32 \<Rightarrow> u32 \<Rightarrow> bool" where
  "compare_obj_usage obj msk value \<longleftrightarrow> typed obj \<and>
    (case po_data obj of
       Prkey_data k \<Rightarrow> ke_usage k AND msk AND value \<noteq> 0
     | Pubkey_data k \<Rightarrow> ke_usage k AND msk AND value \<noteq> 0
     | _ \<Rightarrow> False)"

definition compare_obj_flags :: "p15_object \<Rightarrow> u32 \<Rightarrow> u32 \<Rightarrow> bool" where
  "compare_obj_flags obj msk value \<longleftrightarrow> typed obj \<and>
    (case po_data obj of
       Auth_data a \<Rightarrow> au_auth_type a = SC_PKCS15_PIN_AUTH_TYPE_PIN \<and> (pa_flags (au_pin a) XOR value) AND msk = 0
     | _ \<Rightarrow> False)"

definition compare_obj_reference :: "p15_object \<Rightarrow> int \<Rightarrow> bool" where
  "compare_obj_reference obj value \<longleftrightarrow> typed obj \<and>
    (case po_data obj of
       Auth_data a \<Rightarrow> au_auth_type a = SC_PKCS15_PIN_AUTH_TYPE_PIN \<and> pa_reference (au_pin a) = value
     | Prkey_data k \<Rightarrow> ke_reference k = value
     | _ \<Rightarrow> False)"

definition compare_obj_path :: "p15_object \<Rightarrow> sc_path \<Rightarrow> bool" where
  "compare_obj_path obj path \<longleftrightarrow> typed obj \<and> sc_compare_path (data_path (po_data obj)) path"

text \<open>Labels of at most 255 characters, the size of their arrays.\<close>

definition compare_obj_data_name :: "p15_object \<Rightarrow> string \<Rightarrow> string \<Rightarrow> bool" where
  "compare_obj_data_name obj app_label label \<longleftrightarrow> po_type obj = SC_PKCS15_TYPE_DATA_OBJECT \<and>
    (case po_data obj of
       Data_data i \<Rightarrow>
         take SC_PKCS15_MAX_LABEL_SIZE (da_app_label i) = take SC_PKCS15_MAX_LABEL_SIZE app_label \<and>
         take SC_PKCS15_MAX_LABEL_SIZE (po_label obj) = take SC_PKCS15_MAX_LABEL_SIZE label
     | _ \<Rightarrow> False)"

record search_key =
  sk_class_mask :: u32
  sk_type :: u32
  sk_id :: "p15_id option"
  sk_app_oid :: "oid option"
  sk_path :: "sc_path option"
  sk_usage_mask :: u32
  sk_usage_value :: u32
  sk_flags_mask :: u32
  sk_flags_value :: u32
  sk_match_reference :: bool
  sk_reference :: int
  sk_app_label :: "string option"
  sk_label :: "string option"

definition empty_key :: search_key where
  "empty_key = \<lparr>sk_class_mask = 0, sk_type = 0, sk_id = None, sk_app_oid = None, sk_path = None, sk_usage_mask = 0,
     sk_usage_value = 0, sk_flags_mask = 0, sk_flags_value = 0, sk_match_reference = False, sk_reference = 0,
     sk_app_label = None, sk_label = None\<rparr>"

definition compare_obj_key :: "search_key \<Rightarrow> p15_object \<Rightarrow> bool" where
  "compare_obj_key sk obj \<longleftrightarrow>
    (case sk_id sk of None \<Rightarrow> True | Some v \<Rightarrow> compare_obj_id obj v) \<and>
    (case sk_app_oid sk of None \<Rightarrow> True | Some v \<Rightarrow> sc_obj_app_oid obj v) \<and>
    (sk_usage_mask sk \<noteq> 0 \<longrightarrow> compare_obj_usage obj (sk_usage_mask sk) (sk_usage_value sk)) \<and>
    (sk_flags_mask sk \<noteq> 0 \<longrightarrow> compare_obj_flags obj (sk_flags_mask sk) (sk_flags_value sk)) \<and>
    (sk_match_reference sk \<longrightarrow> compare_obj_reference obj (sk_reference sk)) \<and>
    (case sk_path sk of None \<Rightarrow> True | Some p \<Rightarrow> compare_obj_path obj p) \<and>
    (case (sk_app_label sk, sk_label sk) of (Some a, Some l) \<Rightarrow> compare_obj_data_name obj a l | _ \<Rightarrow> True)"

subsection \<open>The search\<close>

text \<open>\<open>SC_PKCS15_TYPE_TO_CLASS\<close>.\<close>

definition class_bit :: "u32 \<Rightarrow> u32" where
  "class_bit t = push_bit (unat (drop_bit 8 t)) 1"

abbreviation (input) SC_PKCS15_SEARCH_CLASSES :: u32 where "SC_PKCS15_SEARCH_CLASSES \<equiv> 0x7E"

text \<open>Which types of directory files are searched for a class mask.\<close>

definition df_wanted :: "u32 \<Rightarrow> nat \<Rightarrow> bool" where
  "df_wanted class_mask t \<longleftrightarrow>
     class_mask AND 0x02 \<noteq> 0 \<and> t = SC_PKCS15_PRKDF \<or>
     class_mask AND 0x04 \<noteq> 0 \<and> (t = SC_PKCS15_PUKDF \<or> t = SC_PKCS15_PUKDF_TRUSTED) \<or>
     class_mask AND 0x10 \<noteq> 0 \<and> (t = SC_PKCS15_CDF \<or> t = SC_PKCS15_CDF_TRUSTED \<or> t = SC_PKCS15_CDF_USEFUL) \<or>
     class_mask AND 0x20 \<noteq> 0 \<and> t = SC_PKCS15_DODF \<or>
     class_mask AND 0x40 \<noteq> 0 \<and> t = SC_PKCS15_AODF \<or>
     class_mask AND 0x08 \<noteq> 0 \<and> t = SC_PKCS15_SKDF"

text \<open>
  The directory files that are wanted and not yet read are read by \<open>parse_df\<close>, the function of the
  card if it has one, else the library's; its result does not matter. It is given a place in the
  list and does not make the list longer.
\<close>

primrec enumerate_dfs :: "(nat \<Rightarrow> ('s p15, unit) prog) \<Rightarrow> u32 \<Rightarrow> nat list \<Rightarrow> 's p15 \<Rightarrow> 's p15" where
  "enumerate_dfs parse_df class_mask [] c = c"
| "enumerate_dfs parse_df class_mask (i # is) c =
     (let df = p15_dfs c ! i in
      if \<not> df_wanted class_mask (df_type df) \<or> df_enumerated df then enumerate_dfs parse_df class_mask is c
      else enumerate_dfs parse_df class_mask is (snd (parse_df i c)))"

definition type_matches :: "u32 \<Rightarrow> u32 \<Rightarrow> p15_object \<Rightarrow> bool" where
  "type_matches class_mask ty obj \<longleftrightarrow>
     class_mask AND class_bit (po_type obj) \<noteq> 0 \<and> (ty = 0 \<or> po_type obj = ty \<or> obj_class obj = ty)"

text \<open>The loop over the objects: \<open>i\<close> is the place of the first one left, \<open>n\<close> the number of matches, \<open>ret\<close> the
  array of the caller, of which \<open>room\<close> entries may be used (0 when there is none).\<close>

fun search_loop :: "(p15_object \<Rightarrow> bool) \<Rightarrow> nat \<Rightarrow> nat \<Rightarrow> p15_object list \<Rightarrow> nat \<Rightarrow> nat list \<Rightarrow> nat \<times> nat list" where
  "search_loop ok room i [] n ret = (n, ret)"
| "search_loop ok room i (obj # objs) n ret =
    (if \<not> ok obj then search_loop ok room (Suc i) objs n ret
     else if room = 0 then search_loop ok room (Suc i) objs (Suc n) ret
     else if room \<le> Suc n then (Suc n, ret @ [i])
     else search_loop ok room (Suc i) objs (Suc n) (ret @ [i]))"

definition search_objects ::
  "(nat \<Rightarrow> ('s p15, unit) prog) \<Rightarrow> u32 \<Rightarrow> u32 \<Rightarrow> (p15_object \<Rightarrow> bool) option \<Rightarrow> nat \<Rightarrow>
   ('s p15, nat \<times> nat list) prog" where
  "search_objects parse_df class_mask ty f room c =
    (let class_mask = (if ty \<noteq> 0 then class_mask OR class_bit ty else class_mask) in
     if class_mask = 0 \<or> class_mask AND NOT SC_PKCS15_SEARCH_CLASSES \<noteq> 0 then (Inl SC_ERROR_INVALID_ARGUMENTS, c)
     else
       let c = enumerate_dfs parse_df class_mask [0..<length (p15_dfs c)] c
       in (Inr (search_loop (\<lambda>obj. type_matches class_mask ty obj \<and> (case f of None \<Rightarrow> True | Some f \<Rightarrow> f obj)) room 0
                 (p15_objs c) 0 []), c))"

definition sc_pkcs15_get_objects_cond ::
  "(nat \<Rightarrow> ('s p15, unit) prog) \<Rightarrow> u32 \<Rightarrow> (p15_object \<Rightarrow> bool) option \<Rightarrow> nat \<Rightarrow> ('s p15, nat \<times> nat list) prog" where
  "sc_pkcs15_get_objects_cond parse_df = search_objects parse_df 0"

definition sc_pkcs15_get_objects ::
  "(nat \<Rightarrow> ('s p15, unit) prog) \<Rightarrow> u32 \<Rightarrow> nat \<Rightarrow> ('s p15, nat \<times> nat list) prog" where
  "sc_pkcs15_get_objects parse_df ty = sc_pkcs15_get_objects_cond parse_df ty None"

definition sc_pkcs15_search_objects ::
  "(nat \<Rightarrow> ('s p15, unit) prog) \<Rightarrow> search_key \<Rightarrow> nat \<Rightarrow> ('s p15, nat \<times> nat list) prog" where
  "sc_pkcs15_search_objects parse_df sk = search_objects parse_df (sk_class_mask sk) (sk_type sk) (Some (compare_obj_key sk))"

text \<open>The one object that is found is stored for the caller.\<close>

definition find_by_key ::
  "(nat \<Rightarrow> ('s p15, unit) prog) \<Rightarrow> u32 \<Rightarrow> search_key \<Rightarrow> ('s p15, nat) prog" where
  "find_by_key parse_df ty sk c =
    (case sc_pkcs15_get_objects_cond parse_df ty (Some (compare_obj_key sk)) 1 c of
       (Inl r, c) \<Rightarrow> (Inl r, c)
     | (Inr (n, ret), c) \<Rightarrow> ((if n = 0 then Inl SC_ERROR_OBJECT_NOT_FOUND else Inr (ret ! 0)), c))"

definition sc_pkcs15_find_object_by_id ::
  "(nat \<Rightarrow> ('s p15, unit) prog) \<Rightarrow> u32 \<Rightarrow> p15_id \<Rightarrow> ('s p15, nat) prog" where
  "sc_pkcs15_find_object_by_id parse_df ty v = find_by_key parse_df ty (empty_key\<lparr>sk_id := Some v\<rparr>)"

definition sc_pkcs15_find_cert_by_id :: "(nat \<Rightarrow> ('s p15, unit) prog) \<Rightarrow> p15_id \<Rightarrow> ('s p15, nat) prog" where
  "sc_pkcs15_find_cert_by_id parse_df = sc_pkcs15_find_object_by_id parse_df SC_PKCS15_TYPE_CERT"

definition sc_pkcs15_find_prkey_by_id :: "(nat \<Rightarrow> ('s p15, unit) prog) \<Rightarrow> p15_id \<Rightarrow> ('s p15, nat) prog" where
  "sc_pkcs15_find_prkey_by_id parse_df = sc_pkcs15_find_object_by_id parse_df SC_PKCS15_TYPE_PRKEY"

definition sc_pkcs15_find_pubkey_by_id :: "(nat \<Rightarrow> ('s p15, unit) prog) \<Rightarrow> p15_id \<Rightarrow> ('s p15, nat) prog" where
  "sc_pkcs15_find_pubkey_by_id parse_df = sc_pkcs15_find_object_by_id parse_df SC_PKCS15_TYPE_PUBKEY"

definition sc_pkcs15_find_skey_by_id :: "(nat \<Rightarrow> ('s p15, unit) prog) \<Rightarrow> p15_id \<Rightarrow> ('s p15, nat) prog" where
  "sc_pkcs15_find_skey_by_id parse_df = sc_pkcs15_find_object_by_id parse_df SC_PKCS15_TYPE_SKEY"

definition sc_pkcs15_find_pin_by_auth_id :: "(nat \<Rightarrow> ('s p15, unit) prog) \<Rightarrow> p15_id \<Rightarrow> ('s p15, nat) prog" where
  "sc_pkcs15_find_pin_by_auth_id parse_df = sc_pkcs15_find_object_by_id parse_df SC_PKCS15_TYPE_AUTH"

definition sc_pkcs15_find_data_object_by_id :: "(nat \<Rightarrow> ('s p15, unit) prog) \<Rightarrow> p15_id \<Rightarrow> ('s p15, nat) prog" where
  "sc_pkcs15_find_data_object_by_id parse_df = sc_pkcs15_find_object_by_id parse_df SC_PKCS15_TYPE_DATA_OBJECT"

definition sc_pkcs15_find_pin_by_reference ::
  "(nat \<Rightarrow> ('s p15, unit) prog) \<Rightarrow> sc_path option \<Rightarrow> int \<Rightarrow> ('s p15, nat) prog" where
  "sc_pkcs15_find_pin_by_reference parse_df path reference =
     find_by_key parse_df SC_PKCS15_TYPE_AUTH_PIN
       (empty_key\<lparr>sk_match_reference := True, sk_reference := reference, sk_path := path\<rparr>)"

definition sc_pkcs15_find_prkey_by_reference ::
  "(nat \<Rightarrow> ('s p15, unit) prog) \<Rightarrow> sc_path option \<Rightarrow> int \<Rightarrow> ('s p15, nat) prog" where
  "sc_pkcs15_find_prkey_by_reference parse_df path reference =
     find_by_key parse_df SC_PKCS15_TYPE_PRKEY
       (empty_key\<lparr>sk_match_reference := True, sk_reference := reference, sk_path := path\<rparr>)"

definition sc_pkcs15_find_prkey_by_id_usage ::
  "(nat \<Rightarrow> ('s p15, unit) prog) \<Rightarrow> p15_id \<Rightarrow> u32 \<Rightarrow> ('s p15, nat) prog" where
  "sc_pkcs15_find_prkey_by_id_usage parse_df v usage =
     find_by_key parse_df SC_PKCS15_TYPE_PRKEY (empty_key\<lparr>sk_usage_mask := usage, sk_usage_value := usage, sk_id := Some v\<rparr>)"

definition sc_pkcs15_find_so_pin :: "(nat \<Rightarrow> ('s p15, unit) prog) \<Rightarrow> ('s p15, nat) prog" where
  "sc_pkcs15_find_so_pin parse_df =
     find_by_key parse_df SC_PKCS15_TYPE_AUTH_PIN
       (empty_key\<lparr>sk_flags_mask := SC_PKCS15_PIN_FLAG_SO_PIN, sk_flags_value := SC_PKCS15_PIN_FLAG_SO_PIN\<rparr>)"

definition sc_pkcs15_find_data_object_by_app_oid ::
  "(nat \<Rightarrow> ('s p15, unit) prog) \<Rightarrow> oid \<Rightarrow> ('s p15, nat) prog" where
  "sc_pkcs15_find_data_object_by_app_oid parse_df v =
     find_by_key parse_df SC_PKCS15_TYPE_DATA_OBJECT (empty_key\<lparr>sk_app_oid := Some v\<rparr>)"

definition sc_pkcs15_find_data_object_by_name ::
  "(nat \<Rightarrow> ('s p15, unit) prog) \<Rightarrow> string \<Rightarrow> string \<Rightarrow> ('s p15, nat) prog" where
  "sc_pkcs15_find_data_object_by_name parse_df app_label label =
     find_by_key parse_df SC_PKCS15_TYPE_DATA_OBJECT
       (empty_key\<lparr>sk_app_label := Some app_label, sk_label := Some label\<rparr>)"

text \<open>Two functions look through the first PINs themselves; the second starts at \<open>idx\<close> and also returns
  where in its array it found one.\<close>

definition pin_fits :: "u32 \<Rightarrow> int \<Rightarrow> sc_path option \<Rightarrow> p15_object \<Rightarrow> bool" where
  "pin_fits auth_method reference path obj \<longleftrightarrow>
    (case po_data obj of
       Auth_data a \<Rightarrow>
         au_auth_method a = auth_method \<and>
         (au_auth_type a = SC_PKCS15_PIN_AUTH_TYPE_PIN \<longrightarrow> pa_reference (au_pin a) = reference) \<and>
         (case path of None \<Rightarrow> True | Some p \<Rightarrow> sc_compare_path (au_path a) p)
     | _ \<Rightarrow> False)"

definition sc_pkcs15_find_pin_by_type_and_reference ::
  "(nat \<Rightarrow> ('s p15, unit) prog) \<Rightarrow> sc_path option \<Rightarrow> u32 \<Rightarrow> int \<Rightarrow> ('s p15, nat) prog" where
  "sc_pkcs15_find_pin_by_type_and_reference parse_df path auth_method reference c =
    (case sc_pkcs15_get_objects parse_df SC_PKCS15_TYPE_AUTH_PIN 16 c of
       (Inl r, c) \<Rightarrow> (Inl r, c)
     | (Inr (n, ret), c) \<Rightarrow>
        (case find (\<lambda>i. pin_fits auth_method reference path (p15_objs c ! i)) ret of
           None \<Rightarrow> (Inl SC_ERROR_OBJECT_NOT_FOUND, c) | Some i \<Rightarrow> (Inr i, c)))"

definition pin_has_flags :: "u32 \<Rightarrow> u32 \<Rightarrow> p15_object \<Rightarrow> bool" where
  "pin_has_flags flags msk obj \<longleftrightarrow>
    (case po_data obj of
       Auth_data a \<Rightarrow> au_auth_type a = SC_PKCS15_PIN_AUTH_TYPE_PIN \<and> pa_flags (au_pin a) AND msk = flags
     | _ \<Rightarrow> False)"

definition sc_pkcs15_find_pin_by_flags ::
  "(nat \<Rightarrow> ('s p15, unit) prog) \<Rightarrow> u32 \<Rightarrow> u32 \<Rightarrow> nat \<Rightarrow> ('s p15, nat \<times> nat) prog" where
  "sc_pkcs15_find_pin_by_flags parse_df flags msk idx c =
    (case sc_pkcs15_get_objects parse_df SC_PKCS15_TYPE_AUTH_PIN 8 c of
       (Inl r, c) \<Rightarrow> (Inl r, c)
     | (Inr (n, ret), c) \<Rightarrow>
        (case find (\<lambda>i. pin_has_flags flags msk (p15_objs c ! (ret ! i))) [idx..<n] of
           None \<Rightarrow> (Inl SC_ERROR_OBJECT_NOT_FOUND, c) | Some i \<Rightarrow> (Inr (ret ! i, i), c)))"

section \<open>Facts on the search\<close>

definition hits :: "(p15_object \<Rightarrow> bool) \<Rightarrow> p15_object list \<Rightarrow> nat list" where
  "hits ok objs = filter (\<lambda>i. ok (objs ! i)) [0..<length objs]"

lemma search_loop_hits:
  assumes "length pre = i" and "n = length (hits ok pre)" and "ret = (if room = 0 then [] else hits ok pre)"
    and "room = 0 \<or> n < room"
  shows "search_loop ok room i objs n ret =
    (if room = 0 then (length (hits ok (pre @ objs)), [])
     else (length (take room (hits ok (pre @ objs))), take room (hits ok (pre @ objs))))"
  using assms
proof (induction ok room i objs n ret arbitrary: pre rule: search_loop.induct)
  case (1 ok room i n ret)
  then show ?case by auto
next
  case (2 ok room i obj objs n ret)
  have upt: "[0..<length (pre @ [obj])] = [0..<length pre] @ [length pre]" by simp
  have same: "filter (\<lambda>i. ok ((pre @ [obj]) ! i)) [0..<length pre] = filter (\<lambda>i. ok (pre ! i)) [0..<length pre]"
    by (rule filter_cong) (auto simp: nth_append)
  have step: "hits ok (pre @ [obj]) = hits ok pre @ (if ok obj then [i] else [])"
    unfolding hits_def upt filter_append same using 2(4) by (auto simp: nth_append)
  have more: "\<exists>zs. hits ok (pre @ obj # objs) = hits ok (pre @ [obj]) @ zs"
  proof -
    have "[0..<length (pre @ obj # objs)] = [0..<length (pre @ [obj])] @ [length (pre @ [obj])..<length (pre @ obj # objs)]"
      using upt_add_eq_append [of 0 "length (pre @ [obj])" "length objs"] by (simp del: upt_Suc)
    moreover have "filter (\<lambda>i. ok ((pre @ obj # objs) ! i)) [0..<length (pre @ [obj])] =
        filter (\<lambda>i. ok ((pre @ [obj]) ! i)) [0..<length (pre @ [obj])]"
      by (rule filter_cong) (auto simp: nth_append nth_Cons')
    ultimately show ?thesis by (simp add: hits_def del: upt_Suc)
  qed
  then obtain zs where zs: "hits ok (pre @ obj # objs) = hits ok (pre @ [obj]) @ zs" ..
  show ?case
  proof (cases "ok obj")
    case False
    with 2(1) [of "pre @ [obj]"] 2(4-7) show ?thesis by (simp add: step cong: if_cong)
  next
    case True
    show ?thesis
    proof (cases "room = 0")
      case True
      with \<open>ok obj\<close> 2(2) [of "pre @ [obj]"] 2(4-7) show ?thesis by (simp add: step cong: if_cong)
    next
      case False
      show ?thesis
      proof (cases "room \<le> Suc n")
        case True
        with False 2(5,7) have "room = Suc (length (hits ok pre))" by simp
        then have "take room (hits ok (pre @ obj # objs)) = hits ok pre @ [i]"
          unfolding zs step using \<open>ok obj\<close> by simp
        with True False \<open>ok obj\<close> 2(5,6) show ?thesis by simp
      next
        case more: False
        with False \<open>ok obj\<close> 2(3) [of "pre @ [obj]"] 2(4-7) show ?thesis by (simp add: step cong: if_cong)
      qed
    qed
  qed
qed

lemma search_loop_start:
  "search_loop ok room 0 objs 0 [] =
    (if room = 0 then (length (hits ok objs), []) else (length (take room (hits ok objs)), take room (hits ok objs)))"
  using search_loop_hits [of "[]" 0 0 ok "[]" room objs] by (auto simp: hits_def)

text \<open>On a card of which every directory file has been read, a search does not touch the card.\<close>

definition all_enumerated :: "'s p15 \<Rightarrow> bool" where
  "all_enumerated c \<longleftrightarrow> (\<forall>df \<in> set (p15_dfs c). df_enumerated df)"

lemma enumerate_nothing:
  "all_enumerated c \<Longrightarrow> \<forall>i \<in> set is. i < length (p15_dfs c) \<Longrightarrow> enumerate_dfs parse_df msk is c = c"
  by (induction "is") (auto simp: all_enumerated_def Let_def)

definition valid_type :: "u32 \<Rightarrow> bool" where
  "valid_type ty \<longleftrightarrow> ty \<noteq> 0 \<and> class_bit ty \<noteq> 0 \<and> class_bit ty AND NOT SC_PKCS15_SEARCH_CLASSES = 0"

definition selected :: "u32 \<Rightarrow> (p15_object \<Rightarrow> bool) \<Rightarrow> p15_object \<Rightarrow> bool" where
  "selected ty ok obj \<longleftrightarrow> type_matches (class_bit ty) ty obj \<and> ok obj"

lemma get_objects_result:
  assumes "all_enumerated c" and "valid_type ty"
  shows "sc_pkcs15_get_objects_cond parse_df ty (Some ok) room c =
    (let h = hits (selected ty ok) (p15_objs c)
     in (Inr (if room = 0 then (length h, []) else (length (take room h), take room h)), c))"
proof -
  have "enumerate_dfs parse_df m [0..<length (p15_dfs c)] c = c" for m
    by (rule enumerate_nothing [OF assms(1)]) simp
  with assms(2) show ?thesis
    by (auto simp: sc_pkcs15_get_objects_cond_def search_objects_def search_loop_start valid_type_def Let_def
        selected_def [abs_def])
qed

text \<open>The function returns the first object that has the type and agrees with every part of the key.\<close>

lemma find_by_key_result:
  assumes "all_enumerated c" and "valid_type ty"
  shows "find_by_key parse_df ty sk c =
    ((case find (\<lambda>i. selected ty (compare_obj_key sk) (p15_objs c ! i)) [0..<length (p15_objs c)] of
        None \<Rightarrow> Inl SC_ERROR_OBJECT_NOT_FOUND | Some i \<Rightarrow> Inr i), c)"
proof -
  let ?P = "\<lambda>i. selected ty (compare_obj_key sk) (p15_objs c ! i)"
  have "find_by_key parse_df ty sk c =
      ((if hits (selected ty (compare_obj_key sk)) (p15_objs c) = [] then Inl SC_ERROR_OBJECT_NOT_FOUND
        else Inr (hits (selected ty (compare_obj_key sk)) (p15_objs c) ! 0)), c)"
    by (simp add: find_by_key_def get_objects_result [OF assms] Let_def)
      (cases "hits (selected ty (compare_obj_key sk)) (p15_objs c)"; simp)
  moreover have "find ?P xs = (case filter ?P xs of [] \<Rightarrow> None | y # ys \<Rightarrow> Some y)" for xs
    by (induction xs) auto
  ultimately show ?thesis
    unfolding hits_def by (simp split: list.split)
qed

lemma find_index:
  "(\<exists>x. find (\<lambda>i. P (xs ! i)) [0..<length xs] = Some x) \<longleftrightarrow> (\<exists>i < length xs. P (xs ! i))"
  "find (\<lambda>i. P (xs ! i)) [0..<length xs] = Some x \<longleftrightarrow> x < length xs \<and> P (xs ! x) \<and> (\<forall>j < x. \<not> P (xs ! j))"
proof -
  show "find (\<lambda>i. P (xs ! i)) [0..<length xs] = Some x \<longleftrightarrow> x < length xs \<and> P (xs ! x) \<and> (\<forall>j < x. \<not> P (xs ! j))" for x
    by (auto simp: find_Some_iff)
  show "(\<exists>x. find (\<lambda>i. P (xs ! i)) [0..<length xs] = Some x) \<longleftrightarrow> (\<exists>i < length xs. P (xs ! i))"
    using find_None_iff [of "\<lambda>i. P (xs ! i)" "[0..<length xs]"] by (cases "find (\<lambda>i. P (xs ! i)) [0..<length xs]") auto
qed

text \<open>C33: when all directory files of the card have been read, a search by a key succeeds exactly when some
  object of the type (or class) agrees with the key; it returns the first such object in the
  order in which they were added, and it changes nothing and asks the card nothing.\<close>
theorem find_by_key_first:
  assumes "all_enumerated c" and "valid_type ty" and "find_by_key parse_df ty sk c = (r, c')"
  shows "c' = c \<and>
    (r = Inl SC_ERROR_OBJECT_NOT_FOUND \<longleftrightarrow> (\<forall>obj \<in> set (p15_objs c). \<not> selected ty (compare_obj_key sk) obj)) \<and>
    (\<forall>i. r = Inr i \<longleftrightarrow> i < length (p15_objs c) \<and> selected ty (compare_obj_key sk) (p15_objs c ! i) \<and>
           (\<forall>j < i. \<not> selected ty (compare_obj_key sk) (p15_objs c ! j)))"
proof -
  let ?f = "find (\<lambda>i. selected ty (compare_obj_key sk) (p15_objs c ! i)) [0..<length (p15_objs c)]"
  have r: "c' = c" "r = (case ?f of None \<Rightarrow> Inl SC_ERROR_OBJECT_NOT_FOUND | Some i \<Rightarrow> Inr i)"
    using assms(3) unfolding find_by_key_result [OF assms(1,2)] by auto
  have "?f = None \<longleftrightarrow> (\<forall>obj \<in> set (p15_objs c). \<not> selected ty (compare_obj_key sk) obj)"
    by (auto simp: find_None_iff all_set_conv_all_nth)
  moreover have "r = Inl SC_ERROR_OBJECT_NOT_FOUND \<longleftrightarrow> ?f = None" "r = Inr i \<longleftrightarrow> ?f = Some i" for i
    unfolding r(2) by (auto split: option.split)
  ultimately show ?thesis
    using r(1) find_index(2) [where P = "selected ty (compare_obj_key sk)" and xs = "p15_objs c"] by simp
qed

definition sample_certs :: "unit p15" where
  "sample_certs =
    \<lparr>p15_dfs = [\<lparr>df_path = zero_path, df_type = SC_PKCS15_CDF, df_enumerated = True\<rparr>],
     p15_objs = map (\<lambda>i. \<lparr>po_type = SC_PKCS15_TYPE_CERT_X509, po_label = [], po_flags = 0, po_auth_id = [],
       po_data = Cert_data \<lparr>ce_id = [i], ce_authority = 0, ce_path = zero_path\<rparr>, po_df = Some 0\<rparr>) [1, 2, 2],
     p15_unused = [], p15_unused_read = True, p15_app = None, p15_tokeninfo = zero_tokeninfo, p15_card = ()\<rparr>"

theorem find_by_key_first_witness:
  "\<exists>r c'. find_by_key (\<lambda>i. Pair (Inr ())) SC_PKCS15_TYPE_CERT (empty_key\<lparr>sk_id := Some [2]\<rparr>) sample_certs = (r, c') \<and>
    r = Inr 1 \<and> c' = sample_certs"
proof -
  obtain r c' where run: "find_by_key (\<lambda>i. Pair (Inr ())) SC_PKCS15_TYPE_CERT (empty_key\<lparr>sk_id := Some [2]\<rparr>) sample_certs = (r, c')"
    by (metis prod.exhaust)
  have "all_enumerated sample_certs" "valid_type SC_PKCS15_TYPE_CERT"
    by code_simp+
  note first = find_by_key_first [OF this run]
  have "\<not> selected SC_PKCS15_TYPE_CERT (compare_obj_key (empty_key\<lparr>sk_id := Some [2]\<rparr>)) (p15_objs sample_certs ! 0)"
    "selected SC_PKCS15_TYPE_CERT (compare_obj_key (empty_key\<lparr>sk_id := Some [2]\<rparr>)) (p15_objs sample_certs ! 1)"
    "1 < length (p15_objs sample_certs)"
    by code_simp+
  with first run show ?thesis by (auto simp: less_Suc_eq)
qed

section \<open>Absolute paths\<close>

definition sc_pkcs15_make_absolute_path :: "sc_path \<Rightarrow> sc_path \<Rightarrow> unit res \<times> sc_path" where
  "sc_pkcs15_make_absolute_path parent child =
    (if p_aid child \<noteq> [] then (Inr (), child)
     else if p_aid parent \<noteq> [] then
       let child = child\<lparr>p_aid := p_aid parent\<rparr> in
       if p_value parent = [] then (Inr (), child)
       else (case sc_concatenate_path (parent\<lparr>p_aid := [], p_type := SC_PATH_TYPE_FROM_CURRENT\<rparr>) child of
               Inl r \<Rightarrow> (Inl r, child) | Inr p \<Rightarrow> (Inr (), p))
     else if p_type parent = SC_PATH_TYPE_DF_NAME then
       (if length (p_value parent) > SC_MAX_AID_SIZE then (Inl SC_ERROR_WRONG_LENGTH, child)
        else (Inr (), child\<lparr>p_aid := p_value parent\<rparr>))
     else if p_value child = [] then (Inr (), child)
     else if sc_compare_path_prefix sc_get_mf_path child then (Inr (), child)
     else (case sc_concatenate_path parent child of Inl r \<Rightarrow> (Inl r, child) | Inr p \<Rightarrow> (Inr (), p)))"

text \<open>The application identifier that a child gets from a parent with one is lost again when the parent
  has a path too: the concatenation starts from an empty path.\<close>

lemma inherited_aid_lost:
  assumes "p_aid child = []" and "p_aid parent \<noteq> []" and "p_value parent \<noteq> []"
    and "sc_pkcs15_make_absolute_path parent child = (Inr (), p)"
  shows "p_aid p = []"
  using assms by (auto simp: sc_pkcs15_make_absolute_path_def sc_concatenate_path_def zero_path_def Let_def
      split: if_splits sum.splits)

text \<open>Below an application with a plain path from the master file, a path is made absolute once.\<close>

lemma make_absolute_idempotent:
  assumes "p_aid parent = []" and "p_type parent \<noteq> SC_PATH_TYPE_DF_NAME"
    and "sc_compare_path_prefix sc_get_mf_path parent"
    and "sc_pkcs15_make_absolute_path parent child = (Inr (), p)"
  shows "sc_pkcs15_make_absolute_path parent p = (Inr (), p) \<and>
    (p_aid p \<noteq> [] \<or> p_value p = [] \<or> sc_compare_path_prefix sc_get_mf_path p)"
  using assms
  by (auto simp: sc_pkcs15_make_absolute_path_def sc_concatenate_path_def zero_path_def Let_def
      sc_compare_path_prefix_def sc_compare_path_def sc_get_mf_path_def split: if_splits sum.splits)

section \<open>The object directory file\<close>

definition c_asn1_odf :: "asn1_entry list" where
  "c_asn1_odf =
    map (\<lambda>i. blank SC_ASN1_STRUCT ((SC_ASN1_CTX OR of_nat i) OR SC_ASN1_CONS) 0) [0, 1, 2, 3, 4, 5, 6, 7, 8]"

definition odf_indexes :: "nat list" where
  "odf_indexes =
    [SC_PKCS15_PRKDF, SC_PKCS15_PUKDF, SC_PKCS15_PUKDF_TRUSTED, SC_PKCS15_SKDF, SC_PKCS15_CDF, SC_PKCS15_CDF_TRUSTED,
     SC_PKCS15_CDF_USEFUL, SC_PKCS15_DODF, SC_PKCS15_AODF]"

definition c_asn1_obj_or_path :: asn1_entry where
  "c_asn1_obj_or_path = blank SC_ASN1_PATH SC_ASN1_TAG_SEQUENCE_CONS 0"

text \<open>All entries lead to the one variable, the path.\<close>

definition odf_entries :: "asn1_entry list" where
  "odf_entries =
     map (sc_format_asn1_entry (Parm_table [sc_format_asn1_entry (Parm_var 0) None False c_asn1_obj_or_path]) None False)
       c_asn1_odf"

text \<open>The loop over the records: each takes at least two bytes, so the length of the input is fuel enough. The path
  is set by every decoding that succeeds.\<close>

fun odf_loop :: "(nat \<Rightarrow> bytes option) \<Rightarrow> (string \<Rightarrow> bool) \<Rightarrow> nat \<Rightarrow> bytes \<Rightarrow> ('s p15, unit) prog" where
  "odf_loop malloc alloc 0 p c = ((if p = [] then Inr () else Inl OUT_OF_FUEL), c)"
| "odf_loop malloc alloc (Suc n) p c =
    (if p = [] then (Inr (), c)
     else case sc_asn1_decode_choice malloc odf_entries (Some p) [Path_cell zero_path] of
         (Inl r, _, _) \<Rightarrow> ((if r = SC_ERROR_ASN1_END_OF_CONTENTS then Inr () else Inl r), c)
       | (Inr (ty, off), _, m) \<Rightarrow>
          (case p15_app c of
             None \<Rightarrow> odf_loop malloc alloc n (drop off p) c
           | Some app \<Rightarrow>
              (case sc_pkcs15_make_absolute_path app (path_at m 0) of
                 (Inl r, _) \<Rightarrow> (Inl r, c)
               | (Inr _, path) \<Rightarrow> 
                    (case sc_pkcs15_add_df alloc (odf_indexes ! ty) path c of
                       (Inl r, c) \<Rightarrow> (Inl r, c)
                     | (Inr _, c) \<Rightarrow> odf_loop malloc alloc n (drop off p) c))))"

definition parse_odf :: "(nat \<Rightarrow> bytes option) \<Rightarrow> (string \<Rightarrow> bool) \<Rightarrow> bytes \<Rightarrow> ('s p15, unit) prog" where
  "parse_odf malloc alloc buf = odf_loop malloc alloc (length buf) buf"

definition odf_row :: "nat \<Rightarrow> p15_df \<Rightarrow> asn1_entry" where
  "odf_row a df =
     sc_format_asn1_entry (Parm_table [sc_format_asn1_entry (Parm_var a) None True c_asn1_obj_or_path]) None True
       (c_asn1_odf ! df_type df)"

definition odf_table :: "p15_df list \<Rightarrow> asn1_entry list" where
  "odf_table dfs =
     map (\<lambda>(a, df). odf_row a df) (filter (\<lambda>(a, df). df_type df \<in> set odf_indexes) (zip [0..<length dfs] dfs))"

abbreviation (input) sizeof_asn1_entry :: nat where "sizeof_asn1_entry \<equiv> 40"

definition sc_pkcs15_encode_odf :: "(nat \<Rightarrow> bytes option) \<Rightarrow> 's p15 \<Rightarrow> bytes res" where
  "sc_pkcs15_encode_odf malloc c =
    (let n = length (p15_dfs c) in
     if n = 0 then Inl SC_ERROR_OBJECT_NOT_FOUND
     else if malloc (sizeof_asn1_entry * (n + 1)) = None then Inl SC_ERROR_OUT_OF_MEMORY
     else if malloc (sizeof_asn1_entry * (n * 2)) = None then Inl SC_ERROR_OUT_OF_MEMORY
     else sc_asn1_encode malloc (Some (odf_table (p15_dfs c))) (map (\<lambda>df. Path_cell (df_path df)) (p15_dfs c)))"

section \<open>Unused space\<close>

definition c_asn1_unusedspace :: asn1_entry where
  "c_asn1_unusedspace = blank SC_ASN1_STRUCT SC_ASN1_TAG_SEQUENCE_CONS 0"

definition c_asn1_unusedspace_values :: "asn1_entry list" where
  "c_asn1_unusedspace_values =
    [blank SC_ASN1_PATH SC_ASN1_TAG_SEQUENCE_CONS 0, blank SC_ASN1_PKCS15_ID 4 SC_ASN1_OPTIONAL]"

definition unused_row :: "nat \<Rightarrow> unusedspace \<Rightarrow> asn1_entry" where
  "unused_row a us =
     sc_format_asn1_entry
       (Parm_table [sc_format_asn1_entry (Parm_var a) None True (c_asn1_unusedspace_values ! 0),
          sc_format_asn1_entry (Parm_var (Suc a)) None (us_auth_id us \<noteq> []) (c_asn1_unusedspace_values ! 1)])
       None True c_asn1_unusedspace"

definition dummy_path :: sc_path where
  "dummy_path = (sc_format_path ''3F00'')\<lparr>p_index := 0, p_count := 0\<rparr>"

text \<open>An empty list is written with a dummy record. In the end the only record is removed when its path is that
  of the dummy, also when it was not added here.\<close>

definition write_unusedspace :: "(nat \<Rightarrow> bytes option) \<Rightarrow> ('s p15, bytes) prog" where
  "write_unusedspace malloc c =
    (let us = p15_unused c; n = length us;
         r = (if malloc (sizeof_asn1_entry * (n + 1)) = None then Inl SC_ERROR_OUT_OF_MEMORY
              else if malloc (sizeof_asn1_entry * (n * 3)) = None then Inl SC_ERROR_OUT_OF_MEMORY
              else sc_asn1_encode malloc (Some (map (\<lambda>(i, u). unused_row (2 * i) u) (zip [0..<n] us)))
                     (concat (map (\<lambda>u. [Path_cell (us_path u), Id_cell (us_auth_id u)]) us)))
     in (r, if n = 1 \<and> sc_compare_path (us_path (us ! 0)) dummy_path then sc_pkcs15_remove_unusedspace 0 c else c))"

definition sc_pkcs15_encode_unusedspace ::
  "(nat \<Rightarrow> bytes option) \<Rightarrow> (string \<Rightarrow> bool) \<Rightarrow> ('s p15, bytes) prog" where
  "sc_pkcs15_encode_unusedspace malloc alloc c =
    (if p15_unused c = [] then
       (case sc_pkcs15_add_unusedspace alloc dummy_path [] c of
          (Inl r, c) \<Rightarrow> (Inl r, c) | (Inr _, c) \<Rightarrow> write_unusedspace malloc c)
     else write_unusedspace malloc c)"

definition unused_entries :: "asn1_entry list" where
  "unused_entries =
    [sc_format_asn1_entry
       (Parm_table [sc_format_asn1_entry (Parm_var 0) None True (c_asn1_unusedspace_values ! 0),
          sc_format_asn1_entry (Parm_var 1) None False (c_asn1_unusedspace_values ! 1)])
       None True c_asn1_unusedspace]"

fun unused_loop :: "(nat \<Rightarrow> bytes option) \<Rightarrow> (string \<Rightarrow> bool) \<Rightarrow> nat \<Rightarrow> bytes \<Rightarrow> ('s p15, unit) prog" where
  "unused_loop malloc alloc 0 p c = (if p = [] then (Inr (), c\<lparr>p15_unused_read := True\<rparr>) else (Inl OUT_OF_FUEL, c))"
| "unused_loop malloc alloc (Suc n) p c =
    (if p = [] then (Inr (), c\<lparr>p15_unused_read := True\<rparr>)
     else case sc_asn1_decode malloc unused_entries (Some p) [Path_cell zero_path, Id_cell []] of
         (Inl r, _, _) \<Rightarrow>
           if r = SC_ERROR_ASN1_END_OF_CONTENTS then (Inr (), c\<lparr>p15_unused_read := True\<rparr>) else (Inl r, c)
       | (Inr (_, off), _, m) \<Rightarrow>
          (case p15_app c of
             None \<Rightarrow> unused_loop malloc alloc n (drop off p) c
           | Some app \<Rightarrow>
              if p_count (path_at m 0) > 0 then
                (case sc_pkcs15_make_absolute_path app (path_at m 0) of
                   (Inl r, _) \<Rightarrow> (Inl r, c)
                 | (Inr _, path) \<Rightarrow>
                    (case sc_pkcs15_add_unusedspace alloc path (id_at m 1) c of
                       (Inl r, c) \<Rightarrow> (Inl r, c)
                     | (Inr _, c) \<Rightarrow> unused_loop malloc alloc n (drop off p) c))
              else unused_loop malloc alloc n (drop off p) c))"

definition sc_pkcs15_parse_unusedspace :: "(nat \<Rightarrow> bytes option) \<Rightarrow> (string \<Rightarrow> bool) \<Rightarrow> bytes \<Rightarrow> ('s p15, unit) prog" where
  "sc_pkcs15_parse_unusedspace malloc alloc buf c = unused_loop malloc alloc (length buf) buf (c\<lparr>p15_unused := []\<rparr>)"

section \<open>Reading and writing directory files\<close>

text \<open>
  The functions for the entries of a directory file are parameters: \<open>dec\<close> decodes the first entry of
  some bytes to an object, \<open>enc\<close> encodes an object; \<open>read_file\<close> is \<open>sc_pkcs15_read_file\<close>. The types for which
  the code has a decoder lack the trusted public keys, which it encodes.
\<close>

datatype df_codec = Prkdf_entry | Pukdf_entry | Skdf_entry | Cdf_entry | Dodf_entry | Aodf_entry

definition encoder_of :: "nat \<Rightarrow> df_codec option" where
  "encoder_of t =
    (if t = SC_PKCS15_PRKDF then Some Prkdf_entry
     else if t = SC_PKCS15_PUKDF \<or> t = SC_PKCS15_PUKDF_TRUSTED then Some Pukdf_entry
     else if t = SC_PKCS15_SKDF then Some Skdf_entry
     else if t = SC_PKCS15_CDF \<or> t = SC_PKCS15_CDF_TRUSTED \<or> t = SC_PKCS15_CDF_USEFUL then Some Cdf_entry
     else if t = SC_PKCS15_DODF then Some Dodf_entry
     else if t = SC_PKCS15_AODF then Some Aodf_entry else None)"

definition decoder_of :: "nat \<Rightarrow> df_codec option" where
  "decoder_of t =
    (if t = SC_PKCS15_PRKDF then Some Prkdf_entry
     else if t = SC_PKCS15_PUKDF then Some Pukdf_entry
     else if t = SC_PKCS15_SKDF then Some Skdf_entry
     else if t = SC_PKCS15_CDF \<or> t = SC_PKCS15_CDF_TRUSTED \<or> t = SC_PKCS15_CDF_USEFUL then Some Cdf_entry
     else if t = SC_PKCS15_DODF then Some Dodf_entry
     else if t = SC_PKCS15_AODF then Some Aodf_entry else None)"

fun encode_objects ::
  "(nat \<Rightarrow> bytes option) \<Rightarrow> (p15_object \<Rightarrow> bytes res) \<Rightarrow> bytes \<Rightarrow> p15_object list \<Rightarrow> bytes res" where
  "encode_objects malloc f buf [] = Inr buf"
| "encode_objects malloc f buf (obj # objs) =
    ebind (f obj) (\<lambda>tmp.
      if tmp = [] then encode_objects malloc f buf objs
      else if malloc (length buf + length tmp) = None then Inl SC_ERROR_OUT_OF_MEMORY
      else encode_objects malloc f (buf @ tmp) objs)"

definition sc_pkcs15_encode_df ::
  "(nat \<Rightarrow> bytes option) \<Rightarrow> (df_codec \<Rightarrow> p15_object \<Rightarrow> bytes res) \<Rightarrow> 's p15 \<Rightarrow> nat \<Rightarrow> bytes res" where
  "sc_pkcs15_encode_df malloc enc c i =
    (case encoder_of (df_type (p15_dfs c ! i)) of
       None \<Rightarrow> Inr []
     | Some f \<Rightarrow> encode_objects malloc (enc f) [] (filter (\<lambda>obj. po_df obj = Some i) (p15_objs c)))"

text \<open>An object is decoded into a fresh structure; zero bytes between entries are skipped.\<close>

fun entries_loop ::
  "(string \<Rightarrow> bool) \<Rightarrow> (bytes \<Rightarrow> ('s p15, p15_object \<times> bytes) prog) \<Rightarrow> nat \<Rightarrow> nat \<Rightarrow> bytes \<Rightarrow> ('s p15, unit) prog" where
  "entries_loop alloc f i 0 p c = ((if p = [] \<or> hd p = 0 then Inr () else Inl OUT_OF_FUEL), c)"
| "entries_loop alloc f i (Suc n) p c =
    (if p = [] \<or> hd p = 0 then (Inr (), c)
     else if \<not> alloc ''sc_pkcs15_object'' then (Inl SC_ERROR_OUT_OF_MEMORY, c)
     else case f p c of
         (Inl r, c) \<Rightarrow> ((if r = SC_ERROR_ASN1_END_OF_CONTENTS then Inr () else Inl r), c)
       | (Inr (obj, q), c) \<Rightarrow>
          entries_loop alloc f i n (dropWhile (\<lambda>b. b = 0) q) (sc_pkcs15_add_object (obj\<lparr>po_df := Some i\<rparr>) c))"

definition set_enumerated :: "nat \<Rightarrow> 's p15 \<Rightarrow> 's p15" where
  "set_enumerated i c = c\<lparr>p15_dfs := (p15_dfs c)[i := (p15_dfs c ! i)\<lparr>df_enumerated := True\<rparr>]\<rparr>"

definition sc_pkcs15_parse_df ::
  "(string \<Rightarrow> bool) \<Rightarrow> (sc_path \<Rightarrow> ('s p15, bytes) prog) \<Rightarrow> (df_codec \<Rightarrow> bytes \<Rightarrow> ('s p15, p15_object \<times> bytes) prog) \<Rightarrow>
   nat \<Rightarrow> ('s p15, unit) prog" where
  "sc_pkcs15_parse_df alloc read_file dec i c =
    (let df = p15_dfs c ! i in
     if df_enumerated df then (Inr (), c)
     else case decoder_of (df_type df) of
         None \<Rightarrow> (Inl SC_ERROR_INVALID_ARGUMENTS, c)
       | Some f \<Rightarrow>
          (case read_file (df_path df) c of
             (Inl r, c) \<Rightarrow> (Inl r, c)
           | (Inr buf, c) \<Rightarrow>
              (case entries_loop alloc (dec f) i (length buf) buf c of (r, c) \<Rightarrow> (r, set_enumerated i c))))"

text \<open>The objects of a file of trusted public keys are never found: its type has no decoder.\<close>

lemma trusted_keys_not_read:
  "df_type (p15_dfs c ! i) = SC_PKCS15_PUKDF_TRUSTED \<Longrightarrow> \<not> df_enumerated (p15_dfs c ! i) \<Longrightarrow>
   sc_pkcs15_parse_df alloc read_file dec i c = (Inl SC_ERROR_INVALID_ARGUMENTS, c)"
  by (simp add: sc_pkcs15_parse_df_def decoder_of_def Let_def)

text \<open>Writing the list of unused space removes its only record when that starts at the master file.\<close>

lemma only_record_removed:
  "p15_unused c = [us] \<Longrightarrow> sc_compare_path (us_path us) dummy_path \<Longrightarrow>
   p15_unused (snd (sc_pkcs15_encode_unusedspace malloc alloc c)) = []"
  by (simp add: sc_pkcs15_encode_unusedspace_def write_unusedspace_def sc_pkcs15_remove_unusedspace_def Let_def)

end
