(* ===== verification/Sc_Emu.thy ===== *)
theory Sc_Emu
  imports Sc_P15 Sc_StarSign
begin

text \<open>
  The emulation of PKCS#15 for cards without such a structure (\<open>libopensc/pkcs15-syn.c\<close>), and the profile of
  the StarSign token (\<open>libopensc/pkcs15-starsign.c\<close>): two PINs, four certificates and two private keys that the driver
  adds itself, and the token information that it reads from the card.

  \<open>alloc\<close> says whether the memory for a structure of that name can be had. The data of an object, which C
  copies through an untyped pointer, is given with its constructor.
\<close>

section \<open>Emulated objects\<close>

abbreviation (input) SC_PKCS15_PRKEY_ACCESS_SENSITIVE :: u32 where "SC_PKCS15_PRKEY_ACCESS_SENSITIVE \<equiv> 0x01"
abbreviation (input) SC_PKCS15_PRKEY_ACCESS_EXTRACTABLE :: u32 where "SC_PKCS15_PRKEY_ACCESS_EXTRACTABLE \<equiv> 0x02"
abbreviation (input) SC_PKCS15_PRKEY_ACCESS_ALWAYSSENSITIVE :: u32 where "SC_PKCS15_PRKEY_ACCESS_ALWAYSSENSITIVE \<equiv> 0x04"
abbreviation (input) SC_PKCS15_PRKEY_ACCESS_NEVEREXTRACTABLE :: u32 where "SC_PKCS15_PRKEY_ACCESS_NEVEREXTRACTABLE \<equiv> 0x08"
abbreviation (input) SC_PKCS15_PRKEY_ACCESS_LOCAL :: u32 where "SC_PKCS15_PRKEY_ACCESS_LOCAL \<equiv> 0x10"

text \<open>The directory file of a type: the one there is, or a new one with a path that no card has, which counts as read.\<close>

definition find_df :: "nat \<Rightarrow> 's p15 \<Rightarrow> nat option" where
  "find_df type c = find (\<lambda>i. df_type (p15_dfs c ! i) = type) [0..<length (p15_dfs c)]"

definition sc_pkcs15emu_get_df :: "(string \<Rightarrow> bool) \<Rightarrow> nat \<Rightarrow> 's p15 \<Rightarrow> nat option \<times> 's p15" where
  "sc_pkcs15emu_get_df alloc type c =
    (case find_df type c of
       Some i \<Rightarrow> (Some i, c)
     | None \<Rightarrow>
        if \<not> alloc ''sc_file'' then (None, c)
        else
          let c = snd (sc_pkcs15_add_df alloc type (sc_format_path ''11001101'') c)
          in (case find_df type c of
                Some i \<Rightarrow> (Some i, set_enumerated i c)
              | None \<Rightarrow> (None, c)))"

text \<open>The directory and the size of the data by the class of the type.\<close>

definition df_and_data :: "u32 \<Rightarrow> (nat \<times> string) option" where
  "df_and_data type =
    (let cls = type AND SC_PKCS15_TYPE_CLASS_MASK in
     if cls = SC_PKCS15_TYPE_AUTH then Some (SC_PKCS15_AODF, ''sc_pkcs15_auth_info'')
     else if cls = SC_PKCS15_TYPE_PRKEY then Some (SC_PKCS15_PRKDF, ''sc_pkcs15_prkey_info'')
     else if cls = SC_PKCS15_TYPE_PUBKEY then Some (SC_PKCS15_PUKDF, ''sc_pkcs15_pubkey_info'')
     else if cls = SC_PKCS15_TYPE_CERT then Some (SC_PKCS15_CDF, ''sc_pkcs15_cert_info'')
     else if cls = SC_PKCS15_TYPE_DATA_OBJECT then Some (SC_PKCS15_DODF, ''sc_pkcs15_data_info'')
     else None)"

definition sc_pkcs15emu_object_add ::
  "(string \<Rightarrow> bool) \<Rightarrow> u32 \<Rightarrow> p15_object \<Rightarrow> obj_data \<Rightarrow> ('s p15, unit) prog" where
  "sc_pkcs15emu_object_add alloc type in_obj data c =
    (if \<not> alloc ''sc_pkcs15_object'' then (Inl SC_ERROR_OUT_OF_MEMORY, c)
     else case df_and_data type of
         None \<Rightarrow> (Inl SC_ERROR_INVALID_ARGUMENTS, c)
       | Some (dft, data_struct) \<Rightarrow>
          if \<not> alloc data_struct then (Inl SC_ERROR_OUT_OF_MEMORY, c)
          else
            let (df, c) = sc_pkcs15emu_get_df alloc dft c
            in (Inr (), sc_pkcs15_add_object (in_obj\<lparr>po_type := type, po_data := data, po_df := df\<rparr>) c))"

definition sc_pkcs15emu_add_pin_obj :: "(string \<Rightarrow> bool) \<Rightarrow> p15_object \<Rightarrow> auth_info \<Rightarrow> ('s p15, unit) prog" where
  "sc_pkcs15emu_add_pin_obj alloc obj in_pin =
    (let pin = in_pin\<lparr>au_auth_type := SC_PKCS15_PIN_AUTH_TYPE_PIN\<rparr>;
         pin = (if au_auth_method pin = 0 then pin\<lparr>au_auth_method := 1\<rparr> else pin)
     in sc_pkcs15emu_object_add alloc SC_PKCS15_TYPE_AUTH_PIN obj (Auth_data pin))"

text \<open>The access flags that a key gets when it has none.\<close>

definition prkey_defaults :: "key_info \<Rightarrow> key_info" where
  "prkey_defaults key =
    (if ke_access_flags key = 0
     then key\<lparr>ke_access_flags := ((SC_PKCS15_PRKEY_ACCESS_SENSITIVE OR SC_PKCS15_PRKEY_ACCESS_ALWAYSSENSITIVE)
            OR SC_PKCS15_PRKEY_ACCESS_NEVEREXTRACTABLE) OR SC_PKCS15_PRKEY_ACCESS_LOCAL\<rparr>
     else key)"

definition pubkey_defaults :: "key_info \<Rightarrow> key_info" where
  "pubkey_defaults key =
    (if ke_access_flags key = 0 then key\<lparr>ke_access_flags := SC_PKCS15_PRKEY_ACCESS_EXTRACTABLE\<rparr> else key)"

definition sc_pkcs15emu_add_rsa_prkey :: "(string \<Rightarrow> bool) \<Rightarrow> p15_object \<Rightarrow> key_info \<Rightarrow> ('s p15, unit) prog" where
  "sc_pkcs15emu_add_rsa_prkey alloc obj key =
     sc_pkcs15emu_object_add alloc SC_PKCS15_TYPE_PRKEY_RSA obj (Prkey_data (prkey_defaults key))"

definition sc_pkcs15emu_add_rsa_pubkey :: "(string \<Rightarrow> bool) \<Rightarrow> p15_object \<Rightarrow> key_info \<Rightarrow> ('s p15, unit) prog" where
  "sc_pkcs15emu_add_rsa_pubkey alloc obj key =
     sc_pkcs15emu_object_add alloc SC_PKCS15_TYPE_PUBKEY_RSA obj (Pubkey_data (pubkey_defaults key))"

definition sc_pkcs15emu_add_ec_prkey :: "(string \<Rightarrow> bool) \<Rightarrow> p15_object \<Rightarrow> key_info \<Rightarrow> ('s p15, unit) prog" where
  "sc_pkcs15emu_add_ec_prkey alloc obj key =
     sc_pkcs15emu_object_add alloc SC_PKCS15_TYPE_PRKEY_EC obj (Prkey_data (prkey_defaults key))"

definition sc_pkcs15emu_add_ec_pubkey :: "(string \<Rightarrow> bool) \<Rightarrow> p15_object \<Rightarrow> key_info \<Rightarrow> ('s p15, unit) prog" where
  "sc_pkcs15emu_add_ec_pubkey alloc obj key =
     sc_pkcs15emu_object_add alloc SC_PKCS15_TYPE_PUBKEY_EC obj (Pubkey_data (pubkey_defaults key))"

definition sc_pkcs15emu_add_eddsa_prkey :: "(string \<Rightarrow> bool) \<Rightarrow> p15_object \<Rightarrow> key_info \<Rightarrow> ('s p15, unit) prog" where
  "sc_pkcs15emu_add_eddsa_prkey alloc obj key =
     sc_pkcs15emu_object_add alloc SC_PKCS15_TYPE_PRKEY_EDDSA obj (Prkey_data (prkey_defaults key))"

definition sc_pkcs15emu_add_eddsa_pubkey :: "(string \<Rightarrow> bool) \<Rightarrow> p15_object \<Rightarrow> key_info \<Rightarrow> ('s p15, unit) prog" where
  "sc_pkcs15emu_add_eddsa_pubkey alloc obj key =
     sc_pkcs15emu_object_add alloc SC_PKCS15_TYPE_PUBKEY_EDDSA obj (Pubkey_data (pubkey_defaults key))"

definition sc_pkcs15emu_add_xeddsa_prkey :: "(string \<Rightarrow> bool) \<Rightarrow> p15_object \<Rightarrow> key_info \<Rightarrow> ('s p15, unit) prog" where
  "sc_pkcs15emu_add_xeddsa_prkey alloc obj key =
     sc_pkcs15emu_object_add alloc SC_PKCS15_TYPE_PRKEY_XEDDSA obj (Prkey_data (prkey_defaults key))"

definition sc_pkcs15emu_add_xeddsa_pubkey :: "(string \<Rightarrow> bool) \<Rightarrow> p15_object \<Rightarrow> key_info \<Rightarrow> ('s p15, unit) prog" where
  "sc_pkcs15emu_add_xeddsa_pubkey alloc obj key =
     sc_pkcs15emu_object_add alloc SC_PKCS15_TYPE_PUBKEY_XEDDSA obj (Pubkey_data (pubkey_defaults key))"

definition sc_pkcs15emu_add_x509_cert :: "(string \<Rightarrow> bool) \<Rightarrow> p15_object \<Rightarrow> cert_info \<Rightarrow> ('s p15, unit) prog" where
  "sc_pkcs15emu_add_x509_cert alloc obj cert =
     sc_pkcs15emu_object_add alloc SC_PKCS15_TYPE_CERT_X509 obj (Cert_data cert)"

definition sc_pkcs15emu_add_data_object :: "(string \<Rightarrow> bool) \<Rightarrow> p15_object \<Rightarrow> data_info \<Rightarrow> ('s p15, unit) prog" where
  "sc_pkcs15emu_add_data_object alloc obj data =
     sc_pkcs15emu_object_add alloc SC_PKCS15_TYPE_DATA_OBJECT obj (Data_data data)"

section \<open>The StarSign token\<close>

text \<open>A structure in C starts as zeros; the data of an object is set when it is added.\<close>

definition zero_object :: p15_object where
  "zero_object = \<lparr>po_type = 0, po_label = [], po_flags = 0, po_auth_id = [],
     po_data = Cert_data \<lparr>ce_id = [], ce_authority = 0, ce_path = zero_path\<rparr>, po_df = None\<rparr>"

definition starsign_id_current :: p15_id where
  "starsign_id_current = [1]"

definition starsign_id_legacy :: p15_id where
  "starsign_id_legacy = [2]"

definition starsign_certs :: "(string \<times> string) list" where
  "starsign_certs =
    [(''3f0043020114'', ''Signature Certificate''),
     (''3f00430205a0'', ''Intermediate CA Certificate 1''),
     (''3f00430213ae'', ''Intermediate CA Certificate 2''),
     (''3f0043021371'', ''Root CA Certificate'')]"

definition on_card :: "('s, 'a) prog \<Rightarrow> ('s p15, 'a) prog" where
  "on_card f c = (case f (p15_card c) of (r, k) \<Rightarrow> (r, c\<lparr>p15_card := k\<rparr>))"

text \<open>\<open>sel\<close> and \<open>rd\<close> are the entries for selection and reading in the operations of the card.\<close>

definition starsign_read_tokeninfo ::
  "(nat \<Rightarrow> bytes option) \<Rightarrow> ('r, 'd) sc_ops \<Rightarrow>
   (sc_path \<Rightarrow> bool \<Rightarrow> (('r, 'd) sc_card, sc_file option) prog) option \<Rightarrow> ('r, 'd) reader_op option \<Rightarrow>
   (('r, 'd) sc_card p15, unit) prog" where
  "starsign_read_tokeninfo malloc ops sel rd =
     sbind (on_card (sc_select_file sel (sc_format_path ''3f005032'') False)) (\<lambda>_.
     sbind (on_card (sc_read_binary ops rd 0 (Some (replicate 512 0)) 512)) (\<lambda>(n, buf) c.
       case sc_pkcs15_parse_tokeninfo malloc (take n buf) (p15_tokeninfo c) of
         (r, ti) \<Rightarrow> (r, c\<lparr>p15_tokeninfo := ti\<rparr>)))"

text \<open>The flags that both PINs have: case sensitive, local, initialized, needs padding, disable allowed, exchange of reference data.\<close>

definition starsign_pin :: "p15_id \<Rightarrow> int \<Rightarrow> u32 \<Rightarrow> auth_info" where
  "starsign_pin auth_id reference flags =
    \<lparr>au_auth_id = auth_id, au_path = sc_format_path ''3f00'', au_auth_type = SC_PKCS15_PIN_AUTH_TYPE_PIN,
     au_pin = \<lparr>pa_flags = flags, pa_type = 1, pa_min_length = 4, pa_stored_length = 15, pa_max_length = 15,
       pa_reference = reference, pa_pad_char = 0\<rparr>,
     au_auth_method = 0, au_tries_left = - 1, au_max_tries = - 1\<rparr>"

definition so_pin_flags :: u32 where
  "so_pin_flags = (((((0x01 OR 0x02) OR 0x10) OR 0x20) OR 0x80) OR 0x100) OR 0x800"

definition user_pin_flags :: u32 where
  "user_pin_flags = ((((0x01 OR 0x02) OR 0x10) OR 0x20) OR 0x100) OR 0x800"

definition so_pin_obj :: p15_object where
  "so_pin_obj = zero_object\<lparr>po_flags := 0x01 OR 0x02, po_label := ''SO Pin''\<rparr>"

definition user_pin_obj :: p15_object where
  "user_pin_obj = zero_object\<lparr>po_auth_id := [1], po_flags := 0x01 OR 0x02, po_label := ''User Pin''\<rparr>"

definition starsign_add_pins :: "(string \<Rightarrow> bool) \<Rightarrow> ('s p15, unit) prog" where
  "starsign_add_pins alloc =
     sbind (sc_pkcs15emu_add_pin_obj alloc user_pin_obj (starsign_pin [2] 2 user_pin_flags)) (\<lambda>_.
       sc_pkcs15emu_add_pin_obj alloc so_pin_obj (starsign_pin [1] 1 so_pin_flags))"

definition starsign_cert :: "nat \<Rightarrow> p15_object \<times> cert_info" where
  "starsign_cert i =
    (zero_object\<lparr>po_label := snd (starsign_certs ! i), po_flags := 0x02\<rparr>,
     \<lparr>ce_id = (if i = 0 then starsign_id_current else [of_nat (2 + i)]), ce_authority = 0,
      ce_path = sc_format_path (fst (starsign_certs ! i))\<rparr>)"

primrec add_certs :: "(string \<Rightarrow> bool) \<Rightarrow> nat list \<Rightarrow> ('s p15, unit) prog" where
  "add_certs alloc [] = sret ()"
| "add_certs alloc (i # is) =
     sbind (case starsign_cert i of (obj, cert) \<Rightarrow> sc_pkcs15emu_add_x509_cert alloc obj cert) (\<lambda>_. add_certs alloc is)"

definition starsign_add_certs :: "(string \<Rightarrow> bool) \<Rightarrow> ('s p15, unit) prog" where
  "starsign_add_certs alloc = add_certs alloc [0, 1, 2, 3]"

definition starsign_prkey :: "p15_id \<Rightarrow> u32 \<Rightarrow> int \<Rightarrow> key_info" where
  "starsign_prkey v access_flags reference =
    \<lparr>ke_id = v, ke_usage = ((0x02 OR 0x04) OR 0x08) OR 0x20, ke_access_flags = access_flags, ke_native = 1,
     ke_reference = reference, ke_modulus_length = 2048, ke_path = zero_path\<rparr>"

definition starsign_prkey_obj :: "string \<Rightarrow> p15_object" where
  "starsign_prkey_obj label = zero_object\<lparr>po_auth_id := [2], po_flags := 0x01 OR 0x02, po_label := label\<rparr>"

definition starsign_add_keys :: "(string \<Rightarrow> bool) \<Rightarrow> ('s p15, unit) prog" where
  "starsign_add_keys alloc =
     sbind (sc_pkcs15emu_add_rsa_prkey alloc (starsign_prkey_obj ''Signature Key'')
              (starsign_prkey starsign_id_current
                (SC_PKCS15_PRKEY_ACCESS_SENSITIVE OR SC_PKCS15_PRKEY_ACCESS_EXTRACTABLE) 1)) (\<lambda>_.
       sc_pkcs15emu_add_rsa_prkey alloc (starsign_prkey_obj ''Legacy Key'')
         (starsign_prkey starsign_id_legacy
           (((SC_PKCS15_PRKEY_ACCESS_SENSITIVE OR SC_PKCS15_PRKEY_ACCESS_EXTRACTABLE)
              OR SC_PKCS15_PRKEY_ACCESS_ALWAYSSENSITIVE) OR SC_PKCS15_PRKEY_ACCESS_LOCAL) 0))"

definition sc_pkcs15emu_starsign_init ::
  "(nat \<Rightarrow> bytes option) \<Rightarrow> (string \<Rightarrow> bool) \<Rightarrow> ('r, 'd) sc_ops \<Rightarrow>
   (sc_path \<Rightarrow> bool \<Rightarrow> (('r, 'd) sc_card, sc_file option) prog) option \<Rightarrow> ('r, 'd) reader_op option \<Rightarrow>
   (('r, 'd) sc_card p15, unit) prog" where
  "sc_pkcs15emu_starsign_init malloc alloc ops sel rd =
     sbind (starsign_read_tokeninfo malloc ops sel rd) (\<lambda>_.
     sbind (starsign_add_pins alloc) (\<lambda>_.
     sbind (starsign_add_certs alloc) (\<lambda>_.
       starsign_add_keys alloc)))"

definition sc_pkcs15emu_starsign_init_ex ::
  "(nat \<Rightarrow> bytes option) \<Rightarrow> (string \<Rightarrow> bool) \<Rightarrow> ('r, 'd) sc_ops \<Rightarrow>
   (sc_path \<Rightarrow> bool \<Rightarrow> (('r, 'd) sc_card, sc_file option) prog) option \<Rightarrow> ('r, 'd) reader_op option \<Rightarrow>
   (('r, 'd) sc_card p15, unit) prog" where
  "sc_pkcs15emu_starsign_init_ex malloc alloc ops sel rd c =
    (if c_type (p15_card c) = SC_CARD_TYPE_STARSIGN then sc_pkcs15emu_starsign_init malloc alloc ops sel rd c
     else (Inl SC_ERROR_WRONG_CARD, c))"

section \<open>What is kept\<close>

text \<open>
  The invariant of the emulation: one directory file of a type, each counts as read, and every object has the data
  of its type and the directory file for it (or none, when memory ran out).
\<close>

definition filed :: "p15_df list \<Rightarrow> p15_object \<Rightarrow> bool" where
  "filed dfs obj \<longleftrightarrow> typed obj \<and>
    (case po_df obj of
       None \<Rightarrow> True
     | Some i \<Rightarrow> i < length dfs \<and> map_option fst (df_and_data (po_type obj)) = Some (df_type (dfs ! i)))"

definition emulated :: "'s p15 \<Rightarrow> bool" where
  "emulated c \<longleftrightarrow> distinct (map df_type (p15_dfs c)) \<and> all_enumerated c \<and> (\<forall>obj \<in> set (p15_objs c). filed (p15_dfs c) obj)"

abbreviation emulated_df :: "nat \<Rightarrow> p15_df" where
  "emulated_df t \<equiv> \<lparr>df_path = sc_format_path ''11001101'', df_type = t, df_enumerated = True\<rparr>"

lemma find_df_Some: "find_df t c = Some i \<longleftrightarrow> i < length (p15_dfs c) \<and> df_type (p15_dfs c ! i) = t \<and> (\<forall>j < i. df_type (p15_dfs c ! j) \<noteq> t)"
  by (auto simp: find_df_def find_Some_iff)

lemma find_df_None: "find_df t c = None \<longleftrightarrow> t \<notin> df_type ` set (p15_dfs c)"
  by (auto simp: find_df_def find_None_iff set_conv_nth)

lemma find_df_new:
  "find_df t c = None \<Longrightarrow> find_df t (c\<lparr>p15_dfs := p15_dfs c @ [\<lparr>df_path = p, df_type = t, df_enumerated = e\<rparr>]\<rparr>) = Some (length (p15_dfs c))"
  by (auto simp: find_df_Some find_df_None nth_append)

text \<open>The directory file is an old one, a new one at the end, or none when there is no memory for it.\<close>

lemma get_df_result:
  "sc_pkcs15emu_get_df alloc t c =
    (case find_df t c of
       Some i \<Rightarrow> (Some i, c)
     | None \<Rightarrow>
        if alloc ''sc_file'' \<and> alloc ''sc_pkcs15_df''
        then (Some (length (p15_dfs c)), c\<lparr>p15_dfs := p15_dfs c @ [emulated_df t]\<rparr>)
        else (None, c))"
  by (auto simp: sc_pkcs15emu_get_df_def sc_pkcs15_add_df_def find_df_new set_enumerated_def Let_def split: option.split)

lemma get_df_memory: "\<forall>s. alloc s \<Longrightarrow> fst (sc_pkcs15emu_get_df alloc t c) \<noteq> None"
  by (simp add: get_df_result split: option.split)

lemma filed_more: "filed dfs obj \<Longrightarrow> filed (dfs @ others) obj"
  by (auto simp: filed_def nth_append split: option.splits)

lemma get_df_emulated:
  assumes "emulated c" and "sc_pkcs15emu_get_df alloc t c = (df, c')"
  shows "emulated c' \<and> p15_objs c' = p15_objs c \<and> (\<exists>others. p15_dfs c' = p15_dfs c @ others) \<and>
    (case df of None \<Rightarrow> True | Some i \<Rightarrow> i < length (p15_dfs c') \<and> df_type (p15_dfs c' ! i) = t)"
proof (cases "find_df t c")
  case None
  with assms show ?thesis
    by (auto simp: get_df_result emulated_def all_enumerated_def find_df_None filed_more split: if_splits)
next
  case (Some i)
  with assms(2) have "df = Some i" "c' = c" by (auto simp: get_df_result)
  with assms(1) Some show ?thesis by (simp add: find_df_Some)
qed

lemma filed_typed: "typed (obj\<lparr>po_df := df\<rparr>) \<longleftrightarrow> typed obj" "typed (obj\<lparr>po_flags := f\<rparr>) \<longleftrightarrow> typed obj"
  by (simp_all add: typed_def obj_class_def)

text \<open>C34: an object that the emulation adds is put last, with its type, its data and the directory file for its class; what
  was there stays, there is never a second directory file of a type, all count as read, and a failure changes
  nothing: a type that no directory takes, or no memory.\<close>
theorem emulated_object_added:
  assumes "emulated c" and "type AND SC_PKCS15_TYPE_CLASS_MASK = class_of_data data"
    and "sc_pkcs15emu_object_add alloc type obj data c = (r, c')"
  shows "emulated c' \<and>
    (case r of
       Inl e \<Rightarrow> c' = c \<and> (e = SC_ERROR_OUT_OF_MEMORY \<or> e = SC_ERROR_INVALID_ARGUMENTS \<and> df_and_data type = None)
     | Inr _ \<Rightarrow> take (length (p15_dfs c)) (p15_dfs c') = p15_dfs c \<and>
         (\<exists>df. p15_objs c' = p15_objs c @ [obj\<lparr>po_type := type, po_data := data, po_df := df\<rparr>] \<and>
           ((\<forall>s. alloc s) \<longrightarrow> df \<noteq> None)))"
proof (cases "\<not> alloc ''sc_pkcs15_object'' \<or> df_and_data type = None \<or> (\<exists>t s. df_and_data type = Some (t, s) \<and> \<not> alloc s)")
  case True
  with assms(1,3) show ?thesis by (auto simp: sc_pkcs15emu_object_add_def split: if_splits)
next
  case False
  then obtain t s where t: "df_and_data type = Some (t, s)" "alloc s" "alloc ''sc_pkcs15_object''" by auto
  obtain df c1 where get: "sc_pkcs15emu_get_df alloc t c = (df, c1)" by (cases "sc_pkcs15emu_get_df alloc t c")
  let ?obj = "obj\<lparr>po_type := type, po_data := data, po_df := df\<rparr>"
  have run: "r = Inr ()" "c' = c1\<lparr>p15_objs := p15_objs c1 @ [?obj]\<rparr>"
    using assms(3) t get by (simp_all add: sc_pkcs15emu_object_add_def sc_pkcs15_add_object_def)
  note kept = get_df_emulated [OF assms(1) get]
  have "filed (p15_dfs c1) ?obj"
    using kept assms(2) t(1) by (auto simp: filed_def typed_def obj_class_def split: option.splits)
  moreover have "df \<noteq> None" if "\<forall>s. alloc s"
    using get_df_memory [OF that, of t c] get by simp
  ultimately show ?thesis
    using kept run by (auto simp: emulated_def all_enumerated_def)
qed

section \<open>The profile\<close>

text \<open>With memory, an object goes to the directory file of its class, which is put at the end when it is not there.\<close>

definition df_for :: "nat \<Rightarrow> p15_df list \<Rightarrow> nat \<times> p15_df list" where
  "df_for t dfs =
    (case find (\<lambda>i. df_type (dfs ! i) = t) [0..<length dfs] of
       Some i \<Rightarrow> (i, dfs) | None \<Rightarrow> (length dfs, dfs @ [emulated_df t]))"

lemma object_add_memory:
  assumes "\<forall>s. alloc s" and "df_and_data type = Some (t, s)"
  shows "sc_pkcs15emu_object_add alloc type obj data c =
    (case df_for t (p15_dfs c) of
       (i, dfs) \<Rightarrow> (Inr (), c\<lparr>p15_dfs := dfs, p15_objs := p15_objs c @ [obj\<lparr>po_type := type, po_data := data, po_df := Some i\<rparr>]\<rparr>))"
  using assms
  by (auto simp: sc_pkcs15emu_object_add_def get_df_result df_for_def find_df_def sc_pkcs15_add_object_def split: option.splits)

text \<open>The objects of the profile, in the order in which they are added.\<close>

definition profile_pin :: "p15_object \<Rightarrow> auth_info \<Rightarrow> p15_object" where
  "profile_pin obj pin = obj\<lparr>po_type := SC_PKCS15_TYPE_AUTH_PIN, po_data := Auth_data (pin\<lparr>au_auth_method := 1\<rparr>), po_df := Some 0\<rparr>"

definition profile_cert :: "nat \<Rightarrow> p15_object" where
  "profile_cert i = (fst (starsign_cert i))\<lparr>po_type := SC_PKCS15_TYPE_CERT_X509, po_data := Cert_data (snd (starsign_cert i)), po_df := Some 1\<rparr>"

definition profile_key :: "string \<Rightarrow> key_info \<Rightarrow> p15_object" where
  "profile_key label key =
     (starsign_prkey_obj label)\<lparr>po_type := SC_PKCS15_TYPE_PRKEY_RSA, po_data := Prkey_data key, po_df := Some 2\<rparr>"

definition starsign_objects :: "p15_object list" where
  "starsign_objects =
    [profile_pin user_pin_obj (starsign_pin [2] 2 0x933), profile_pin so_pin_obj (starsign_pin [1] 1 0x9B3),
     profile_cert 0, profile_cert 1, profile_cert 2, profile_cert 3,
     profile_key ''Signature Key'' (starsign_prkey [1] 0x03 1), profile_key ''Legacy Key'' (starsign_prkey [2] 0x17 0)]"

lemma pins_added:
  assumes "\<forall>s. alloc s" and "p15_dfs c = []" and "p15_objs c = []"
  shows "starsign_add_pins alloc c =
    (Inr (), c\<lparr>p15_dfs := [emulated_df SC_PKCS15_AODF], p15_objs := take 2 starsign_objects\<rparr>)"
  using assms(2,3)
  by (simp add: starsign_add_pins_def sbind_def sc_pkcs15emu_add_pin_obj_def starsign_pin_def Let_def
      object_add_memory [OF assms(1)] df_and_data_def df_for_def starsign_objects_def profile_pin_def
      user_pin_flags_def so_pin_flags_def)

lemma certs_added:
  assumes "\<forall>s. alloc s" and "p15_dfs c = [emulated_df SC_PKCS15_AODF]"
  shows "starsign_add_certs alloc c =
    (Inr (), c\<lparr>p15_dfs := [emulated_df SC_PKCS15_AODF, emulated_df SC_PKCS15_CDF],
       p15_objs := p15_objs c @ map profile_cert [0, 1, 2, 3]\<rparr>)"
  using assms(2)
  by (simp add: starsign_add_certs_def sbind_def sc_pkcs15emu_add_x509_cert_def case_prod_beta
      object_add_memory [OF assms(1)] df_and_data_def df_for_def profile_cert_def)

lemma keys_added:
  assumes "\<forall>s. alloc s" and "p15_dfs c = [emulated_df SC_PKCS15_AODF, emulated_df SC_PKCS15_CDF]"
  shows "starsign_add_keys alloc c =
    (Inr (), c\<lparr>p15_dfs := [emulated_df SC_PKCS15_AODF, emulated_df SC_PKCS15_CDF, emulated_df SC_PKCS15_PRKDF],
       p15_objs := p15_objs c @ drop 6 starsign_objects\<rparr>)"
  using assms(2)
  by (simp add: starsign_add_keys_def sbind_def sc_pkcs15emu_add_rsa_prkey_def prkey_defaults_def
      object_add_memory [OF assms(1)] df_and_data_def df_for_def starsign_objects_def profile_key_def starsign_prkey_def
      starsign_id_current_def starsign_id_legacy_def)

lemma read_tokeninfo_keeps:
  assumes "starsign_read_tokeninfo malloc ops sel rd c = (r, c')"
  shows "p15_dfs c' = p15_dfs c \<and> p15_objs c' = p15_objs c"
  using assms
  by (auto simp: starsign_read_tokeninfo_def sbind_def on_card_def split: prod.splits sum.splits)

lemma profile_set_up:
  assumes "\<forall>s. alloc s" and "p15_dfs c = []" and "p15_objs c = []"
    and "sc_pkcs15emu_starsign_init malloc alloc ops sel rd c = (Inr (), c')"
  shows "p15_objs c' = starsign_objects" "all_enumerated c'"
proof -
  obtain r c1 where c1: "starsign_read_tokeninfo malloc ops sel rd c = (r, c1)"
    by (cases "starsign_read_tokeninfo malloc ops sel rd c")
  with assms(4) have "r = Inr ()" by (cases r) (simp_all add: sc_pkcs15emu_starsign_init_def sbind_def)
  moreover from read_tokeninfo_keeps [OF c1] assms(2,3) have e: "p15_dfs c1 = []" "p15_objs c1 = []" by simp_all
  ultimately have "c' = c1\<lparr>p15_dfs := [emulated_df SC_PKCS15_AODF, emulated_df SC_PKCS15_CDF, emulated_df SC_PKCS15_PRKDF],
      p15_objs := (take 2 starsign_objects @ map profile_cert [0, 1, 2, 3]) @ drop 6 starsign_objects\<rparr>"
    using assms(4) c1 pins_added [OF assms(1) e]
    by (simp add: sc_pkcs15emu_starsign_init_def sbind_def certs_added [OF assms(1)] keys_added [OF assms(1)])
  then show "p15_objs c' = starsign_objects" "all_enumerated c'"
    by (simp_all add: starsign_objects_def all_enumerated_def)
qed

text \<open>A search on such a card is a search in the list.\<close>

definition in_profile :: "u32 \<Rightarrow> search_key \<Rightarrow> nat option" where
  "in_profile ty sk = find (\<lambda>i. selected ty (compare_obj_key sk) (starsign_objects ! i)) [0, 1, 2, 3, 4, 5, 6, 7]"

lemma find_in_profile:
  assumes "p15_objs c = starsign_objects" and "all_enumerated c" and "valid_type ty"
  shows "find_by_key parse_df ty sk c =
    ((case in_profile ty sk of None \<Rightarrow> Inl SC_ERROR_OBJECT_NOT_FOUND | Some i \<Rightarrow> Inr i), c)"
proof -
  have "[0..<length starsign_objects] = [0, 1, 2, 3, 4, 5, 6, 7]" by (simp add: starsign_objects_def upt_rec)
  with find_by_key_result [OF assms(2,3), of parse_df sk] assms(1) show ?thesis by (simp only: in_profile_def)
qed

lemma profile_types:
  "valid_type SC_PKCS15_TYPE_PRKEY" "valid_type SC_PKCS15_TYPE_PUBKEY" "valid_type SC_PKCS15_TYPE_CERT"
  "valid_type SC_PKCS15_TYPE_AUTH" "valid_type SC_PKCS15_TYPE_AUTH_PIN"
  by code_simp+

lemma profile_searches:
  "in_profile SC_PKCS15_TYPE_PRKEY (empty_key\<lparr>sk_id := Some [1]\<rparr>) = Some 6"
  "in_profile SC_PKCS15_TYPE_PRKEY (empty_key\<lparr>sk_id := Some [2]\<rparr>) = Some 7"
  "in_profile SC_PKCS15_TYPE_CERT (empty_key\<lparr>sk_id := Some [1]\<rparr>) = Some 2"
  "in_profile SC_PKCS15_TYPE_CERT (empty_key\<lparr>sk_id := Some [2]\<rparr>) = None"
  "in_profile SC_PKCS15_TYPE_PUBKEY (empty_key\<lparr>sk_id := Some [1]\<rparr>) = None"
  "in_profile SC_PKCS15_TYPE_AUTH (empty_key\<lparr>sk_id := Some [2]\<rparr>) = Some 0"
  "in_profile SC_PKCS15_TYPE_AUTH (empty_key\<lparr>sk_id := Some [1]\<rparr>) = Some 1"
  "in_profile SC_PKCS15_TYPE_AUTH_PIN
     (empty_key\<lparr>sk_flags_mask := SC_PKCS15_PIN_FLAG_SO_PIN, sk_flags_value := SC_PKCS15_PIN_FLAG_SO_PIN\<rparr>) = Some 1"
  by code_simp+

lemma profile_labels:
  "map po_label starsign_objects =
    [''User Pin'', ''SO Pin'', ''Signature Certificate'', ''Intermediate CA Certificate 1'',
     ''Intermediate CA Certificate 2'', ''Root CA Certificate'', ''Signature Key'', ''Legacy Key'']"
  "map po_auth_id starsign_objects = [[1], [], [], [], [], [], [2], [2]]"
  by code_simp+

lemma profile_data:
  "\<exists>a. po_data (starsign_objects ! 0) = Auth_data a \<and> pa_reference (au_pin a) = 2"
  "\<exists>a. po_data (starsign_objects ! 1) = Auth_data a \<and> pa_reference (au_pin a) = 1"
  "\<exists>i. po_data (starsign_objects ! 2) = Cert_data i \<and> p_value (ce_path i) = [0x3F, 0x00, 0x43, 0x02, 0x01, 0x14]"
  "\<exists>k. po_data (starsign_objects ! 6) = Prkey_data k \<and> ke_reference k = 1"
  "\<exists>k. po_data (starsign_objects ! 7) = Prkey_data k \<and> ke_reference k = 0"
proof -
  have path: "p_value (sc_format_path ''3f0043020114'') = [0x3F, 0x00, 0x43, 0x02, 0x01, 0x14]" by code_simp
  show "\<exists>i. po_data (starsign_objects ! 2) = Cert_data i \<and> p_value (ce_path i) = [0x3F, 0x00, 0x43, 0x02, 0x01, 0x14]"
    by (simp add: starsign_objects_def profile_cert_def starsign_cert_def starsign_certs_def path)
qed (simp_all add: starsign_objects_def profile_pin_def profile_key_def starsign_pin_def starsign_prkey_def)

lemma init_objects:
  assumes "\<forall>s. alloc s" and "p15_dfs c = []" and "p15_objs c = []"
    and "sc_pkcs15emu_starsign_init_ex malloc alloc ops sel rd c = (Inr (), c')"
  shows "p15_objs c' = starsign_objects" "all_enumerated c'"
  using assms(4) profile_set_up [OF assms(1-3)]
  by (simp_all add: sc_pkcs15emu_starsign_init_ex_def split: if_splits)

lemma profile_found:
  assumes "\<forall>s. alloc s" and "p15_dfs c = []" and "p15_objs c = []"
    and "sc_pkcs15emu_starsign_init_ex malloc alloc ops sel rd c = (Inr (), c')"
  shows "map po_label (p15_objs c') =
      [''User Pin'', ''SO Pin'', ''Signature Certificate'', ''Intermediate CA Certificate 1'',
       ''Intermediate CA Certificate 2'', ''Root CA Certificate'', ''Signature Key'', ''Legacy Key'']"
    and "map po_auth_id (p15_objs c') = [[1], [], [], [], [], [], [2], [2]]"
    and "sc_pkcs15_find_cert_by_id parse_df [1] c' = (Inr 2, c')"
    and "\<exists>i. po_data (p15_objs c' ! 2) = Cert_data i \<and> p_value (ce_path i) = [0x3F, 0x00, 0x43, 0x02, 0x01, 0x14]"
    and "sc_pkcs15_find_prkey_by_id parse_df [1] c' = (Inr 6, c')"
    and "\<exists>k. po_data (p15_objs c' ! 6) = Prkey_data k \<and> ke_reference k = 1"
    and "sc_pkcs15_find_pubkey_by_id parse_df [1] c' = (Inl SC_ERROR_OBJECT_NOT_FOUND, c')"
    and "sc_pkcs15_find_prkey_by_id parse_df [2] c' = (Inr 7, c')"
    and "\<exists>k. po_data (p15_objs c' ! 7) = Prkey_data k \<and> ke_reference k = 0"
    and "sc_pkcs15_find_cert_by_id parse_df [2] c' = (Inl SC_ERROR_OBJECT_NOT_FOUND, c')"
    and "sc_pkcs15_find_pin_by_auth_id parse_df [2] c' = (Inr 0, c')"
    and "\<exists>a. po_data (p15_objs c' ! 0) = Auth_data a \<and> pa_reference (au_pin a) = 2"
    and "sc_pkcs15_find_pin_by_auth_id parse_df [1] c' = (Inr 1, c')"
    and "\<exists>a. po_data (p15_objs c' ! 1) = Auth_data a \<and> pa_reference (au_pin a) = 1"
    and "sc_pkcs15_find_so_pin parse_df c' = (Inr 1, c')"
proof -
  note objs = init_objects [OF assms]
  note searches = find_in_profile [OF objs] profile_types profile_searches sc_pkcs15_find_object_by_id_def
  show "sc_pkcs15_find_cert_by_id parse_df [1] c' = (Inr 2, c')"
    "sc_pkcs15_find_cert_by_id parse_df [2] c' = (Inl SC_ERROR_OBJECT_NOT_FOUND, c')"
    by (simp_all add: sc_pkcs15_find_cert_by_id_def searches)
  show "sc_pkcs15_find_prkey_by_id parse_df [1] c' = (Inr 6, c')" "sc_pkcs15_find_prkey_by_id parse_df [2] c' = (Inr 7, c')"
    by (simp_all add: sc_pkcs15_find_prkey_by_id_def searches)
  show "sc_pkcs15_find_pubkey_by_id parse_df [1] c' = (Inl SC_ERROR_OBJECT_NOT_FOUND, c')"
    by (simp add: sc_pkcs15_find_pubkey_by_id_def searches)
  show "sc_pkcs15_find_pin_by_auth_id parse_df [2] c' = (Inr 0, c')" "sc_pkcs15_find_pin_by_auth_id parse_df [1] c' = (Inr 1, c')"
    by (simp_all add: sc_pkcs15_find_pin_by_auth_id_def searches)
  show "sc_pkcs15_find_so_pin parse_df c' = (Inr 1, c')"
    by (simp add: sc_pkcs15_find_so_pin_def searches)
qed (simp_all only: init_objects(1) [OF assms] profile_labels profile_data)

text \<open>C30: when the profile of a StarSign token is set up on a card without objects, with memory, the card has its eight objects
  in a fixed order; the search by identifier 1 finds the signature certificate, its file, and the signature key with
  reference 1 and no public key; identifier 2 finds the legacy key, reference 0, and no certificate; the
  PIN that the keys name is the user PIN, reference 2, the one that it names in turn is the SO PIN, reference 1, which
  the search for an SO PIN finds too. No search touches the card.\<close>
theorem starsign_profile:
  assumes "\<forall>s. alloc s" and "p15_dfs c = []" and "p15_objs c = []"
    and "sc_pkcs15emu_starsign_init_ex malloc alloc ops sel rd c = (Inr (), c')"
  shows "map po_label (p15_objs c') =
      [''User Pin'', ''SO Pin'', ''Signature Certificate'', ''Intermediate CA Certificate 1'',
       ''Intermediate CA Certificate 2'', ''Root CA Certificate'', ''Signature Key'', ''Legacy Key''] \<and>
    map po_auth_id (p15_objs c') = [[1], [], [], [], [], [], [2], [2]] \<and>
    sc_pkcs15_find_cert_by_id parse_df [1] c' = (Inr 2, c') \<and>
    (\<exists>i. po_data (p15_objs c' ! 2) = Cert_data i \<and> p_value (ce_path i) = [0x3F, 0x00, 0x43, 0x02, 0x01, 0x14]) \<and>
    sc_pkcs15_find_prkey_by_id parse_df [1] c' = (Inr 6, c') \<and>
    (\<exists>k. po_data (p15_objs c' ! 6) = Prkey_data k \<and> ke_reference k = 1) \<and>
    sc_pkcs15_find_pubkey_by_id parse_df [1] c' = (Inl SC_ERROR_OBJECT_NOT_FOUND, c') \<and>
    sc_pkcs15_find_prkey_by_id parse_df [2] c' = (Inr 7, c') \<and>
    (\<exists>k. po_data (p15_objs c' ! 7) = Prkey_data k \<and> ke_reference k = 0) \<and>
    sc_pkcs15_find_cert_by_id parse_df [2] c' = (Inl SC_ERROR_OBJECT_NOT_FOUND, c') \<and>
    sc_pkcs15_find_pin_by_auth_id parse_df [2] c' = (Inr 0, c') \<and>
    (\<exists>a. po_data (p15_objs c' ! 0) = Auth_data a \<and> pa_reference (au_pin a) = 2) \<and>
    sc_pkcs15_find_pin_by_auth_id parse_df [1] c' = (Inr 1, c') \<and>
    (\<exists>a. po_data (p15_objs c' ! 1) = Auth_data a \<and> pa_reference (au_pin a) = 1) \<and>
    sc_pkcs15_find_so_pin parse_df c' = (Inr 1, c')"
  by (intro conjI profile_found [OF assms])

text \<open>A token whose file with the token information is read in one piece.\<close>

definition token_read :: "(bytes, unit) reader_op" where
  "token_read idx buf n c =
    (let F = c_env c; r = min n (length F - unat idx) in (Inr (r, take r (drop (unat idx) F) @ drop r buf), c))"

definition token_select :: "sc_path \<Rightarrow> bool \<Rightarrow> ((bytes, unit) sc_card, sc_file option) prog" where
  "token_select path want = sret None"

definition token :: "(bytes, unit) sc_card p15" where
  "token =
    \<lparr>p15_dfs = [], p15_objs = [], p15_unused = [], p15_unused_read = False, p15_app = None, p15_tokeninfo = zero_tokeninfo,
     p15_card = (plain_card [0x30, 0x0D, 2, 1, 0, 4, 1, 0x4A, 0x80, 1, 0x53, 3, 2, 4, 0xD0])\<lparr>c_type := SC_CARD_TYPE_STARSIGN\<rparr>\<rparr>"

abbreviation (input) token_file :: bytes where
  "token_file \<equiv> [0x30, 0x0D, 2, 1, 0, 4, 1, 0x4A, 0x80, 1, 0x53, 3, 2, 4, 0xD0]"

lemma token_parsed:
  "case sc_pkcs15_parse_tokeninfo zero_malloc token_file zero_tokeninfo of (r, t) \<Rightarrow> r = Inr () \<and> ti_label t = Some [0x53]"
  by code_simp

lemma token_chunks:
  assumes "c_env c = token_file"
  shows "\<exists>b. read_loop token_read 256 512 0 (replicate 512 0) 512 c = (Inr (15, b), c) \<and> take 15 b = token_file"
proof -
  let ?b = "token_file @ replicate 497 0"
  have one: "token_read 0 (drop (512 - 512) (replicate 512 0)) (min 512 256) c = (Inr (15, ?b), c)"
    using assms by (simp add: token_read_def Let_def)
  have two: "token_read 15 (drop (512 - 497) ?b) (min 497 256) c = (Inr (0, drop 15 ?b), c)"
    using assms by (simp add: token_read_def Let_def)
  have "read_loop token_read 256 512 0 (replicate 512 0) 512 c = (Inr (15, ?b), c)"
    using read_loop_Inr [where rd = token_read, OF _ one refl] read_loop_Inr [where rd = token_read, OF _ two refl] by simp
  then show ?thesis by auto
qed

lemma token_file_read:
  "\<exists>b c. sc_read_binary null_ops (Some token_read) 0 (Some (replicate 512 0)) 512 (p15_card token) = (Inr (15, b), c) \<and>
    take 15 b = token_file"
proof -
  define d where "d = (p15_card token)\<lparr>c_lock_count := Suc 0\<rparr>"
  have "c_env d = token_file" by (simp add: d_def token_def plain_card_def)
  from token_chunks [OF this] obtain b where
    b: "read_loop token_read 256 512 0 (replicate 512 0) 512 d = (Inr (15, b), d)" "take 15 b = token_file" by blast
  moreover have "sc_lock null_ops (p15_card token) = (Inr (), d)"
    by (simp add: null_lock d_def token_def plain_card_def)
  moreover have "sc_get_max_recv_size (p15_card token) = 256"
    by (simp add: sc_get_max_recv_size_def token_def plain_card_def)
  ultimately show ?thesis
    by (auto simp: sc_read_binary_def locked_def bracket_def split: prod.split)
qed

lemma token_ready:
  "\<exists>c. sc_pkcs15emu_starsign_init_ex zero_malloc (\<lambda>s. True) null_ops (Some token_select) (Some token_read) token = (Inr (), c)"
proof -
  obtain b k where b: "sc_read_binary null_ops (Some token_read) 0 (Some (replicate 512 0)) 512 (p15_card token) = (Inr (15, b), k)"
    "take 15 b = token_file" using token_file_read by blast
  obtain t where t: "sc_pkcs15_parse_tokeninfo zero_malloc token_file zero_tokeninfo = (Inr (), t)"
    using token_parsed by (auto split: prod.splits)
  have "length (p_value (sc_format_path ''3f005032'')) \<le> SC_MAX_PATH_SIZE" "path_sane (p_value (sc_format_path ''3f005032''))"
    by code_simp+
  then have sel: "sc_select_file (Some token_select) (sc_format_path ''3f005032'') False (p15_card token) = (Inr None, p15_card token)"
    by (simp add: sc_select_file_def token_select_def sret_def)
  have "p15_tokeninfo token = zero_tokeninfo" by (simp add: token_def)
  with sel b t have "starsign_read_tokeninfo zero_malloc null_ops (Some token_select) (Some token_read) token =
      (Inr (), token\<lparr>p15_card := k, p15_tokeninfo := t\<rparr>)"
    by (simp add: starsign_read_tokeninfo_def sbind_def on_card_def)
  moreover have "p15_dfs token = []" "p15_objs token = []" "c_type (p15_card token) = SC_CARD_TYPE_STARSIGN"
    by (simp_all add: token_def)
  ultimately show ?thesis
    by (simp add: sc_pkcs15emu_starsign_init_ex_def sc_pkcs15emu_starsign_init_def sbind_def pins_added certs_added keys_added)
qed

theorem starsign_profile_witness:
  "\<exists>c. sc_pkcs15emu_starsign_init_ex zero_malloc (\<lambda>s. True) null_ops (Some token_select) (Some token_read) token = (Inr (), c) \<and>
    sc_pkcs15_find_prkey_by_id (\<lambda>i. Pair (Inr ())) [1] c = (Inr 6, c)"
proof -
  obtain c where c: "sc_pkcs15emu_starsign_init_ex zero_malloc (\<lambda>s. True) null_ops (Some token_select) (Some token_read) token = (Inr (), c)"
    using token_ready by blast
  have "p15_dfs token = []" "p15_objs token = []" by (simp_all add: token_def)
  with starsign_profile [OF _ this c] c show ?thesis by blast
qed

theorem emulated_object_added_witness:
  "emulated token \<and> (\<exists>c. sc_pkcs15emu_object_add (\<lambda>s. True) SC_PKCS15_TYPE_CERT_X509 (fst (starsign_cert 0))
      (Cert_data (snd (starsign_cert 0))) token = (Inr (), c) \<and> emulated c \<and> length (p15_objs c) = 1)"
proof -
  have e: "emulated token" by (simp add: token_def emulated_def all_enumerated_def)
  have cls: "SC_PKCS15_TYPE_CERT_X509 AND SC_PKCS15_TYPE_CLASS_MASK = class_of_data (Cert_data (snd (starsign_cert 0)))"
    by (simp add: class_of_data_def)
  obtain r c where run: "sc_pkcs15emu_object_add (\<lambda>s. True) SC_PKCS15_TYPE_CERT_X509 (fst (starsign_cert 0))
      (Cert_data (snd (starsign_cert 0))) token = (r, c)" by (metis prod.exhaust)
  moreover have "r = Inr ()" using run by (simp add: sc_pkcs15emu_object_add_def df_and_data_def split: prod.splits)
  ultimately show ?thesis
    using emulated_object_added [OF e cls run] e by (auto simp: token_def)
qed

end
