(* ===== verification/Spec2Isabelle.thy ===== *)
theory Spec2Isabelle
  imports Sc_Pcsc Sc_File Sc_Asn1 Sc_Pin Sc_Pss Sc_Codec Sc_TableType Sc_TablePath Sc_TokenInfo Sc_P15 Sc_Emu
begin

text \<open>
  A verification development for the card library of this repository (\<open>src/OpenSC\<close>, OpenSC with
  the StarSign driver). Paths below are relative to \<open>src/OpenSC/src/libopensc\<close>.

  \<^bold>\<open>The program.\<close> An application (the PKCS#11 module, the tools) opens a card over a reader. The
  card driver (\<open>card-starsign.c\<close>, most of it inherited from \<open>iso7816.c\<close>) builds command APDUs;
  \<open>card.c\<close> guards a card by a lock and knows its limits; \<open>apdu.c\<close> checks and encodes an APDU, splits
  long data into a chain, asks for the rest of a long response and repeats a command with the
  length the card wants; the reader driver (\<open>reader-pcsc.c\<close>) hands the bytes to the PC/SC service,
  which is not part of the repository. What the card returns is read with \<open>asn1.c\<close> and the
  helpers of \<open>sc.c\<close>.

  \<^bold>\<open>The theories\<close>, each after the ones it uses:
    \<^item> \<open>Sc_Prelude\<close>: machine types, buffers, the error monad over a state.
    \<^item> \<open>Sc_Errors\<close> (\<open>errors.c\<close>): the codes and their texts; \<open>keeps\<close>, an invariant that an operation
      preserves on every path without running out of fuel.
    \<^item> \<open>Sc_Apdu\<close> (\<open>apdu.c\<close>, \<open>types.h\<close>): the APDU record, its checks, encoding and parsing.
    \<^item> \<open>Sc_Bytes\<close> (\<open>sc.c\<close>): hexadecimal text, numbers, compact TLV, object identifiers, paths.
    \<^item> \<open>Sc_File\<close> (\<open>sc.c\<close>): file objects and access control lists.
    \<^item> \<open>Sc_Atr\<close> (\<open>sc.c\<close>, \<open>card.c\<close>): parsing of the answer to reset, the table of known cards.
    \<^item> \<open>Sc_Card\<close> (\<open>card.c\<close>): the card's state, limits, algorithms, the lock that nests.
    \<^item> \<open>Sc_Transmit\<close> (\<open>apdu.c\<close>): transmission, chaining, GET RESPONSE, the retry.
    \<^item> \<open>Sc_Pcsc\<close> (\<open>reader-pcsc.c\<close>): the reader driver over the PC/SC service.
    \<^item> \<open>Sc_Tlv\<close>, \<open>Sc_Asn1\<close> (\<open>asn1.c\<close>): tags, and the primitive types.
    \<^item> \<open>Sc_Table\<close> (\<open>asn1.c\<close>, \<open>pkcs15-algo.c\<close>): the decoder over tables, with paths, security
      environments, PKCS#15 objects and algorithm identifiers; \<open>Sc_TableEnc\<close>: the encoder;
      \<open>Sc_TablePath\<close>: tables of elements with different tags, the round trip of paths;
      \<open>Sc_TableType\<close>: typing of tables and memory, and that the decoder is sound for it.
    \<^item> \<open>Sc_Iso7816\<close>, \<open>Sc_Fci\<close> (\<open>iso7816.c\<close>): the commands of the generic driver, status words, selection
      of files, file control information.
    \<^item> \<open>Sc_CardIO\<close> (\<open>card.c\<close>): what the upper layers call for binary files, records, challenges.
    \<^item> \<open>Sc_Frame\<close>: what a transfer leaves as it was; the frame of every ISO 7816 operation.
    \<^item> \<open>Sc_StarSign\<close> (\<open>card-starsign.c\<close>): the driver of the StarSign card.
    \<^item> \<open>Sc_Pin\<close> (\<open>sec.c\<close>, \<open>iso7816.c\<close>): PIN blocks, PIN commands and their verdict.
    \<^item> \<open>Sc_Padding\<close> (\<open>common/constant-time.h\<close>, \<open>padding.c\<close>): comparisons by masks, PKCS#1 padding of version 1.5.
    \<^item> \<open>Sc_Pss\<close> (\<open>padding.c\<close>): OAEP, PSS, the encoder of signatures, the choice of the padding.
    \<^item> \<open>Sc_Codec\<close> (\<open>base64.c\<close>, \<open>simpletlv.c\<close>): base 64 and the headers of simple TLV.
    \<^item> \<open>Sc_TokenInfo\<close> (\<open>pkcs15.c\<close>): the token information of PKCS#15, read and written over the tables.
    \<^item> \<open>Sc_P15\<close> (\<open>pkcs15.c\<close>): the objects of a PKCS#15 card, the search through them, absolute paths,
      the object directory file, unused space, reading and writing of directory files.
    \<^item> \<open>Sc_Emu\<close> (\<open>pkcs15-syn.c\<close>, \<open>pkcs15-starsign.c\<close>): objects that a driver adds itself; the profile
      of the StarSign token.

  \<^bold>\<open>State and code.\<close> A C struct is a record with the struct's fields (\<open>sc_card\<close>, \<open>sc_apdu\<close>, \<open>sc_file\<close>,
  \<open>sc_path\<close>), a function pointer table a record of functions (\<open>sc_ops\<close>, \<open>iso_ops\<close>), an operation a
  function of the source's name from a state to a result and a state. The lock's functions, the
  reader and the card are the environment \<open>c_env\<close> of a card; \<open>Sc_Pcsc\<close> gives them by the code of
  the PC/SC driver, with the service's own functions as the parameter \<open>pcsc_api\<close>. \<open>iso_table\<close> is the
  table \<open>apdu.c\<close> sees when the generic driver runs over a reader, \<open>pcsc_table\<close> over the PC/SC one.

  \<^bold>\<open>Interfaces.\<close> \<open>reentrant_lock\<close> is what an operation needs of the lock, \<open>reader\<close> what the transfer needs
  of a reader driver (interpreted by the PC/SC driver), \<open>transfer\<close> what it needs of the card
  driver (interpreted by the ISO 7816 one), \<open>codec\<close> what a primitive type promises (interpreted for
  three types), \<open>binary_driver\<close> what the loops of \<open>card.c\<close> need of a driver's binary commands.

  \<^bold>\<open>The lemmas.\<close> For each operation: the result on every branch; that it \<open>keeps\<close> the invariant of
  the stack below it, gives the lock back and never runs out of fuel. Across operations: what is
  written is read back (APDUs, tags, the primitive types, file control information, files, PIN
  blocks); the select operation of the StarSign driver follows the abstract relation \<open>navigates\<close>
  of a card with a current directory, and its cache of that directory is right (\<open>session\<close>). On a card whose directory files have been read, the PKCS#15 searches return the
  first object in order that fits, and so on a StarSign token they find the profile's objects.

  \<^bold>\<open>Fuel.\<close> Loops whose end is up to the card run on fuel; \<open>OUT_OF_FUEL\<close> is no code of the library.
  The GET RESPONSE loop gets one round per byte of the caller's buffer, the chaining loop one
  per byte of data, the loops of \<open>card.c\<close> one per byte asked for, and that they never use it up is
  part of what \<open>keeps\<close> states. Transmission in the PC/SC driver may call itself through a
  reconnection that asks for the UID; it does so only when escape commands are enabled, which
  this driver never does (\<open>no_escape\<close>), so one unit of fuel is enough.

  \<^bold>\<open>Not modelled.\<close> Logging and configuration files, secure messaging, PACE, the listing of readers and
  the wait for events, the other card drivers, PKCS#11, the tools. Of PKCS#15 the binding to a
  card, the reading of files with its cache, the codecs of the directories' entries, certificates and
  keys, and the operations with PINs and keys. A PIN pad is a parameter. Allocation failure is modelled where the code's branches matter; freeing is not.
\<close>

end
